(* ===== verification/Prelude.thy ===== *)
theory Prelude
  imports Main "HOL-Library.Word" "HOL-Library.AList" "HOL-Library.List_Lexorder"
begin

text \<open>
  Shared vocabulary of the development: byte strings, the exceptions the Python code raises,
  the result type that carries them, sequencing and loops over results, big-endian numbers,
  and the generic facts about these that the component theories use.

  A Python \<open>bytes\<close> value is a list of 8-bit words; \<open>List_Lexorder\<close> gives lists the
  lexicographic order, which is how Python compares \<open>bytes\<close>. Python integers are \<open>int\<close>.
  A \<open>dict\<close> whose iteration order matters is an association list updated with
  \<open>AList.update\<close> (which, like Python, keeps the position of a key that is already present
  and appends a new one) and \<open>AList.delete\<close>; a \<open>dict\<close> or \<open>immutables.Map\<close> that
  is only looked up and updated is a map.
\<close>

section \<open>Bytes, exceptions, results\<close>

type_synonym byte = "8 word"
type_synonym bytes = "8 word list"

named_theorems result_simps "rewriting of results, loops over results and guards"
named_theorems length_simps "lengths of encodings"
named_theorems wire_intros "suffix and well-formedness facts of parsers"

text \<open>
  One constructor for every exception class the modelled code raises itself or provokes in the
  Python runtime. The string is the message (or its fixed part). \<open>NonTermination\<close> is not a
  Python exception: it marks a loop that never returns.
\<close>

datatype exn =
    ValueError string
  | IndexError
  | KeyError
  | TypeError
  | AttributeError
  | ZeroDivisionError
  | OverflowError
  | OSError
  | AssertionError
  | StructError
  | RecursionError
  | NotImplementedError
  | MalformedPointError
  | BinasciiError
  | DeserializationError string
  | SerializationTruncationError
  | AddressParseError
  | ValidationError string
  | ValidateTransactionError string
  | ValidatePOWError string
  | ValidateBlockHeaderError string
  | ValidateBlockError string
  | PyException string
  | NonTermination

type_synonym 'a result = "exn + 'a"

text \<open>Sequencing: the second step runs only when the first one did not raise.\<close>

fun rbind :: "'a result \<Rightarrow> ('a \<Rightarrow> 'b result) \<Rightarrow> 'b result" where
  "rbind (Inl e) f = Inl e"
| "rbind (Inr x) f = f x"

text \<open>\<open>if cond: raise e\<close>\<close>

definition raise_if :: "bool \<Rightarrow> exn \<Rightarrow> unit result" where
  "raise_if c e = (if c then Inl e else Inr ())"

text \<open>Loops: over a state, element by element; and building a list.\<close>

fun rfold :: "('s \<Rightarrow> 'a \<Rightarrow> 's result) \<Rightarrow> 's \<Rightarrow> 'a list \<Rightarrow> 's result" where
  "rfold f s [] = Inr s"
| "rfold f s (x # xs) = rbind (f s x) (\<lambda>s'. rfold f s' xs)"

fun rmap :: "('a \<Rightarrow> 'b result) \<Rightarrow> 'a list \<Rightarrow> 'b list result" where
  "rmap f [] = Inr []"
| "rmap f (x # xs) = rbind (f x) (\<lambda>y. rbind (rmap f xs) (\<lambda>ys. Inr (y # ys)))"

fun rforeach :: "('a \<Rightarrow> unit result) \<Rightarrow> 'a list \<Rightarrow> unit result" where
  "rforeach f [] = Inr ()"
| "rforeach f (x # xs) = rbind (f x) (\<lambda>_. rforeach f xs)"

text \<open>Concatenation of pieces that are each written by a step that may raise.\<close>

fun rconcat :: "bytes result list \<Rightarrow> bytes result" where
  "rconcat [] = Inr []"
| "rconcat (m # ms) = rbind m (\<lambda>b. rbind (rconcat ms) (\<lambda>bs. Inr (b @ bs)))"

definition lookup_key :: "('k \<Rightarrow> 'v option) \<Rightarrow> 'k \<Rightarrow> 'v result" where
  "lookup_key m k = (case m k of None \<Rightarrow> Inl KeyError | Some v \<Rightarrow> Inr v)"

text \<open>\<open>xs[0]\<close>\<close>

definition first_elem :: "'a list \<Rightarrow> 'a result" where
  "first_elem xs = (case xs of [] \<Rightarrow> Inl IndexError | x # _ \<Rightarrow> Inr x)"

abbreviation returns :: "'a result \<Rightarrow> bool" where
  "returns m \<equiv> \<exists>x. m = Inr x"

subsection \<open>Rewriting results\<close>

lemma rbind_eq_Inr [result_simps]: "rbind m f = Inr y \<longleftrightarrow> (\<exists>x. m = Inr x \<and> f x = Inr y)"
  by (cases m) auto

lemma rbind_eq_Inl [result_simps]:
  "rbind m f = Inl e \<longleftrightarrow> m = Inl e \<or> (\<exists>x. m = Inr x \<and> f x = Inl e)"
  by (cases m) auto

lemma rbind_assoc: "rbind (rbind m f) g = rbind m (\<lambda>x. rbind (f x) g)"
  by (cases m) auto

lemma rbind_cong [fundef_cong]:
  "m = m' \<Longrightarrow> (\<And>x. m' = Inr x \<Longrightarrow> f x = f' x) \<Longrightarrow> rbind m f = rbind m' f'"
  by (cases m') auto

lemma raise_if_eq_Inr [result_simps]: "raise_if c e = Inr u \<longleftrightarrow> \<not> c"
  by (simp add: raise_if_def)

lemma raise_if_eq_Inl [result_simps]: "raise_if c e = Inl e' \<longleftrightarrow> c \<and> e' = e"
  by (auto simp: raise_if_def)

lemma raise_if_simps [simp]: "raise_if True e = Inl e" "raise_if False e = Inr ()"
  by (simp_all add: raise_if_def)

lemma lookup_key_eq_Inr [result_simps]: "lookup_key m k = Inr v \<longleftrightarrow> m k = Some v"
  by (simp add: lookup_key_def split: option.splits)

lemma lookup_key_Some: "m k = Some v \<Longrightarrow> lookup_key m k = Inr v"
  by (simp add: lookup_key_def)

lemma first_elem_eq_Inr [result_simps]: "first_elem xs = Inr x \<longleftrightarrow> (\<exists>ys. xs = x # ys)"
  by (auto simp: first_elem_def split: list.splits)

lemma rforeach_eq_Inr [result_simps]: "rforeach f xs = Inr u \<longleftrightarrow> (\<forall>x\<in>set xs. f x = Inr ())"
  by (induction xs) (auto simp: rbind_eq_Inr)

lemma rforeach_append: "rforeach f (xs @ ys) = rbind (rforeach f xs) (\<lambda>_. rforeach f ys)"
  by (induction xs) (simp_all add: rbind_assoc)

lemma rmap_eq_Inr: "rmap f xs = Inr ys \<longleftrightarrow> list_all2 (\<lambda>x y. f x = Inr y) xs ys"
  by (induction xs arbitrary: ys) (auto simp: rbind_eq_Inr list_all2_Cons1)

lemma rmap_Inr: "rmap (\<lambda>x. Inr (f x)) xs = Inr (map f xs)"
  by (induction xs) simp_all

lemma rmap_cong [fundef_cong]:
  "xs = ys \<Longrightarrow> (\<And>x. x \<in> set ys \<Longrightarrow> f x = g x) \<Longrightarrow> rmap f xs = rmap g ys"
  by (induction xs arbitrary: ys) auto

lemma rfold_append: "rfold f s (xs @ ys) = rbind (rfold f s xs) (\<lambda>s'. rfold f s' ys)"
  by (induction xs arbitrary: s) (simp_all add: rbind_assoc)

text \<open>A loop keeps whatever each of its steps keeps.\<close>

lemma rfold_invariant:
  assumes "rfold f s xs = Inr t" and "P s"
    and "\<And>s x s'. x \<in> set xs \<Longrightarrow> P s \<Longrightarrow> f s x = Inr s' \<Longrightarrow> P s'"
  shows "P t"
  using assms
proof (induction xs arbitrary: s)
  case Nil
  then show ?case by simp
next
  case (Cons x xs)
  from Cons.prems(1) obtain s' where s': "f s x = Inr s'" and r: "rfold f s' xs = Inr t"
    by (auto simp: rbind_eq_Inr)
  from Cons.prems(2,3) s' have "P s'" by (metis list.set_intros(1))
  with r show ?case
    by (rule Cons.IH) (use Cons.prems(3) in \<open>metis list.set_intros(2)\<close>)
qed

text \<open>A loop whose steps all return under an invariant they keep returns.\<close>

lemma rfold_returns:
  assumes "P s"
    and "\<And>s x. x \<in> set xs \<Longrightarrow> P s \<Longrightarrow> \<exists>s'. f s x = Inr s' \<and> P s'"
  shows "\<exists>t. rfold f s xs = Inr t \<and> P t"
  using assms
proof (induction xs arbitrary: s)
  case Nil
  then show ?case by simp
next
  case (Cons x xs)
  from Cons.prems obtain s' where "f s x = Inr s'" and "P s'"
    by (metis list.set_intros(1))
  with Cons.IH [of s'] Cons.prems(2) show ?case by auto
qed

lemma rconcat_append:
  "rconcat (xs @ ys) = rbind (rconcat xs) (\<lambda>a. rbind (rconcat ys) (\<lambda>b. Inr (a @ b)))"
proof (induction xs)
  case Nil
  then show ?case by (cases "rconcat ys") simp_all
next
  case (Cons m ms)
  then show ?case by (cases m; cases "rconcat ms"; cases "rconcat ys") simp_all
qed

lemma rconcat_eq_Inr_Cons [result_simps]:
  "rconcat (m # ms) = Inr bs \<longleftrightarrow> (\<exists>b cs. m = Inr b \<and> rconcat ms = Inr cs \<and> bs = b @ cs)"
  by (auto simp: rbind_eq_Inr)

lemma rconcat_eq_Inr_Nil [result_simps]: "rconcat [] = Inr bs \<longleftrightarrow> bs = []"
  by auto

subsection \<open>Arithmetic\<close>

lemma int_div_less: "0 < d \<Longrightarrow> x < n * d \<Longrightarrow> x div d < (n :: int)"
proof (rule ccontr)
  assume "0 < d" "x < n * d" "\<not> x div d < n"
  then have "n * d \<le> x div d * d" by (simp add: mult_right_mono)
  also have "\<dots> \<le> x" using \<open>0 < d\<close> by (simp add: minus_mod_eq_div_mult [symmetric])
  finally show False using \<open>x < n * d\<close> by simp
qed

section \<open>State machines\<close>

text \<open>
  The states a component can be in: those reached from its initial state by events that its
  environment allows (\<open>guard\<close>) and that do not raise.
\<close>

inductive reachable ::
  "('s \<Rightarrow> 'e \<Rightarrow> bool) \<Rightarrow> ('s \<Rightarrow> 'e \<Rightarrow> 's result) \<Rightarrow> 's \<Rightarrow> 's \<Rightarrow> bool"
  for guard step init
where
  init: "reachable guard step init init"
| step: "reachable guard step init s \<Longrightarrow> guard s e \<Longrightarrow> step s e = Inr s' \<Longrightarrow> reachable guard step init s'"

text \<open>The contract of an invariant, and what it gives.\<close>

locale invariant_of =
  fixes guard :: "'s \<Rightarrow> 'e \<Rightarrow> bool" and step :: "'s \<Rightarrow> 'e \<Rightarrow> 's result" and init :: "'s" and inv :: "'s \<Rightarrow> bool"
  assumes init_inv: "inv init"
    and step_inv: "inv s \<Longrightarrow> guard s e \<Longrightarrow> step s e = Inr s' \<Longrightarrow> inv s'"
begin

lemma reachable_inv: "reachable guard step init s \<Longrightarrow> inv s"
  by (induction rule: reachable.induct) (auto intro: init_inv step_inv)

lemma run_inv:
  "inv s \<Longrightarrow> rfold (\<lambda>s e. if guard s e then step s e else Inr s) s es = Inr s' \<Longrightarrow> inv s'"
  by (rule rfold_invariant [where P = inv]) (auto split: if_splits intro: step_inv)

end

end
