(* ===== verification/Serialization.thy ===== *)
theory Serialization
  imports Prelude
begin

text \<open>
  Model of \<open>skepticoin/serialization.py\<close> and of the parts of \<open>struct\<close> and
  \<open>int.to_bytes\<close>/\<open>int.from_bytes\<close> it and its callers use. Writing to a stream
  is returning the bytes written, or the exception; reading is a parser from the remaining
  bytes to a value and the bytes left. The locale \<open>wire_format\<close> is the contract of a
  \<open>Serializable\<close> class; the list combinators are proved against it once.
\<close>

section \<open>Parsers\<close>

type_synonym 'a parser = "bytes \<Rightarrow> ('a \<times> bytes) result"

definition preturn :: "'a \<Rightarrow> 'a parser" where
  "preturn x s = Inr (x, s)"

definition plift :: "'a result \<Rightarrow> 'a parser" where
  "plift m s = rbind m (\<lambda>x. Inr (x, s))"

definition pbind :: "'a parser \<Rightarrow> ('a \<Rightarrow> 'b parser) \<Rightarrow> 'b parser" where
  "pbind p f s = rbind (p s) (\<lambda>(x, s'). f x s')"

definition safe_read :: "nat \<Rightarrow> bytes parser" where
  "safe_read n s =
     (let r = take n s in
      if length r < n then Inl SerializationTruncationError else Inr (r, drop n s))"

fun prepeat :: "nat \<Rightarrow> 'a parser \<Rightarrow> 'a list parser" where
  "prepeat 0 p = preturn []"
| "prepeat (Suc n) p = pbind p (\<lambda>x. pbind (prepeat n p) (\<lambda>xs. preturn (x # xs)))"

lemma preturn_eq_Inr [result_simps]: "preturn x s = Inr (y, s') \<longleftrightarrow> y = x \<and> s' = s"
  by (auto simp: preturn_def)

lemma plift_eq_Inr [result_simps]: "plift m s = Inr (y, s') \<longleftrightarrow> m = Inr y \<and> s' = s"
  by (auto simp: plift_def rbind_eq_Inr)

lemma pbind_eq_Inr [result_simps]:
  "pbind p f s = Inr (y, s') \<longleftrightarrow> (\<exists>x t. p s = Inr (x, t) \<and> f x t = Inr (y, s'))"
  by (auto simp: pbind_def rbind_eq_Inr)

lemma safe_read_eq_Inr [result_simps]:
  "safe_read n s = Inr (r, s') \<longleftrightarrow> s = r @ s' \<and> length r = n"
  by (auto simp: safe_read_def Let_def)

lemma safe_read_append: "length r = n \<Longrightarrow> safe_read n (r @ s) = Inr (r, s)"
  by (simp add: safe_read_def Let_def)

lemma pbind_Inr: "p s = Inr (x, t) \<Longrightarrow> pbind p f s = f x t"
  by (simp add: pbind_def)

text \<open>
  A parser is \<^emph>\<open>local\<close> when its result depends only on the bytes it consumes, and
  \<^emph>\<open>productive\<close> when a successful run consumes at least one.
\<close>

definition local_parser :: "'a parser \<Rightarrow> bool" where
  "local_parser p \<longleftrightarrow>
     (\<forall>s x s'. p s = Inr (x, s') \<longrightarrow> (\<exists>u. s = u @ s' \<and> (\<forall>t. p (u @ t) = Inr (x, t))))"

definition productive :: "'a parser \<Rightarrow> bool" where
  "productive p \<longleftrightarrow> (\<forall>s x s'. p s = Inr (x, s') \<longrightarrow> length s' < length s)"

lemma local_parserE:
  assumes "local_parser p" and "p s = Inr (x, s')"
  obtains u where "s = u @ s'" and "\<And>t. p (u @ t) = Inr (x, t)"
  using assms unfolding local_parser_def by blast

lemma productiveD: "productive p \<Longrightarrow> p s = Inr (x, s') \<Longrightarrow> length s' < length s"
  by (auto simp: productive_def)

lemma local_preturn [wire_intros, intro]: "local_parser (preturn x)"
  by (auto simp: local_parser_def preturn_def)

lemma local_plift [wire_intros, intro]: "local_parser (plift m)"
  by (cases m) (auto simp: local_parser_def plift_def)

lemma local_safe_read [wire_intros, intro]: "local_parser (safe_read n)"
  unfolding local_parser_def by (auto simp: result_simps)

lemma local_pbind [wire_intros, intro]:
  assumes "local_parser p" and "\<And>x. local_parser (f x)"
  shows "local_parser (pbind p f)"
  unfolding local_parser_def
proof (intro allI impI)
  fix s y s' assume "pbind p f s = Inr (y, s')"
  then obtain x t where 1: "p s = Inr (x, t)" and 2: "f x t = Inr (y, s')"
    by (auto simp: pbind_eq_Inr)
  obtain u where u: "s = u @ t" "\<And>r. p (u @ r) = Inr (x, r)"
    by (rule local_parserE [OF assms(1) 1]) blast
  obtain v where v: "t = v @ s'" "\<And>r. f x (v @ r) = Inr (y, r)"
    by (rule local_parserE [OF assms(2) 2]) blast
  show "\<exists>u. s = u @ s' \<and> (\<forall>r. pbind p f (u @ r) = Inr (y, r))"
    by (rule exI [of _ "u @ v"]) (simp add: u v pbind_def)
qed

lemma local_prepeat [wire_intros, intro]: "local_parser p \<Longrightarrow> local_parser (prepeat n p)"
  by (induction n) auto

lemma local_if [wire_intros, intro]:
  "(c \<Longrightarrow> local_parser p) \<Longrightarrow> (\<not> c \<Longrightarrow> local_parser q) \<Longrightarrow> local_parser (if c then p else q)"
  by simp

lemma productive_safe_read [wire_intros, intro]: "0 < n \<Longrightarrow> productive (safe_read n)"
  by (auto simp: productive_def result_simps)

lemma productive_pbind [wire_intros, intro]:
  assumes "productive p" and "\<And>x. local_parser (f x)"
  shows "productive (pbind p f)"
  unfolding productive_def
proof (intro allI impI)
  fix s y s' assume "pbind p f s = Inr (y, s')"
  then obtain x t where 1: "p s = Inr (x, t)" and 2: "f x t = Inr (y, s')"
    by (auto simp: pbind_eq_Inr)
  obtain u where "t = u @ s'" by (rule local_parserE [OF assms(2) 2])
  with productiveD [OF assms(1) 1] show "length s' < length s" by simp
qed

section \<open>Fixed-width integers\<close>

fun be_bytes :: "nat \<Rightarrow> int \<Rightarrow> bytes" where
  "be_bytes 0 i = []"
| "be_bytes (Suc n) i = be_bytes n (i div 256) @ [word_of_int i]"

definition be_value :: "bytes \<Rightarrow> int" where
  "be_value bs = foldl (\<lambda>a b. a * 256 + uint b) 0 bs"

text \<open>\<open>struct.pack(">I", i)\<close> and its kin: \<open>n\<close> bytes, \<open>struct.error\<close> out of range.\<close>

definition pack_uint :: "nat \<Rightarrow> int \<Rightarrow> bytes result" where
  "pack_uint n i = (if 0 \<le> i \<and> i < 256 ^ n then Inr (be_bytes n i) else Inl StructError)"

text \<open>\<open>i.to_bytes(n, byteorder='big', signed=False)\<close>\<close>

definition to_bytes :: "nat \<Rightarrow> int \<Rightarrow> bytes result" where
  "to_bytes n i = (if 0 \<le> i \<and> i < 256 ^ n then Inr (be_bytes n i) else Inl OverflowError)"

definition unpack_uint :: "nat \<Rightarrow> int parser" where
  "unpack_uint n = pbind (safe_read n) (\<lambda>b. preturn (be_value b))"

lemma length_be_bytes [simp, length_simps]: "length (be_bytes n i) = n"
  by (induction n arbitrary: i) auto

lemma be_value_Nil [simp]: "be_value [] = 0"
  by (simp add: be_value_def)

lemma be_value_snoc [simp]: "be_value (bs @ [b]) = be_value bs * 256 + uint b"
  by (simp add: be_value_def)

lemma be_value_be_bytes: "0 \<le> i \<Longrightarrow> i < 256 ^ n \<Longrightarrow> be_value (be_bytes n i) = i"
proof (induction n arbitrary: i)
  case 0
  then show ?case by simp
next
  case (Suc n)
  have "i div 256 < 256 ^ n"
    using Suc.prems by (simp add: div_less_iff_less_mult mult.commute)
  with Suc have "be_value (be_bytes n (i div 256)) = i div 256"
    by (simp add: pos_imp_zdiv_nonneg_iff)
  then show ?case by (simp add: unsigned_of_int take_bit_eq_mod)
qed

lemma be_value_bounds: "0 \<le> be_value bs \<and> be_value bs < 256 ^ length bs"
proof (induction bs rule: rev_induct)
  case Nil
  then show ?case by simp
next
  case (snoc b bs)
  have "uint b < 256" using uint_bounded [of b] by simp
  moreover have "be_value bs + 1 \<le> 256 ^ length bs" using snoc by simp
  ultimately have "be_value bs * 256 + uint b < 256 ^ length bs * 256" by linarith
  with snoc show ?case by (simp add: mult.commute)
qed

lemma be_bytes_be_value: "be_bytes (length bs) (be_value bs) = bs"
proof (induction bs rule: rev_induct)
  case Nil
  then show ?case by simp
next
  case (snoc b bs)
  have b: "0 \<le> uint b" "uint b < 256" using uint_bounded [of b] by simp_all
  have "(be_value bs * 256 + uint b) div 256 = be_value bs" using b by simp
  moreover have "word_of_int (be_value bs * 256 + uint b) = b"
  proof -
    have "word_of_int (be_value bs * 256 + uint b) = (word_of_int (be_value bs) * 256 + b :: byte)"
      by simp
    also have "(256 :: byte) = 0" by simp
    finally show ?thesis by simp
  qed
  ultimately show ?case using snoc by simp
qed

lemma pack_uint_eq_Inr [result_simps]:
  "pack_uint n i = Inr bs \<longleftrightarrow> 0 \<le> i \<and> i < 256 ^ n \<and> bs = be_bytes n i"
  by (auto simp: pack_uint_def)

lemma to_bytes_eq_Inr [result_simps]:
  "to_bytes n i = Inr bs \<longleftrightarrow> 0 \<le> i \<and> i < 256 ^ n \<and> bs = be_bytes n i"
  by (auto simp: to_bytes_def)

lemma unpack_uint_eq_Inr [result_simps]:
  "unpack_uint n s = Inr (i, s') \<longleftrightarrow> s = be_bytes n i @ s' \<and> 0 \<le> i \<and> i < 256 ^ n"
proof
  assume "unpack_uint n s = Inr (i, s')"
  then obtain b where "s = b @ s'" "length b = n" "i = be_value b"
    by (auto simp: unpack_uint_def result_simps)
  then show "s = be_bytes n i @ s' \<and> 0 \<le> i \<and> i < 256 ^ n"
    using be_bytes_be_value [of b] be_value_bounds [of b] by auto
next
  assume "s = be_bytes n i @ s' \<and> 0 \<le> i \<and> i < 256 ^ n"
  then show "unpack_uint n s = Inr (i, s')"
    by (auto simp: unpack_uint_def pbind_def safe_read_append preturn_def be_value_be_bytes)
qed

lemma unpack_uint_append:
  "0 \<le> i \<Longrightarrow> i < 256 ^ n \<Longrightarrow> unpack_uint n (be_bytes n i @ s) = Inr (i, s)"
  by (simp add: unpack_uint_eq_Inr)

lemma local_unpack_uint [wire_intros, intro]: "local_parser (unpack_uint n)"
  unfolding unpack_uint_def by blast

lemma productive_unpack_uint [wire_intros, intro]: "0 < n \<Longrightarrow> productive (unpack_uint n)"
  unfolding unpack_uint_def by blast

lemma uint_byte_of_int: "0 \<le> i \<Longrightarrow> i < 256 \<Longrightarrow> uint (word_of_int i :: byte) = i"
  by (simp add: unsigned_of_int take_bit_eq_mod)

section \<open>Variable-length quantities\<close>

text \<open>\<open>int.bit_length\<close>\<close>

fun nat_bit_length :: "nat \<Rightarrow> nat" where
  "nat_bit_length n = (if n = 0 then 0 else Suc (nat_bit_length (n div 2)))"

declare nat_bit_length.simps [simp del]

definition bit_length :: "int \<Rightarrow> nat" where
  "bit_length i = nat_bit_length (nat \<bar>i\<bar>)"

text \<open>
  The loop \<open>for j in reversed(range(needed_bytes))\<close>, with the Python variable \<open>mod\<close> (0 before
  the first iteration) as an argument.
\<close>

fun vlq_loop :: "nat \<Rightarrow> int \<Rightarrow> int \<Rightarrow> bytes result" where
  "vlq_loop 0 m i = Inr []"
| "vlq_loop (Suc j) m i =
     (let d = 128 ^ j in
      rbind (pack_uint 1 ((if m \<noteq> 0 then i mod m else i) div d + (if j > 0 then 128 else 0)))
        (\<lambda>b. rbind (vlq_loop j d i) (\<lambda>bs. Inr (b @ bs))))"

definition stream_serialize_vlq :: "int \<Rightarrow> bytes result" where
  "stream_serialize_vlq i = (let needed_bytes = bit_length i div 7 + 1 in vlq_loop needed_bytes 0 i)"

text \<open>The loop \<open>while True\<close>: each round reads one byte.\<close>

fun vlq_read :: "int \<Rightarrow> int parser" where
  "vlq_read acc [] = Inl SerializationTruncationError"
| "vlq_read acc (b # s) =
     (let acc' = acc + uint b mod 128 in
      if uint b < 128 then Inr (acc', s) else vlq_read (acc' * 128) s)"

definition stream_deserialize_vlq :: "int parser" where
  "stream_deserialize_vlq = vlq_read 0"

lemma nat_bit_length_bound: "n < 2 ^ nat_bit_length n"
proof (induction n rule: nat_bit_length.induct)
  case (1 n)
  show ?case
  proof (cases "n = 0")
    case True
    then show ?thesis by (simp add: nat_bit_length.simps)
  next
    case False
    with 1 have "n div 2 < 2 ^ nat_bit_length (n div 2)" by simp
    then have "n < 2 * 2 ^ nat_bit_length (n div 2)" by linarith
    with False show ?thesis by (simp add: nat_bit_length.simps [of n])
  qed
qed

lemma needed_bytes_enough: "0 \<le> i \<Longrightarrow> i < 128 ^ (bit_length i div 7 + 1)"
proof -
  assume i: "0 \<le> i"
  let ?b = "bit_length i"
  have "nat i < 2 ^ ?b" using nat_bit_length_bound [of "nat i"] i by (simp add: bit_length_def)
  then have "i < 2 ^ ?b" using i by (metis nat_less_numeral_power_cancel_iff)
  also have "\<dots> \<le> 2 ^ (7 * (?b div 7 + 1))"
    by (rule power_increasing) (arith, simp)
  also have "\<dots> = (2 ^ 7) ^ (?b div 7 + 1)" by (simp only: power_mult)
  finally show ?thesis by simp
qed

lemma vlq_loop_read:
  assumes "x = (if m \<noteq> 0 then i mod m else i)" and "m = 0 \<or> m = 128 ^ n" and "0 \<le> x" and "x < 128 ^ n"
    and "0 < n"
  shows "\<exists>bs. vlq_loop n m i = Inr bs \<and> length bs = n \<and>
           (\<forall>acc s. vlq_read acc (bs @ s) = Inr (acc * 128 ^ (n - 1) + x, s))"
  using assms
proof (induction n arbitrary: m x)
  case 0
  then show ?case by simp
next
  case (Suc j)
  let ?d = "128 ^ j :: int"
  let ?h = "x div ?d" and ?x = "i mod ?d"
  have x': "?x = x mod ?d"
    using Suc.prems(1,2) by (auto simp: mod_mod_cancel)
  have h: "0 \<le> ?h" "?h < 128"
    using Suc.prems(3,4) by (auto intro: int_div_less simp: pos_imp_zdiv_nonneg_iff)
  have split: "x = ?h * ?d + ?x" unfolding x' by (rule div_mult_mod_eq [symmetric])
  show ?case
  proof (cases j)
    case 0
    have "uint (word_of_int x :: byte) = x"
      using h 0 by (simp add: unsigned_of_int take_bit_eq_mod)
    moreover have "vlq_loop (Suc j) m i = Inr [word_of_int x]"
      using Suc.prems(1) h 0 by (auto simp: pack_uint_def)
    ultimately show ?thesis using h 0 by auto
  next
    case (Suc k)
    obtain bs where bs: "vlq_loop j ?d i = Inr bs" "length bs = j"
      "\<And>acc s. vlq_read acc (bs @ s) = Inr (acc * 128 ^ (j - 1) + ?x, s)"
      using Suc.IH [of ?x ?d] Suc by auto
    define b :: byte where "b = word_of_int (?h + 128)"
    have ub: "uint b = ?h + 128"
      unfolding b_def using h by (intro uint_byte_of_int) simp_all
    have "vlq_loop (Suc j) m i =
        rbind (pack_uint 1 (?h + 128)) (\<lambda>c. rbind (vlq_loop j ?d i) (\<lambda>bs. Inr (c @ bs)))"
      using Suc.prems(1) Suc by (simp only: vlq_loop.simps Let_def) simp
    also have "pack_uint 1 (?h + 128) = Inr [b]"
      using h by (simp add: pack_uint_def b_def)
    finally have loop: "vlq_loop (Suc j) m i = Inr (b # bs)"
      using bs(1) by simp
    have "vlq_read acc ((b # bs) @ s) = Inr (acc * 128 ^ j + x, s)" for acc s
    proof -
      have "vlq_read acc ((b # bs) @ s) = Inr ((acc + ?h) * 128 * 128 ^ (j - 1) + ?x, s)"
        using h by (simp add: ub bs(3) Let_def)
      also have "(acc + ?h) * 128 * 128 ^ (j - 1) + ?x = acc * 128 ^ j + x"
        using Suc by (subst (2) split) (simp add: algebra_simps)
      finally show ?thesis .
    qed
    with loop bs(2) show ?thesis by auto
  qed
qed

lemma vlq_roundtrip_aux:
  assumes "0 \<le> i"
  shows "\<exists>bs. stream_serialize_vlq i = Inr bs \<and> bs \<noteq> [] \<and>
           (\<forall>s. stream_deserialize_vlq (bs @ s) = Inr (i, s))"
  using vlq_loop_read [of i 0 i "bit_length i div 7 + 1"] needed_bytes_enough [OF assms] assms
  by (auto simp: stream_serialize_vlq_def stream_deserialize_vlq_def Let_def)

lemma vlq_read_nonneg: "0 \<le> acc \<Longrightarrow> vlq_read acc s = Inr (i, s') \<Longrightarrow> 0 \<le> i"
  by (induction acc s rule: vlq_read.induct) (auto simp: Let_def split: if_splits)

lemma stream_deserialize_vlq_nonneg: "stream_deserialize_vlq s = Inr (i, s') \<Longrightarrow> 0 \<le> i"
  unfolding stream_deserialize_vlq_def by (rule vlq_read_nonneg [of 0]) simp_all

lemma vlq_read_local:
  "vlq_read acc s = Inr (i, s') \<Longrightarrow> \<exists>u. u \<noteq> [] \<and> s = u @ s' \<and> (\<forall>t. vlq_read acc (u @ t) = Inr (i, t))"
proof (induction acc s rule: vlq_read.induct)
  case (1 acc)
  then show ?case by simp
next
  case (2 acc b s)
  show ?case
  proof (cases "uint b < 128")
    case True
    with 2 have "b # s = [b] @ s' \<and> (\<forall>t. vlq_read acc ([b] @ t) = Inr (i, t))"
      by (simp add: Let_def)
    then show ?thesis by blast
  next
    case False
    with 2 obtain u where "s = u @ s'" "\<forall>t. vlq_read ((acc + uint b mod 128) * 128) (u @ t) = Inr (i, t)"
      by (auto simp: Let_def)
    with False have "b # s = (b # u) @ s' \<and> (\<forall>t. vlq_read acc ((b # u) @ t) = Inr (i, t))"
      by (simp add: Let_def)
    then show ?thesis by blast
  qed
qed

lemma local_stream_deserialize_vlq [wire_intros, intro]: "local_parser stream_deserialize_vlq"
  unfolding local_parser_def stream_deserialize_vlq_def using vlq_read_local by blast

lemma productive_stream_deserialize_vlq [wire_intros, intro]: "productive stream_deserialize_vlq"
  unfolding productive_def stream_deserialize_vlq_def
  by (metis vlq_read_local length_append length_greater_0_conv less_add_same_cancel2)

text \<open>A leading \<open>0x80\<close> byte does not change the number read: the encoding is not canonical.\<close>

lemma stream_deserialize_vlq_padding:
  "stream_deserialize_vlq (0x80 # s) = stream_deserialize_vlq s"
  by (cases s) (simp_all add: stream_deserialize_vlq_def)

section \<open>Lists\<close>

definition stream_serialize_list :: "('a \<Rightarrow> bytes result) \<Rightarrow> 'a list \<Rightarrow> bytes result" where
  "stream_serialize_list ser lst = rconcat (stream_serialize_vlq (int (length lst)) # map ser lst)"

definition stream_deserialize_list :: "'a parser \<Rightarrow> 'a list parser" where
  "stream_deserialize_list par =
     pbind stream_deserialize_vlq (\<lambda>length. prepeat (nat length) par)"

lemma local_stream_deserialize_list [wire_intros, intro]:
  "local_parser par \<Longrightarrow> local_parser (stream_deserialize_list par)"
  unfolding stream_deserialize_list_def by blast

lemma productive_stream_deserialize_list [wire_intros, intro]:
  "local_parser par \<Longrightarrow> productive (stream_deserialize_list par)"
  unfolding stream_deserialize_list_def by blast

lemma prepeat_length: "prepeat n par s = Inr (xs, s') \<Longrightarrow> length xs = n"
  by (induction n arbitrary: s xs s') (auto simp: result_simps)

lemma prepeat_Ball:
  assumes "\<And>s x s'. par s = Inr (x, s') \<Longrightarrow> P x"
  shows "prepeat n par s = Inr (xs, s') \<Longrightarrow> \<forall>x\<in>set xs. P x"
  using assms by (induction n arbitrary: s xs s') (fastforce simp: result_simps)+

lemma prepeat_consumes:
  assumes "productive par"
  shows "prepeat n par s = Inr (xs, s') \<Longrightarrow> length s' + n \<le> length s"
  using assms
  by (induction n arbitrary: s xs s')
    (fastforce simp: result_simps dest!: productiveD [OF assms])+

text \<open>
  \<open>f.tell()\<close>, read, \<open>f.tell()\<close>, \<open>f.seek\<close> back and read again: the bytes the parser consumed.
\<close>

definition pconsumed :: "'a parser \<Rightarrow> ('a \<times> bytes) parser" where
  "pconsumed p s = rbind (p s) (\<lambda>(x, s'). Inr ((x, take (length s - length s') s), s'))"

lemma pconsumed_append: "p (u @ s) = Inr (x, s) \<Longrightarrow> pconsumed p (u @ s) = Inr ((x, u), s)"
  by (simp add: pconsumed_def)

lemma pconsumed_eq_Inr [result_simps]:
  "pconsumed p s = Inr ((x, c), s') \<longleftrightarrow> p s = Inr (x, s') \<and> c = take (length s - length s') s"
  by (auto simp: pconsumed_def rbind_eq_Inr)

lemma local_pconsumed [wire_intros, intro]:
  assumes "local_parser p"
  shows "local_parser (pconsumed p)"
  unfolding local_parser_def
proof (intro allI impI)
  fix s y s' assume "pconsumed p s = Inr (y, s')"
  then obtain x where x: "p s = Inr (x, s')" and y: "y = (x, take (length s - length s') s)"
    by (cases y) (auto simp: pconsumed_eq_Inr)
  obtain u where u: "s = u @ s'" "\<And>t. p (u @ t) = Inr (x, t)"
    by (rule local_parserE [OF assms x]) blast
  show "\<exists>u. s = u @ s' \<and> (\<forall>t. pconsumed p (u @ t) = Inr (y, t))"
    by (rule exI [of _ u]) (simp add: u y pconsumed_append)
qed

lemma productive_pconsumed [wire_intros, intro]: "productive p \<Longrightarrow> productive (pconsumed p)"
  by (auto simp: productive_def pconsumed_eq_Inr)

text \<open>Reading back a field that was just written: the steps of a round-trip proof.\<close>

lemma pbind_safe_read: "length r = n \<Longrightarrow> pbind (safe_read n) f (r @ s) = f r s"
  by (simp add: pbind_def safe_read_append)

lemma pbind_unpack_uint:
  "0 \<le> i \<Longrightarrow> i < 256 ^ n \<Longrightarrow> pbind (unpack_uint n) f (be_bytes n i @ s) = f i s"
  by (simp add: pbind_def unpack_uint_append)

lemma pbind_plift: "pbind (plift (Inr x)) f s = f x s"
  by (simp add: pbind_def plift_def)

lemmas wire_steps = pbind_safe_read pbind_unpack_uint pbind_plift preturn_def plift_def

section \<open>The contract of a serializable class\<close>

text \<open>
  What a class promises for the composite classes that contain it: the serializer returns on
  well-formed values; reading back what was written gives the value again, up to \<open>canon\<close>
  (which fills caches), whatever follows in the stream; the reader depends only on the bytes
  it consumes, and consumes at least one; and it only builds well-formed values.
\<close>

locale wire_format =
  fixes ser :: "'a \<Rightarrow> bytes result" and par :: "'a parser"
    and wf :: "'a \<Rightarrow> bool" and canon :: "'a \<Rightarrow> 'a"
  assumes ser_returns: "wf x \<Longrightarrow> \<exists>bs. ser x = Inr bs"
    and par_ser: "wf x \<Longrightarrow> ser x = Inr bs \<Longrightarrow> par (bs @ rest) = Inr (canon x, rest)"
    and par_local: "local_parser par"
    and par_productive: "productive par"
    and par_wf: "par s = Inr (x, s') \<Longrightarrow> wf x"
begin

lemma par_whole: "wf x \<Longrightarrow> ser x = Inr bs \<Longrightarrow> par bs = Inr (canon x, [])"
  using par_ser [of x bs "[]"] by simp

lemma ser_nonempty: "wf x \<Longrightarrow> ser x = Inr bs \<Longrightarrow> bs \<noteq> []"
  using par_whole productiveD [OF par_productive] by fastforce

text \<open>Encodings are prefix-free: no proper prefix of an encoding is read successfully.\<close>

lemma prefix_free:
  assumes "wf x" and "ser x = Inr (p @ q)" and "q \<noteq> []"
  shows "\<nexists>y s'. par p = Inr (y, s')"
proof
  assume "\<exists>y s'. par p = Inr (y, s')"
  then obtain y s' where y: "par p = Inr (y, s')" by blast
  obtain u where u: "p = u @ s'" "\<And>t. par (u @ t) = Inr (y, t)"
    by (rule local_parserE [OF par_local y]) blast
  have "par (p @ q) = Inr (y, s' @ q)" using u by simp
  moreover have "par (p @ q) = Inr (canon x, [])" using assms by (rule_tac par_whole)
  ultimately show False using assms(3) by simp
qed

text \<open>Two well-formed values with the same encoding are equal up to \<open>canon\<close>.\<close>

lemma ser_injective: "wf x \<Longrightarrow> wf y \<Longrightarrow> ser x = Inr bs \<Longrightarrow> ser y = Inr bs \<Longrightarrow> canon x = canon y"
  using par_whole [of x bs] par_whole [of y bs] by simp

lemma prepeat_par:
  assumes "\<forall>x\<in>set xs. wf x" and "rconcat (map ser xs) = Inr bs"
  shows "prepeat (length xs) par (bs @ rest) = Inr (map canon xs, rest)"
  using assms
proof (induction xs arbitrary: bs)
  case Nil
  then show ?case by (simp add: preturn_def)
next
  case (Cons x xs)
  then obtain b cs where b: "ser x = Inr b" and cs: "rconcat (map ser xs) = Inr cs" "bs = b @ cs"
    by (auto simp: result_simps)
  have "par (b @ cs @ rest) = Inr (canon x, cs @ rest)"
    using Cons.prems(1) b by (intro par_ser) simp_all
  with Cons cs show ?case by (simp add: pbind_def preturn_def)
qed

lemma rconcat_returns: "\<forall>x\<in>set xs. wf x \<Longrightarrow> \<exists>bs. rconcat (map ser xs) = Inr bs"
proof (induction xs)
  case (Cons x xs)
  with ser_returns [of x] show ?case by (auto simp: result_simps)
qed simp

lemma list_ser_returns: "\<forall>x\<in>set xs. wf x \<Longrightarrow> \<exists>bs. stream_serialize_list ser xs = Inr bs"
  using rconcat_returns [of xs] vlq_roundtrip_aux [of "int (length xs)"]
  by (auto simp: stream_serialize_list_def)

lemma list_par_ser:
  assumes "\<forall>x\<in>set xs. wf x" and "stream_serialize_list ser xs = Inr bs"
  shows "stream_deserialize_list par (bs @ rest) = Inr (map canon xs, rest)"
proof -
  obtain n where n: "stream_serialize_vlq (int (length xs)) = Inr n"
    "\<And>s. stream_deserialize_vlq (n @ s) = Inr (int (length xs), s)"
    using vlq_roundtrip_aux [of "int (length xs)"] by auto
  with assms(2) obtain cs where cs: "rconcat (map ser xs) = Inr cs" "bs = n @ cs"
    unfolding stream_serialize_list_def rconcat_eq_Inr_Cons by auto
  with prepeat_par [OF assms(1) cs(1), of rest] n show ?thesis
    by (simp add: stream_deserialize_list_def pbind_def)
qed

text \<open>One step of a round trip: a field of this class, or a list of such, is read back.\<close>

lemma pbind_par: "wf x \<Longrightarrow> ser x = Inr bs \<Longrightarrow> pbind par f (bs @ rest) = f (canon x) rest"
  by (simp add: pbind_def par_ser)

lemma pbind_list_par:
  "\<forall>x\<in>set xs. wf x \<Longrightarrow> stream_serialize_list ser xs = Inr bs \<Longrightarrow>
     pbind (stream_deserialize_list par) f (bs @ rest) = f (map canon xs) rest"
  by (simp add: pbind_def list_par_ser)

lemma list_par_wf:
  assumes "stream_deserialize_list par s = Inr (xs, s')"
  shows "\<forall>x\<in>set xs. wf x"
proof -
  obtain n t where "prepeat n par t = Inr (xs, s')"
    using assms by (auto simp: stream_deserialize_list_def result_simps)
  then show ?thesis by (rule prepeat_Ball [rotated]) (rule par_wf)
qed

text \<open>A list read from \<open>n\<close> bytes has fewer than \<open>n\<close> elements, whatever length it claims.\<close>

lemma list_length_bound:
  assumes "stream_deserialize_list par s = Inr (xs, s')"
  shows "length xs + length s' < length s"
proof -
  obtain n t where n: "stream_deserialize_vlq s = Inr (n, t)" and r: "prepeat (nat n) par t = Inr (xs, s')"
    using assms by (auto simp: stream_deserialize_list_def result_simps)
  have "length xs + length s' \<le> length t"
    using prepeat_consumes [OF par_productive r] prepeat_length [OF r] by simp
  also have "\<dots> < length s"
    by (rule productiveD [OF productive_stream_deserialize_vlq n])
  finally show ?thesis .
qed

end

text \<open>
  Classes without a variable-length quantity inside have one encoding per value: what was read
  is what would be written.
\<close>

locale exact_format = wire_format +
  assumes canon_id: "canon x = x"
    and ser_par: "par s = Inr (x, s') \<Longrightarrow> \<exists>u. ser x = Inr u \<and> s = u @ s'"
begin

lemma decode_unique:
  assumes "par s = Inr (x, [])" and "par s' = Inr (x, [])"
  shows "s = s'"
  using ser_par [OF assms(1)] ser_par [OF assms(2)] by simp

lemma ser_canonical: "par s = Inr (x, []) \<Longrightarrow> ser x = Inr s"
  using ser_par [of s x "[]"] by auto

text \<open>Reading is then described completely by writing.\<close>

lemma par_iff: "par s = Inr (x, s') \<longleftrightarrow> wf x \<and> (\<exists>u. ser x = Inr u \<and> s = u @ s')"
  using par_wf ser_par par_ser canon_id by metis

end

text \<open>Locality and productivity need not be shown separately for such a class.\<close>

lemma exact_formatI:
  fixes ser :: "'a \<Rightarrow> bytes result" and par :: "'a parser"
    and wf :: "'a \<Rightarrow> bool"
  assumes ret: "\<And>x. wf x \<Longrightarrow> \<exists>bs. ser x = Inr bs" and ne: "\<And>x. wf x \<Longrightarrow> ser x \<noteq> Inr []"
    and rt: "\<And>x bs rest. wf x \<Longrightarrow> ser x = Inr bs \<Longrightarrow> par (bs @ rest) = Inr (x, rest)"
    and ex: "\<And>s x s'. par s = Inr (x, s') \<Longrightarrow> wf x \<and> (\<exists>u. ser x = Inr u \<and> s = u @ s')"
  shows "exact_format ser par wf (\<lambda>x. x)"
proof unfold_locales
  show "local_parser par" unfolding local_parser_def using rt ex by metis
  show "productive par" unfolding productive_def
    using ex ne by (metis length_append length_greater_0_conv less_add_same_cancel2)
qed (use ret rt ex in auto)

end
