(* ===== verification/Hashing.thy ===== *)
theory Hashing
  imports Serialization
begin

text \<open>
  Model of \<open>skepticoin/hash.py\<close>. The primitives themselves (SHA-256, scrypt and BLAKE2b from
  \<open>hashlib\<close> and the \<open>scrypt\<close> package, ECDSA from the \<open>ecdsa\<close> package) are not part of the
  repository: they are the fields of a \<open>crypto\<close> record that every definition using them takes as
  its first argument. What is assumed about them is stated where it is needed; here it is only that
  the three digests are 32 bytes long, as documented (\<open>buflen=32\<close>, \<open>digest_size=32\<close>).
\<close>

section \<open>The primitives\<close>

record crypto =
  sha256_digest :: "bytes \<Rightarrow> bytes"
  scrypt_hash :: "bytes \<Rightarrow> bytes \<Rightarrow> bytes"
  blake2b_digest :: "bytes \<Rightarrow> bytes"
  \<comment> \<open>does \<open>VerifyingKey.from_string\<close> accept these 64 bytes as a point of the curve\<close>
  ecdsa_point_ok :: "bytes \<Rightarrow> bool"
  \<comment> \<open>public key, signature, message; \<open>False\<close> is \<open>BadSignatureError\<close>\<close>
  ecdsa_verify :: "bytes \<Rightarrow> bytes \<Rightarrow> bytes \<Rightarrow> bool"

definition digests_ok :: "crypto \<Rightarrow> bool" where
  "digests_ok cr \<longleftrightarrow>
     (\<forall>b. length (sha256_digest cr b) = 32) \<and>
     (\<forall>p s. length (scrypt_hash cr p s) = 32) \<and>
     (\<forall>b. length (blake2b_digest cr b) = 32)"

section \<open>The functions of hash.py\<close>

definition sha256d :: "crypto \<Rightarrow> bytes \<Rightarrow> bytes" where
  "sha256d cr b = sha256_digest cr (sha256_digest cr b)"

definition scrypt :: "crypto \<Rightarrow> bytes \<Rightarrow> bytes \<Rightarrow> bytes" where
  "scrypt cr password salt = scrypt_hash cr password salt"

definition blake2 :: "crypto \<Rightarrow> bytes \<Rightarrow> bytes" where
  "blake2 cr b = blake2b_digest cr b"

lemma length_digests:
  assumes "digests_ok cr"
  shows "length (sha256d cr b) = 32" "length (scrypt cr p s) = 32" "length (blake2 cr b) = 32"
  using assms by (simp_all add: digests_ok_def sha256d_def scrypt_def blake2_def)

section \<open>A concrete instance\<close>

text \<open>
  For closed examples: a "digest" that keeps the last 32 bytes of its input (padded in front).
  It has the documented output length and is cheap to evaluate.
\<close>

definition toy_digest :: "bytes \<Rightarrow> bytes" where
  "toy_digest b = drop (length b) (replicate 32 0 @ b)"

definition toy_crypto :: crypto where
  "toy_crypto = \<lparr>
     sha256_digest = toy_digest,
     scrypt_hash = (\<lambda>p s. toy_digest s),
     blake2b_digest = toy_digest,
     ecdsa_point_ok = (\<lambda>k. True),
     ecdsa_verify = (\<lambda>k s m. take 1 k = take 1 s)\<rparr>"

lemma toy_crypto_simps [simp]:
  "sha256_digest toy_crypto = toy_digest" "scrypt_hash toy_crypto p s = toy_digest s"
  "blake2b_digest toy_crypto = toy_digest" "ecdsa_point_ok toy_crypto k = True"
  "ecdsa_verify toy_crypto k s m = (take 1 k = take 1 s)"
  by (simp_all add: toy_crypto_def)

lemma length_toy_digest [simp]: "length (toy_digest b) = 32"
  by (simp add: toy_digest_def)

lemma toy_digest_fixed: "length b = 32 \<Longrightarrow> toy_digest b = b"
  by (simp add: toy_digest_def)

lemma sha256d_toy [simp]: "sha256d toy_crypto b = toy_digest b"
  by (simp add: sha256d_def toy_digest_fixed)

lemma toy_digests_ok: "digests_ok toy_crypto"
  by (simp add: digests_ok_def)

end
