(* ===== verification/Humans.thy ===== *)
theory Humans
  imports Serialization
begin

text \<open>
  Model of \<open>skepticoin/humans.py\<close>: \<open>human\<close> and \<open>computer\<close>, i.e. \<open>binascii.hexlify\<close> and
  \<open>binascii.unhexlify\<close>. A Python \<open>str\<close> is a list of characters; text outside ASCII is rejected by
  \<open>unhexlify\<close> like any other non-digit.
\<close>

section \<open>Hexadecimal digits\<close>

definition hex_digit :: "nat \<Rightarrow> char" where
  "hex_digit n = ''0123456789abcdef'' ! n"

definition hex_value :: "char \<Rightarrow> nat option" where
  "hex_value c =
     (let n = of_char c :: nat in
      if 48 \<le> n \<and> n \<le> 57 then Some (n - 48)
      else if 97 \<le> n \<and> n \<le> 102 then Some (n - 87)
      else if 65 \<le> n \<and> n \<le> 70 then Some (n - 55)
      else None)"

lemma hex_value_digits: "map hex_value ''0123456789abcdef'' = map Some [0..<16]"
  by (simp add: hex_value_def upt_conv_Cons)

lemma hex_value_digit: "n < 16 \<Longrightarrow> hex_value (hex_digit n) = Some n"
proof -
  assume n: "n < 16"
  then have "hex_value (hex_digit n) = map hex_value ''0123456789abcdef'' ! n"
    unfolding hex_digit_def by (subst nth_map) simp_all
  also have "\<dots> = Some n"
    unfolding hex_value_digits using n by simp
  finally show ?thesis .
qed

lemma hex_value_bound: "hex_value c = Some n \<Longrightarrow> n < 16"
  by (auto simp: hex_value_def Let_def split: if_splits)

section \<open>human and computer\<close>

definition human :: "bytes \<Rightarrow> string" where
  "human b = concat (map (\<lambda>x. [hex_digit (unat x div 16), hex_digit (unat x mod 16)]) b)"

fun computer :: "string \<Rightarrow> bytes result" where
  "computer [] = Inr []"
| "computer [c] = Inl BinasciiError"
| "computer (c # d # s) =
     (case (hex_value c, hex_value d) of
        (Some h, Some l) \<Rightarrow> rbind (computer s) (\<lambda>bs. Inr (word_of_nat (16 * h + l) # bs))
      | _ \<Rightarrow> Inl BinasciiError)"

lemma human_Nil [simp]: "human [] = []"
  by (simp add: human_def)

lemma human_Cons:
  "human (x # b) = hex_digit (unat x div 16) # hex_digit (unat x mod 16) # human b"
  by (simp add: human_def)

lemma length_human [simp, length_simps]: "length (human b) = 2 * length b"
  by (induction b) (simp_all add: human_Cons)

lemma unat_byte_bound: "unat (x :: byte) < 256"
proof -
  have "unat x < 2 ^ LENGTH(8)" by (rule unsigned_less)
  then show ?thesis by simp
qed

lemma unat_byte_of_nat: "n < 256 \<Longrightarrow> unat (word_of_nat n :: byte) = n"
  by (simp add: unsigned_of_nat take_bit_eq_mod)

lemma computer_human [simp]: "computer (human b) = Inr b"
proof (induction b)
  case Nil
  then show ?case by simp
next
  case (Cons x b)
  have "unat x div 16 < 16" using unat_byte_bound [of x] by simp
  then show ?case
    by (simp add: human_Cons Cons.IH hex_value_digit)
qed

lemma human_digits: "set (human b) \<subseteq> set ''0123456789abcdef''"
proof (induction b)
  case (Cons x b)
  have "hex_digit n \<in> set ''0123456789abcdef''" if "n < 16" for n
    unfolding hex_digit_def by (rule nth_mem) (use that in simp)
  moreover have "unat x div 16 < 16" using unat_byte_bound [of x] by simp
  moreover have "unat x mod 16 < 16" by simp
  ultimately show ?case using Cons unfolding human_Cons set_simps insert_subset by blast
qed simp

lemma length_computer: "computer s = Inr b \<Longrightarrow> length s = 2 * length b"
  by (induction s arbitrary: b rule: computer.induct)
    (auto simp: rbind_eq_Inr split: option.splits)

text \<open>
  On lower-case input \<open>computer\<close> is injective, \<open>human\<close> being its inverse; upper-case digits are
  accepted too, so \<open>computer\<close> alone is not.
\<close>

lemma hex_digit_value: "hex_value c = Some n \<Longrightarrow> c \<in> set ''0123456789abcdef'' \<Longrightarrow> hex_digit n = c"
  by (auto simp: hex_value_def hex_digit_def)

lemma human_computer:
  "computer s = Inr b \<Longrightarrow> set s \<subseteq> set ''0123456789abcdef'' \<Longrightarrow> human b = s"
proof (induction s arbitrary: b rule: computer.induct)
  case (3 c d s)
  then obtain h l b' where h: "hex_value c = Some h" and l: "hex_value d = Some l"
    and b': "computer s = Inr b'" "b = word_of_nat (16 * h + l) # b'"
    by (auto simp: rbind_eq_Inr split: option.splits)
  have hl: "h < 16" "l < 16" using h l hex_value_bound by blast+
  then have "unat (word_of_nat (16 * h + l) :: byte) = 16 * h + l"
    by (intro unat_byte_of_nat) simp
  moreover have "hex_digit h = c" "hex_digit l = d"
    using 3 h l hex_digit_value by auto
  moreover have "human b' = s"
    using 3 h l b' by simp
  ultimately show ?case using hl b' by (simp add: human_Cons)
qed simp_all

end
