(* ===== verification/Signing.thy ===== *)
theory Signing
  imports Hashing Humans
begin

text \<open>
  Model of \<open>skepticoin/signing.py\<close>: public keys and signatures as tagged unions (one constructor
  per Python class), their constructors' checks, their wire formats and signature validation. Both
  are interpretations of \<open>exact_format\<close>.
\<close>

section \<open>Classes\<close>

datatype public_key = SECP256k1PublicKey (pk_bytes: bytes)

datatype signature =
    SignableEquivalent
  | CoinbaseData int bytes
  | SECP256k1Signature bytes

definition TYPE_SIGNABLE_EQUIVALENT :: bytes where
  "TYPE_SIGNABLE_EQUIVALENT = [0]"

definition TYPE_COINBASE_DATA :: bytes where
  "TYPE_COINBASE_DATA = [1]"

definition TYPE_SECP256k1 :: bytes where
  "TYPE_SECP256k1 = [2]"

lemmas type_bytes = TYPE_SIGNABLE_EQUIVALENT_def TYPE_COINBASE_DATA_def TYPE_SECP256k1_def

section \<open>Constructors\<close>

definition mk_public_key :: "bytes \<Rightarrow> public_key result" where
  "mk_public_key public_key =
     rbind (raise_if (length public_key \<noteq> 64) (ValueError ''SECP256k1 public key must be 64 bytes.''))
       (\<lambda>_. Inr (SECP256k1PublicKey public_key))"

definition mk_coinbase_data :: "int \<Rightarrow> bytes \<Rightarrow> signature result" where
  "mk_coinbase_data height sig =
     rbind (raise_if (\<not> (0 \<le> height \<and> height \<le> 0xFFFFFFFF)) (ValueError ''CoinbaseData height is out of range.''))
       (\<lambda>_. rbind (raise_if (256 < length sig) (ValueError ''Unserializable CoinbaseData''))
       (\<lambda>_. Inr (CoinbaseData height sig)))"

definition mk_secp256k1_signature :: "bytes \<Rightarrow> signature result" where
  "mk_secp256k1_signature sig =
     rbind (raise_if (length sig \<noteq> 64) (ValueError ''SECP256k1 signature must be 64 bytes.''))
       (\<lambda>_. Inr (SECP256k1Signature sig))"

section \<open>Equality and kind\<close>

text \<open>\<open>__eq__\<close>; the one of \<open>CoinbaseData\<close> does not look at the height.\<close>

fun signature_eq :: "signature \<Rightarrow> signature \<Rightarrow> bool" where
  "signature_eq SignableEquivalent SignableEquivalent = True"
| "signature_eq (CoinbaseData h s) (CoinbaseData h' s') = (s = s')"
| "signature_eq (SECP256k1Signature s) (SECP256k1Signature s') = (s = s')"
| "signature_eq _ _ = False"

fun is_not_signature :: "signature \<Rightarrow> bool" where
  "is_not_signature (SECP256k1Signature s) = False"
| "is_not_signature _ = True"

section \<open>Wire formats\<close>

fun stream_serialize_public_key :: "public_key \<Rightarrow> bytes result" where
  "stream_serialize_public_key (SECP256k1PublicKey public_key) =
     rconcat [Inr TYPE_SECP256k1, Inr public_key]"

definition stream_deserialize_secp256k1_public_key :: "public_key parser" where
  "stream_deserialize_secp256k1_public_key =
     pbind (safe_read 64) (\<lambda>public_key. plift (mk_public_key public_key))"

definition stream_deserialize_public_key :: "public_key parser" where
  "stream_deserialize_public_key =
     pbind (safe_read 1) (\<lambda>type_indicator.
       if type_indicator = TYPE_SECP256k1 then stream_deserialize_secp256k1_public_key
       else plift (Inl (DeserializationError ''Non-supported public key type.'')))"

fun stream_serialize_signature :: "signature \<Rightarrow> bytes result" where
  "stream_serialize_signature SignableEquivalent = rconcat [Inr TYPE_SIGNABLE_EQUIVALENT]"
| "stream_serialize_signature (CoinbaseData height sig) =
     rconcat [Inr TYPE_COINBASE_DATA, pack_uint 4 height, pack_uint 1 (int (length sig)), Inr sig]"
| "stream_serialize_signature (SECP256k1Signature sig) = rconcat [Inr TYPE_SECP256k1, Inr sig]"

definition stream_deserialize_coinbase_data :: "signature parser" where
  "stream_deserialize_coinbase_data =
     pbind (unpack_uint 4) (\<lambda>height.
     pbind (unpack_uint 1) (\<lambda>length.
     pbind (safe_read (nat length)) (\<lambda>sig.
     plift (mk_coinbase_data height sig))))"

definition stream_deserialize_secp256k1_signature :: "signature parser" where
  "stream_deserialize_secp256k1_signature =
     pbind (safe_read 64) (\<lambda>sig. plift (mk_secp256k1_signature sig))"

definition stream_deserialize_signature :: "signature parser" where
  "stream_deserialize_signature =
     pbind (safe_read 1) (\<lambda>type_indicator.
       if type_indicator = TYPE_SIGNABLE_EQUIVALENT then preturn SignableEquivalent
       else if type_indicator = TYPE_COINBASE_DATA then stream_deserialize_coinbase_data
       else if type_indicator = TYPE_SECP256k1 then stream_deserialize_secp256k1_signature
       else plift (Inl (DeserializationError ''Non-supported signature type.'')))"

section \<open>Validation of signatures\<close>

text \<open>
  \<open>SECP256k1PublicKey.validate\<close>: \<open>VerifyingKey.from_string\<close> runs outside the \<open>try\<close>, so bytes
  that are no point of the curve raise.
\<close>

definition public_key_validate :: "crypto \<Rightarrow> public_key \<Rightarrow> signature \<Rightarrow> bytes \<Rightarrow> bool result" where
  "public_key_validate cr public_key sig message =
     (case sig of
        SECP256k1Signature s \<Rightarrow>
          rbind (raise_if (\<not> ecdsa_point_ok cr (pk_bytes public_key)) MalformedPointError)
            (\<lambda>_. Inr (ecdsa_verify cr (pk_bytes public_key) s message))
      | _ \<Rightarrow> Inr False)"

text \<open>\<open>Signature.validate\<close>, implemented by \<open>SECP256k1Signature\<close> only.\<close>

definition signature_validate :: "crypto \<Rightarrow> signature \<Rightarrow> public_key \<Rightarrow> bytes \<Rightarrow> bool result" where
  "signature_validate cr sig public_key message =
     (case sig of
        SECP256k1Signature s \<Rightarrow> public_key_validate cr public_key sig message
      | _ \<Rightarrow> Inl NotImplementedError)"

lemma signature_validate_True:
  "signature_validate cr sig pk m = Inr True \<longleftrightarrow>
     (\<exists>s. sig = SECP256k1Signature s \<and> ecdsa_point_ok cr (pk_bytes pk) \<and> ecdsa_verify cr (pk_bytes pk) s m)"
  by (cases sig) (auto simp: signature_validate_def public_key_validate_def result_simps)

section \<open>Well-formed values and the contract\<close>

fun public_key_wf :: "public_key \<Rightarrow> bool" where
  "public_key_wf (SECP256k1PublicKey k) \<longleftrightarrow> length k = 64"

fun signature_wf :: "signature \<Rightarrow> bool" where
  "signature_wf SignableEquivalent \<longleftrightarrow> True"
| "signature_wf (CoinbaseData h s) \<longleftrightarrow> 0 \<le> h \<and> h < 2 ^ 32 \<and> length s < 256"
| "signature_wf (SECP256k1Signature s) \<longleftrightarrow> length s = 64"

lemma mk_public_key_eq_Inr [result_simps]:
  "mk_public_key b = Inr k \<longleftrightarrow> length b = 64 \<and> k = SECP256k1PublicKey b"
  by (auto simp: mk_public_key_def result_simps)

lemma mk_coinbase_data_eq_Inr [result_simps]:
  "mk_coinbase_data h s = Inr x \<longleftrightarrow> 0 \<le> h \<and> h < 2 ^ 32 \<and> length s \<le> 256 \<and> x = CoinbaseData h s"
  by (auto simp: mk_coinbase_data_def result_simps)

lemma mk_secp256k1_signature_eq_Inr [result_simps]:
  "mk_secp256k1_signature s = Inr x \<longleftrightarrow> length s = 64 \<and> x = SECP256k1Signature s"
  by (auto simp: mk_secp256k1_signature_def result_simps)

lemma signature_eq_refl [simp]: "signature_eq s s"
  by (cases s) simp_all

lemma public_key_par_ser:
  "public_key_wf x \<Longrightarrow> stream_serialize_public_key x = Inr bs \<Longrightarrow>
     stream_deserialize_public_key (bs @ rest) = Inr (x, rest)"
  by (cases x) (auto simp: stream_deserialize_public_key_def type_bytes pbind_def safe_read_def plift_def
      stream_deserialize_secp256k1_public_key_def mk_public_key_def)

lemma public_key_ser_par:
  "stream_deserialize_public_key s = Inr (x, s') \<Longrightarrow>
     public_key_wf x \<and> (\<exists>u. stream_serialize_public_key x = Inr u \<and> s = u @ s')"
  by (auto simp: stream_deserialize_public_key_def result_simps type_bytes
      stream_deserialize_secp256k1_public_key_def split: if_splits)

interpretation pk_wire: exact_format stream_serialize_public_key stream_deserialize_public_key
  public_key_wf "\<lambda>x. x"
proof (rule exact_formatI)
  fix x show "public_key_wf x \<Longrightarrow> \<exists>bs. stream_serialize_public_key x = Inr bs"
    and "public_key_wf x \<Longrightarrow> stream_serialize_public_key x \<noteq> Inr []"
    by (cases x; simp add: type_bytes)+
qed (fact public_key_par_ser public_key_ser_par)+

lemma signature_par_ser:
  assumes "signature_wf x" and "stream_serialize_signature x = Inr bs"
  shows "stream_deserialize_signature (bs @ rest) = Inr (x, rest)"
proof (cases x)
  case SignableEquivalent
  with assms show ?thesis
    by (auto simp: stream_deserialize_signature_def type_bytes pbind_def safe_read_def preturn_def)
next
  case (CoinbaseData h s)
  with assms have bs: "bs = [1] @ be_bytes 4 h @ be_bytes 1 (int (length s)) @ s"
    by (auto simp: result_simps type_bytes)
  have "stream_deserialize_signature (bs @ rest) =
      stream_deserialize_coinbase_data (be_bytes 4 h @ be_bytes 1 (int (length s)) @ s @ rest)"
    unfolding bs stream_deserialize_signature_def append_assoc
    by (subst pbind_safe_read) (simp_all add: type_bytes)
  also have "\<dots> = Inr (x, rest)"
    using assms(1) CoinbaseData
    by (simp add: stream_deserialize_coinbase_data_def pbind_unpack_uint pbind_safe_read plift_def
        mk_coinbase_data_def raise_if_def del: be_bytes.simps One_nat_def)
  finally show ?thesis .
next
  case (SECP256k1Signature s)
  with assms show ?thesis
    by (auto simp: stream_deserialize_signature_def type_bytes pbind_def safe_read_def plift_def
        stream_deserialize_secp256k1_signature_def mk_secp256k1_signature_def)
qed

lemma signature_ser_par:
  "stream_deserialize_signature s = Inr (x, s') \<Longrightarrow>
     signature_wf x \<and> (\<exists>u. stream_serialize_signature x = Inr u \<and> s = u @ s')"
  by (auto simp: stream_deserialize_signature_def stream_deserialize_coinbase_data_def
      stream_deserialize_secp256k1_signature_def result_simps type_bytes split: if_splits
      simp del: be_bytes.simps One_nat_def)

interpretation sig_wire: exact_format stream_serialize_signature stream_deserialize_signature
  signature_wf "\<lambda>x. x"
proof (rule exact_formatI)
  fix x show "signature_wf x \<Longrightarrow> \<exists>bs. stream_serialize_signature x = Inr bs"
    by (cases x) (auto simp: result_simps)
  show "signature_wf x \<Longrightarrow> stream_serialize_signature x \<noteq> Inr []"
    by (cases x) (auto simp: rbind_eq_Inr type_bytes)
qed (fact signature_par_ser signature_ser_par)+

text \<open>
  The constructor admits one length that the serializer cannot write: random data of exactly 256
  bytes does not fit the length byte.
\<close>

lemma coinbase_data_unserializable:
  assumes "0 \<le> h" and "h \<le> 0xFFFFFFFF" and "length s = 256"
  shows "mk_coinbase_data h s = Inr (CoinbaseData h s)"
    and "stream_serialize_signature (CoinbaseData h s) = Inl StructError"
  using assms by (simp_all add: mk_coinbase_data_def pack_uint_def)

end
