(* ===== verification/Params.thy ===== *)
theory Params
  imports Serialization
begin

text \<open>
  The constants of \<open>skepticoin/params.py\<close> and \<open>skepticoin/networking/params.py\<close>, under their
  own names, each with the arithmetic of the source.
\<close>

section \<open>Consensus parameters\<close>

definition SASHIMI_PER_COIN :: int where
  "SASHIMI_PER_COIN = 100000000"

definition FIVE :: int where
  "FIVE = 10 div 2"

definition DESIRED_BLOCK_TIMESPAN :: int where
  "DESIRED_BLOCK_TIMESPAN = 10 * 60 div FIVE"

definition BLOCKS_BETWEEN_TARGET_READJUSTMENT :: int where
  "BLOCKS_BETWEEN_TARGET_READJUSTMENT = 2016 * FIVE"

definition DESIRED_TARGET_READJUSTMENT_TIMESPAN :: int where
  "DESIRED_TARGET_READJUSTMENT_TIMESPAN = BLOCKS_BETWEEN_TARGET_READJUSTMENT * DESIRED_BLOCK_TIMESPAN"

definition INITIAL_SUBSIDY :: int where
  "INITIAL_SUBSIDY = 50 * SASHIMI_PER_COIN div FIVE"

definition SUBSIDY_HALVING_INTERVAL :: int where
  "SUBSIDY_HALVING_INTERVAL = 210000 * FIVE"

definition MAX_BLOCK_SIZE :: int where
  "MAX_BLOCK_SIZE = 1000000 div FIVE"

definition MAX_COINBASE_RANDOM_DATA_SIZE :: int where
  "MAX_COINBASE_RANDOM_DATA_SIZE = 200"

definition MAX_SASHIMI :: int where
  "MAX_SASHIMI = 2099999986350000"

definition INITIAL_TARGET :: bytes where
  "INITIAL_TARGET = be_bytes 32 (2 ^ (8 * 31))"

definition MAX_FUTURE_BLOCK_TIME :: int where
  "MAX_FUTURE_BLOCK_TIME = 30"

definition CHAIN_SAMPLE_COUNT :: nat where
  "CHAIN_SAMPLE_COUNT = 8"

definition CHAIN_SAMPLE_SIZE :: nat where
  "CHAIN_SAMPLE_SIZE = 4"

definition CHAIN_SAMPLE_TOTAL_SIZE :: nat where
  "CHAIN_SAMPLE_TOTAL_SIZE = CHAIN_SAMPLE_COUNT * CHAIN_SAMPLE_SIZE"

lemma param_values [simp]:
  "SASHIMI_PER_COIN = 100000000" "FIVE = 5" "DESIRED_BLOCK_TIMESPAN = 120"
  "BLOCKS_BETWEEN_TARGET_READJUSTMENT = 10080" "DESIRED_TARGET_READJUSTMENT_TIMESPAN = 1209600"
  "INITIAL_SUBSIDY = 1000000000" "SUBSIDY_HALVING_INTERVAL = 1050000" "MAX_BLOCK_SIZE = 200000"
  "MAX_COINBASE_RANDOM_DATA_SIZE = 200" "MAX_SASHIMI = 2099999986350000"
  "MAX_FUTURE_BLOCK_TIME = 30" "CHAIN_SAMPLE_COUNT = 8" "CHAIN_SAMPLE_SIZE = 4"
  "CHAIN_SAMPLE_TOTAL_SIZE = 32"
  by (simp_all add: SASHIMI_PER_COIN_def FIVE_def DESIRED_BLOCK_TIMESPAN_def
      BLOCKS_BETWEEN_TARGET_READJUSTMENT_def DESIRED_TARGET_READJUSTMENT_TIMESPAN_def
      INITIAL_SUBSIDY_def SUBSIDY_HALVING_INTERVAL_def MAX_BLOCK_SIZE_def
      MAX_COINBASE_RANDOM_DATA_SIZE_def MAX_SASHIMI_def MAX_FUTURE_BLOCK_TIME_def
      CHAIN_SAMPLE_COUNT_def CHAIN_SAMPLE_SIZE_def CHAIN_SAMPLE_TOTAL_SIZE_def)

section \<open>Networking parameters\<close>

definition PORT :: int where
  "PORT = 2412"

definition TIME_TO_SECOND_CONNECTION_ATTEMPT :: int where
  "TIME_TO_SECOND_CONNECTION_ATTEMPT = 10"

definition MAX_TIME_BETWEEN_CONNECTION_ATTEMPTS :: int where
  "MAX_TIME_BETWEEN_CONNECTION_ATTEMPTS = 60 * 30"

definition MAX_CONNECTION_ATTEMPTS :: int where
  "MAX_CONNECTION_ATTEMPTS = (60 * 60 * 24 * 60) div MAX_TIME_BETWEEN_CONNECTION_ATTEMPTS"

definition GET_PEERS_INTERVAL :: int where
  "GET_PEERS_INTERVAL = 60 * 30"

definition MAX_MESSAGE_SIZE :: int where
  "MAX_MESSAGE_SIZE = 32 * 1024 * 1024"

definition MAX_IBD_PEERS :: int where
  "MAX_IBD_PEERS = 1"

definition IBD_PEER_TIMEOUT :: int where
  "IBD_PEER_TIMEOUT = 60"

definition IBD_VALIDATION_SKIP :: int where
  "IBD_VALIDATION_SKIP = 10000"

definition GET_BLOCKS_INVENTORY_SIZE :: int where
  "GET_BLOCKS_INVENTORY_SIZE = 500"

definition SWITCH_TO_ACTIVE_MODE_TIMEOUT :: int where
  "SWITCH_TO_ACTIVE_MODE_TIMEOUT = 5 * 60"

definition EMPTY_INVENTORY_BACKOFF :: int where
  "EMPTY_INVENTORY_BACKOFF = 60"

lemma network_param_values [simp]:
  "PORT = 2412" "TIME_TO_SECOND_CONNECTION_ATTEMPT = 10" "MAX_TIME_BETWEEN_CONNECTION_ATTEMPTS = 1800"
  "MAX_CONNECTION_ATTEMPTS = 2880" "GET_PEERS_INTERVAL = 1800" "MAX_MESSAGE_SIZE = 33554432"
  "MAX_IBD_PEERS = 1" "IBD_PEER_TIMEOUT = 60" "IBD_VALIDATION_SKIP = 10000"
  "GET_BLOCKS_INVENTORY_SIZE = 500" "SWITCH_TO_ACTIVE_MODE_TIMEOUT = 300" "EMPTY_INVENTORY_BACKOFF = 60"
  by (simp_all add: PORT_def TIME_TO_SECOND_CONNECTION_ATTEMPT_def
      MAX_TIME_BETWEEN_CONNECTION_ATTEMPTS_def MAX_CONNECTION_ATTEMPTS_def GET_PEERS_INTERVAL_def
      MAX_MESSAGE_SIZE_def MAX_IBD_PEERS_def IBD_PEER_TIMEOUT_def IBD_VALIDATION_SKIP_def
      GET_BLOCKS_INVENTORY_SIZE_def SWITCH_TO_ACTIVE_MODE_TIMEOUT_def EMPTY_INVENTORY_BACKOFF_def)

end
