(* ===== verification/Datatypes.thy ===== *)
theory Datatypes
  imports Signing Params
begin

text \<open>
  Model of \<open>skepticoin/datatypes.py\<close>: the chain's records, the constructors' checks, \<open>__eq__\<close> as
  the classes define it, hashes with their caches, and the wire formats. The attribute \<open>version\<close> of
  transactions and block headers is always 0 and is not stored. Every class is shown to satisfy
  the contract \<open>wire_format\<close>; those without a variable-length quantity satisfy \<open>exact_format\<close>.
\<close>

section \<open>Records\<close>

record output_reference =
  ref_hash :: bytes
  ref_index :: int

record tx_input =
  inp_output_reference :: output_reference
  inp_signature :: "signature option"

record tx_output =
  out_value :: int
  out_public_key :: public_key

record transaction =
  tx_inputs :: "tx_input list"
  tx_outputs :: "tx_output list"
  tx_cached_hash :: "bytes option"

record pow_evidence =
  pe_summary_hash :: bytes
  pe_chain_sample :: bytes
  pe_block_hash :: bytes

record block_summary =
  bs_height :: int
  bs_previous_block_hash :: bytes
  bs_merkle_root_hash :: bytes
  bs_timestamp :: int
  bs_target :: bytes
  bs_nonce :: int

record block_header =
  hd_summary :: block_summary
  hd_pow_evidence :: pow_evidence

record block =
  blk_header :: block_header
  blk_transactions :: "transaction list"
  blk_cached_hash :: "bytes option"

text \<open>\<open>b'\x00' * 32\<close>, the hash that stands for "nothing" in several places.\<close>

definition zero_hash :: bytes where
  "zero_hash = replicate 32 0"

lemma length_zero_hash [simp]: "length zero_hash = 32"
  by (simp add: zero_hash_def)

text \<open>\<open>Block.__getattr__\<close>: the attributes of the header and of its summary, read off the block.\<close>

abbreviation block_summary_of :: "block \<Rightarrow> block_summary" where
  "block_summary_of b \<equiv> hd_summary (blk_header b)"

definition block_height :: "block \<Rightarrow> int" where
  "block_height b = bs_height (block_summary_of b)"

definition block_previous_block_hash :: "block \<Rightarrow> bytes" where
  "block_previous_block_hash b = bs_previous_block_hash (block_summary_of b)"

definition block_timestamp :: "block \<Rightarrow> int" where
  "block_timestamp b = bs_timestamp (block_summary_of b)"

definition block_target :: "block \<Rightarrow> bytes" where
  "block_target b = bs_target (block_summary_of b)"

text \<open>\<open>Block.get_total_work\<close>, which the source calls a placeholder.\<close>

definition get_total_work :: "block \<Rightarrow> int" where
  "get_total_work b = block_height b"

section \<open>Constructors and small methods\<close>

definition mk_output_reference :: "bytes \<Rightarrow> int \<Rightarrow> output_reference result" where
  "mk_output_reference hash index =
     rbind (raise_if (length hash \<noteq> 32) (ValueError ''OutputReference hash must be 32 bytes.''))
       (\<lambda>_. rbind (raise_if (\<not> (0 \<le> index \<and> index \<le> 0xffffffff)) (ValueError ''OutputReference index is out of range.''))
       (\<lambda>_. Inr \<lparr>ref_hash = hash, ref_index = index\<rparr>))"

definition references_thin_air :: "output_reference \<Rightarrow> bool" where
  "references_thin_air r \<longleftrightarrow> ref_hash r = zero_hash \<and> ref_index r = 0"

definition input_signable_equivalent :: "tx_input \<Rightarrow> tx_input" where
  "input_signable_equivalent i =
     \<lparr>inp_output_reference = inp_output_reference i, inp_signature = Some SignableEquivalent\<rparr>"

definition transaction_signable_equivalent :: "transaction \<Rightarrow> transaction" where
  "transaction_signable_equivalent t =
     \<lparr>tx_inputs = map input_signable_equivalent (tx_inputs t), tx_outputs = tx_outputs t,
      tx_cached_hash = None\<rparr>"

section \<open>Equality\<close>

text \<open>
  \<open>__eq__\<close> of \<open>OutputReference\<close>, \<open>Output\<close> and \<open>PowEvidence\<close> compares every field, so it is equality
  of the records. The others differ: signatures ignore a coinbase height, block summaries ignore
  their height, transactions and blocks ignore cached hashes.
\<close>

fun signature_option_eq :: "signature option \<Rightarrow> signature option \<Rightarrow> bool" where
  "signature_option_eq None None = True"
| "signature_option_eq (Some s) (Some s') = signature_eq s s'"
| "signature_option_eq _ _ = False"

definition input_eq :: "tx_input \<Rightarrow> tx_input \<Rightarrow> bool" where
  "input_eq i j \<longleftrightarrow> inp_output_reference i = inp_output_reference j \<and>
     signature_option_eq (inp_signature i) (inp_signature j)"

definition transaction_eq :: "transaction \<Rightarrow> transaction \<Rightarrow> bool" where
  "transaction_eq t u \<longleftrightarrow> list_all2 input_eq (tx_inputs t) (tx_inputs u) \<and> tx_outputs t = tx_outputs u"

definition block_summary_eq :: "block_summary \<Rightarrow> block_summary \<Rightarrow> bool" where
  "block_summary_eq s t \<longleftrightarrow>
     bs_previous_block_hash s = bs_previous_block_hash t \<and> bs_merkle_root_hash s = bs_merkle_root_hash t \<and>
     bs_timestamp s = bs_timestamp t \<and> bs_target s = bs_target t \<and> bs_nonce s = bs_nonce t"

definition block_header_eq :: "block_header \<Rightarrow> block_header \<Rightarrow> bool" where
  "block_header_eq h k \<longleftrightarrow>
     block_summary_eq (hd_summary h) (hd_summary k) \<and> hd_pow_evidence h = hd_pow_evidence k"

definition block_eq :: "block \<Rightarrow> block \<Rightarrow> bool" where
  "block_eq b c \<longleftrightarrow>
     block_header_eq (blk_header b) (blk_header c) \<and>
     list_all2 transaction_eq (blk_transactions b) (blk_transactions c)"

section \<open>Writing\<close>

definition stream_serialize_output_reference :: "output_reference \<Rightarrow> bytes result" where
  "stream_serialize_output_reference r = rconcat [Inr (ref_hash r), pack_uint 4 (ref_index r)]"

definition stream_serialize_input :: "tx_input \<Rightarrow> bytes result" where
  "stream_serialize_input i =
     rconcat [stream_serialize_output_reference (inp_output_reference i),
       (case inp_signature i of None \<Rightarrow> Inl AssertionError | Some s \<Rightarrow> stream_serialize_signature s)]"

definition stream_serialize_output :: "tx_output \<Rightarrow> bytes result" where
  "stream_serialize_output p =
     rconcat [pack_uint 8 (out_value p), stream_serialize_public_key (out_public_key p)]"

definition stream_serialize_transaction :: "transaction \<Rightarrow> bytes result" where
  "stream_serialize_transaction t =
     rconcat [pack_uint 1 0, stream_serialize_list stream_serialize_input (tx_inputs t),
       stream_serialize_list stream_serialize_output (tx_outputs t)]"

definition stream_serialize_pow_evidence :: "pow_evidence \<Rightarrow> bytes result" where
  "stream_serialize_pow_evidence e =
     rconcat [Inr (pe_summary_hash e), Inr (pe_chain_sample e), Inr (pe_block_hash e)]"

definition stream_serialize_block_summary :: "block_summary \<Rightarrow> bytes result" where
  "stream_serialize_block_summary s =
     rconcat [stream_serialize_vlq (bs_height s), Inr (bs_previous_block_hash s),
       Inr (bs_merkle_root_hash s), pack_uint 4 (bs_timestamp s), Inr (bs_target s), pack_uint 4 (bs_nonce s)]"

definition stream_serialize_block_header :: "block_header \<Rightarrow> bytes result" where
  "stream_serialize_block_header h =
     rconcat [pack_uint 1 0, stream_serialize_block_summary (hd_summary h),
       stream_serialize_pow_evidence (hd_pow_evidence h)]"

definition stream_serialize_block :: "block \<Rightarrow> bytes result" where
  "stream_serialize_block b =
     rconcat [stream_serialize_block_header (blk_header b),
       stream_serialize_list stream_serialize_transaction (blk_transactions b)]"

section \<open>Hashes\<close>

text \<open>\<open>cached or computed\<close>: an empty cached value counts as absent.\<close>

definition cached_or :: "bytes option \<Rightarrow> bytes result \<Rightarrow> bytes result" where
  "cached_or cached computed =
     (case cached of None \<Rightarrow> computed | Some h \<Rightarrow> if h = [] then computed else Inr h)"

definition transaction_hash :: "crypto \<Rightarrow> transaction \<Rightarrow> bytes result" where
  "transaction_hash cr t =
     cached_or (tx_cached_hash t) (rbind (stream_serialize_transaction t) (\<lambda>bs. Inr (sha256d cr bs)))"

definition block_summary_hash :: "crypto \<Rightarrow> block_summary \<Rightarrow> bytes result" where
  "block_summary_hash cr s = rbind (stream_serialize_block_summary s) (\<lambda>bs. Inr (sha256d cr bs))"

definition block_header_hash :: "crypto \<Rightarrow> block_header \<Rightarrow> bytes result" where
  "block_header_hash cr h = rbind (stream_serialize_block_header h) (\<lambda>bs. Inr (sha256d cr bs))"

definition block_hash :: "crypto \<Rightarrow> block \<Rightarrow> bytes result" where
  "block_hash cr b = cached_or (blk_cached_hash b) (block_header_hash cr (blk_header b))"

section \<open>Reading\<close>

definition stream_deserialize_output_reference :: "output_reference parser" where
  "stream_deserialize_output_reference =
     pbind (safe_read 32) (\<lambda>hash.
     pbind (unpack_uint 4) (\<lambda>index.
     plift (mk_output_reference hash index)))"

definition stream_deserialize_input :: "tx_input parser" where
  "stream_deserialize_input =
     pbind stream_deserialize_output_reference (\<lambda>output_reference.
     pbind stream_deserialize_signature (\<lambda>sig.
     preturn \<lparr>inp_output_reference = output_reference, inp_signature = Some sig\<rparr>))"

definition stream_deserialize_output :: "tx_output parser" where
  "stream_deserialize_output =
     pbind (unpack_uint 8) (\<lambda>value.
     pbind stream_deserialize_public_key (\<lambda>public_key.
     preturn \<lparr>out_value = value, out_public_key = public_key\<rparr>))"

definition stream_deserialize_transaction_body :: "(tx_input list \<times> tx_output list) parser" where
  "stream_deserialize_transaction_body =
     pbind (safe_read 1) (\<lambda>version.
       if version \<noteq> [0] then plift (Inl (ValueError ''Current version supports only version 0 transactions''))
       else pbind (stream_deserialize_list stream_deserialize_input) (\<lambda>inputs.
            pbind (stream_deserialize_list stream_deserialize_output) (\<lambda>outputs.
            preturn (inputs, outputs))))"

definition stream_deserialize_transaction :: "crypto \<Rightarrow> transaction parser" where
  "stream_deserialize_transaction cr =
     pbind (pconsumed stream_deserialize_transaction_body) (\<lambda>((inputs, outputs), bs).
     preturn \<lparr>tx_inputs = inputs, tx_outputs = outputs, tx_cached_hash = Some (sha256d cr bs)\<rparr>)"

definition stream_deserialize_pow_evidence :: "pow_evidence parser" where
  "stream_deserialize_pow_evidence =
     pbind (safe_read 32) (\<lambda>summary_hash.
     pbind (safe_read CHAIN_SAMPLE_TOTAL_SIZE) (\<lambda>chain_sample.
     pbind (safe_read 32) (\<lambda>block_hash.
     preturn \<lparr>pe_summary_hash = summary_hash, pe_chain_sample = chain_sample, pe_block_hash = block_hash\<rparr>)))"

definition stream_deserialize_block_summary :: "block_summary parser" where
  "stream_deserialize_block_summary =
     pbind stream_deserialize_vlq (\<lambda>height.
     pbind (safe_read 32) (\<lambda>previous_block_hash.
     pbind (safe_read 32) (\<lambda>merkle_root_hash.
     pbind (unpack_uint 4) (\<lambda>timestamp.
     pbind (safe_read 32) (\<lambda>target.
     pbind (unpack_uint 4) (\<lambda>nonce.
     preturn \<lparr>bs_height = height, bs_previous_block_hash = previous_block_hash,
       bs_merkle_root_hash = merkle_root_hash, bs_timestamp = timestamp, bs_target = target,
       bs_nonce = nonce\<rparr>))))))"

definition stream_deserialize_block_header :: "block_header parser" where
  "stream_deserialize_block_header =
     pbind (safe_read 1) (\<lambda>version.
       if version \<noteq> [0] then plift (Inl (ValueError ''Current version only supports version 0 blocks''))
       else pbind stream_deserialize_block_summary (\<lambda>summary.
            pbind stream_deserialize_pow_evidence (\<lambda>pow_evidence.
            preturn \<lparr>hd_summary = summary, hd_pow_evidence = pow_evidence\<rparr>)))"

definition stream_deserialize_block :: "crypto \<Rightarrow> block parser" where
  "stream_deserialize_block cr =
     pbind (pconsumed stream_deserialize_block_header) (\<lambda>(header, bs).
     pbind (stream_deserialize_list (stream_deserialize_transaction cr)) (\<lambda>transactions.
     preturn \<lparr>blk_header = header, blk_transactions = transactions,
       blk_cached_hash = Some (sha256d cr bs)\<rparr>))"

text \<open>\<open>Block.deserialize\<close>: what follows the block in the byte string is ignored.\<close>

definition deserialize_block :: "crypto \<Rightarrow> bytes \<Rightarrow> block result" where
  "deserialize_block cr bs = rbind (stream_deserialize_block cr bs) (\<lambda>(b, _). Inr b)"

section \<open>Well-formed values\<close>

text \<open>What a value must satisfy to be writable and to be read back; everything read satisfies it.\<close>

definition output_reference_wf :: "output_reference \<Rightarrow> bool" where
  "output_reference_wf r \<longleftrightarrow> length (ref_hash r) = 32 \<and> 0 \<le> ref_index r \<and> ref_index r < 2 ^ 32"

definition input_wf :: "tx_input \<Rightarrow> bool" where
  "input_wf i \<longleftrightarrow> output_reference_wf (inp_output_reference i) \<and>
     (\<exists>s. inp_signature i = Some s \<and> signature_wf s)"

definition output_wf :: "tx_output \<Rightarrow> bool" where
  "output_wf p \<longleftrightarrow> 0 \<le> out_value p \<and> out_value p < 2 ^ 64 \<and> public_key_wf (out_public_key p)"

definition transaction_wf :: "transaction \<Rightarrow> bool" where
  "transaction_wf t \<longleftrightarrow> (\<forall>i\<in>set (tx_inputs t). input_wf i) \<and> (\<forall>p\<in>set (tx_outputs t). output_wf p)"

definition pow_evidence_wf :: "pow_evidence \<Rightarrow> bool" where
  "pow_evidence_wf e \<longleftrightarrow> length (pe_summary_hash e) = 32 \<and>
     length (pe_chain_sample e) = CHAIN_SAMPLE_TOTAL_SIZE \<and> length (pe_block_hash e) = 32"

definition block_summary_wf :: "block_summary \<Rightarrow> bool" where
  "block_summary_wf s \<longleftrightarrow>
     0 \<le> bs_height s \<and> length (bs_previous_block_hash s) = 32 \<and> length (bs_merkle_root_hash s) = 32 \<and>
     0 \<le> bs_timestamp s \<and> bs_timestamp s < 2 ^ 32 \<and> length (bs_target s) = 32 \<and>
     0 \<le> bs_nonce s \<and> bs_nonce s < 2 ^ 32"

definition block_header_wf :: "block_header \<Rightarrow> bool" where
  "block_header_wf h \<longleftrightarrow> block_summary_wf (hd_summary h) \<and> pow_evidence_wf (hd_pow_evidence h)"

definition block_wf :: "block \<Rightarrow> bool" where
  "block_wf b \<longleftrightarrow> block_header_wf (blk_header b) \<and> (\<forall>t\<in>set (blk_transactions b). transaction_wf t)"

text \<open>Reading a transaction or block back fills its cached hash.\<close>

definition transaction_canon :: "crypto \<Rightarrow> transaction \<Rightarrow> transaction" where
  "transaction_canon cr t =
     t\<lparr>tx_cached_hash := Some (sha256d cr (projr (stream_serialize_transaction t)))\<rparr>"

definition block_canon :: "crypto \<Rightarrow> block \<Rightarrow> block" where
  "block_canon cr b =
     b\<lparr>blk_transactions := map (transaction_canon cr) (blk_transactions b),
       blk_cached_hash := Some (sha256d cr (projr (stream_serialize_block_header (blk_header b))))\<rparr>"

section \<open>The contract, class by class\<close>

lemma mk_output_reference_eq_Inr [result_simps]:
  "mk_output_reference h i = Inr r \<longleftrightarrow>
     length h = 32 \<and> 0 \<le> i \<and> i < 2 ^ 32 \<and> r = \<lparr>ref_hash = h, ref_index = i\<rparr>"
  by (auto simp: mk_output_reference_def result_simps)

lemma output_reference_par_ser:
  assumes wf: "output_reference_wf x" and "stream_serialize_output_reference x = Inr bs"
  shows "stream_deserialize_output_reference (bs @ rest) = Inr (x, rest)"
proof -
  from assms have "bs = ref_hash x @ be_bytes 4 (ref_index x)"
    by (auto simp: stream_serialize_output_reference_def result_simps)
  moreover have "mk_output_reference (ref_hash x) (ref_index x) = Inr x"
    using wf by (simp add: output_reference_wf_def mk_output_reference_eq_Inr)
  ultimately show ?thesis
    using wf by (simp add: stream_deserialize_output_reference_def wire_steps output_reference_wf_def)
qed

lemma output_reference_ser_par:
  "stream_deserialize_output_reference s = Inr (x, s') \<Longrightarrow>
     output_reference_wf x \<and> (\<exists>u. stream_serialize_output_reference x = Inr u \<and> s = u @ s')"
  by (auto simp: stream_deserialize_output_reference_def stream_serialize_output_reference_def
      output_reference_wf_def result_simps simp del: be_bytes.simps)

interpretation ref_wire: exact_format stream_serialize_output_reference stream_deserialize_output_reference
  output_reference_wf "\<lambda>x. x"
proof (rule exact_formatI)
  fix x show "output_reference_wf x \<Longrightarrow> \<exists>bs. stream_serialize_output_reference x = Inr bs"
    by (auto simp: stream_serialize_output_reference_def output_reference_wf_def result_simps)
  show "output_reference_wf x \<Longrightarrow> stream_serialize_output_reference x \<noteq> Inr []"
    by (auto simp: stream_serialize_output_reference_def result_simps rbind_eq_Inr pack_uint_def
        dest: arg_cong [where f = length])
qed (fact output_reference_par_ser output_reference_ser_par)+

lemma input_par_ser:
  assumes "input_wf x" and "stream_serialize_input x = Inr bs"
  shows "stream_deserialize_input (bs @ rest) = Inr (x, rest)"
proof -
  obtain s a b where s: "inp_signature x = Some s" "signature_wf s" "stream_serialize_signature s = Inr b"
    and r: "output_reference_wf (inp_output_reference x)"
      "stream_serialize_output_reference (inp_output_reference x) = Inr a" and bs: "bs = a @ b"
    using assms by (auto simp: input_wf_def stream_serialize_input_def result_simps)
  show ?thesis
    using s(1) by (simp add: bs stream_deserialize_input_def preturn_def
        ref_wire.pbind_par [OF r] sig_wire.pbind_par [OF s(2,3)])
qed

lemma input_ser_par:
  "stream_deserialize_input s = Inr (x, s') \<Longrightarrow>
     input_wf x \<and> (\<exists>u. stream_serialize_input x = Inr u \<and> s = u @ s')"
  by (auto simp: stream_deserialize_input_def stream_serialize_input_def input_wf_def result_simps
      ref_wire.par_iff sig_wire.par_iff)

interpretation input_wire: exact_format stream_serialize_input stream_deserialize_input input_wf "\<lambda>x. x"
proof (rule exact_formatI)
  fix x show "input_wf x \<Longrightarrow> \<exists>bs. stream_serialize_input x = Inr bs"
    using ref_wire.ser_returns sig_wire.ser_returns
    by (fastforce simp: stream_serialize_input_def input_wf_def result_simps)
  show "input_wf x \<Longrightarrow> stream_serialize_input x \<noteq> Inr []"
    by (cases "inp_signature x"; cases "the (inp_signature x)")
      (auto simp: stream_serialize_input_def rbind_eq_Inr type_bytes)
qed (fact input_par_ser input_ser_par)+

lemma output_par_ser:
  assumes "output_wf x" and "stream_serialize_output x = Inr bs"
  shows "stream_deserialize_output (bs @ rest) = Inr (x, rest)"
proof -
  obtain b where k: "public_key_wf (out_public_key x)" "stream_serialize_public_key (out_public_key x) = Inr b"
    and bs: "bs = be_bytes 8 (out_value x) @ b" and v: "0 \<le> out_value x" "out_value x < 2 ^ 64"
    using assms by (auto simp: output_wf_def stream_serialize_output_def result_simps)
  show ?thesis
    using v by (simp add: bs stream_deserialize_output_def preturn_def pbind_unpack_uint
        pk_wire.pbind_par [OF k])
qed

lemma output_ser_par:
  "stream_deserialize_output s = Inr (x, s') \<Longrightarrow>
     output_wf x \<and> (\<exists>u. stream_serialize_output x = Inr u \<and> s = u @ s')"
  by (auto simp: stream_deserialize_output_def stream_serialize_output_def output_wf_def result_simps
      pk_wire.par_iff simp del: be_bytes.simps)

interpretation output_wire: exact_format stream_serialize_output stream_deserialize_output output_wf "\<lambda>x. x"
proof (rule exact_formatI)
  fix x show "output_wf x \<Longrightarrow> \<exists>bs. stream_serialize_output x = Inr bs"
    by (auto simp: stream_serialize_output_def output_wf_def result_simps dest: pk_wire.ser_returns)
  show "output_wf x \<Longrightarrow> stream_serialize_output x \<noteq> Inr []"
    by (cases "out_public_key x") (auto simp: stream_serialize_output_def rbind_eq_Inr type_bytes)
qed (fact output_par_ser output_ser_par)+

lemma pow_evidence_par_ser:
  "pow_evidence_wf x \<Longrightarrow> stream_serialize_pow_evidence x = Inr bs \<Longrightarrow>
     stream_deserialize_pow_evidence (bs @ rest) = Inr (x, rest)"
  by (auto simp: pow_evidence_wf_def stream_serialize_pow_evidence_def stream_deserialize_pow_evidence_def
      wire_steps)

lemma pow_evidence_ser_par:
  "stream_deserialize_pow_evidence s = Inr (x, s') \<Longrightarrow>
     pow_evidence_wf x \<and> (\<exists>u. stream_serialize_pow_evidence x = Inr u \<and> s = u @ s')"
  by (auto simp: pow_evidence_wf_def stream_serialize_pow_evidence_def stream_deserialize_pow_evidence_def
      result_simps)

interpretation pow_wire: exact_format stream_serialize_pow_evidence stream_deserialize_pow_evidence
  pow_evidence_wf "\<lambda>x. x"
proof (rule exact_formatI)
  fix x show "pow_evidence_wf x \<Longrightarrow> \<exists>bs. stream_serialize_pow_evidence x = Inr bs"
    and "pow_evidence_wf x \<Longrightarrow> stream_serialize_pow_evidence x \<noteq> Inr []"
    by (auto simp: stream_serialize_pow_evidence_def pow_evidence_wf_def)
qed (fact pow_evidence_par_ser pow_evidence_ser_par)+

subsection \<open>Transactions\<close>

lemma local_transaction_body [wire_intros, intro]: "local_parser stream_deserialize_transaction_body"
  unfolding stream_deserialize_transaction_body_def
  by (intro wire_intros input_wire.par_local output_wire.par_local)

lemma productive_transaction_body [wire_intros, intro]: "productive stream_deserialize_transaction_body"
  unfolding stream_deserialize_transaction_body_def
  by (intro wire_intros input_wire.par_local output_wire.par_local) simp

lemma local_case_prod [wire_intros, intro]:
  "(\<And>a b. local_parser (f a b)) \<Longrightarrow> local_parser (case p of (a, b) \<Rightarrow> f a b)"
  by (cases p) simp

lemma transaction_body_par_ser:
  assumes "transaction_wf x" and "stream_serialize_transaction x = Inr bs"
  shows "stream_deserialize_transaction_body (bs @ rest) = Inr ((tx_inputs x, tx_outputs x), rest)"
proof -
  obtain a b where a: "\<forall>i\<in>set (tx_inputs x). input_wf i"
      "stream_serialize_list stream_serialize_input (tx_inputs x) = Inr a"
    and b: "\<forall>p\<in>set (tx_outputs x). output_wf p"
      "stream_serialize_list stream_serialize_output (tx_outputs x) = Inr b"
    and bs: "bs = [0] @ a @ b"
    using assms by (auto simp: transaction_wf_def stream_serialize_transaction_def result_simps)
  show ?thesis
    unfolding bs append_assoc stream_deserialize_transaction_body_def
    by (subst pbind_safe_read)
      (simp_all add: input_wire.pbind_list_par [OF a] output_wire.pbind_list_par [OF b] preturn_def)
qed

interpretation tx_wire: wire_format stream_serialize_transaction "stream_deserialize_transaction cr"
  transaction_wf "transaction_canon cr" for cr
proof unfold_locales
  fix x show "transaction_wf x \<Longrightarrow> \<exists>bs. stream_serialize_transaction x = Inr bs"
    using input_wire.list_ser_returns output_wire.list_ser_returns
    by (fastforce simp: transaction_wf_def stream_serialize_transaction_def result_simps)
  fix bs rest assume "transaction_wf x" and ser: "stream_serialize_transaction x = Inr bs"
  then have "pconsumed stream_deserialize_transaction_body (bs @ rest) =
      Inr (((tx_inputs x, tx_outputs x), bs), rest)"
    by (intro pconsumed_append transaction_body_par_ser)
  with ser show "stream_deserialize_transaction cr (bs @ rest) = Inr (transaction_canon cr x, rest)"
    by (simp add: stream_deserialize_transaction_def pbind_Inr preturn_def transaction_canon_def)
next
  show "local_parser (stream_deserialize_transaction cr)" "productive (stream_deserialize_transaction cr)"
    unfolding stream_deserialize_transaction_def
    by (auto intro!: local_pbind productive_pbind local_pconsumed productive_pconsumed split: prod.split)
next
  fix s x s' assume "stream_deserialize_transaction cr s = Inr (x, s')"
  then show "transaction_wf x"
    using input_wire.list_par_wf output_wire.list_par_wf
    by (fastforce simp: stream_deserialize_transaction_def stream_deserialize_transaction_body_def
        result_simps transaction_wf_def split: if_splits)
qed

subsection \<open>Headers and blocks\<close>

interpretation summary_wire: wire_format stream_serialize_block_summary stream_deserialize_block_summary
  block_summary_wf "\<lambda>x. x"
proof unfold_locales
  fix x assume wf: "block_summary_wf x"
  obtain h where h: "stream_serialize_vlq (bs_height x) = Inr h"
    "\<And>s. stream_deserialize_vlq (h @ s) = Inr (bs_height x, s)"
    using vlq_roundtrip_aux [of "bs_height x"] wf by (auto simp: block_summary_wf_def)
  with wf show "\<exists>bs. stream_serialize_block_summary x = Inr bs"
    by (simp add: block_summary_wf_def stream_serialize_block_summary_def pack_uint_def)
  fix bs rest assume "stream_serialize_block_summary x = Inr bs"
  with h(1) have bs: "bs = h @ bs_previous_block_hash x @ bs_merkle_root_hash x @
      be_bytes 4 (bs_timestamp x) @ bs_target x @ be_bytes 4 (bs_nonce x)"
    by (auto simp: stream_serialize_block_summary_def result_simps)
  have step: "pbind stream_deserialize_vlq f (h @ t) = f (bs_height x) t" for f :: "int \<Rightarrow> block_summary parser" and t
    by (simp add: pbind_def h(2))
  show "stream_deserialize_block_summary (bs @ rest) = Inr (x, rest)"
    using wf unfolding block_summary_wf_def bs stream_deserialize_block_summary_def append_assoc
    by (simp add: step wire_steps del: be_bytes.simps)
next
  show "local_parser stream_deserialize_block_summary" "productive stream_deserialize_block_summary"
    unfolding stream_deserialize_block_summary_def by (intro wire_intros)+
next
  fix s x s' assume "stream_deserialize_block_summary s = Inr (x, s')"
  then show "block_summary_wf x"
    by (auto simp: stream_deserialize_block_summary_def block_summary_wf_def result_simps
        dest: stream_deserialize_vlq_nonneg)
qed

interpretation header_wire: wire_format stream_serialize_block_header stream_deserialize_block_header
  block_header_wf "\<lambda>x. x"
proof unfold_locales
  fix x show "block_header_wf x \<Longrightarrow> \<exists>bs. stream_serialize_block_header x = Inr bs"
    using summary_wire.ser_returns pow_wire.ser_returns
    by (fastforce simp: block_header_wf_def stream_serialize_block_header_def result_simps)
  fix bs rest assume "block_header_wf x" "stream_serialize_block_header x = Inr bs"
  then obtain a b where a: "block_summary_wf (hd_summary x)"
      "stream_serialize_block_summary (hd_summary x) = Inr a"
    and b: "pow_evidence_wf (hd_pow_evidence x)" "stream_serialize_pow_evidence (hd_pow_evidence x) = Inr b"
    and bs: "bs = [0] @ a @ b"
    by (auto simp: block_header_wf_def stream_serialize_block_header_def result_simps)
  show "stream_deserialize_block_header (bs @ rest) = Inr (x, rest)"
    unfolding bs append_assoc stream_deserialize_block_header_def
    by (subst pbind_safe_read)
      (simp_all add: summary_wire.pbind_par [OF a] pow_wire.pbind_par [OF b] preturn_def)
next
  show "local_parser stream_deserialize_block_header" "productive stream_deserialize_block_header"
    unfolding stream_deserialize_block_header_def
    by (intro wire_intros summary_wire.par_local pow_wire.par_local; simp)+
next
  fix s x s' assume "stream_deserialize_block_header s = Inr (x, s')"
  then show "block_header_wf x"
    using summary_wire.par_wf pow_wire.par_wf
    by (fastforce simp: stream_deserialize_block_header_def block_header_wf_def result_simps split: if_splits)
qed

interpretation block_wire: wire_format stream_serialize_block "stream_deserialize_block cr"
  block_wf "block_canon cr" for cr
proof unfold_locales
  fix x show "block_wf x \<Longrightarrow> \<exists>bs. stream_serialize_block x = Inr bs"
    using header_wire.ser_returns tx_wire.list_ser_returns
    by (fastforce simp: block_wf_def stream_serialize_block_def result_simps)
  fix bs rest assume "block_wf x" "stream_serialize_block x = Inr bs"
  then obtain a b where a: "block_header_wf (blk_header x)"
      "stream_serialize_block_header (blk_header x) = Inr a"
    and b: "\<forall>t\<in>set (blk_transactions x). transaction_wf t"
      "stream_serialize_list stream_serialize_transaction (blk_transactions x) = Inr b"
    and bs: "bs = a @ b"
    by (auto simp: block_wf_def stream_serialize_block_def result_simps)
  have "pconsumed stream_deserialize_block_header (a @ b @ rest) = Inr ((blk_header x, a), b @ rest)"
    by (intro pconsumed_append header_wire.par_ser a)
  with a(2) show "stream_deserialize_block cr (bs @ rest) = Inr (block_canon cr x, rest)"
    by (simp add: bs stream_deserialize_block_def pbind_Inr tx_wire.pbind_list_par [OF b] preturn_def
        block_canon_def)
next
  show "local_parser (stream_deserialize_block cr)" "productive (stream_deserialize_block cr)"
    unfolding stream_deserialize_block_def
    by (intro wire_intros header_wire.par_local header_wire.par_productive tx_wire.par_local)+
next
  fix s x s' assume "stream_deserialize_block cr s = Inr (x, s')"
  then show "block_wf x"
    using header_wire.par_wf tx_wire.list_par_wf
    by (fastforce simp: stream_deserialize_block_def block_wf_def result_simps)
qed

end
