(* ===== verification/Merkletree.thy ===== *)
theory Merkletree
  imports Datatypes
begin

text \<open>
  Model of \<open>skepticoin/merkletree.py\<close>. A leaf is a node whose tuple of children is empty, an inner
  node one with two children; either may carry a value, as the Python constructor allows. The
  functions on lists recurse on the list of the next level; on an empty list the Python code
  recurses without end, which the interpreter reports as \<open>RecursionError\<close>.
\<close>

section \<open>Levels\<close>

text \<open>\<open>_chunks(lst, chunk_size)\<close>: \<open>lst[i:i + chunk_size] for i in range(0, len(lst), chunk_size)\<close>.\<close>

definition chunks :: "'a list \<Rightarrow> nat \<Rightarrow> 'a list list" where
  "chunks lst chunk_size =
     map (\<lambda>k. take chunk_size (drop (k * chunk_size) lst))
       [0..<(length lst + chunk_size - 1) div chunk_size]"

text \<open>One pass of the loops below: two elements are combined, a last odd one is kept.\<close>

definition combine_chunk :: "('a \<Rightarrow> 'a \<Rightarrow> 'a) \<Rightarrow> 'a list \<Rightarrow> 'a" where
  "combine_chunk f chunk = (if length chunk = 2 then f (chunk ! 0) (chunk ! 1) else chunk ! 0)"

definition next_level :: "('a \<Rightarrow> 'a \<Rightarrow> 'a) \<Rightarrow> 'a list \<Rightarrow> 'a list" where
  "next_level f lst = map (combine_chunk f) (chunks lst 2)"

lemma chunks_2_simps:
  "chunks [] 2 = []" "chunks [x] 2 = [[x]]" "chunks (x # y # xs) 2 = [x, y] # chunks xs 2"
proof -
  show "chunks [] 2 = []" "chunks [x] 2 = [[x]]" by (simp_all add: chunks_def)
  have "(length (x # y # xs) + 2 - 1) div 2 = Suc ((length xs + 2 - 1) div 2)" by simp
  moreover have "[0..<Suc n] = 0 # map Suc [0..<n]" for n
    by (simp add: map_Suc_upt upt_conv_Cons del: upt_Suc)
  ultimately show "chunks (x # y # xs) 2 = [x, y] # chunks xs 2"
    unfolding chunks_def by (simp only: list.map) (simp add: comp_def)
qed

lemma next_level_simps [simp]:
  "next_level f [] = []" "next_level f [x] = [x]" "next_level f (x # y # xs) = f x y # next_level f xs"
  by (simp_all add: next_level_def chunks_2_simps combine_chunk_def)

text \<open>Induction two elements at a time.\<close>

lemma list_two_induct [case_names Nil Single Pair]:
  assumes "P []" and "\<And>x. P [x]" and "\<And>x y xs. P xs \<Longrightarrow> P (x # y # xs)"
  shows "P xs"
proof (induction xs rule: length_induct)
  case (1 xs)
  consider "xs = []" | x where "xs = [x]" | x y ys where "xs = x # y # ys"
    by (metis list.exhaust)
  then show ?case using assms 1 by cases auto
qed

lemma length_next_level: "length (next_level f xs) = (length xs + 1) div 2"
  by (induction xs rule: list_two_induct) simp_all

lemma length_next_level_less: "2 \<le> length xs \<Longrightarrow> length (next_level f xs) < length xs"
  by (simp add: length_next_level)

lemma next_level_eq_Nil [simp]: "next_level f xs = [] \<longleftrightarrow> xs = []"
  using length_next_level [of f xs] by (cases xs) auto

lemma map_next_level: "(\<And>x y. h (f x y) = g (h x) (h y)) \<Longrightarrow> map h (next_level f xs) = next_level g (map h xs)"
  by (induction xs rule: list_two_induct) simp_all

section \<open>The root\<close>

function get_merkle_root :: "crypto \<Rightarrow> bytes list \<Rightarrow> bytes result" where
  "get_merkle_root cr list_of_hashes =
     (if list_of_hashes = [] then Inl RecursionError
      else if length list_of_hashes = 1 then Inr (list_of_hashes ! 0)
      else get_merkle_root cr (next_level (\<lambda>a b. sha256d cr (a @ b)) list_of_hashes))"
  by pat_completeness auto
termination
  by (relation "measure (\<lambda>(cr, xs). length xs)")
    (auto intro!: length_next_level_less simp: Suc_le_eq neq_Nil_conv)

declare get_merkle_root.simps [simp del]

section \<open>The tree\<close>

datatype merkle_node =
    Leaf (node_index: int) (node_value: "bytes option")
  | Inner (node_index: int) merkle_node merkle_node (node_value: "bytes option")

fun merkle_node_hash :: "crypto \<Rightarrow> merkle_node \<Rightarrow> bytes result" where
  "merkle_node_hash cr (Inner i l r (Some v)) = Inl (ValueError ''Only store values at the leaves'')"
| "merkle_node_hash cr (Leaf i (Some v)) = Inr v"
| "merkle_node_hash cr (Leaf i None) = Inr (sha256d cr [])"
| "merkle_node_hash cr (Inner i l r None) =
     rbind (merkle_node_hash cr l) (\<lambda>a. rbind (merkle_node_hash cr r) (\<lambda>b. Inr (sha256d cr (a @ b))))"

definition join_nodes :: "merkle_node \<Rightarrow> merkle_node \<Rightarrow> merkle_node" where
  "join_nodes l r = Inner (node_index l) l r None"

function merkle_tree_of_nodes :: "merkle_node list \<Rightarrow> merkle_node result" where
  "merkle_tree_of_nodes list_of_nodes =
     (if list_of_nodes = [] then Inl RecursionError
      else if length list_of_nodes = 1 then Inr (list_of_nodes ! 0)
      else merkle_tree_of_nodes (next_level join_nodes list_of_nodes))"
  by pat_completeness auto
termination
  by (relation "measure length") (auto intro!: length_next_level_less simp: Suc_le_eq neq_Nil_conv)

declare merkle_tree_of_nodes.simps [simp del]

definition get_merkle_tree :: "bytes list \<Rightarrow> merkle_node result" where
  "get_merkle_tree list_of_hashes =
     merkle_tree_of_nodes (map (\<lambda>(i, h). Leaf (int i) (Some h)) (enumerate 0 list_of_hashes))"

section \<open>Proofs\<close>

fun get_proof :: "crypto \<Rightarrow> merkle_node \<Rightarrow> int \<Rightarrow> merkle_node result" where
  "get_proof cr (Leaf i v) index_of_interest = Inr (Leaf i v)"
| "get_proof cr (Inner i l r v) index_of_interest =
     (if index_of_interest \<ge> node_index r
      then rbind (merkle_node_hash cr l) (\<lambda>h.
           rbind (get_proof cr r index_of_interest) (\<lambda>rec.
           Inr (Inner i (Leaf (node_index l) (Some h)) rec None)))
      else rbind (merkle_node_hash cr r) (\<lambda>h.
           rbind (get_proof cr l index_of_interest) (\<lambda>rec.
           Inr (Inner i rec (Leaf (node_index r) (Some h)) None))))"

section \<open>The tree and the root agree\<close>

lemma get_merkle_root_single: "get_merkle_root cr [h] = Inr h"
  by (simp add: get_merkle_root.simps)

lemma get_merkle_root_level:
  "2 \<le> length xs \<Longrightarrow>
     get_merkle_root cr xs = get_merkle_root cr (next_level (\<lambda>a b. sha256d cr (a @ b)) xs)"
  by (subst get_merkle_root.simps) auto

lemma get_merkle_root_returns: "xs \<noteq> [] \<Longrightarrow> returns (get_merkle_root cr xs)"
  by (induction cr xs rule: get_merkle_root.induct) (subst get_merkle_root.simps, auto)

lemma get_merkle_root_Nil: "get_merkle_root cr [] = Inl RecursionError"
  by (simp add: get_merkle_root.simps)

lemma merkle_tree_of_nodes_Nil: "merkle_tree_of_nodes [] = Inl RecursionError"
  by (simp add: merkle_tree_of_nodes.simps)

lemma merkle_tree_of_nodes_single: "merkle_tree_of_nodes [n] = Inr n"
  by (simp add: merkle_tree_of_nodes.simps)

lemma merkle_tree_of_nodes_level:
  "2 \<le> length ns \<Longrightarrow> merkle_tree_of_nodes ns = merkle_tree_of_nodes (next_level join_nodes ns)"
  by (subst merkle_tree_of_nodes.simps) auto

lemma short_list_cases:
  assumes "\<not> 2 \<le> length xs"
  obtains "xs = []" | x where "xs = [x]"
  using assms by (cases xs; cases "tl xs") auto

text \<open>The hash of a node, when it has one, as a plain function.\<close>

definition hash_of :: "crypto \<Rightarrow> merkle_node \<Rightarrow> bytes" where
  "hash_of cr n = projr (merkle_node_hash cr n)"

lemma join_nodes_hash:
  "returns (merkle_node_hash cr l) \<Longrightarrow> returns (merkle_node_hash cr r) \<Longrightarrow>
     merkle_node_hash cr (join_nodes l r) = Inr (sha256d cr (hash_of cr l @ hash_of cr r))"
  by (auto simp: join_nodes_def hash_of_def)

lemma next_level_nodes:
  "\<forall>n\<in>set ns. returns (merkle_node_hash cr n) \<Longrightarrow>
     (\<forall>n\<in>set (next_level join_nodes ns). returns (merkle_node_hash cr n)) \<and>
     map (hash_of cr) (next_level join_nodes ns) =
       next_level (\<lambda>a b. sha256d cr (a @ b)) (map (hash_of cr) ns)"
  by (induction ns rule: list_two_induct) (auto simp: join_nodes_hash hash_of_def)

lemma merkle_tree_of_nodes_hash:
  "\<forall>n\<in>set ns. returns (merkle_node_hash cr n) \<Longrightarrow>
     rbind (merkle_tree_of_nodes ns) (merkle_node_hash cr) = get_merkle_root cr (map (hash_of cr) ns)"
proof (induction ns rule: merkle_tree_of_nodes.induct)
  case (1 ns)
  show ?case
  proof (cases "2 \<le> length ns")
    case True
    have "rbind (merkle_tree_of_nodes ns) (merkle_node_hash cr) =
        rbind (merkle_tree_of_nodes (next_level join_nodes ns)) (merkle_node_hash cr)"
      using True by (simp add: merkle_tree_of_nodes_level)
    also have "\<dots> = get_merkle_root cr (map (hash_of cr) (next_level join_nodes ns))"
      using True next_level_nodes [OF "1.prems"] by (intro "1.IH") auto
    finally show ?thesis
      using True next_level_nodes [OF "1.prems"] by (simp add: get_merkle_root_level [symmetric])
  next
    case False
    then show ?thesis
      by (rule short_list_cases)
        (use "1.prems" in \<open>auto simp: merkle_tree_of_nodes_Nil merkle_tree_of_nodes_single
          get_merkle_root_Nil get_merkle_root_single hash_of_def\<close>)
  qed
qed

section \<open>Proofs keep the hash and contain the leaf\<close>

lemma get_proof_hash:
  "merkle_node_hash cr t = Inr h \<Longrightarrow> \<exists>p. get_proof cr t i = Inr p \<and> merkle_node_hash cr p = Inr h"
proof (induction t arbitrary: h)
  case (Inner j l r v)
  then obtain a b where "v = None" "merkle_node_hash cr l = Inr a" "merkle_node_hash cr r = Inr b"
    "h = sha256d cr (a @ b)"
    by (cases v) (auto simp: rbind_eq_Inr)
  with Inner.IH show ?case by fastforce
qed auto

fun leaves :: "merkle_node \<Rightarrow> (int \<times> bytes option) list" where
  "leaves (Leaf i v) = [(i, v)]"
| "leaves (Inner i l r v) = leaves l @ leaves r"

fun indexed :: "merkle_node \<Rightarrow> bool" where
  "indexed (Leaf i v) \<longleftrightarrow> True"
| "indexed (Inner i l r v) \<longleftrightarrow>
     v = None \<and> i = node_index l \<and> indexed l \<and> indexed r \<and> (\<forall>p\<in>set (leaves l). fst p < node_index r)"

lemma leaves_nonempty [simp]: "leaves t \<noteq> []"
  by (induction t) simp_all

lemma node_index_first: "indexed t \<Longrightarrow> node_index t = fst (hd (leaves t))"
  by (induction t) simp_all

text \<open>In an indexed tree the walk of \<open>get_proof\<close> ends at the leaf it looks for.\<close>

lemma get_proof_leaf:
  assumes "indexed t" and "sorted (map fst (leaves t))" and "(i, v) \<in> set (leaves t)"
    and "get_proof cr t i = Inr p"
  shows "(i, v) \<in> set (leaves p)"
  using assms
proof (induction t arbitrary: p)
  case (Leaf j w)
  then show ?case by auto
next
  case (Inner j l r w)
  show ?case
  proof (cases "node_index r \<le> i")
    case True
    with Inner.prems(1,3) have "(i, v) \<in> set (leaves r)" by fastforce
    moreover from True Inner.prems(4) obtain a q where "get_proof cr r i = Inr q"
      and "p = Inner j (Leaf (node_index l) (Some a)) q None"
      by (auto simp: rbind_eq_Inr)
    ultimately show ?thesis
      using Inner.IH(2) [of q] Inner.prems(1,2) by (simp add: sorted_append)
  next
    case False
    have "node_index r \<le> fst p" if "p \<in> set (leaves r)" for p
    proof -
      have "sorted (map fst (leaves r))" using Inner.prems(2) by (simp add: sorted_append)
      then have "fst (hd (leaves r)) \<le> fst p"
        using that by (cases "leaves r") auto
      then show ?thesis using Inner.prems(1) by (simp add: node_index_first)
    qed
    with False Inner.prems(3) have "(i, v) \<in> set (leaves l)" by fastforce
    moreover from False Inner.prems(4) obtain a q where "get_proof cr l i = Inr q"
      and "p = Inner j q (Leaf (node_index r) (Some a)) None"
      by (auto simp: rbind_eq_Inr)
    ultimately show ?thesis
      using Inner.IH(1) [of q] Inner.prems(1,2) by (simp add: sorted_append)
  qed
qed

lemma next_level_leaves: "concat (map leaves (next_level join_nodes ns)) = concat (map leaves ns)"
  by (induction ns rule: list_two_induct) (simp_all add: join_nodes_def)

lemma next_level_indexed:
  assumes "\<forall>n\<in>set ns. indexed n" and "sorted_wrt (<) (map fst (concat (map leaves ns)))"
  shows "\<forall>n\<in>set (next_level join_nodes ns). indexed n"
  using assms
proof (induction ns rule: list_two_induct)
  case (Pair x y xs)
  have "\<forall>p\<in>set (leaves x). fst p < fst (hd (leaves y))"
    using Pair.prems(2) hd_in_set [OF leaves_nonempty, of y] by (auto simp: sorted_wrt_append)
  with Pair show ?case
    by (auto simp: join_nodes_def node_index_first sorted_wrt_append)
qed auto

lemma merkle_tree_of_nodes_indexed:
  "merkle_tree_of_nodes ns = Inr t \<Longrightarrow> \<forall>n\<in>set ns. indexed n \<Longrightarrow>
     sorted_wrt (<) (map fst (concat (map leaves ns))) \<Longrightarrow>
     indexed t \<and> leaves t = concat (map leaves ns)"
proof (induction ns rule: merkle_tree_of_nodes.induct)
  case (1 ns)
  show ?case
  proof (cases "2 \<le> length ns")
    case True
    then have "merkle_tree_of_nodes (next_level join_nodes ns) = Inr t"
      using "1.prems"(1) by (simp add: merkle_tree_of_nodes_level)
    moreover have "ns \<noteq> []" "length ns \<noteq> 1" using True by auto
    ultimately show ?thesis
      using "1.IH" next_level_indexed [OF "1.prems"(2,3)] "1.prems"(3)
      by (simp only: next_level_leaves) simp
  next
    case False
    then show ?thesis
      by (rule short_list_cases)
        (use "1.prems" in \<open>auto simp: merkle_tree_of_nodes_Nil merkle_tree_of_nodes_single\<close>)
  qed
qed

lemma get_merkle_tree_shape:
  assumes "get_merkle_tree hs = Inr t"
  shows "indexed t" and "leaves t = map (\<lambda>(i, h). (int i, Some h)) (enumerate 0 hs)"
proof -
  have l: "concat (map leaves (map (\<lambda>(i, h). Leaf (int i) (Some h)) (enumerate n hs))) =
      map (\<lambda>(i, h). (int i, Some h)) (enumerate n hs)" for n
    by (induction hs arbitrary: n) simp_all
  have s: "map fst (map (\<lambda>(i, h). (int i, Some h)) (enumerate 0 hs)) = map int [0..<length hs]"
    by (intro nth_equalityI) (simp_all add: nth_enumerate_eq)
  have "sorted_wrt (<) (map int [0..<length hs])" by (simp add: sorted_wrt_map)
  with merkle_tree_of_nodes_indexed [OF assms [unfolded get_merkle_tree_def]]
  show "indexed t" and "leaves t = map (\<lambda>(i, h). (int i, Some h)) (enumerate 0 hs)"
    unfolding l s by (auto split: prod.splits)
qed

section \<open>Binding\<close>

text \<open>
  Equal roots of two lists of the same length mean equal lists, unless the pair of lists exhibits
  a collision of the hash on 64-byte inputs.
\<close>

definition collision64 :: "crypto \<Rightarrow> bool" where
  "collision64 cr \<longleftrightarrow> (\<exists>a b. a \<noteq> b \<and> length a = 64 \<and> length b = 64 \<and> sha256d cr a = sha256d cr b)"

lemma next_level_injective:
  assumes "digests_ok cr" and "\<not> collision64 cr" and "length xs = length ys"
    and "\<forall>h\<in>set xs \<union> set ys. length h = 32"
    and "next_level (\<lambda>a b. sha256d cr (a @ b)) xs = next_level (\<lambda>a b. sha256d cr (a @ b)) ys"
  shows "xs = ys"
  using assms(3-5)
proof (induction xs arbitrary: ys rule: list_two_induct)
  case (Pair x y xs)
  then obtain x' y' ys' where ys: "ys = x' # y' # ys'"
    by (metis length_Suc_conv)
  with Pair.prems have eq: "sha256d cr (x @ y) = sha256d cr (x' @ y')" by simp
  have "x @ y = x' @ y'"
  proof (rule ccontr)
    assume "x @ y \<noteq> x' @ y'"
    with eq Pair.prems(2) ys have "collision64 cr"
      unfolding collision64_def by (intro exI [of _ "x @ y"] exI [of _ "x' @ y'"]) simp
    with assms(2) show False ..
  qed
  with Pair ys show ?case by simp
next
  case Nil
  then show ?case by simp
next
  case (Single x)
  then obtain y where "ys = [y]" by (cases ys) auto
  with Single show ?case by simp
qed

lemma next_level_digests:
  "digests_ok cr \<Longrightarrow> \<forall>h\<in>set xs. length h = 32 \<Longrightarrow>
     \<forall>h\<in>set (next_level (\<lambda>a b. sha256d cr (a @ b)) xs). length h = 32"
  by (induction xs rule: list_two_induct) (auto simp: length_digests)

lemma get_merkle_root_injective:
  assumes "digests_ok cr" and "\<not> collision64 cr" and "length xs = length ys"
    and "\<forall>h\<in>set xs. length h = 32" and "\<forall>h\<in>set ys. length h = 32"
    and "get_merkle_root cr xs = Inr h" and "get_merkle_root cr ys = Inr h"
  shows "xs = ys"
  using assms
proof (induction cr xs arbitrary: ys rule: get_merkle_root.induct)
  case (1 cr xs)
  let ?n = "next_level (\<lambda>a b. sha256d cr (a @ b))"
  show ?case
  proof (cases "2 \<le> length xs")
    case True
    then have xs: "xs \<noteq> []" "length xs \<noteq> 1" by auto
    have "2 \<le> length ys" using True "1.prems"(3) by simp
    note lx = get_merkle_root_level [OF True, of cr] and ly = get_merkle_root_level [OF this, of cr]
    have "?n xs = ?n ys"
    proof (rule "1.IH" [OF xs "1.prems"(1,2)])
      show "get_merkle_root cr (?n xs) = Inr h" "get_merkle_root cr (?n ys) = Inr h"
        using "1.prems"(6,7) unfolding lx ly .
      show "length (?n xs) = length (?n ys)"
        unfolding length_next_level by (simp only: "1.prems"(3))
    qed (rule next_level_digests [OF "1.prems"(1)], fact "1.prems")+
    then show ?thesis
      by (rule next_level_injective [OF "1.prems"(1-3), rotated]) (use "1.prems"(4,5) in blast)
  next
    case False
    then show ?thesis
    proof (rule short_list_cases)
      assume "xs = []"
      with "1.prems" show ?thesis by simp
    next
      fix x assume x: "xs = [x]"
      then obtain y where "ys = [y]" using "1.prems"(3) by (cases ys) auto
      with x "1.prems" show ?thesis by (simp add: get_merkle_root_single)
    qed
  qed
qed

section \<open>Properties\<close>

text \<open>
  The hash of the Merkle tree of a list is the Merkle root of the list, errors included (on
  the empty list both recurse without end).
\<close>

theorem merkle_tree_matches_root:
  "rbind (get_merkle_tree hs) (merkle_node_hash cr) = get_merkle_root cr hs"
proof -
  have "map (hash_of cr) (map (\<lambda>(i, h). Leaf (int i) (Some h)) (enumerate n hs)) = hs" for n
    by (induction hs arbitrary: n) (simp_all add: hash_of_def)
  then show ?thesis
    unfolding get_merkle_tree_def by (subst merkle_tree_of_nodes_hash) auto
qed

text \<open>
  The inclusion proof cut out of the tree for any index of the list hashes to the Merkle root
  and contains that index's leaf, with its hash.
\<close>

theorem merkle_proof_correct:
  assumes "i < length hs"
  shows "\<exists>p. rbind (get_merkle_tree hs) (\<lambda>t. get_proof cr t (int i)) = Inr p \<and>
           merkle_node_hash cr p = get_merkle_root cr hs \<and> (int i, Some (hs ! i)) \<in> set (leaves p)"
proof -
  have "hs \<noteq> []" using assms by auto
  then obtain h where h: "get_merkle_root cr hs = Inr h"
    using get_merkle_root_returns by blast
  then obtain t where t: "get_merkle_tree hs = Inr t" and "merkle_node_hash cr t = Inr h"
    using merkle_tree_matches_root [of hs cr] by (auto simp: rbind_eq_Inr)
  then obtain p where p: "get_proof cr t (int i) = Inr p" "merkle_node_hash cr p = Inr h"
    using get_proof_hash by blast
  note shape = get_merkle_tree_shape [OF t]
  have fst: "map fst (leaves t) = map int [0..<length hs]"
    unfolding shape(2) by (intro nth_equalityI) (simp_all add: nth_enumerate_eq)
  have "(int i, Some (hs ! i)) \<in> set (leaves t)"
    unfolding shape(2) using assms
    by (auto simp: in_set_enumerate_eq intro!: rev_image_eqI [of "(i, hs ! i)"])
  moreover have "sorted (map fst (leaves t))" unfolding fst by (simp add: sorted_map)
  ultimately have "(int i, Some (hs ! i)) \<in> set (leaves p)"
    using get_proof_leaf [OF shape(1)] p(1) by blast
  with p t h show ?thesis by auto
qed

theorem merkle_proof_correct_witness:
  "\<exists>p. rbind (get_merkle_tree [[1], [2], [3]]) (\<lambda>t. get_proof toy_crypto t 2) = Inr p \<and>
     (2, Some [3]) \<in> set (leaves p)"
  using merkle_proof_correct [of 2 "[[1], [2], [3]]" toy_crypto] by auto

text \<open>
  The Merkle root binds the list: two lists of the same number of 32-byte hashes with the same
  root are equal, unless two different 64-byte strings have the same double SHA-256.
\<close>

theorem merkle_root_binding:
  assumes "digests_ok cr" and "length xs = length ys"
    and "\<forall>h\<in>set xs. length h = 32" and "\<forall>h\<in>set ys. length h = 32"
    and "get_merkle_root cr xs = Inr h" and "get_merkle_root cr ys = Inr h"
  shows "xs = ys \<or> collision64 cr"
  using get_merkle_root_injective [of cr xs ys h] assms by blast

theorem merkle_root_binding_witness:
  "[zero_hash, zero_hash] = [zero_hash, zero_hash] \<or> collision64 toy_crypto"
  by (rule merkle_root_binding [OF toy_digests_ok, where h = zero_hash])
    (simp_all add: get_merkle_root.simps toy_digest_def zero_hash_def)

end
