(* ===== verification/Pow.thy ===== *)
theory Pow
  imports Datatypes
begin

text \<open>
  Model of \<open>skepticoin/pow.py\<close>: choosing bytes from earlier blocks under the control of a hash. The
  callback \<open>get_block_by_height\<close> is an argument. The loop of \<open>select_block_slice\<close> would not end on an
  empty block, so it is a \<open>partial_function\<close>; it is shown to return on every other block (and the
  modulo before it raises on the empty one).
\<close>

section \<open>Selecting a block and a slice\<close>

text \<open>Python's \<open>%\<close> on integers.\<close>

definition py_mod :: "int \<Rightarrow> int \<Rightarrow> int result" where
  "py_mod a b = (if b = 0 then Inl ZeroDivisionError else Inr (a mod b))"

definition select_block_height :: "bytes \<Rightarrow> int \<Rightarrow> int result" where
  "select_block_height input_hash current_height =
     (let base = be_value (take 8 input_hash) in py_mod base current_height)"

text \<open>\<open>while len(result) < length\<close>\<close>

partial_function (option) slice_loop :: "bytes \<Rightarrow> nat \<Rightarrow> nat \<Rightarrow> bytes \<Rightarrow> bytes option" where
  "slice_loop serialized_block len start res =
     (if length res < len
      then slice_loop serialized_block len 0 (res @ take (len - length res) (drop start serialized_block))
      else Some res)"

definition select_block_slice :: "bytes \<Rightarrow> bytes \<Rightarrow> nat \<Rightarrow> bytes result" where
  "select_block_slice hash serialized_block len =
     (let base = be_value (take 4 (drop 8 hash)) in
      rbind (py_mod base (int (length serialized_block))) (\<lambda>start.
      case slice_loop serialized_block len (nat start) [] of
        None \<Rightarrow> Inl NonTermination
      | Some res \<Rightarrow> Inr res))"

definition select_slice_from_chain ::
  "bytes \<Rightarrow> int \<Rightarrow> (int \<Rightarrow> block result) \<Rightarrow> nat \<Rightarrow> bytes result" where
  "select_slice_from_chain input_hash current_height get_block_by_height len =
     rbind (select_block_height input_hash current_height) (\<lambda>selected_block_height.
     rbind (get_block_by_height selected_block_height) (\<lambda>selected_block.
     rbind (stream_serialize_block selected_block) (\<lambda>serialized_block.
     select_block_slice input_hash serialized_block len)))"

text \<open>
  \<open>for i in range(n)\<close>, with the number of rounds left as the recursion argument; the hash is
  advanced in every round but the last.
\<close>

fun select_slices_loop ::
  "crypto \<Rightarrow> nat \<Rightarrow> bytes \<Rightarrow> int \<Rightarrow> (int \<Rightarrow> block result) \<Rightarrow> nat \<Rightarrow> bytes list result" where
  "select_slices_loop cr 0 current_hash current_height get_block_by_height k = Inr []"
| "select_slices_loop cr (Suc left) current_hash current_height get_block_by_height k =
     rbind (select_slice_from_chain current_hash current_height get_block_by_height k) (\<lambda>b.
     rbind (select_slices_loop cr left
         (if left \<noteq> 0 then sha256d cr (current_hash @ b) else current_hash)
         current_height get_block_by_height k) (\<lambda>bs.
     Inr (b # bs)))"

definition select_n_k_length_slices_from_chain ::
  "crypto \<Rightarrow> bytes \<Rightarrow> int \<Rightarrow> (int \<Rightarrow> block result) \<Rightarrow> nat \<Rightarrow> nat \<Rightarrow> bytes result" where
  "select_n_k_length_slices_from_chain cr starting_hash current_height get_block_by_height n k =
     rbind (select_slices_loop cr n starting_hash current_height get_block_by_height k)
       (\<lambda>slices. Inr (concat slices))"

section \<open>The loop returns a cyclic slice\<close>

text \<open>What the loop computes: \<open>len\<close> bytes of the block, read round and round from \<open>start\<close>.\<close>

definition cyclic_slice :: "bytes \<Rightarrow> nat \<Rightarrow> nat \<Rightarrow> bytes" where
  "cyclic_slice blk start len = map (\<lambda>i. blk ! ((start + i) mod length blk)) [0..<len]"

lemma length_cyclic_slice [simp]: "length (cyclic_slice blk start len) = len"
  by (simp add: cyclic_slice_def)

lemma cyclic_slice_split:
  assumes "start < length blk" and "n \<le> length blk - start" and "n \<le> len"
  shows "cyclic_slice blk start len = take n (drop start blk) @ cyclic_slice blk (start + n) (len - n)"
proof (rule nth_equalityI)
  fix i assume "i < length (cyclic_slice blk start len)"
  with assms show "cyclic_slice blk start len ! i =
      (take n (drop start blk) @ cyclic_slice blk (start + n) (len - n)) ! i"
    by (auto simp: cyclic_slice_def nth_append)
qed (use assms in simp)

lemma cyclic_slice_wrap: "cyclic_slice blk (length blk) len = cyclic_slice blk 0 len"
  by (simp add: cyclic_slice_def)

lemma slice_loop_cyclic:
  assumes "blk \<noteq> []" and "start < length blk"
  shows "slice_loop blk (length res + len) start res = Some (res @ cyclic_slice blk start len)"
  using assms(2)
proof (induction len arbitrary: start res rule: less_induct)
  case (less len)
  show ?case
  proof (cases "len = 0")
    case True
    then show ?thesis by (subst slice_loop.simps) (simp add: cyclic_slice_def)
  next
    case False
    let ?n = "min len (length blk - start)"
    let ?s = "take len (drop start blk)"
    have s: "length ?s = ?n" "?s = take ?n (drop start blk)" by (simp_all add: min_def)
    have len: "length res + len = length (res @ ?s) + (len - ?n)" using s(1) by simp
    have "slice_loop blk (length res + len) start res = slice_loop blk (length res + len) 0 (res @ ?s)"
      using False by (subst slice_loop.simps) simp
    also have "\<dots> = slice_loop blk (length (res @ ?s) + (len - ?n)) 0 (res @ ?s)" by (simp only: len)
    also have "\<dots> = Some ((res @ ?s) @ cyclic_slice blk 0 (len - ?n))"
      using False less.prems assms(1) by (intro less.IH) auto
    finally have loop: "slice_loop blk (length res + len) start res =
      Some (res @ ?s @ cyclic_slice blk 0 (len - ?n))" by simp
    have "?s @ cyclic_slice blk 0 (len - ?n) = cyclic_slice blk start len"
    proof (cases "len \<le> length blk - start")
      case True
      then show ?thesis
        using cyclic_slice_split [of start blk len len] less.prems by (simp add: cyclic_slice_def)
    next
      case False
      then show ?thesis
        using cyclic_slice_split [of start blk "length blk - start" len] less.prems s(2)
        by (simp add: cyclic_slice_wrap)
    qed
    with loop show ?thesis by simp
  qed
qed

lemma select_block_slice_eq:
  "blk \<noteq> [] \<Longrightarrow> select_block_slice hash blk len =
     Inr (cyclic_slice blk (nat (be_value (take 4 (drop 8 hash)) mod int (length blk))) len)"
  using slice_loop_cyclic [of blk "nat (be_value (take 4 (drop 8 hash)) mod int (length blk))" "[]" len]
  by (simp add: select_block_slice_def py_mod_def nat_less_iff)

lemma select_slices_loop_lengths:
  "select_slices_loop cr n h ch f k = Inr bs \<Longrightarrow> length bs = n \<and> (\<forall>b\<in>set bs. length b = k)"
proof (induction n arbitrary: h bs)
  case (Suc n)
  then obtain b bs' blk where "bs = b # bs'" "length bs' = n" "\<forall>b\<in>set bs'. length b = k"
    and b: "select_block_slice h blk k = Inr b"
    by (auto simp: rbind_eq_Inr select_slice_from_chain_def)
  moreover have "blk \<noteq> []" using b by (auto simp: select_block_slice_def py_mod_def)
  ultimately show ?case using b by (auto simp: select_block_slice_eq)
qed simp

text \<open>
  On every non-empty block \<open>select_block_slice\<close> returns, and byte \<open>i\<close> of its answer is byte
  \<open>(base + i) mod len(block)\<close> of the block, \<open>base\<close> the big-endian value of bytes 8 to 11 of the hash.
\<close>

theorem select_block_slice_cyclic:
  assumes "blk \<noteq> []"
  shows "\<exists>res. select_block_slice hash blk len = Inr res \<and> length res = len \<and>
    (\<forall>i\<in>{..<len}. res ! i =
       blk ! nat ((be_value (take 4 (drop 8 hash)) + int i) mod int (length blk)))"
proof -
  let ?b = "be_value (take 4 (drop 8 hash))"
  have "int ((nat (?b mod int (length blk)) + i) mod length blk) = (?b + int i) mod int (length blk)" for i
    using assms by (simp add: zmod_int mod_add_left_eq)
  then have "(nat (?b mod int (length blk)) + i) mod length blk = nat ((?b + int i) mod int (length blk))" for i
    by (metis nat_int)
  then show ?thesis
    by (simp add: select_block_slice_eq [OF assms] cyclic_slice_def)
qed

theorem select_block_slice_cyclic_witness:
  "\<exists>res. select_block_slice [0,0,0,0,0,0,0,0,0,0,0,5] [10,11,12] 4 = Inr res \<and> length res = 4"
  using select_block_slice_cyclic [of "[10,11,12]" "[0,0,0,0,0,0,0,0,0,0,0,5]" 4] by blast

end
