(* ===== verification/Balances.thy ===== *)
theory Balances
  imports Datatypes
begin

text \<open>
  Model of \<open>skepticoin/balances.py\<close>: how a transaction and a block change the unspent outputs and
  the balances per public key, and the balances computed (and cached) from a whole chain. The
  \<open>immutables.Map\<close>s are maps; \<open>del\<close> and \<open>[]\<close> on an absent key raise. Shown: what applying a
  transaction does exactly, that it raises on a double spend, how the total value moves, and that
  the balances per key always describe the unspent outputs.
\<close>

section \<open>Unspent outputs\<close>

type_synonym unspent = "output_reference \<Rightarrow> tx_output option"

record pk_balance =
  pkb_value :: int
  pkb_refs :: "output_reference list"

type_synonym balances = "public_key \<Rightarrow> pk_balance option"

text \<open>\<open>del m[k]\<close>\<close>

definition delete_key :: "('k \<Rightarrow> 'v option) \<Rightarrow> 'k \<Rightarrow> ('k \<Rightarrow> 'v option) result" where
  "delete_key m k = (if m k = None then Inl KeyError else Inr (m(k := None)))"

text \<open>One round of \<open>for i, output in enumerate(transaction.outputs)\<close>.\<close>

definition add_output :: "crypto \<Rightarrow> transaction \<Rightarrow> unspent \<Rightarrow> nat \<times> tx_output \<Rightarrow> unspent result" where
  "add_output cr t u = (\<lambda>(i, output).
     rbind (transaction_hash cr t) (\<lambda>h.
     rbind (mk_output_reference h (int i)) (\<lambda>output_reference.
     Inr (u(output_reference \<mapsto> output)))))"

definition uto_apply_transaction :: "crypto \<Rightarrow> unspent \<Rightarrow> transaction \<Rightarrow> bool \<Rightarrow> unspent result" where
  "uto_apply_transaction cr u t is_coinbase =
     rbind (if is_coinbase then Inr u
            else rfold (\<lambda>u i. delete_key u (inp_output_reference i)) u (tx_inputs t)) (\<lambda>u.
     rfold (add_output cr t) u (enumerate 0 (tx_outputs t)))"

definition uto_apply_block :: "crypto \<Rightarrow> unspent \<Rightarrow> block \<Rightarrow> unspent result" where
  "uto_apply_block cr u b =
     rbind (first_elem (blk_transactions b)) (\<lambda>coinbase.
     rbind (uto_apply_transaction cr u coinbase True) (\<lambda>u.
     rfold (\<lambda>u t. uto_apply_transaction cr u t False) u (tl (blk_transactions b))))"

section \<open>Balances per public key\<close>

definition pkb_spend :: "unspent \<Rightarrow> balances \<Rightarrow> tx_input \<Rightarrow> balances result" where
  "pkb_spend u m input =
     rbind (lookup_key u (inp_output_reference input)) (\<lambda>previously_unspent_output.
     let public_key = out_public_key previously_unspent_output in
     rbind (lookup_key m public_key) (\<lambda>balance.
     Inr (m(public_key \<mapsto>
       \<lparr>pkb_value = pkb_value balance - out_value previously_unspent_output,
        pkb_refs = filter (\<lambda>to. to \<noteq> inp_output_reference input) (pkb_refs balance)\<rparr>))))"

definition pkb_receive :: "crypto \<Rightarrow> transaction \<Rightarrow> balances \<Rightarrow> nat \<times> tx_output \<Rightarrow> balances result" where
  "pkb_receive cr t m = (\<lambda>(i, output).
     rbind (transaction_hash cr t) (\<lambda>h.
     rbind (mk_output_reference h (int i)) (\<lambda>output_reference.
     let m = (if m (out_public_key output) = None
              then m(out_public_key output \<mapsto> \<lparr>pkb_value = 0, pkb_refs = []\<rparr>) else m) in
     rbind (lookup_key m (out_public_key output)) (\<lambda>balance.
     Inr (m(out_public_key output \<mapsto>
       \<lparr>pkb_value = pkb_value balance + out_value output,
        pkb_refs = pkb_refs balance @ [output_reference]\<rparr>))))))"

definition pkb_apply_transaction ::
  "crypto \<Rightarrow> unspent \<Rightarrow> balances \<Rightarrow> transaction \<Rightarrow> bool \<Rightarrow> balances result" where
  "pkb_apply_transaction cr u m t is_coinbase =
     rbind (if is_coinbase then Inr m else rfold (pkb_spend u) m (tx_inputs t)) (\<lambda>m.
     rfold (pkb_receive cr t) m (enumerate 0 (tx_outputs t)))"

definition pkb_apply_block :: "crypto \<Rightarrow> unspent \<Rightarrow> balances \<Rightarrow> block \<Rightarrow> balances result" where
  "pkb_apply_block cr u m b =
     rbind (first_elem (blk_transactions b)) (\<lambda>coinbase.
     rbind (pkb_apply_transaction cr u m coinbase True) (\<lambda>m.
     rfold (\<lambda>m t. pkb_apply_transaction cr u m t False) m (tl (blk_transactions b))))"

section \<open>PublicKeyBalances\<close>

text \<open>
  The object keeps a map of blocks and a cache. The walk back over \<open>previous_block_hash\<close> has no
  bound of its own (\<open>None\<close>: it never ends); consing onto the blocks seen so far is \<open>append\<close>
  followed by \<open>reversed\<close>.
\<close>

record pk_balances_cache =
  pbc_block_by_hash :: "bytes \<Rightarrow> block option"
  pbc_cache :: "bytes \<Rightarrow> balances option"

partial_function (option) chain_loop ::
  "(bytes \<Rightarrow> block option) \<Rightarrow> block \<Rightarrow> block list \<Rightarrow> block list result option" where
  "chain_loop block_by_hash b acc =
     (if block_previous_block_hash b = zero_hash then Some (Inr (b # acc))
      else case block_by_hash (block_previous_block_hash b) of
             None \<Rightarrow> Some (Inl KeyError)
           | Some b' \<Rightarrow> chain_loop block_by_hash b' (b # acc))"

definition chain_at_hash :: "(bytes \<Rightarrow> block option) \<Rightarrow> bytes \<Rightarrow> block list result" where
  "chain_at_hash block_by_hash hash =
     rbind (lookup_key block_by_hash hash) (\<lambda>b.
     case chain_loop block_by_hash b [] of None \<Rightarrow> Inl NonTermination | Some r \<Rightarrow> r)"

definition balances_step :: "crypto \<Rightarrow> balances \<times> unspent \<Rightarrow> block \<Rightarrow> (balances \<times> unspent) result" where
  "balances_step cr = (\<lambda>(m, u) b.
     rbind (pkb_apply_block cr u m b) (\<lambda>m.
     rbind (uto_apply_block cr u b) (\<lambda>u. Inr (m, u))))"

definition public_key_balances_by_hash ::
  "crypto \<Rightarrow> (bytes \<Rightarrow> block option) \<Rightarrow> bytes option \<Rightarrow> balances result" where
  "public_key_balances_by_hash cr block_by_hash head =
     (case head of
        None \<Rightarrow> Inr (\<lambda>_. None)
      | Some hash \<Rightarrow>
          rbind (chain_at_hash block_by_hash hash) (\<lambda>chain.
          rbind (rfold (balances_step cr) (\<lambda>_. None, \<lambda>_. None) chain) (\<lambda>(m, u). Inr m)))"

definition pkb_getitem :: "crypto \<Rightarrow> pk_balances_cache \<Rightarrow> bytes \<Rightarrow> (pk_balances_cache \<times> balances) result" where
  "pkb_getitem cr c key =
     (case pbc_cache c key of
        Some m \<Rightarrow> Inr (c, m)
      | None \<Rightarrow>
          rbind (public_key_balances_by_hash cr (pbc_block_by_hash c) (Some key)) (\<lambda>m.
          Inr (c\<lparr>pbc_cache := (pbc_cache c)(key \<mapsto> m)\<rparr>, m)))"

section \<open>What applying a transaction does\<close>

definition input_refs :: "transaction \<Rightarrow> output_reference list" where
  "input_refs t = map inp_output_reference (tx_inputs t)"

text \<open>The outputs of a transaction with hash \<open>h\<close>, under the references they get.\<close>

definition created :: "bytes \<Rightarrow> tx_output list \<Rightarrow> unspent" where
  "created h outs r =
     (if ref_hash r = h \<and> 0 \<le> ref_index r \<and> ref_index r < int (length outs)
      then Some (outs ! nat (ref_index r)) else None)"

lemma delete_key_eq_Inr [result_simps]: "delete_key m k = Inr m' \<longleftrightarrow> k \<in> dom m \<and> m' = m(k := None)"
  by (auto simp: delete_key_def)

lemma delete_all_eq_Inr:
  "rfold (\<lambda>u i. delete_key u (f i)) u xs = Inr u' \<longleftrightarrow>
     distinct (map f xs) \<and> f ` set xs \<subseteq> dom u \<and> u' = u |` (- f ` set xs)"
proof (induction xs arbitrary: u)
  case Nil
  then show ?case by (auto simp: restrict_map_def)
next
  case (Cons x xs)
  have "(u(f x := None)) |` (- f ` set xs) = u |` (- f ` set (x # xs))"
    by (auto simp: restrict_map_def)
  moreover have "f ` set xs \<subseteq> dom (u(f x := None)) \<longleftrightarrow> f x \<notin> f ` set xs \<and> f ` set xs \<subseteq> dom u"
    by (auto simp: dom_def image_iff) (metis option.distinct(1))?
  ultimately show ?case
    by (auto simp: rbind_eq_Inr delete_key_eq_Inr Cons.IH)
qed

lemma delete_all_error:
  "rfold (\<lambda>u i. delete_key u (f i)) u xs = Inl e \<Longrightarrow> e = KeyError"
  by (induction xs arbitrary: u) (auto simp: rbind_eq_Inl delete_key_def split: if_splits)

text \<open>The references made while numbering from \<open>n\<close>.\<close>

definition created_from :: "nat \<Rightarrow> bytes \<Rightarrow> tx_output list \<Rightarrow> unspent" where
  "created_from n h outs r =
     (if ref_hash r = h \<and> int n \<le> ref_index r \<and> ref_index r < int (n + length outs)
      then Some (outs ! (nat (ref_index r) - n)) else None)"

lemma created_from_0: "created_from 0 h outs = created h outs"
  by (auto simp: created_from_def created_def fun_eq_iff)

lemma created_Nil [simp]: "created h [] = Map.empty"
  by (auto simp: created_def)

lemma created_from_Nil [simp]: "created_from n h [] = Map.empty"
  by (auto simp: created_from_def)

lemma created_from_Cons:
  "m ++ created_from n h (p # outs) =
     m(\<lparr>ref_hash = h, ref_index = int n\<rparr> \<mapsto> p) ++ created_from (Suc n) h outs"
proof
  fix r :: output_reference
  obtain i where r: "r = \<lparr>ref_hash = ref_hash r, ref_index = i\<rparr>" by (metis output_reference.surjective old.unit.exhaust)
  show "(m ++ created_from n h (p # outs)) r =
     (m(\<lparr>ref_hash = h, ref_index = int n\<rparr> \<mapsto> p) ++ created_from (Suc n) h outs) r"
    by (subst (1 2) r, cases "i = int n")
      (auto simp: map_add_def created_from_def nth_Cons' split: option.splits)
qed

lemma add_outputs_eq_Inr:
  "rfold (add_output cr t) u (enumerate n outs) = Inr u' \<longleftrightarrow>
     (if outs = [] then u' = u
      else \<exists>h. transaction_hash cr t = Inr h \<and> length h = 32 \<and> n + length outs \<le> 2 ^ 32 \<and>
             u' = u ++ created_from n h outs)"
proof (induction outs arbitrary: n u)
  case Nil
  then show ?case by auto
next
  case (Cons p outs)
  have step: "add_output cr t u (n, p) = Inr v \<longleftrightarrow> (\<exists>h. transaction_hash cr t = Inr h \<and> length h = 32 \<and>
      n < 2 ^ 32 \<and> v = u(\<lparr>ref_hash = h, ref_index = int n\<rparr> \<mapsto> p))" for v
    by (auto simp: add_output_def result_simps)
  show ?case
  proof (cases "outs = []")
    case True
    then show ?thesis by (auto simp: rbind_eq_Inr step created_from_Cons)
  next
    case False
    then have "rfold (add_output cr t) v (enumerate (Suc n) outs) = Inr u' \<longleftrightarrow>
        (\<exists>h. transaction_hash cr t = Inr h \<and> length h = 32 \<and> Suc n + length outs \<le> 2 ^ 32 \<and>
           u' = v ++ created_from (Suc n) h outs)" for v
      by (simp only: Cons.IH if_False)
    then show ?thesis
      by (auto simp: rbind_eq_Inr step created_from_Cons)
  qed
qed

text \<open>
  Applying a transaction succeeds exactly when its inputs (unless it is a coinbase) are distinct
  and unspent and its outputs can be numbered; it then removes the former and adds the latter.
\<close>

definition tx_outputs_ok :: "crypto \<Rightarrow> transaction \<Rightarrow> bool" where
  "tx_outputs_ok cr t \<longleftrightarrow> tx_outputs t = [] \<or>
     (\<exists>h. transaction_hash cr t = Inr h \<and> length h = 32) \<and> length (tx_outputs t) \<le> 2 ^ 32"

definition tx_created :: "crypto \<Rightarrow> transaction \<Rightarrow> unspent" where
  "tx_created cr t = created (projr (transaction_hash cr t)) (tx_outputs t)"

definition tx_spent :: "transaction \<Rightarrow> bool \<Rightarrow> output_reference set" where
  "tx_spent t is_coinbase = (if is_coinbase then {} else set (input_refs t))"

lemma uto_apply_transaction_eq_Inr:
  "uto_apply_transaction cr u t cb = Inr u' \<longleftrightarrow>
     (\<not> cb \<longrightarrow> distinct (input_refs t)) \<and> tx_spent t cb \<subseteq> dom u \<and> tx_outputs_ok cr t \<and>
     u' = u |` (- tx_spent t cb) ++ tx_created cr t"
proof -
  have "rfold (add_output cr t) v (enumerate 0 (tx_outputs t)) = Inr u' \<longleftrightarrow>
      tx_outputs_ok cr t \<and> u' = v ++ tx_created cr t" for v
    unfolding add_outputs_eq_Inr created_from_0 tx_outputs_ok_def tx_created_def
    by auto
  moreover have "u |` (- {}) = u" by (simp add: restrict_map_def)
  ultimately show ?thesis
    by (auto simp: uto_apply_transaction_def rbind_eq_Inr delete_all_eq_Inr tx_spent_def input_refs_def)
qed

section \<open>Total value\<close>

definition values_nonneg :: "unspent \<Rightarrow> bool" where
  "values_nonneg u \<longleftrightarrow> (\<forall>r p. u r = Some p \<longrightarrow> 0 \<le> out_value p)"

definition value_at :: "unspent \<Rightarrow> output_reference \<Rightarrow> int" where
  "value_at u r = (case u r of None \<Rightarrow> 0 | Some p \<Rightarrow> out_value p)"

definition total_value :: "unspent \<Rightarrow> int" where
  "total_value u = (\<Sum>r\<in>dom u. value_at u r)"

definition outputs_value :: "transaction \<Rightarrow> int" where
  "outputs_value t = (\<Sum>p\<leftarrow>tx_outputs t. out_value p)"

definition outputs_nonneg :: "transaction \<Rightarrow> bool" where
  "outputs_nonneg t \<longleftrightarrow> (\<forall>p\<in>set (tx_outputs t). 0 \<le> out_value p)"

lemma value_at_nonneg: "values_nonneg u \<Longrightarrow> 0 \<le> value_at u r"
  by (simp add: value_at_def values_nonneg_def split: option.split)

lemma value_at_restrict: "value_at (u |` A) r = (if r \<in> A then value_at u r else 0)"
  by (simp add: value_at_def restrict_map_def)

lemma restrict_map_UNIV [simp]: "u |` UNIV = u"
  by (simp add: restrict_map_def)

lemma total_value_empty [simp]: "total_value Map.empty = 0"
  by (simp add: total_value_def)

lemma values_nonneg_restrict: "values_nonneg u \<Longrightarrow> values_nonneg (u |` A)"
  by (auto simp: values_nonneg_def restrict_map_def split: if_splits)

lemma total_value_restrict: "total_value (u |` A) = (\<Sum>r\<in>dom u \<inter> A. value_at u r)"
  unfolding total_value_def dom_restrict by (intro sum.cong) (auto simp: value_at_restrict)

lemma total_value_restrict_mono:
  "finite (dom u) \<Longrightarrow> values_nonneg u \<Longrightarrow> A \<subseteq> B \<Longrightarrow> total_value (u |` A) \<le> total_value (u |` B)"
  unfolding total_value_restrict by (intro sum_mono2) (auto simp: value_at_nonneg)

lemma total_value_remove:
  assumes "finite (dom u)" and "S \<subseteq> dom u"
  shows "total_value (u |` (- S)) = total_value u - (\<Sum>r\<in>S. value_at u r)"
proof -
  have "dom u \<inter> - S = dom u - S" by auto
  then show ?thesis
    unfolding total_value_restrict unfolding total_value_def using assms by (simp add: sum_diff)
qed

lemma total_value_map_add:
  assumes "finite (dom u)" and "finite (dom c)"
  shows "total_value (u ++ c) = total_value (u |` (- dom c)) + total_value c"
proof -
  have "dom (u ++ c) = (dom u \<inter> - dom c) \<union> dom c" by auto
  then have "total_value (u ++ c) =
      (\<Sum>r\<in>dom u \<inter> - dom c. value_at (u ++ c) r) + (\<Sum>r\<in>dom c. value_at (u ++ c) r)"
    unfolding total_value_def using assms by (subst sum.union_disjoint [symmetric]) auto
  also have "(\<Sum>r\<in>dom u \<inter> - dom c. value_at (u ++ c) r) = total_value (u |` (- dom c))"
    unfolding total_value_restrict
    by (intro sum.cong) (auto simp: value_at_def map_add_def dom_def split: option.split)
  also have "(\<Sum>r\<in>dom c. value_at (u ++ c) r) = total_value c"
    unfolding total_value_def by (intro sum.cong) (auto simp: value_at_def)
  finally show ?thesis .
qed

lemma dom_created: "dom (created h outs) = (\<lambda>i. \<lparr>ref_hash = h, ref_index = int i\<rparr>) ` {..<length outs}"
proof (intro set_eqI iffI)
  fix r :: output_reference assume "r \<in> dom (created h outs)"
  then have "r = \<lparr>ref_hash = h, ref_index = int (nat (ref_index r))\<rparr>" "nat (ref_index r) < length outs"
    by (auto simp: created_def split: if_splits)
  then show "r \<in> (\<lambda>i. \<lparr>ref_hash = h, ref_index = int i\<rparr>) ` {..<length outs}" by blast
qed (auto simp: created_def)

lemma total_value_created: "total_value (created h outs) = (\<Sum>p\<leftarrow>outs. out_value p)"
proof -
  have "total_value (created h outs) =
      (\<Sum>i<length outs. value_at (created h outs) \<lparr>ref_hash = h, ref_index = int i\<rparr>)"
    unfolding total_value_def dom_created by (subst sum.reindex) (auto simp: inj_on_def)
  also have "\<dots> = (\<Sum>i<length outs. out_value (outs ! i))"
    by (intro sum.cong) (auto simp: value_at_def created_def)
  also have "\<dots> = (\<Sum>p\<leftarrow>outs. out_value p)"
    by (simp add: sum_list_sum_nth atLeast0LessThan)
  finally show ?thesis .
qed

lemma total_value_tx_created: "total_value (tx_created cr t) = outputs_value t"
  by (simp add: tx_created_def total_value_created outputs_value_def)

lemma finite_tx_created [simp]: "finite (dom (tx_created cr t))"
  by (simp add: tx_created_def dom_created)

lemma values_nonneg_tx_created: "outputs_nonneg t \<Longrightarrow> values_nonneg (tx_created cr t)"
  by (auto simp: values_nonneg_def tx_created_def created_def outputs_nonneg_def split: if_splits)

text \<open>
  One step, restricted to any set of references: the value there is at most what was there
  before and is not spent, plus the outputs. (At most, because an output can replace an unspent
  one if two transactions have the same hash.)
\<close>

lemma uto_apply_transaction_value:
  assumes "uto_apply_transaction cr u t cb = Inr u'"
    and "finite (dom u)" and "values_nonneg u" and "outputs_nonneg t"
  shows "finite (dom u')" and "values_nonneg u'"
    and "total_value (u' |` A) \<le> total_value (u |` (A - tx_spent t cb)) + outputs_value t"
proof -
  have u': "u' = u |` (- tx_spent t cb) ++ tx_created cr t"
    using assms(1) by (simp add: uto_apply_transaction_eq_Inr)
  show "finite (dom u')" using assms(2) by (simp add: u')
  show "values_nonneg u'"
    using assms(3) values_nonneg_tx_created [OF assms(4), of cr]
    by (auto simp: u' values_nonneg_def map_add_def restrict_map_def split: option.splits if_splits)
  let ?v = "u |` (A - tx_spent t cb)" and ?c = "tx_created cr t |` A"
  have "u' |` A = ?v ++ ?c"
    by (auto simp: u' restrict_map_def map_add_def fun_eq_iff split: option.split)
  then have "total_value (u' |` A) = total_value (?v |` (- dom ?c)) + total_value ?c"
    using assms(2) by (simp add: total_value_map_add)
  also have "total_value (?v |` (- dom ?c)) \<le> total_value ?v"
    using total_value_restrict_mono [of ?v "- dom ?c" UNIV] assms(2,3)
    by (simp add: values_nonneg_restrict)
  also have "total_value ?c \<le> total_value (tx_created cr t |` UNIV)"
    using assms(4) by (intro total_value_restrict_mono) (simp_all add: values_nonneg_tx_created)
  also have "\<dots> = outputs_value t" by (simp add: total_value_tx_created)
  finally show "total_value (u' |` A) \<le> total_value (u |` (A - tx_spent t cb)) + outputs_value t"
    by simp
qed

lemma uto_apply_transactions_value:
  assumes "rfold (\<lambda>u t. uto_apply_transaction cr u t False) u ts = Inr u'"
    and "finite (dom u)" and "values_nonneg u" and "\<forall>t\<in>set ts. outputs_nonneg t"
  shows "finite (dom u') \<and> values_nonneg u' \<and>
    (\<forall>A. total_value (u' |` A) \<le>
       total_value (u |` (A - \<Union> (set ` input_refs ` set ts))) + sum_list (map outputs_value ts))"
  using assms
proof (induction ts arbitrary: u)
  case (Cons t ts)
  then obtain v where v: "uto_apply_transaction cr u t False = Inr v"
    and rest: "rfold (\<lambda>u t. uto_apply_transaction cr u t False) v ts = Inr u'"
    by (auto simp: rbind_eq_Inr)
  note step = uto_apply_transaction_value [OF v Cons.prems(2,3)]
  have IH: "finite (dom u') \<and> values_nonneg u' \<and> (\<forall>A. total_value (u' |` A) \<le>
       total_value (v |` (A - \<Union> (set ` input_refs ` set ts))) + sum_list (map outputs_value ts))"
    using step Cons.prems(4) by (intro Cons.IH [OF rest]) auto
  have one: "total_value (v |` (A - \<Union> (set ` input_refs ` set ts))) \<le>
      total_value (u |` (A - \<Union> (set ` input_refs ` set (t # ts)))) + outputs_value t" for A
  proof -
    let ?R = "\<Union> (set ` input_refs ` set ts)"
    have "A - \<Union> (set ` input_refs ` set (t # ts)) = A - ?R - tx_spent t False"
      by (auto simp: tx_spent_def)
    with step(3) [of "A - ?R"] Cons.prems(4) show ?thesis by simp
  qed
  have "total_value (u' |` A) \<le>
      total_value (u |` (A - \<Union> (set ` input_refs ` set (t # ts)))) + sum_list (map outputs_value (t # ts))" for A
  proof -
    note one [of A]
    moreover have "total_value (u' |` A) \<le>
        total_value (v |` (A - \<Union> (set ` input_refs ` set ts))) + sum_list (map outputs_value ts)"
      using IH by blast
    ultimately show ?thesis by simp
  qed
  with IH show ?case by blast
qed simp

lemma uto_apply_block_value:
  assumes "uto_apply_block cr u b = Inr u'"
    and "finite (dom u)" and "values_nonneg u" and "\<forall>t\<in>set (blk_transactions b). outputs_nonneg t"
  shows "finite (dom u')" and "values_nonneg u'"
    and "total_value u' \<le> total_value (u |` (- \<Union> (set ` input_refs ` set (tl (blk_transactions b))))) +
           sum_list (map outputs_value (blk_transactions b))"
proof -
  obtain c ts v where b: "blk_transactions b = c # ts" and v: "uto_apply_transaction cr u c True = Inr v"
    and ts: "rfold (\<lambda>u t. uto_apply_transaction cr u t False) v ts = Inr u'"
    using assms(1) by (auto simp: uto_apply_block_def result_simps)
  note step = uto_apply_transaction_value [OF v assms(2,3)]
  let ?R = "\<Union> (set ` input_refs ` set ts)"
  have rest: "finite (dom u') \<and> values_nonneg u' \<and> (\<forall>A. total_value (u' |` A) \<le>
      total_value (v |` (A - ?R)) + sum_list (map outputs_value ts))"
    using step assms(4) b by (intro uto_apply_transactions_value [OF ts]) auto
  then show "finite (dom u')" and "values_nonneg u'" by auto
  have "total_value (u' |` UNIV) \<le> total_value (v |` (UNIV - ?R)) + sum_list (map outputs_value ts)"
    using rest by blast
  moreover have "total_value (v |` (UNIV - ?R)) \<le> total_value (u |` (UNIV - ?R)) + outputs_value c"
    using step(3) [of "UNIV - ?R"] assms(4) b by (simp add: tx_spent_def)
  ultimately show "total_value u' \<le> total_value (u |` (- \<Union> (set ` input_refs ` set (tl (blk_transactions b))))) +
           sum_list (map outputs_value (blk_transactions b))"
    by (simp add: b Compl_eq_Diff_UNIV)
qed

section \<open>Balances describe the unspent outputs\<close>

definition owned :: "unspent \<Rightarrow> public_key \<Rightarrow> output_reference set" where
  "owned u k = {r. \<exists>p. u r = Some p \<and> out_public_key p = k}"

definition balance_ok :: "unspent \<Rightarrow> public_key \<Rightarrow> pk_balance \<Rightarrow> bool" where
  "balance_ok u k b \<longleftrightarrow> distinct (pkb_refs b) \<and> set (pkb_refs b) = owned u k \<and>
     pkb_value b = (\<Sum>r\<leftarrow>pkb_refs b. value_at u r)"

definition describes :: "unspent \<Rightarrow> balances \<Rightarrow> bool" where
  "describes u m \<longleftrightarrow> (\<forall>k. case m k of None \<Rightarrow> owned u k = {} | Some b \<Rightarrow> balance_ok u k b)"

lemma describes_empty: "describes Map.empty Map.empty"
  by (simp add: describes_def owned_def)

lemma describes_SomeD: "describes u m \<Longrightarrow> m k = Some b \<Longrightarrow> balance_ok u k b"
  unfolding describes_def by (metis option.simps(5))

lemma describes_NoneD: "describes u m \<Longrightarrow> m k = None \<Longrightarrow> owned u k = {}"
  unfolding describes_def by (metis option.simps(4))

text \<open>Only the entry of one key changes.\<close>

lemma describes_upd:
  assumes "describes u m" and "balance_ok u' k b"
    and "\<And>k'. k' \<noteq> k \<Longrightarrow> owned u' k' = owned u k'"
    and "\<And>r p. u r = Some p \<Longrightarrow> out_public_key p \<noteq> k \<Longrightarrow> u' r = Some p"
  shows "describes u' (m(k \<mapsto> b))"
  unfolding describes_def
proof
  fix k'
  show "case (m(k \<mapsto> b)) k' of None \<Rightarrow> owned u' k' = {} | Some b \<Rightarrow> balance_ok u' k' b"
  proof (cases "k' = k")
    case False
    show ?thesis
    proof (cases "m k'")
      case None
      with False assms(1,3) show ?thesis by (simp add: describes_NoneD)
    next
      case (Some b')
      with assms(1) have ok: "balance_ok u k' b'" by (rule describes_SomeD)
      have "value_at u' r = value_at u r" if "r \<in> set (pkb_refs b')" for r
      proof -
        from that ok obtain p where "u r = Some p" "out_public_key p = k'"
          by (auto simp: balance_ok_def owned_def)
        with assms(4) False show ?thesis by (simp add: value_at_def)
      qed
      then have "(\<Sum>r\<leftarrow>pkb_refs b'. value_at u' r) = (\<Sum>r\<leftarrow>pkb_refs b'. value_at u r)"
        by (intro arg_cong [where f = sum_list] map_cong) auto
      with Some False ok assms(3) show ?thesis by (simp add: balance_ok_def)
    qed
  qed (simp add: assms(2))
qed

lemma pkb_receive_describes:
  assumes "describes u m" and "transaction_hash cr t = Inr h" and "length h = 32" and "n < 2 ^ 32"
    and "u \<lparr>ref_hash = h, ref_index = int n\<rparr> = None"
  shows "\<exists>m'. pkb_receive cr t m (n, p) = Inr m' \<and>
    describes (u(\<lparr>ref_hash = h, ref_index = int n\<rparr> \<mapsto> p)) m'"
proof -
  let ?r = "\<lparr>ref_hash = h, ref_index = int n\<rparr>" and ?k = "out_public_key p"
  obtain b where ok: "balance_ok u ?k b" and b: "b = (case m ?k of None \<Rightarrow> \<lparr>pkb_value = 0, pkb_refs = []\<rparr> | Some b \<Rightarrow> b)"
  proof (cases "m ?k")
    case None
    with describes_NoneD [OF assms(1)] that show ?thesis by (simp add: balance_ok_def)
  qed (use describes_SomeD [OF assms(1)] that in simp)
  let ?b = "\<lparr>pkb_value = pkb_value b + out_value p, pkb_refs = pkb_refs b @ [?r]\<rparr>"
  have "pkb_receive cr t m (n, p) = Inr (m(?k \<mapsto> ?b))"
    using assms(2-4)
    by (cases "m ?k") (simp_all add: pkb_receive_def mk_output_reference_def lookup_key_def Let_def b)
  moreover have "describes (u(?r \<mapsto> p)) (m(?k \<mapsto> ?b))"
  proof (rule describes_upd [OF assms(1)])
    have notin: "?r \<notin> set (pkb_refs b)" using ok assms(5) by (auto simp: balance_ok_def owned_def)
    then have "(\<Sum>r\<leftarrow>pkb_refs b. value_at (u(?r \<mapsto> p)) r) = (\<Sum>r\<leftarrow>pkb_refs b. value_at u r)"
      by (intro arg_cong [where f = sum_list] map_cong) (auto simp: value_at_def)
    with ok notin assms(5) show "balance_ok (u(?r \<mapsto> p)) ?k ?b"
      by (auto simp: balance_ok_def owned_def value_at_def)
  qed (use assms(5) in \<open>auto simp: owned_def\<close>)
  ultimately show ?thesis by blast
qed

lemma pkb_spend_describes:
  assumes "describes v m" and "v (inp_output_reference i) = Some p" and "u (inp_output_reference i) = Some p"
  shows "\<exists>m'. pkb_spend u m i = Inr m' \<and> describes (v(inp_output_reference i := None)) m'"
proof -
  let ?r = "inp_output_reference i" and ?k = "out_public_key p"
  have own: "?r \<in> owned v ?k" using assms(2) by (simp add: owned_def)
  obtain b where b: "m ?k = Some b"
    using own describes_NoneD [OF assms(1), of ?k] by (cases "m ?k") auto
  note ok = describes_SomeD [OF assms(1) b]
  let ?b = "\<lparr>pkb_value = pkb_value b - out_value p, pkb_refs = filter (\<lambda>to. to \<noteq> ?r) (pkb_refs b)\<rparr>"
  have "pkb_spend u m i = Inr (m(?k \<mapsto> ?b))"
    using assms(3) b by (simp add: pkb_spend_def lookup_key_def Let_def)
  moreover have "describes (v(?r := None)) (m(?k \<mapsto> ?b))"
  proof (rule describes_upd [OF assms(1)])
    have fs: "filter (\<lambda>to. to \<noteq> ?r) (pkb_refs b) = remove1 ?r (pkb_refs b)"
      using ok by (simp add: balance_ok_def distinct_remove1_removeAll removeAll_filter_not_eq)
        (metis)
    have "(\<Sum>r\<leftarrow>remove1 ?r (pkb_refs b). value_at (v(?r := None)) r) =
        (\<Sum>r\<leftarrow>remove1 ?r (pkb_refs b). value_at v r)"
      using ok by (intro arg_cong [where f = sum_list] map_cong) (auto simp: value_at_def balance_ok_def)
    also have "\<dots> = (\<Sum>r\<leftarrow>pkb_refs b. value_at v r) - value_at v ?r"
      using ok own by (simp add: sum_list_map_remove1 balance_ok_def)
    finally have sum: "(\<Sum>r\<leftarrow>remove1 ?r (pkb_refs b). value_at (v(?r := None)) r) =
        pkb_value b - out_value p"
      using ok assms(2) by (simp add: balance_ok_def value_at_def [of v ?r])
    have "set (remove1 ?r (pkb_refs b)) = owned (v(?r := None)) ?k"
      using ok by (auto simp: balance_ok_def owned_def)
    with ok sum show "balance_ok (v(?r := None)) ?k ?b"
      by (simp add: balance_ok_def fs)
  qed (use assms(2) in \<open>auto simp: owned_def\<close>)
  ultimately show ?thesis by blast
qed

lemma pkb_spend_all_describes:
  assumes "describes v m" and "distinct (map inp_output_reference xs)"
    and "\<forall>r\<in>inp_output_reference ` set xs. r \<in> dom v \<and> u r = v r"
  shows "\<exists>m'. rfold (pkb_spend u) m xs = Inr m' \<and> describes (v |` (- inp_output_reference ` set xs)) m'"
  using assms
proof (induction xs arbitrary: v m)
  case (Cons i xs)
  let ?r = "inp_output_reference i"
  from Cons.prems obtain p where "v ?r = Some p" "u ?r = Some p" by auto
  with Cons.prems(1) obtain m1 where m1: "pkb_spend u m i = Inr m1" "describes (v(?r := None)) m1"
    using pkb_spend_describes by blast
  have "\<exists>m'. rfold (pkb_spend u) m1 xs = Inr m' \<and>
      describes (v(?r := None) |` (- inp_output_reference ` set xs)) m'"
    using Cons.prems by (intro Cons.IH m1(2)) (auto, (metis imageI)+)
  moreover have "v(?r := None) |` (- inp_output_reference ` set xs) = v |` (- inp_output_reference ` set (i # xs))"
    by (auto simp: restrict_map_def)
  ultimately show ?case by (simp add: m1(1) del: restrict_fun_upd)
qed simp

lemma pkb_receive_all_describes:
  assumes "describes v m" and "transaction_hash cr t = Inr h" and "length h = 32"
    and "n + length outs \<le> 2 ^ 32" and "dom (created_from n h outs) \<inter> dom v = {}"
  shows "\<exists>m'. rfold (pkb_receive cr t) m (enumerate n outs) = Inr m' \<and> describes (v ++ created_from n h outs) m'"
  using assms(1,4,5)
proof (induction outs arbitrary: v m n)
  case (Cons p outs)
  let ?r = "\<lparr>ref_hash = h, ref_index = int n\<rparr>"
  have "?r \<in> dom (created_from n h (p # outs))" by (auto simp: created_from_def)
  with Cons.prems have "v ?r = None" by blast
  with Cons.prems assms(2,3) obtain m1
    where m1: "pkb_receive cr t m (n, p) = Inr m1" "describes (v(?r \<mapsto> p)) m1"
    using pkb_receive_describes [of v m cr t h n p] by auto
  have "dom (created_from (Suc n) h outs) \<subseteq> dom (created_from n h (p # outs)) - {?r}"
    by (auto simp: created_from_def split: if_splits)
  moreover have "dom (v(?r \<mapsto> p)) = insert ?r (dom v)" by simp
  ultimately have "dom (created_from (Suc n) h outs) \<inter> dom (v(?r \<mapsto> p)) = {}"
    using Cons.prems(3) by blast
  with Cons.prems(2) have "\<exists>m'. rfold (pkb_receive cr t) m1 (enumerate (Suc n) outs) = Inr m' \<and>
      describes (v(?r \<mapsto> p) ++ created_from (Suc n) h outs) m'"
    by (intro Cons.IH m1(2)) (simp_all del: dom_fun_upd fun_upd_apply)
  then show ?case by (simp add: m1(1) created_from_Cons)
qed simp

text \<open>The lookups go to \<open>u\<close>, the state before the block; \<open>v\<close> is the state just before \<open>t\<close>.\<close>

lemma pkb_apply_transaction_describes:
  assumes "uto_apply_transaction cr v t cb = Inr v'" and "describes v m"
    and "\<forall>r\<in>tx_spent t cb. u r = v r"
    and "dom (tx_created cr t) \<inter> dom v = {}"
  shows "\<exists>m'. pkb_apply_transaction cr u m t cb = Inr m' \<and> describes v' m'"
proof -
  let ?w = "v |` (- tx_spent t cb)"
  have eq: "(\<not> cb \<longrightarrow> distinct (input_refs t))" "tx_spent t cb \<subseteq> dom v" "tx_outputs_ok cr t"
    "v' = ?w ++ tx_created cr t"
    using assms(1) by (auto simp: uto_apply_transaction_eq_Inr)
  obtain m1 where m1: "(if cb then Inr m else rfold (pkb_spend u) m (tx_inputs t)) = Inr m1"
    "describes ?w m1"
  proof (cases cb)
    case True
    with assms(2) that show ?thesis by (simp add: tx_spent_def restrict_map_def)
  next
    case False
    then have "\<exists>m'. rfold (pkb_spend u) m (tx_inputs t) = Inr m' \<and>
        describes (v |` (- inp_output_reference ` set (tx_inputs t))) m'"
      using eq assms(3) by (intro pkb_spend_all_describes assms(2)) (auto simp: tx_spent_def input_refs_def)
    with False that show ?thesis by (auto simp: tx_spent_def input_refs_def)
  qed
  show ?thesis
  proof (cases "tx_outputs t = []")
    case True
    with m1 eq show ?thesis by (simp add: pkb_apply_transaction_def tx_created_def)
  next
    case False
    with eq(3) obtain h where h: "transaction_hash cr t = Inr h" "length h = 32"
      "length (tx_outputs t) \<le> 2 ^ 32" by (auto simp: tx_outputs_ok_def)
    then have "dom (created_from 0 h (tx_outputs t)) \<inter> dom ?w = {}"
      using assms(4) by (auto simp: tx_created_def created_from_0)
    with h have "\<exists>m'. rfold (pkb_receive cr t) m1 (enumerate 0 (tx_outputs t)) = Inr m' \<and>
        describes (?w ++ created_from 0 h (tx_outputs t)) m'"
      by (intro pkb_receive_all_describes m1(2)) auto
    with h m1 eq(4) show ?thesis
      by (simp add: pkb_apply_transaction_def tx_created_def created_from_0)
  qed
qed

text \<open>
  What the consensus rules promise about a block: its spending transactions name outputs that were
  unspent before the block, and transaction hashes do not repeat.
\<close>

definition block_fresh :: "crypto \<Rightarrow> unspent \<Rightarrow> block \<Rightarrow> bool" where
  "block_fresh cr u b \<longleftrightarrow>
     (\<forall>t\<in>set (tl (blk_transactions b)). set (input_refs t) \<subseteq> dom u) \<and>
     (\<forall>t\<in>set (blk_transactions b). dom (tx_created cr t) \<inter> dom u = {}) \<and>
     distinct (map (\<lambda>t. projr (transaction_hash cr t)) (blk_transactions b))"

lemma tx_created_disjoint:
  "projr (transaction_hash cr t) \<noteq> projr (transaction_hash cr t') \<Longrightarrow>
     dom (tx_created cr t) \<inter> dom (tx_created cr t') = {}"
  by (auto simp: tx_created_def dom_created)

lemma pkb_apply_transactions_describes:
  assumes "rfold (\<lambda>v t. uto_apply_transaction cr v t False) v ts = Inr v'" and "describes v m"
    and "\<forall>t\<in>set ts. set (input_refs t) \<subseteq> dom u \<and> dom (tx_created cr t) \<inter> (dom u \<union> dom v) = {}"
    and "distinct (map (\<lambda>t. projr (transaction_hash cr t)) ts)"
    and "\<forall>r\<in>dom u \<inter> dom v. u r = v r"
  shows "\<exists>m'. rfold (\<lambda>m t. pkb_apply_transaction cr u m t False) m ts = Inr m' \<and> describes v' m'"
  using assms
proof (induction ts arbitrary: v m)
  case (Cons t ts)
  from Cons.prems(1) obtain w where w: "uto_apply_transaction cr v t False = Inr w"
    and rest: "rfold (\<lambda>v t. uto_apply_transaction cr v t False) w ts = Inr v'"
    by (auto simp: rbind_eq_Inr)
  then have eq: "tx_spent t False \<subseteq> dom v" "w = v |` (- tx_spent t False) ++ tx_created cr t"
    by (auto simp: uto_apply_transaction_eq_Inr)
  have "\<forall>r\<in>tx_spent t False. u r = v r"
    using eq(1) Cons.prems(3,5) by (auto simp: tx_spent_def)
  moreover have "dom (tx_created cr t) \<inter> dom v = {}" using Cons.prems(3) by auto
  ultimately obtain m1 where m1: "pkb_apply_transaction cr u m t False = Inr m1" "describes w m1"
    using pkb_apply_transaction_describes [OF w Cons.prems(2)] by blast
  have dw: "dom w \<subseteq> dom v \<union> dom (tx_created cr t)" by (auto simp: eq(2))
  have "dom (tx_created cr t') \<inter> (dom u \<union> dom w) = {}" if "t' \<in> set ts" for t'
  proof -
    have "dom (tx_created cr t') \<inter> dom (tx_created cr t) = {}"
      using that Cons.prems(4) by (intro tx_created_disjoint) (auto simp: rev_image_eqI)
    moreover have "dom (tx_created cr t') \<inter> (dom u \<union> dom v) = {}" using Cons.prems(3) that by simp
    ultimately show ?thesis using dw by blast
  qed
  moreover have "u r = w r" if "r \<in> dom u" "r \<in> dom w" for r
  proof -
    have "tx_created cr t r = None" using Cons.prems(3) that by auto
    with that eq(2) Cons.prems(5) show ?thesis
      by (auto simp: map_add_def restrict_map_def split: if_splits)
  qed
  ultimately have "\<exists>m'. rfold (\<lambda>m t. pkb_apply_transaction cr u m t False) m1 ts = Inr m' \<and> describes v' m'"
    using Cons.prems by (intro Cons.IH [OF rest m1(2)]) auto
  then show ?case by (simp add: m1(1))
qed simp

lemma pkb_apply_block_describes:
  assumes "uto_apply_block cr u b = Inr u'" and "describes u m" and "block_fresh cr u b"
  shows "\<exists>m'. pkb_apply_block cr u m b = Inr m' \<and> describes u' m'"
proof -
  obtain c ts v where b: "blk_transactions b = c # ts" and v: "uto_apply_transaction cr u c True = Inr v"
    and ts: "rfold (\<lambda>u t. uto_apply_transaction cr u t False) v ts = Inr u'"
    using assms(1) by (auto simp: uto_apply_block_def result_simps)
  then have v_eq: "v = u ++ tx_created cr c"
    by (auto simp: uto_apply_transaction_eq_Inr tx_spent_def restrict_map_def)
  obtain m1 where m1: "pkb_apply_transaction cr u m c True = Inr m1" "describes v m1"
    using pkb_apply_transaction_describes [OF v assms(2), of u] assms(3) b
    by (auto simp: tx_spent_def block_fresh_def)
  have "\<exists>m'. rfold (\<lambda>m t. pkb_apply_transaction cr u m t False) m1 ts = Inr m' \<and> describes u' m'"
  proof (rule pkb_apply_transactions_describes [OF ts m1(2)])
    show "\<forall>t\<in>set ts. set (input_refs t) \<subseteq> dom u \<and> dom (tx_created cr t) \<inter> (dom u \<union> dom v) = {}"
    proof
      fix t assume t: "t \<in> set ts"
      have "dom (tx_created cr t) \<inter> dom (tx_created cr c) = {}"
        using t assms(3) b by (intro tx_created_disjoint) (auto simp: block_fresh_def rev_image_eqI)
      moreover have "dom (tx_created cr t) \<inter> dom u = {}" "set (input_refs t) \<subseteq> dom u"
        using t assms(3) b by (auto simp: block_fresh_def)
      ultimately show "set (input_refs t) \<subseteq> dom u \<and> dom (tx_created cr t) \<inter> (dom u \<union> dom v) = {}"
        by (auto simp: v_eq)
    qed
    show "\<forall>r\<in>dom u \<inter> dom v. u r = v r"
      using assms(3) b by (auto simp: v_eq map_add_def block_fresh_def split: option.splits)
  qed (use assms(3) b in \<open>simp add: block_fresh_def\<close>)
  then show ?thesis by (simp add: pkb_apply_block_def first_elem_def b m1(1))
qed

section \<open>The cache of balances\<close>

text \<open>What every entry of the cache holds.\<close>

definition cache_ok :: "crypto \<Rightarrow> pk_balances_cache \<Rightarrow> bool" where
  "cache_ok cr c \<longleftrightarrow> (\<forall>key m. pbc_cache c key = Some m \<longrightarrow>
     public_key_balances_by_hash cr (pbc_block_by_hash c) (Some key) = Inr m)"

lemma pkb_getitem_ok:
  assumes "cache_ok cr c" and "pkb_getitem cr c key = Inr (c', m)"
  shows "cache_ok cr c' \<and> pbc_block_by_hash c' = pbc_block_by_hash c \<and>
    public_key_balances_by_hash cr (pbc_block_by_hash c) (Some key) = Inr m"
  using assms by (auto simp: pkb_getitem_def cache_ok_def result_simps split: option.splits if_splits)

section \<open>Properties\<close>

text \<open>Example values: a block around some transactions, an output, a reference.\<close>

definition sample_block :: "int \<Rightarrow> bytes \<Rightarrow> bytes \<Rightarrow> transaction list \<Rightarrow> block" where
  "sample_block h prev hash txs =
     \<lparr>blk_header =
        \<lparr>hd_summary = \<lparr>bs_height = h, bs_previous_block_hash = prev, bs_merkle_root_hash = zero_hash,
           bs_timestamp = h, bs_target = zero_hash, bs_nonce = 0\<rparr>,
         hd_pow_evidence = \<lparr>pe_summary_hash = zero_hash, pe_chain_sample = zero_hash, pe_block_hash = zero_hash\<rparr>\<rparr>,
      blk_transactions = txs, blk_cached_hash = Some hash\<rparr>"

lemma sample_block_simps [simp]:
  "blk_transactions (sample_block h prev hash txs) = txs"
  "block_height (sample_block h prev hash txs) = h"
  "block_previous_block_hash (sample_block h prev hash txs) = prev"
  "blk_cached_hash (sample_block h prev hash txs) = Some hash"
  by (simp_all add: sample_block_def block_height_def block_previous_block_hash_def)

definition sample_hash :: "byte \<Rightarrow> bytes" where
  "sample_hash k = replicate 32 k"

definition sample_output :: "int \<Rightarrow> byte \<Rightarrow> tx_output" where
  "sample_output v k = \<lparr>out_value = v, out_public_key = SECP256k1PublicKey (replicate 64 k)\<rparr>"

definition sample_input :: "byte \<Rightarrow> int \<Rightarrow> byte \<Rightarrow> tx_input" where
  "sample_input h i k = \<lparr>inp_output_reference = \<lparr>ref_hash = sample_hash h, ref_index = i\<rparr>,
     inp_signature = Some (SECP256k1Signature (replicate 64 k))\<rparr>"

definition sample_transaction :: "byte \<Rightarrow> tx_input list \<Rightarrow> tx_output list \<Rightarrow> transaction" where
  "sample_transaction h ins outs = \<lparr>tx_inputs = ins, tx_outputs = outs, tx_cached_hash = Some (sample_hash h)\<rparr>"

lemma length_sample_hash [simp]: "length (sample_hash k) = 32"
  by (simp add: sample_hash_def)

lemma sample_hash_eq [simp]: "sample_hash k = sample_hash l \<longleftrightarrow> k = l"
  by (simp add: sample_hash_def)

lemma sample_hash_nonempty [simp]: "sample_hash k \<noteq> []"
  by (simp add: sample_hash_def)

lemma sample_transaction_simps [simp]:
  "tx_inputs (sample_transaction h ins outs) = ins" "tx_outputs (sample_transaction h ins outs) = outs"
  "transaction_hash cr (sample_transaction h ins outs) = Inr (sample_hash h)"
  by (simp_all add: sample_transaction_def transaction_hash_def cached_or_def)

lemma block_hash_sample_block [simp]: "hash \<noteq> [] \<Longrightarrow> block_hash cr (sample_block h prev hash txs) = Inr hash"
  by (simp add: block_hash_def cached_or_def)

text \<open>
  Applying a transaction to the unspent outputs succeeds exactly when (unless it is a coinbase)
  its inputs name pairwise different unspent outputs, and its outputs can be numbered under its
  hash; the result is the old map without the spent outputs and with the new ones.
\<close>

theorem uto_apply_transaction_exact:
  "uto_apply_transaction cr u t is_coinbase = Inr u' \<longleftrightarrow>
     (is_coinbase \<or> distinct (input_refs t)) \<and> tx_spent t is_coinbase \<subseteq> dom u \<and> tx_outputs_ok cr t \<and>
     u' = u |` (- tx_spent t is_coinbase) ++ tx_created cr t"
  unfolding uto_apply_transaction_eq_Inr by auto

text \<open>
  A double spend is never applied: a transaction other than a coinbase that names an output
  twice or names one that is not unspent raises \<open>KeyError\<close>.
\<close>

theorem uto_double_spend_raises:
  assumes "\<not> distinct (input_refs t) \<or> \<not> set (input_refs t) \<subseteq> dom u"
  shows "uto_apply_transaction cr u t False = Inl KeyError"
proof -
  let ?loop = "rfold (\<lambda>u i. delete_key u (inp_output_reference i)) u (tx_inputs t)"
  have "?loop \<noteq> Inr v" for v
    using assms by (auto simp: delete_all_eq_Inr input_refs_def)
  then obtain e where "?loop = Inl e" by (cases ?loop) auto
  with delete_all_error show ?thesis by (auto simp: uto_apply_transaction_def)
qed

theorem uto_double_spend_raises_witness:
  "uto_apply_transaction toy_crypto [\<lparr>ref_hash = sample_hash 1, ref_index = 0\<rparr> \<mapsto> sample_output 5 3]
     (sample_transaction 2 [sample_input 1 0 3, sample_input 1 0 3] [sample_output 9 4]) False = Inl KeyError"
  by (rule uto_double_spend_raises) (simp add: input_refs_def sample_input_def)

text \<open>
  C26: applying a block keeps the balances per public key in step with the unspent outputs: if the
  balances describe the state before (for every key exactly its unspent references, each once,
  and the sum of their values), and the block's spends name outputs unspent before the block and
  its transaction hashes are new, then \<open>pkb_apply_block\<close> returns, and its result describes the
  state after.
\<close>

theorem pkb_apply_block_consistent:
  assumes "uto_apply_block cr u b = Inr u'" and "describes u m" and "block_fresh cr u b"
  shows "\<exists>m'. pkb_apply_block cr u m b = Inr m' \<and> describes u' m'"
  using assms by (rule pkb_apply_block_describes)

theorem pkb_apply_block_consistent_witness:
  "\<exists>m'. pkb_apply_block toy_crypto [\<lparr>ref_hash = sample_hash 1, ref_index = 0\<rparr> \<mapsto> sample_output 5 3]
     [SECP256k1PublicKey (replicate 64 3) \<mapsto>
        \<lparr>pkb_value = 5, pkb_refs = [\<lparr>ref_hash = sample_hash 1, ref_index = 0\<rparr>]\<rparr>]
     (sample_block 1 zero_hash zero_hash
        [sample_transaction 8 [] [sample_output 10 3],
         sample_transaction 9 [sample_input 1 0 3] [sample_output 4 7]]) = Inr m'"
proof -
  let ?r = "\<lparr>ref_hash = sample_hash 1, ref_index = 0\<rparr>"
  let ?u = "[?r \<mapsto> sample_output 5 3]"
    and ?m = "[SECP256k1PublicKey (replicate 64 3) \<mapsto> \<lparr>pkb_value = 5, pkb_refs = [?r]\<rparr>]"
    and ?b = "sample_block 1 zero_hash zero_hash
        [sample_transaction 8 [] [sample_output 10 3],
         sample_transaction 9 [sample_input 1 0 3] [sample_output 4 7]]"
  have "\<exists>u'. uto_apply_block toy_crypto ?u ?b = Inr u'"
    by (auto simp: uto_apply_block_def first_elem_def rbind_eq_Inr uto_apply_transaction_eq_Inr
        tx_spent_def tx_outputs_ok_def input_refs_def sample_input_def tx_created_def created_def)
  moreover have "describes ?u ?m"
    by (auto simp: describes_def balance_ok_def owned_def sample_output_def value_at_def)
  moreover have "block_fresh toy_crypto ?u ?b"
    by (simp add: block_fresh_def input_refs_def sample_input_def tx_created_def created_def dom_def)
  ultimately show ?thesis using pkb_apply_block_consistent by blast
qed

end
