(* ===== verification/Coinstate.thy ===== *)
theory Coinstate
  imports Balances
begin

text \<open>
  Model of \<open>skepticoin/coinstate.py\<close>: the immutable state of the block tree. Shown: over all
  states reached by adding blocks that attach, each new and one higher than its stored parent, the maps agree with the
  block tree (the unspent outputs and the height index of every block are those of its own chain),
  \<open>heads\<close> are the blocks without children, and the current head is a highest one, the first seen.
  \<open>add_block\<close>, which validates first, is in the theory \<open>Consensus\<close>; \<open>zero\<close> is in \<open>Genesis\<close>.
\<close>

section \<open>State\<close>

record coinstate =
  cs_block_by_hash :: "bytes \<Rightarrow> block option"
  cs_unspent_transaction_outs_by_hash :: "bytes \<Rightarrow> unspent option"
  cs_block_by_height_by_hash :: "bytes \<Rightarrow> (int \<Rightarrow> block option) option"
  cs_heads :: "bytes \<Rightarrow> block option"
  cs_current_chain_hash :: "bytes option"
  cs_public_key_balances_by_hash :: pk_balances_cache

text \<open>\<open>CoinState.__init__\<close>: the balances start with an empty cache.\<close>

definition mk_coinstate ::
  "(bytes \<Rightarrow> block option) \<Rightarrow> (bytes \<Rightarrow> unspent option) \<Rightarrow> (bytes \<Rightarrow> (int \<Rightarrow> block option) option) \<Rightarrow>
   (bytes \<Rightarrow> block option) \<Rightarrow> bytes option \<Rightarrow> coinstate" where
  "mk_coinstate block_by_hash unspent block_by_height heads current =
     \<lparr>cs_block_by_hash = block_by_hash, cs_unspent_transaction_outs_by_hash = unspent,
      cs_block_by_height_by_hash = block_by_height, cs_heads = heads, cs_current_chain_hash = current,
      cs_public_key_balances_by_hash = \<lparr>pbc_block_by_hash = block_by_hash, pbc_cache = Map.empty\<rparr>\<rparr>"

lemma mk_coinstate_simps [simp]:
  "cs_block_by_hash (mk_coinstate b u n hs c) = b"
  "cs_unspent_transaction_outs_by_hash (mk_coinstate b u n hs c) = u"
  "cs_block_by_height_by_hash (mk_coinstate b u n hs c) = n"
  "cs_heads (mk_coinstate b u n hs c) = hs"
  "cs_current_chain_hash (mk_coinstate b u n hs c) = c"
  "cs_public_key_balances_by_hash (mk_coinstate b u n hs c) = \<lparr>pbc_block_by_hash = b, pbc_cache = Map.empty\<rparr>"
  by (simp_all add: mk_coinstate_def)

definition empty_coinstate :: coinstate where
  "empty_coinstate = mk_coinstate Map.empty Map.empty Map.empty Map.empty None"

section \<open>Adding a block\<close>

text \<open>The pieces of \<open>add_block_no_validation\<close>: the parent's unspent outputs, the new height index, the new head.\<close>

definition parent_unspent :: "coinstate \<Rightarrow> block \<Rightarrow> unspent result" where
  "parent_unspent cs b =
     (if block_previous_block_hash b = zero_hash then Inr Map.empty
      else lookup_key (cs_unspent_transaction_outs_by_hash cs) (block_previous_block_hash b))"

definition next_height_index ::
  "coinstate \<Rightarrow> block \<Rightarrow> bytes \<Rightarrow> (bytes \<Rightarrow> (int \<Rightarrow> block option) option) result" where
  "next_height_index cs b hash =
     (if block_previous_block_hash b = zero_hash then Inr [hash \<mapsto> [0 \<mapsto> b]]
      else rbind (lookup_key (cs_block_by_height_by_hash cs) (block_previous_block_hash b)) (\<lambda>block_by_height.
           Inr ((cs_block_by_height_by_hash cs)(hash \<mapsto> block_by_height(block_height b \<mapsto> b)))))"

definition next_current_chain_hash :: "coinstate \<Rightarrow> block \<Rightarrow> bytes \<Rightarrow> bytes result" where
  "next_current_chain_hash cs b hash =
     (case cs_current_chain_hash cs of
        None \<Rightarrow> Inr hash
      | Some current \<Rightarrow>
          if current = block_previous_block_hash b then Inr hash
          else rbind (lookup_key (cs_block_by_hash cs) current) (\<lambda>current_block.
               Inr (if get_total_work current_block < get_total_work b then hash else current)))"

definition add_block_no_validation :: "crypto \<Rightarrow> coinstate \<Rightarrow> block \<Rightarrow> coinstate result" where
  "add_block_no_validation cr cs b =
     rbind (parent_unspent cs b) (\<lambda>unspent_transaction_outs.
     rbind (uto_apply_block cr unspent_transaction_outs b) (\<lambda>unspent_transaction_outs.
     rbind (block_hash cr b) (\<lambda>hash.
     rbind (next_height_index cs b hash) (\<lambda>block_by_height_by_hash.
     rbind (next_current_chain_hash cs b hash) (\<lambda>current_chain_hash.
     Inr (mk_coinstate
       ((cs_block_by_hash cs)(hash \<mapsto> b))
       ((cs_unspent_transaction_outs_by_hash cs)(hash \<mapsto> unspent_transaction_outs))
       block_by_height_by_hash
       ((cs_heads cs)(block_previous_block_hash b := None, hash \<mapsto> b))
       (Some current_chain_hash)))))))"

section \<open>Reading the state\<close>

definition cs_head :: "coinstate \<Rightarrow> block result" where
  "cs_head cs =
     (case cs_current_chain_hash cs of None \<Rightarrow> Inl KeyError | Some h \<Rightarrow> lookup_key (cs_block_by_hash cs) h)"

text \<open>\<open>assert self.current_chain_hash\<close>, which also fails on an empty byte string.\<close>

definition assert_current :: "coinstate \<Rightarrow> bytes result" where
  "assert_current cs =
     (case cs_current_chain_hash cs of
        None \<Rightarrow> Inl AssertionError
      | Some h \<Rightarrow> if h = [] then Inl AssertionError else Inr h)"

definition by_height_at_head :: "coinstate \<Rightarrow> (int \<Rightarrow> block option) result" where
  "by_height_at_head cs = rbind (assert_current cs) (lookup_key (cs_block_by_height_by_hash cs))"

definition unspent_at_head :: "coinstate \<Rightarrow> unspent result" where
  "unspent_at_head cs = rbind (assert_current cs) (lookup_key (cs_unspent_transaction_outs_by_hash cs))"

text \<open>The balances at the head; the lookup fills the cache, so the state comes back with it.\<close>

definition balances_at_head :: "crypto \<Rightarrow> coinstate \<Rightarrow> (coinstate \<times> balances) result" where
  "balances_at_head cr cs =
     rbind (assert_current cs) (\<lambda>h.
     rbind (pkb_getitem cr (cs_public_key_balances_by_hash cs) h) (\<lambda>(c, m).
     Inr (cs\<lparr>cs_public_key_balances_by_hash := c\<rparr>, m)))"

text \<open>
  \<open>forks\<close>: for every head the last common ancestor with the main chain. The order in which
  \<open>heads.values()\<close> comes out of the hash map is the argument \<open>heads\<close>.
\<close>

partial_function (option) find_lca_with_main :: "crypto \<Rightarrow> coinstate \<Rightarrow> block \<Rightarrow> block result option" where
  "find_lca_with_main cr cs b =
     (case by_height_at_head cs of
        Inl e \<Rightarrow> Some (Inl e)
      | Inr by_height \<Rightarrow>
          (case (case by_height (block_height b) of
                   None \<Rightarrow> Inr True
                 | Some main \<Rightarrow> rbind (block_hash cr main) (\<lambda>h. rbind (block_hash cr b) (\<lambda>h'. Inr (h \<noteq> h')))) of
             Inl e \<Rightarrow> Some (Inl e)
           | Inr off_main \<Rightarrow>
               if off_main
               then (case cs_block_by_hash cs (block_previous_block_hash b) of
                       None \<Rightarrow> Some (Inl KeyError)
                     | Some b' \<Rightarrow> find_lca_with_main cr cs b')
               else Some (Inr b)))"

definition forks :: "crypto \<Rightarrow> coinstate \<Rightarrow> block list \<Rightarrow> (block \<times> block) list result" where
  "forks cr cs heads =
     rmap (\<lambda>head. rbind (case find_lca_with_main cr cs head of None \<Rightarrow> Inl NonTermination | Some r \<Rightarrow> r)
             (\<lambda>lca. Inr (head, lca))) heads"

section \<open>The chain of a block\<close>

text \<open>The blocks from the genesis block to the block with hash \<open>h\<close>, in that order.\<close>

inductive chain_to :: "(bytes \<Rightarrow> block option) \<Rightarrow> bytes \<Rightarrow> block list \<Rightarrow> bool" for blocks where
  genesis: "blocks h = Some b \<Longrightarrow> block_previous_block_hash b = zero_hash \<Longrightarrow> chain_to blocks h [b]"
| extend: "chain_to blocks (block_previous_block_hash b) chain \<Longrightarrow> blocks h = Some b \<Longrightarrow>
    block_previous_block_hash b \<noteq> zero_hash \<Longrightarrow> chain_to blocks h (chain @ [b])"

inductive_cases chain_toE: "chain_to blocks h chain"

lemma chain_to_last: "chain_to blocks h chain \<Longrightarrow> chain \<noteq> [] \<and> blocks h = Some (last chain)"
  by (cases rule: chain_to.cases) auto

lemma chain_to_unique: "chain_to blocks h c \<Longrightarrow> chain_to blocks h c' \<Longrightarrow> c = c'"
proof (induction arbitrary: c' rule: chain_to.induct)
  case (genesis h b)
  from genesis(3,1,2) show ?case by (cases rule: chain_to.cases) auto
next
  case (extend b chain h)
  from extend(5) show ?case
  proof (cases rule: chain_to.cases)
    case (extend b' chain')
    with extend.hyps(2) have "chain_to blocks (block_previous_block_hash b) chain'" by simp
    with extend.IH extend \<open>blocks h = Some b\<close> show ?thesis by auto
  qed (use extend.hyps in simp)
qed

lemma chain_to_mono:
  "chain_to blocks h chain \<Longrightarrow> (\<And>k b. blocks k = Some b \<Longrightarrow> blocks' k = Some b) \<Longrightarrow> chain_to blocks' h chain"
  by (induction rule: chain_to.induct) (auto intro: chain_to.intros)

lemma chain_loop_chain_to:
  "chain_to blocks h chain \<Longrightarrow> chain_loop blocks (last chain) acc = Some (Inr (chain @ acc))"
proof (induction arbitrary: acc rule: chain_to.induct)
  case (genesis h b)
  then show ?case by (simp add: chain_loop.simps)
next
  case (extend b chain h)
  with chain_to_last [OF extend.hyps(1)] show ?case by (simp add: chain_loop.simps [of _ b])
qed

lemma chain_at_hash_chain_to: "chain_to blocks h chain \<Longrightarrow> chain_at_hash blocks h = Inr chain"
  using chain_to_last [of blocks h chain] chain_loop_chain_to [of blocks h chain "[]"]
  by (simp add: chain_at_hash_def lookup_key_def)

section \<open>Invariant\<close>

text \<open>The unspent outputs after a chain, and the height index of a chain.\<close>

definition replay :: "crypto \<Rightarrow> block list \<Rightarrow> unspent result" where
  "replay cr chain = rfold (uto_apply_block cr) Map.empty chain"

definition chain_map :: "block list \<Rightarrow> int \<Rightarrow> block option" where
  "chain_map chain i = (if 0 \<le> i \<and> i < int (length chain) then Some (chain ! nat i) else None)"

lemma replay_snoc: "replay cr (chain @ [b]) = rbind (replay cr chain) (\<lambda>u. uto_apply_block cr u b)"
proof -
  have "rbind (uto_apply_block cr u b) (\<lambda>s. Inr s) = uto_apply_block cr u b" for u
    by (cases "uto_apply_block cr u b") simp_all
  then show ?thesis by (simp add: replay_def rfold_append)
qed

lemma chain_map_snoc: "chain_map (chain @ [b]) = (chain_map chain)(int (length chain) \<mapsto> b)"
  by (auto simp: chain_map_def fun_eq_iff nth_append nat_less_iff)

definition entry_ok :: "crypto \<Rightarrow> coinstate \<Rightarrow> bytes \<Rightarrow> block \<Rightarrow> block list \<Rightarrow> unspent \<Rightarrow> bool" where
  "entry_ok cr cs h b chain u \<longleftrightarrow>
     cs_block_by_hash cs h = Some b \<and> block_hash cr b = Inr h \<and> length h = 32 \<and> h \<noteq> zero_hash \<and>
     chain_to (cs_block_by_hash cs) h chain \<and> block_height b = int (length chain) - 1 \<and>
     cs_unspent_transaction_outs_by_hash cs h = Some u \<and> replay cr chain = Inr u \<and>
     cs_block_by_height_by_hash cs h = Some (chain_map chain)"

definition childless :: "coinstate \<Rightarrow> bytes \<Rightarrow> bool" where
  "childless cs h \<longleftrightarrow> (\<forall>b\<in>ran (cs_block_by_hash cs). block_previous_block_hash b \<noteq> h)"

definition single_genesis :: "coinstate \<Rightarrow> bool" where
  "single_genesis cs \<longleftrightarrow> (\<forall>b\<in>ran (cs_block_by_hash cs). \<forall>b'\<in>ran (cs_block_by_hash cs).
     block_previous_block_hash b = zero_hash \<longrightarrow> block_previous_block_hash b' = zero_hash \<longrightarrow> b = b')"

definition cs_ok :: "crypto \<Rightarrow> coinstate \<Rightarrow> bool" where
  "cs_ok cr cs \<longleftrightarrow>
     (\<forall>h b. cs_block_by_hash cs h = Some b \<longrightarrow> (\<exists>chain u. entry_ok cr cs h b chain u)) \<and>
     dom (cs_unspent_transaction_outs_by_hash cs) = dom (cs_block_by_hash cs) \<and>
     dom (cs_block_by_height_by_hash cs) = dom (cs_block_by_hash cs) \<and>
     (\<forall>h. cs_heads cs h = (if childless cs h then cs_block_by_hash cs h else None)) \<and>
     (case cs_current_chain_hash cs of
        None \<Rightarrow> cs_block_by_hash cs = Map.empty
      | Some h \<Rightarrow> \<exists>b. cs_block_by_hash cs h = Some b \<and>
          (\<forall>b'\<in>ran (cs_block_by_hash cs). block_height b' \<le> block_height b)) \<and>
     single_genesis cs \<and>
     pbc_block_by_hash (cs_public_key_balances_by_hash cs) = cs_block_by_hash cs \<and>
     cache_ok cr (cs_public_key_balances_by_hash cs)"

lemma cs_ok_empty: "cs_ok cr empty_coinstate"
  by (simp add: cs_ok_def empty_coinstate_def cache_ok_def single_genesis_def)

text \<open>
  A block that attaches: it is new and is a genesis block of height 0 for an empty state, or has a known
  parent one below it. The callers in the program check all of this but the height: for a height up to the last
  checkpoint no validation looks at it, and for a block that was asked for the node skips the validation.
  What holds of a state without the condition on heights is in \<open>Block_Tree\<close>; a block that is accepted and does
  not attach is in \<open>Ledger\<close> (\<open>checkpointed_heights_bypass_validation\<close>).
\<close>

definition new_block :: "crypto \<Rightarrow> coinstate \<Rightarrow> block \<Rightarrow> bool" where
  "new_block cr cs b \<longleftrightarrow>
     (\<exists>h. block_hash cr b = Inr h \<and> length h = 32 \<and> h \<noteq> zero_hash \<and> cs_block_by_hash cs h = None)"

definition attaches :: "crypto \<Rightarrow> coinstate \<Rightarrow> block \<Rightarrow> bool" where
  "attaches cr cs b \<longleftrightarrow>
     (\<exists>h. block_hash cr b = Inr h \<and> length h = 32 \<and> h \<noteq> zero_hash \<and> cs_block_by_hash cs h = None) \<and>
     (if block_previous_block_hash b = zero_hash
      then cs_block_by_hash cs = Map.empty \<and> block_height b = 0
      else \<exists>p. cs_block_by_hash cs (block_previous_block_hash b) = Some p \<and>
             block_height b = block_height p + 1)"

lemma add_block_no_validation_eq_Inr:
  "add_block_no_validation cr cs b = Inr cs' \<longleftrightarrow>
     (\<exists>u0 u h n c. parent_unspent cs b = Inr u0 \<and> uto_apply_block cr u0 b = Inr u \<and>
        block_hash cr b = Inr h \<and> next_height_index cs b h = Inr n \<and>
        next_current_chain_hash cs b h = Inr c \<and>
        cs' = mk_coinstate ((cs_block_by_hash cs)(h \<mapsto> b))
          ((cs_unspent_transaction_outs_by_hash cs)(h \<mapsto> u)) n
          ((cs_heads cs)(block_previous_block_hash b := None, h \<mapsto> b)) (Some c))"
  unfolding add_block_no_validation_def rbind_eq_Inr by blast

lemma add_block_no_validationE:
  assumes "add_block_no_validation cr cs b = Inr cs'" and "block_hash cr b = Inr h"
  obtains u0 u n c where "parent_unspent cs b = Inr u0" "uto_apply_block cr u0 b = Inr u"
    "next_height_index cs b h = Inr n" "next_current_chain_hash cs b h = Inr c"
    "cs' = mk_coinstate ((cs_block_by_hash cs)(h \<mapsto> b))
       ((cs_unspent_transaction_outs_by_hash cs)(h \<mapsto> u)) n
       ((cs_heads cs)(block_previous_block_hash b := None, h \<mapsto> b)) (Some c)"
  using assms unfolding add_block_no_validation_eq_Inr by auto

text \<open>The entries of other blocks do not depend on the new one.\<close>

lemma entry_ok_mono:
  assumes "entry_ok cr cs k b chain u" and "cs_block_by_hash cs h = None"
    and "cs_block_by_hash cs k = Some b"
    and "\<And>k. k \<noteq> h \<Longrightarrow> cs_block_by_hash cs' k = cs_block_by_hash cs k \<and>
      cs_unspent_transaction_outs_by_hash cs' k = cs_unspent_transaction_outs_by_hash cs k \<and>
      cs_block_by_height_by_hash cs' k = cs_block_by_height_by_hash cs k"
  shows "entry_ok cr cs' k b chain u"
proof -
  have "k \<noteq> h" using assms(2,3) by auto
  moreover have "chain_to (cs_block_by_hash cs') k chain"
  proof (rule chain_to_mono)
    show "chain_to (cs_block_by_hash cs) k chain" using assms(1) by (simp add: entry_ok_def)
  qed (metis assms(2,4) option.distinct(1))
  ultimately show ?thesis using assms(1,4) by (simp add: entry_ok_def)
qed

lemma cs_ok_entry:
  "cs_ok cr cs \<Longrightarrow> cs_block_by_hash cs h = Some b \<Longrightarrow> \<exists>chain u. entry_ok cr cs h b chain u"
  by (simp add: cs_ok_def)

text \<open>The entry of the new block.\<close>

lemma add_block_entry:
  assumes "cs_ok cr cs" and "attaches cr cs b" and "add_block_no_validation cr cs b = Inr cs'"
    and "block_hash cr b = Inr h"
  shows "\<exists>chain u. entry_ok cr cs' h b chain u"
proof (cases "block_previous_block_hash b = zero_hash")
  case True
  from assms(3,4) obtain u n c where u: "uto_apply_block cr Map.empty b = Inr u"
    and n: "next_height_index cs b h = Inr n"
    and cs': "cs' = mk_coinstate ((cs_block_by_hash cs)(h \<mapsto> b))
       ((cs_unspent_transaction_outs_by_hash cs)(h \<mapsto> u)) n
       ((cs_heads cs)(block_previous_block_hash b := None, h \<mapsto> b)) (Some c)"
    by (rule add_block_no_validationE) (use True in \<open>auto simp: parent_unspent_def\<close>)
  have "chain_map [b] = [0 \<mapsto> b]" by (auto simp: chain_map_def fun_eq_iff)
  moreover have "chain_to (cs_block_by_hash cs') h [b]"
    using True by (intro chain_to.genesis) (simp_all add: cs')
  moreover have "replay cr [b] = Inr u" using u by (simp add: replay_def)
  ultimately have "entry_ok cr cs' h b [b] u"
    using assms(2,4) n True by (auto simp: entry_ok_def cs' attaches_def next_height_index_def)
  then show ?thesis by blast
next
  case False
  let ?p = "block_previous_block_hash b"
  from assms(2,4) False obtain pb where new: "cs_block_by_hash cs h = None"
    and pb: "cs_block_by_hash cs ?p = Some pb" "block_height b = block_height pb + 1"
    and h: "length h = 32" "h \<noteq> zero_hash"
    by (auto simp: attaches_def)
  from cs_ok_entry [OF assms(1) pb(1)] obtain chain u0 where e: "entry_ok cr cs ?p pb chain u0" by blast
  then have idx: "cs_block_by_height_by_hash cs ?p = Some (chain_map chain)"
    and u0: "cs_unspent_transaction_outs_by_hash cs ?p = Some u0" "replay cr chain = Inr u0"
    and len: "block_height b = int (length chain)"
    by (auto simp: entry_ok_def pb(2))
  from assms(3,4) False obtain u where u: "uto_apply_block cr u0 b = Inr u"
    and cs': "cs_block_by_hash cs' = (cs_block_by_hash cs)(h \<mapsto> b)"
      "cs_unspent_transaction_outs_by_hash cs' = (cs_unspent_transaction_outs_by_hash cs)(h \<mapsto> u)"
      "cs_block_by_height_by_hash cs' = (cs_block_by_height_by_hash cs)(h \<mapsto> (chain_map chain)(block_height b \<mapsto> b))"
    by (elim add_block_no_validationE)
      (auto simp: parent_unspent_def next_height_index_def lookup_key_def idx u0)
  have "chain_to (cs_block_by_hash cs') ?p chain"
  proof (rule chain_to_mono)
    show "chain_to (cs_block_by_hash cs) ?p chain" using e by (simp add: entry_ok_def)
  qed (use new in \<open>auto simp: cs'\<close>)
  then have "chain_to (cs_block_by_hash cs') h (chain @ [b])"
    using False by (intro chain_to.extend) (simp_all add: cs')
  then have "entry_ok cr cs' h b (chain @ [b]) u"
    using assms(4) h u u0 len by (simp add: entry_ok_def cs' replay_snoc chain_map_snoc)
  then show ?thesis by blast
qed

lemma childless_new:
  assumes "cs_ok cr cs" and "cs_block_by_hash cs h = None" and "h \<noteq> zero_hash"
  shows "childless cs h"
  unfolding childless_def
proof
  fix b assume "b \<in> ran (cs_block_by_hash cs)"
  then obtain k where k: "cs_block_by_hash cs k = Some b" by (auto simp: ran_def)
  from cs_ok_entry [OF assms(1) k] obtain chain where "chain_to (cs_block_by_hash cs) k chain"
    by (auto simp: entry_ok_def)
  then show "block_previous_block_hash b \<noteq> h"
    by (cases rule: chain_to.cases) (use k assms(2,3) chain_to_last in fastforce)+
qed

lemma add_block_maps:
  assumes "add_block_no_validation cr cs b = Inr cs'" and "block_hash cr b = Inr h" and "attaches cr cs b"
  shows "cs_block_by_hash cs' = (cs_block_by_hash cs)(h \<mapsto> b)"
    and "cs_heads cs' = (cs_heads cs)(block_previous_block_hash b := None, h \<mapsto> b)"
    and "dom (cs_unspent_transaction_outs_by_hash cs') = insert h (dom (cs_unspent_transaction_outs_by_hash cs))"
    and "k \<noteq> h \<Longrightarrow> cs_unspent_transaction_outs_by_hash cs' k = cs_unspent_transaction_outs_by_hash cs k"
    and "k \<noteq> h \<Longrightarrow> cs_block_by_height_by_hash cs' k =
           (if block_previous_block_hash b = zero_hash then None else cs_block_by_height_by_hash cs k)"
    and "h \<in> dom (cs_block_by_height_by_hash cs')"
    and "next_current_chain_hash cs b h = Inr (the (cs_current_chain_hash cs'))" and "cs_current_chain_hash cs' \<noteq> None"
    and "cs_public_key_balances_by_hash cs' = \<lparr>pbc_block_by_hash = cs_block_by_hash cs', pbc_cache = Map.empty\<rparr>"
  using assms(1,2)
  by (elim add_block_no_validationE; auto simp: next_height_index_def result_simps split: if_splits)+

lemma add_block_heads:
  assumes "cs_ok cr cs" and "attaches cr cs b" and "add_block_no_validation cr cs b = Inr cs'"
    and "block_hash cr b = Inr h"
  shows "cs_heads cs' k = (if childless cs' k then cs_block_by_hash cs' k else None)"
proof -
  note maps = add_block_maps [OF assms(3,4,2)]
  from assms(2,4) have new: "cs_block_by_hash cs h = None" "h \<noteq> zero_hash"
    and prev: "block_previous_block_hash b \<noteq> h"
    by (auto simp: attaches_def split: if_splits)
  have "childless cs' k \<longleftrightarrow> childless cs k \<and> block_previous_block_hash b \<noteq> k"
    by (auto simp: childless_def maps(1) ran_map_upd [where m = "cs_block_by_hash cs", OF new(1)])
  moreover have "cs_heads cs k = (if childless cs k then cs_block_by_hash cs k else None)"
    using assms(1) by (simp add: cs_ok_def)
  ultimately show ?thesis
    using childless_new [OF assms(1) new] prev by (auto simp: maps)
qed

text \<open>
  The new head: the new block if it is higher than the old head, the old head otherwise. The
  shortcut for a child of the old head agrees with the general rule.
\<close>

lemma add_block_head:
  assumes "cs_ok cr cs" and "attaches cr cs b" and "add_block_no_validation cr cs b = Inr cs'"
    and "block_hash cr b = Inr h"
  shows "cs_current_chain_hash cs' = Some (case cs_current_chain_hash cs of
     None \<Rightarrow> h
   | Some cur \<Rightarrow> if block_height (the (cs_block_by_hash cs cur)) < block_height b then h else cur)"
proof -
  note maps = add_block_maps [OF assms(3,4,2)]
  show ?thesis
  proof (cases "cs_current_chain_hash cs")
    case None
    with maps(7,8) show ?thesis by (auto simp: next_current_chain_hash_def)
  next
    case (Some cur)
    with assms(1) obtain cb where cb: "cs_block_by_hash cs cur = Some cb" by (auto simp: cs_ok_def)
    then have ne: "cs_block_by_hash cs \<noteq> Map.empty" by auto
    show ?thesis
    proof (cases "cur = block_previous_block_hash b")
      case True
      then have "block_height b = block_height cb + 1"
        using assms(2) ne cb by (auto simp: attaches_def split: if_splits)
      with True Some cb maps(7,8) show ?thesis by (auto simp: next_current_chain_hash_def)
    next
      case False
      with Some cb maps(7,8) show ?thesis
        by (auto simp: next_current_chain_hash_def lookup_key_def get_total_work_def)
    qed
  qed
qed

lemma add_block_current_max:
  assumes "cs_ok cr cs" and "attaches cr cs b" and "add_block_no_validation cr cs b = Inr cs'"
    and "block_hash cr b = Inr h"
  shows "\<exists>cur cb. cs_current_chain_hash cs' = Some cur \<and> cs_block_by_hash cs' cur = Some cb \<and>
    (\<forall>b'\<in>ran (cs_block_by_hash cs'). block_height b' \<le> block_height cb)"
proof -
  note maps = add_block_maps [OF assms(3,4,2)] and head = add_block_head [OF assms]
  from assms(2,4) have new: "cs_block_by_hash cs h = None" by (auto simp: attaches_def)
  show ?thesis
  proof (cases "cs_current_chain_hash cs")
    case None
    with assms(1) have "cs_block_by_hash cs = Map.empty" by (simp add: cs_ok_def)
    with None head show ?thesis by (auto simp: maps)
  next
    case (Some cur)
    with assms(1) obtain cb where cb: "cs_block_by_hash cs cur = Some cb"
      "\<forall>b'\<in>ran (cs_block_by_hash cs). block_height b' \<le> block_height cb" by (auto simp: cs_ok_def)
    with new have "cur \<noteq> h" by auto
    with Some head cb show ?thesis by (fastforce simp: maps ran_map_upd [where m = "cs_block_by_hash cs", OF new])
  qed
qed

lemma add_block_single_genesis:
  assumes "cs_ok cr cs" and "attaches cr cs b" and "cs_block_by_hash cs h = None"
    and "cs_block_by_hash cs' = (cs_block_by_hash cs)(h \<mapsto> b)"
  shows "single_genesis cs'"
proof (cases "block_previous_block_hash b = zero_hash")
  case True
  then have "cs_block_by_hash cs = Map.empty" using assms(2) by (simp add: attaches_def)
  then show ?thesis by (simp add: single_genesis_def assms(4))
next
  case False
  moreover have "single_genesis cs" using assms(1) by (simp add: cs_ok_def)
  ultimately show ?thesis
    unfolding single_genesis_def assms(4) ran_map_upd [where m = "cs_block_by_hash cs", OF assms(3)] by blast
qed

lemma add_block_cs_ok:
  assumes "cs_ok cr cs" and "attaches cr cs b" and "add_block_no_validation cr cs b = Inr cs'"
  shows "cs_ok cr cs'"
proof -
  from assms(2) obtain h where h: "block_hash cr b = Inr h" and new: "cs_block_by_hash cs h = None"
    by (auto simp: attaches_def)
  note maps = add_block_maps [OF assms(3) h assms(2)]
  have entries: "\<exists>chain u. entry_ok cr cs' k c chain u" if "cs_block_by_hash cs' k = Some c" for k c
  proof (cases "k = h")
    case True
    with that maps(1) add_block_entry [OF assms h] show ?thesis by simp
  next
    case False
    with that maps(1) have k: "cs_block_by_hash cs k = Some c" by simp
    then have "cs_block_by_hash cs \<noteq> Map.empty" by auto
    with assms(2) have "block_previous_block_hash b \<noteq> zero_hash" unfolding attaches_def by meson
    then have same: "cs_block_by_hash cs' k = cs_block_by_hash cs k \<and>
        cs_unspent_transaction_outs_by_hash cs' k = cs_unspent_transaction_outs_by_hash cs k \<and>
        cs_block_by_height_by_hash cs' k = cs_block_by_height_by_hash cs k" if "k \<noteq> h" for k
      using that by (simp add: maps(1,4,5))
    obtain chain u where "entry_ok cr cs k c chain u" using cs_ok_entry [OF assms(1) k] by blast
    then have "entry_ok cr cs' k c chain u" using new k same by (rule entry_ok_mono)
    then show ?thesis by blast
  qed
  have "dom (cs_block_by_height_by_hash cs') = dom (cs_block_by_hash cs')"
  proof (intro set_eqI iffI)
    fix k assume "k \<in> dom (cs_block_by_height_by_hash cs')"
    then have "k = h \<or> k \<in> dom (cs_block_by_height_by_hash cs)"
      using maps(5) [of k] by (cases "k = h") (auto simp: domIff split: if_splits)
    moreover have "dom (cs_block_by_height_by_hash cs) = dom (cs_block_by_hash cs)"
      using assms(1) by (simp add: cs_ok_def)
    ultimately show "k \<in> dom (cs_block_by_hash cs')" by (auto simp: maps(1))
  next
    fix k assume "k \<in> dom (cs_block_by_hash cs')"
    with entries show "k \<in> dom (cs_block_by_height_by_hash cs')" by (fastforce simp: entry_ok_def)
  qed
  moreover have "dom (cs_unspent_transaction_outs_by_hash cs') = dom (cs_block_by_hash cs')"
    using assms(1) by (simp add: maps(1,3) cs_ok_def)
  ultimately show ?thesis
    unfolding cs_ok_def
    using entries add_block_heads [OF assms h] add_block_current_max [OF assms h]
      add_block_single_genesis [OF assms(1,2) new maps(1)]
    by (intro conjI) (auto simp: maps(9) cache_ok_def)
qed

interpretation coinstate_machine: invariant_of "attaches cr" "add_block_no_validation cr" empty_coinstate "cs_ok cr"
  for cr
  by unfold_locales (auto intro: cs_ok_empty add_block_cs_ok)

abbreviation coinstate_reachable :: "crypto \<Rightarrow> coinstate \<Rightarrow> bool" where
  "coinstate_reachable cr \<equiv> reachable (attaches cr) (add_block_no_validation cr) empty_coinstate"

lemma balances_at_head_ok:
  assumes "cs_ok cr cs" and "balances_at_head cr cs = Inr (cs', m)"
  shows "cs_ok cr cs'"
proof -
  obtain h c where c: "pkb_getitem cr (cs_public_key_balances_by_hash cs) h = Inr (c, m)"
    and cs': "cs' = cs\<lparr>cs_public_key_balances_by_hash := c\<rparr>"
    using assms(2) by (auto simp: balances_at_head_def result_simps)
  have "cache_ok cr (cs_public_key_balances_by_hash cs)" using assms(1) by (simp add: cs_ok_def)
  with c have "cache_ok cr c \<and> pbc_block_by_hash c = pbc_block_by_hash (cs_public_key_balances_by_hash cs)"
    using pkb_getitem_ok by blast
  then show ?thesis
    using assms(1)
    by (simp add: cs_ok_def cs' entry_ok_def childless_def single_genesis_def cong: option.case_cong)
qed

text \<open>A block that attaches is added as soon as its transactions can be applied.\<close>

lemma add_block_returns:
  assumes ok: "cs_ok cr cs" and "attaches cr cs b" and "block_hash cr b = Inr h"
    and "parent_unspent cs b = Inr u0" and "uto_apply_block cr u0 b = Inr u"
  shows "\<exists>cs'. add_block_no_validation cr cs b = Inr cs'"
proof -
  have n: "returns (next_height_index cs b h)"
  proof (cases "block_previous_block_hash b = zero_hash")
    case False
    with assms(2) have "block_previous_block_hash b \<in> dom (cs_block_by_height_by_hash cs)"
      using ok by (auto simp: attaches_def cs_ok_def)
    with False show ?thesis by (auto simp: next_height_index_def lookup_key_def)
  qed (simp add: next_height_index_def)
  have c: "returns (next_current_chain_hash cs b h)"
    using ok by (auto simp: next_current_chain_hash_def cs_ok_def lookup_key_def split: option.splits)
  show ?thesis using n c assms(3-5) by (auto simp: add_block_no_validation_def)
qed

section \<open>Reading reachable states\<close>

lemma cs_ok_current:
  assumes "cs_ok cr cs" and "cs_current_chain_hash cs = Some cur"
  obtains b chain u where "cs_block_by_hash cs cur = Some b" "entry_ok cr cs cur b chain u"
proof -
  from assms obtain b where b: "cs_block_by_hash cs cur = Some b" by (auto simp: cs_ok_def)
  with cs_ok_entry [OF assms(1) b] that show thesis by blast
qed

lemma entry_ok_nonempty: "entry_ok cr cs h b chain u \<Longrightarrow> h \<noteq> []"
  by (auto simp: entry_ok_def)

lemma cs_ok_at_head:
  assumes "cs_ok cr cs" and "cs_current_chain_hash cs = Some cur" and "entry_ok cr cs cur b chain u"
  shows "unspent_at_head cs = Inr u" and "by_height_at_head cs = Inr (chain_map chain)"
    and "cs_head cs = Inr b"
  using assms entry_ok_nonempty [OF assms(3)]
  by (simp_all add: unspent_at_head_def by_height_at_head_def cs_head_def assert_current_def
      lookup_key_def entry_ok_def)

lemma chain_to_nth:
  "chain_to blocks h chain \<Longrightarrow> i < length chain \<Longrightarrow>
     \<exists>k. blocks k = Some (chain ! i) \<and> chain_to blocks k (take (Suc i) chain)"
proof (induction arbitrary: i rule: chain_to.induct)
  case (genesis h b)
  then show ?case by (auto intro: chain_to.genesis)
next
  case (extend b chain h)
  show ?case
  proof (cases "i < length chain")
    case True
    with extend.IH [of i] show ?thesis by (auto simp: nth_append)
  next
    case False
    with extend.prems have "i = length chain" by simp
    with extend.hyps show ?thesis by (auto intro: chain_to.extend)
  qed
qed

lemma cs_ok_hash: "cs_ok cr cs \<Longrightarrow> cs_block_by_hash cs k = Some b \<Longrightarrow> block_hash cr b = Inr k"
  using cs_ok_entry by (fastforce simp: entry_ok_def)

text \<open>Where the chain of a block leaves the main chain: the last position at which they agree.\<close>

definition fork_point :: "block list \<Rightarrow> block list \<Rightarrow> block \<Rightarrow> bool" where
  "fork_point main chain b \<longleftrightarrow> (\<exists>i. i < length chain \<and> i < length main \<and> b = chain ! i \<and>
     take (Suc i) chain = take (Suc i) main \<and>
     (\<forall>j\<in>{i<..<min (length chain) (length main)}. chain ! j \<noteq> main ! j))"

lemma find_lca_chain:
  assumes "cs_ok cr cs" and "cs_current_chain_hash cs = Some cur"
    and main: "entry_ok cr cs cur mb main u"
  shows "chain_to (cs_block_by_hash cs) h chain \<Longrightarrow>
     \<exists>b. find_lca_with_main cr cs (last chain) = Some (Inr b) \<and> fork_point main chain b"
proof (induction rule: chain_to.induct)
  case (genesis h b)
  let ?blocks = "cs_block_by_hash cs"
  have m: "chain_to ?blocks cur main" using main by (simp add: entry_ok_def)
  then have ne: "main \<noteq> []" by (blast dest: chain_to_last)
  obtain k0 where k0: "?blocks k0 = Some (main ! 0)" "chain_to ?blocks k0 (take 1 main)"
    using chain_to_nth [OF m, of 0] ne by auto
  have "block_previous_block_hash (main ! 0) = zero_hash"
    using k0(2) by (cases rule: chain_to.cases) (use k0(1) ne chain_to_last in \<open>auto simp: take_Suc hd_conv_nth\<close>)
  moreover have "single_genesis cs" using assms(1) by (simp add: cs_ok_def)
  ultimately have "main ! 0 = b"
    using genesis k0(1) unfolding single_genesis_def by (metis ranI)
  obtain c v where "entry_ok cr cs h b c v" using cs_ok_entry [OF assms(1) genesis(1)] by blast
  then have "block_height b = 0"
    using chain_to_unique [OF chain_to.genesis [where blocks = ?blocks, OF genesis]]
    by (fastforce simp: entry_ok_def)
  then have "find_lca_with_main cr cs b = Some (Inr b)"
    using ne \<open>main ! 0 = b\<close> cs_ok_hash [OF assms(1) genesis(1)]
    by (simp add: find_lca_with_main.simps cs_ok_at_head [OF assms] chain_map_def)
  moreover have "fork_point main [b] b"
    using ne \<open>main ! 0 = b\<close> by (auto simp: fork_point_def take_Suc hd_conv_nth intro!: exI [of _ 0])
  ultimately show ?case by simp
next
  case (extend b chain h)
  let ?blocks = "cs_block_by_hash cs" and ?n = "length chain"
  have m: "chain_to ?blocks cur main" using main by (simp add: entry_ok_def)
  have c: "chain_to ?blocks h (chain @ [b])" using extend.hyps by (rule chain_to.extend)
  obtain c' v where "entry_ok cr cs h b c' v" using cs_ok_entry [OF assms(1) extend.hyps(2)] by blast
  then have height: "block_height b = int ?n" and hash: "block_hash cr b = Inr h"
    using chain_to_unique [OF c] by (fastforce simp: entry_ok_def)+
  show ?case
  proof (cases "?n < length main \<and> main ! ?n = b")
    case True
    then have "find_lca_with_main cr cs b = Some (Inr b)"
      by (simp add: find_lca_with_main.simps cs_ok_at_head [OF assms] chain_map_def height hash)
    moreover have "take (Suc ?n) main = chain @ [b]"
    proof -
      obtain k where "?blocks k = Some (main ! ?n)" "chain_to ?blocks k (take (Suc ?n) main)"
        using chain_to_nth [OF m] True by blast
      with cs_ok_hash [OF assms(1)] hash True have "chain_to ?blocks h (take (Suc ?n) main)" by fastforce
      with c show ?thesis by (metis chain_to_unique)
    qed
    then have "fork_point main (chain @ [b]) b"
      using True by (auto simp: fork_point_def intro!: exI [of _ ?n])
    ultimately show ?thesis by simp
  next
    case False
    have "rbind (block_hash cr (main ! ?n)) (\<lambda>h'. Inr (h' \<noteq> h)) = Inr True" if lt: "?n < length main"
    proof -
      obtain k where k: "?blocks k = Some (main ! ?n)" using chain_to_nth [OF m lt] by blast
      with False extend.hyps(2) lt have "k \<noteq> h" by auto
      with cs_ok_hash [OF assms(1) k] show ?thesis by simp
    qed
    then have "find_lca_with_main cr cs b = find_lca_with_main cr cs (last chain)"
      using chain_to_last [OF extend.hyps(1)]
      by (subst find_lca_with_main.simps) (simp add: cs_ok_at_head [OF assms] chain_map_def height hash)
    moreover from extend.IH obtain l where l: "find_lca_with_main cr cs (last chain) = Some (Inr l)"
      "fork_point main chain l" by blast
    then obtain i where i: "i < ?n" "i < length main" "l = chain ! i"
      "take (Suc i) chain = take (Suc i) main"
      "\<forall>j\<in>{i<..<min ?n (length main)}. chain ! j \<noteq> main ! j" by (auto simp: fork_point_def)
    have "(chain @ [b]) ! j \<noteq> main ! j" if "j \<in> {i<..<min (Suc ?n) (length main)}" for j
      using that False i(5) by (cases "j = ?n") (auto simp: nth_append)
    with i have "fork_point main (chain @ [b]) l"
      unfolding fork_point_def by (intro exI [of _ i]) (simp add: nth_append)
    ultimately show ?thesis using l(1) by simp
  qed
qed

section \<open>Balances along a chain\<close>

text \<open>Every block of the chain keeps to the rules that \<open>block_fresh\<close> states.\<close>

fun chain_fresh :: "crypto \<Rightarrow> unspent \<Rightarrow> block list \<Rightarrow> bool" where
  "chain_fresh cr u [] = True"
| "chain_fresh cr u (b # bs) = (block_fresh cr u b \<and>
     (case uto_apply_block cr u b of Inl e \<Rightarrow> True | Inr u' \<Rightarrow> chain_fresh cr u' bs))"

text \<open>\<open>forks\<close> returns, for each head, where its chain leaves the main chain.\<close>

lemma forks_return:
  assumes ok: "cs_ok cr cs" and "cs_current_chain_hash cs = Some cur"
    and "\<forall>b\<in>set heads. \<exists>h. cs_heads cs h = Some b"
  shows "\<exists>fs main. forks cr cs heads = Inr fs \<and> chain_at_hash (cs_block_by_hash cs) cur = Inr main \<and>
    map fst fs = heads \<and> (\<forall>(b, lca)\<in>set fs. \<exists>h chain.
       chain_at_hash (cs_block_by_hash cs) h = Inr chain \<and> last chain = b \<and> fork_point main chain lca)"
proof -
  let ?blocks = "cs_block_by_hash cs"
  obtain mb main u where main: "entry_ok cr cs cur mb main u" using cs_ok_current [OF ok assms(2)] by blast
  have each: "\<exists>lca h chain. find_lca_with_main cr cs b = Some (Inr lca) \<and>
      chain_at_hash ?blocks h = Inr chain \<and> last chain = b \<and> fork_point main chain lca" if "b \<in> set heads" for b
  proof -
    from that assms(3) ok obtain h where h: "?blocks h = Some b"
      by (fastforce simp: cs_ok_def split: if_splits)
    then obtain chain v where e: "entry_ok cr cs h b chain v" using cs_ok_entry [OF ok] by blast
    then have c: "chain_to ?blocks h chain" by (simp add: entry_ok_def)
    with h have "last chain = b" using chain_to_last by fastforce
    with find_lca_chain [OF ok assms(2) main c] chain_at_hash_chain_to [OF c] show ?thesis by blast
  qed
  have "\<exists>fs. forks cr cs bs = Inr fs \<and> map fst fs = bs \<and> (\<forall>(b, lca)\<in>set fs. \<exists>h chain.
       chain_at_hash ?blocks h = Inr chain \<and> last chain = b \<and> fork_point main chain lca)" if "set bs \<subseteq> set heads" for bs
    using that
  proof (induction bs)
    case (Cons b bs)
    with each [of b] show ?case by (fastforce simp: forks_def)
  qed (simp add: forks_def)
  moreover have "chain_at_hash ?blocks cur = Inr main"
    using main by (intro chain_at_hash_chain_to) (simp add: entry_ok_def)
  ultimately show ?thesis by blast
qed

lemma balances_run_describes:
  assumes "rfold (uto_apply_block cr) u chain = Inr u'" and "describes u m" and "chain_fresh cr u chain"
  shows "\<exists>m'. rfold (balances_step cr) (m, u) chain = Inr (m', u') \<and> describes u' m'"
  using assms
proof (induction chain arbitrary: u m)
  case (Cons b chain)
  then obtain v where v: "uto_apply_block cr u b = Inr v" and rest: "rfold (uto_apply_block cr) v chain = Inr u'"
    by (auto simp: rbind_eq_Inr)
  obtain m1 where m1: "pkb_apply_block cr u m b = Inr m1" "describes v m1"
    using pkb_apply_block_describes [OF v Cons.prems(2)] Cons.prems(3) by auto
  with Cons.IH [OF rest m1(2)] Cons.prems(3) v show ?case by (simp add: balances_step_def)
qed simp

section \<open>An example state\<close>

definition sample_genesis :: block where
  "sample_genesis = sample_block 0 zero_hash (sample_hash 1) [sample_transaction 8 [] [sample_output 10 3]]"

definition sample_unspent :: unspent where
  "sample_unspent = created (sample_hash 8) [sample_output 10 3]"

definition sample_coinstate :: coinstate where
  "sample_coinstate = mk_coinstate [sample_hash 1 \<mapsto> sample_genesis] [sample_hash 1 \<mapsto> sample_unspent]
     [sample_hash 1 \<mapsto> [0 \<mapsto> sample_genesis]] [sample_hash 1 \<mapsto> sample_genesis] (Some (sample_hash 1))"

lemma sample_hash_zero [simp]: "sample_hash k = zero_hash \<longleftrightarrow> k = 0"
  by (simp add: zero_hash_def sample_hash_def)

lemma sample_genesis_applies: "uto_apply_block cr Map.empty sample_genesis = Inr sample_unspent"
  by (simp add: uto_apply_block_def sample_genesis_def first_elem_def rbind_eq_Inr
      uto_apply_transaction_eq_Inr tx_spent_def tx_outputs_ok_def tx_created_def sample_unspent_def)

lemma sample_add_genesis:
  "attaches cr empty_coinstate sample_genesis"
  "add_block_no_validation cr empty_coinstate sample_genesis = Inr sample_coinstate"
proof -
  show "attaches cr empty_coinstate sample_genesis"
    by (simp add: attaches_def empty_coinstate_def sample_genesis_def)
  show "add_block_no_validation cr empty_coinstate sample_genesis = Inr sample_coinstate"
    unfolding add_block_no_validation_def
    by (simp add: parent_unspent_def sample_genesis_applies next_height_index_def next_current_chain_hash_def
        empty_coinstate_def sample_coinstate_def)
      (simp add: sample_genesis_def)
qed

lemma sample_reachable: "coinstate_reachable cr sample_coinstate"
  using reachable.init sample_add_genesis by (rule reachable.step)

definition sample_child :: block where
  "sample_child = sample_block 1 (sample_hash 1) (sample_hash 2)
     [sample_transaction 9 [] [sample_output 10 4], sample_transaction 7 [sample_input 8 0 3] [sample_output 6 5]]"

lemma sample_attaches: "attaches cr sample_coinstate sample_child"
  by (simp add: attaches_def sample_coinstate_def sample_child_def sample_genesis_def)

lemma sample_child_applies: "returns (uto_apply_block cr sample_unspent sample_child)"
  by (auto simp: uto_apply_block_def sample_child_def first_elem_def rbind_eq_Inr sample_input_def
      uto_apply_transaction_eq_Inr tx_spent_def tx_outputs_ok_def tx_created_def sample_unspent_def
      input_refs_def created_def)

lemma balances_at_head_describes:
  assumes ok: "cs_ok cr cs" and cur: "cs_current_chain_hash cs = Some cur"
    and chain: "chain_at_hash (cs_block_by_hash cs) cur = Inr chain" and fresh: "chain_fresh cr Map.empty chain"
  shows "\<exists>cs' m u. balances_at_head cr cs = Inr (cs', m) \<and> unspent_at_head cs = Inr u \<and> describes u m"
proof -
  obtain b chain' u where e: "entry_ok cr cs cur b chain' u" using cs_ok_current [OF ok cur] by blast
  then have "chain' = chain" using chain chain_at_hash_chain_to by (fastforce simp: entry_ok_def)
  with e have u: "rfold (uto_apply_block cr) Map.empty chain = Inr u" by (simp add: entry_ok_def replay_def)
  obtain m where "rfold (balances_step cr) (Map.empty, Map.empty) chain = Inr (m, u)" and m: "describes u m"
    using balances_run_describes [OF u describes_empty fresh] by blast
  then have m_eq: "public_key_balances_by_hash cr (cs_block_by_hash cs) (Some cur) = Inr m"
    using chain by (simp add: public_key_balances_by_hash_def)
  have c: "cache_ok cr (cs_public_key_balances_by_hash cs)"
    and blocks: "pbc_block_by_hash (cs_public_key_balances_by_hash cs) = cs_block_by_hash cs"
    using ok by (simp_all add: cs_ok_def)
  obtain c' where "pkb_getitem cr (cs_public_key_balances_by_hash cs) cur = Inr (c', m)"
    using c m_eq by (cases "pbc_cache (cs_public_key_balances_by_hash cs) cur")
      (auto simp: pkb_getitem_def cache_ok_def blocks)
  then have "balances_at_head cr cs = Inr (cs\<lparr>cs_public_key_balances_by_hash := c'\<rparr>, m)"
    using cur entry_ok_nonempty [OF e] by (simp add: balances_at_head_def assert_current_def)
  with m cs_ok_at_head(1) [OF ok cur e] show ?thesis by blast
qed

lemma sample_chain:
  "cs_current_chain_hash sample_coinstate = Some (sample_hash 1)"
  "chain_at_hash (cs_block_by_hash sample_coinstate) (sample_hash 1) = Inr [sample_genesis]"
  "chain_fresh toy_crypto Map.empty [sample_genesis]"
proof -
  show "cs_current_chain_hash sample_coinstate = Some (sample_hash 1)"
    and "chain_at_hash (cs_block_by_hash sample_coinstate) (sample_hash 1) = Inr [sample_genesis]"
    by (simp_all add: sample_coinstate_def chain_at_hash_def lookup_key_def sample_genesis_def chain_loop.simps)
  show "chain_fresh toy_crypto Map.empty [sample_genesis]"
    using sample_genesis_applies [of toy_crypto] by (simp add: block_fresh_def sample_genesis_def)
qed

section \<open>Properties\<close>

text \<open>
  C22: to a state reached by blocks that attach (each new and one higher than its stored parent, or the first block at
  height 0), adding another block that attaches succeeds as soon as its transactions can be
  applied to the unspent outputs of its parent, and the head moves to the new block exactly when
  that is higher than the old head: of two blocks of the same height the one seen first stays.
\<close>

theorem add_block_returns_and_chooses:
  assumes "coinstate_reachable cr cs" and "attaches cr cs b" and "block_hash cr b = Inr h"
    and "parent_unspent cs b = Inr u0" and "uto_apply_block cr u0 b = Inr u"
  shows "\<exists>cs'. add_block_no_validation cr cs b = Inr cs' \<and>
    cs_unspent_transaction_outs_by_hash cs' h = Some u \<and>
    cs_current_chain_hash cs' = Some (case cs_current_chain_hash cs of
       None \<Rightarrow> h
     | Some cur \<Rightarrow> if block_height (the (cs_block_by_hash cs cur)) < block_height b then h else cur)"
proof -
  have ok: "cs_ok cr cs" using assms(1) by (rule coinstate_machine.reachable_inv)
  obtain cs' where cs': "add_block_no_validation cr cs b = Inr cs'" using add_block_returns [OF ok assms(2-5)] by blast
  moreover have "cs_unspent_transaction_outs_by_hash cs' h = Some u"
    using cs' assms(3) by (rule add_block_no_validationE) (use assms(4,5) in auto)
  ultimately show ?thesis using add_block_head [OF ok assms(2) _ assms(3)] by blast
qed

theorem add_block_returns_and_chooses_witness:
  "\<exists>cs'. add_block_no_validation toy_crypto sample_coinstate sample_child = Inr cs' \<and>
     cs_current_chain_hash cs' = Some (sample_hash 2)"
proof -
  have h: "block_hash toy_crypto sample_child = Inr (sample_hash 2)" by (simp add: sample_child_def)
  have p: "parent_unspent sample_coinstate sample_child = Inr sample_unspent"
    by (simp add: parent_unspent_def sample_child_def sample_coinstate_def lookup_key_def)
  obtain u where u: "uto_apply_block toy_crypto sample_unspent sample_child = Inr u"
    using sample_child_applies by blast
  show ?thesis
    using add_block_returns_and_chooses [OF sample_reachable sample_attaches h p u]
    by (auto simp: sample_coinstate_def sample_genesis_def sample_child_def)
qed

text \<open>
  In every reachable state \<open>forks\<close> returns for each head the last block at which its chain
  agrees with the main chain.
\<close>

theorem forks_returns_fork_points:
  assumes "coinstate_reachable cr cs" and "cs_current_chain_hash cs = Some cur"
    and "\<forall>b\<in>set heads. \<exists>h. cs_heads cs h = Some b"
  shows "\<exists>fs main. forks cr cs heads = Inr fs \<and> chain_at_hash (cs_block_by_hash cs) cur = Inr main \<and>
    map fst fs = heads \<and> (\<forall>(b, lca)\<in>set fs. \<exists>h chain.
       chain_at_hash (cs_block_by_hash cs) h = Inr chain \<and> last chain = b \<and> fork_point main chain lca)"
  by (rule forks_return [OF coinstate_machine.reachable_inv [OF assms(1)] assms(2,3)])

theorem forks_returns_fork_points_witness:
  "\<exists>fs. forks toy_crypto sample_coinstate [sample_genesis] = Inr fs \<and> map fst fs = [sample_genesis]"
proof -
  have "cs_current_chain_hash sample_coinstate = Some (sample_hash 1)"
    and "\<forall>b\<in>set [sample_genesis]. \<exists>h. cs_heads sample_coinstate h = Some b"
    by (auto simp: sample_coinstate_def)
  from forks_returns_fork_points [OF sample_reachable [of toy_crypto] this]
  show ?thesis by (elim exE conjE) (intro exI conjI)
qed

text \<open>
  If the blocks of the current chain keep to the rules (spends name outputs unspent before
  their block, transaction hashes are not reused), the balances computed at the head return and
  describe the unspent outputs stored for the head.
\<close>

theorem balances_at_head_describe_unspent:
  assumes "coinstate_reachable cr cs" and "cs_current_chain_hash cs = Some cur"
    and "chain_at_hash (cs_block_by_hash cs) cur = Inr chain" and "chain_fresh cr Map.empty chain"
  shows "\<exists>cs' m u. balances_at_head cr cs = Inr (cs', m) \<and> unspent_at_head cs = Inr u \<and> describes u m"
  by (rule balances_at_head_describes [OF coinstate_machine.reachable_inv [OF assms(1)] assms(2,3,4)])

theorem balances_at_head_describe_unspent_witness:
  "\<exists>cs' m u. balances_at_head toy_crypto sample_coinstate = Inr (cs', m) \<and>
     unspent_at_head sample_coinstate = Inr u \<and> describes u m"
  by (rule balances_at_head_describe_unspent [OF sample_reachable sample_chain])

end
