(* ===== verification/Genesis.thy ===== *)
theory Genesis
  imports Coinstate
begin

text \<open>
  Model of \<open>skepticoin/genesis.py\<close> and of \<open>CoinState.zero\<close>: the genesis block's bytes, decoded from
  hexadecimal. Shown: they parse completely, to a block of height 0 whose coinbase carries the
  text of \<open>just_believe_in_me\<close>, and \<open>zero\<close> returns a state whose head is that block.
\<close>

section \<open>The data of genesis.py\<close>

text \<open>\<open>b"..."\<close>\<close>

definition ascii_bytes :: "string \<Rightarrow> bytes" where
  "ascii_bytes s = map (\<lambda>c. word_of_nat (of_char c)) s"

definition newline :: byte where
  "newline = 10"

definition just_believe_in_me :: bytes where
  "just_believe_in_me =
     ascii_bytes ''You buy a piece of paradise'' @ [newline] @
     ascii_bytes ''You buy a piece of me'' @ [newline] @
     ascii_bytes ''I'' @ [0x27] @ ascii_bytes ''ll get you everything you wanted'' @ [newline] @
     ascii_bytes ''I'' @ [0x27] @ ascii_bytes ''ll get you everything you need'' @ [newline] @
     ascii_bytes ''Don'' @ [0x27] @ ascii_bytes ''t need to believe in hereafter'' @ [newline] @
     ascii_bytes ''Just believe in me''"

definition genesis_block_hex :: string where
  "genesis_block_hex =
     ''00000000000000000000000000000000000000000000000000000000000000000000616c35621abdf928185b74d57985cea7ff2d66ef318c58'' @
     ''ec7ea8dd01ed089028604e7f3101000000000000000000000000000000000000000000000000000000000000000000003aea13176dbcbf6210'' @
     ''55bdb3d6a138be4b73229d8584cb380e1dd1bbe1cedd42820000000000000000000000000000000000000000000000000000000000000000e3'' @
     ''8ee41a6b0f6584fe8b95bd8c8d7b4d6db961fa5c2a6fafe72ea1533dd2838b0100010000000000000000000000000000000000000000000000'' @
     ''000000000000000000000000000100000000ab596f75206275792061207069656365206f662070617261646973650a596f7520627579206120'' @
     ''7069656365206f66206d650a49276c6c2067657420796f752065766572797468696e6720796f752077616e7465640a49276c6c206765742079'' @
     ''6f752065766572797468696e6720796f75206e6565640a446f6e2774206e65656420746f2062656c6965766520696e20686572656166746572'' @
     ''0a4a7573742062656c6965766520696e206d6501000000003b9aca0002aac3faad6ddc26ec4674328741498fe74bdb0d8e49a22473a02370e5'' @
     ''3d69b0079819d5ac3f0cd36f25578eb042ad2a7b59f84a0b5f622e41ac982f478e8cb259''"

definition genesis_block_data :: "bytes result" where
  "genesis_block_data = computer genesis_block_hex"

text \<open>\<open>CoinState.zero\<close>\<close>

definition zero_coinstate :: "crypto \<Rightarrow> coinstate result" where
  "zero_coinstate cr =
     rbind genesis_block_data (\<lambda>data.
     rbind (deserialize_block cr data) (\<lambda>b.
     add_block_no_validation cr empty_coinstate b))"

section \<open>What the bytes say\<close>

definition genesis_miner_key :: bytes where
  "genesis_miner_key = [170, 195, 250, 173, 109, 220, 38, 236, 70, 116, 50, 135, 65, 73, 143, 231, 75, 219, 13, 142, 73, 162, 36, 115, 160, 35, 112, 229, 61, 105, 176, 7, 152, 25, 213, 172, 63, 12, 211, 111, 37, 87, 142, 176, 66, 173, 42, 123, 89, 248, 74, 11, 95, 98, 46, 65, 172, 152, 47, 71, 142, 140, 178, 89]"

definition genesis_coinbase :: transaction where
  "genesis_coinbase =
     \<lparr>tx_inputs = [\<lparr>inp_output_reference = \<lparr>ref_hash = zero_hash, ref_index = 0\<rparr>,
        inp_signature = Some (CoinbaseData 0 just_believe_in_me)\<rparr>],
      tx_outputs = [\<lparr>out_value = 1000000000, out_public_key = SECP256k1PublicKey genesis_miner_key\<rparr>],
      tx_cached_hash = None\<rparr>"

definition genesis_block :: block where
  "genesis_block =
     \<lparr>blk_header = \<lparr>hd_summary =
          \<lparr>bs_height = 0, bs_previous_block_hash = zero_hash,
           bs_merkle_root_hash = [97, 108, 53, 98, 26, 189, 249, 40, 24, 91, 116, 213, 121, 133, 206, 167, 255, 45, 102, 239, 49, 140, 88, 236, 126, 168, 221, 1, 237, 8, 144, 40],
           bs_timestamp = 1615757105, bs_target = INITIAL_TARGET, bs_nonce = 58\<rparr>,
        hd_pow_evidence =
          \<lparr>pe_summary_hash = [234, 19, 23, 109, 188, 191, 98, 16, 85, 189, 179, 214, 161, 56, 190, 75, 115, 34, 157, 133, 132, 203, 56, 14, 29, 209, 187, 225, 206, 221, 66, 130],
           pe_chain_sample = zero_hash,
           pe_block_hash = [227, 142, 228, 26, 107, 15, 101, 132, 254, 139, 149, 189, 140, 141, 123, 77, 109, 185, 97, 250, 92, 42, 111, 175, 231, 46, 161, 83, 61, 210, 131, 139]\<rparr>\<rparr>,
      blk_transactions = [genesis_coinbase], blk_cached_hash = None\<rparr>"

lemma hex_value_simps:
  "hex_value (CHR ''0'') = Some 0"
  "hex_value (CHR ''1'') = Some 1"
  "hex_value (CHR ''2'') = Some 2"
  "hex_value (CHR ''3'') = Some 3"
  "hex_value (CHR ''4'') = Some 4"
  "hex_value (CHR ''5'') = Some 5"
  "hex_value (CHR ''6'') = Some 6"
  "hex_value (CHR ''7'') = Some 7"
  "hex_value (CHR ''8'') = Some 8"
  "hex_value (CHR ''9'') = Some 9"
  "hex_value (CHR ''a'') = Some 10"
  "hex_value (CHR ''b'') = Some 11"
  "hex_value (CHR ''c'') = Some 12"
  "hex_value (CHR ''d'') = Some 13"
  "hex_value (CHR ''e'') = Some 14"
  "hex_value (CHR ''f'') = Some 15"
  by (simp_all add: hex_value_def)

definition genesis_bytes :: bytes where
  "genesis_bytes = [0, 0, 0, 0, 0, 0, 0, 0, 0, 0, 0, 0, 0, 0, 0, 0, 0, 0, 0, 0, 0, 0, 0, 0, 0, 0, 0, 0, 0, 0, 0, 0, 0, 0, 97, 108, 53, 98, 26, 189, 249, 40, 24, 91, 116, 213, 121, 133, 206, 167, 255, 45, 102, 239, 49, 140, 88, 236, 126, 168, 221, 1, 237, 8, 144, 40, 96, 78, 127, 49, 1, 0, 0, 0, 0, 0, 0, 0, 0, 0, 0, 0, 0, 0, 0, 0, 0, 0, 0, 0, 0, 0, 0, 0, 0, 0, 0, 0, 0, 0, 0, 0, 0, 0, 0, 58, 234, 19, 23, 109, 188, 191, 98, 16, 85, 189, 179, 214, 161, 56, 190, 75, 115, 34, 157, 133, 132, 203, 56, 14, 29, 209, 187, 225, 206, 221, 66, 130, 0, 0, 0, 0, 0, 0, 0, 0, 0, 0, 0, 0, 0, 0, 0, 0, 0, 0, 0, 0, 0, 0, 0, 0, 0, 0, 0, 0, 0, 0, 0, 0, 227, 142, 228, 26, 107, 15, 101, 132, 254, 139, 149, 189, 140, 141, 123, 77, 109, 185, 97, 250, 92, 42, 111, 175, 231, 46, 161, 83, 61, 210, 131, 139, 1, 0, 1, 0, 0, 0, 0, 0, 0, 0, 0, 0, 0, 0, 0, 0, 0, 0, 0, 0, 0, 0, 0, 0, 0, 0, 0, 0, 0, 0, 0, 0, 0, 0, 0, 0, 0, 0, 0, 1, 0, 0, 0, 0, 171, 89, 111, 117, 32, 98, 117, 121, 32, 97, 32, 112, 105, 101, 99, 101, 32, 111, 102, 32, 112, 97, 114, 97, 100, 105, 115, 101, 10, 89, 111, 117, 32, 98, 117, 121, 32, 97, 32, 112, 105, 101, 99, 101, 32, 111, 102, 32, 109, 101, 10, 73, 39, 108, 108, 32, 103, 101, 116, 32, 121, 111, 117, 32, 101, 118, 101, 114, 121, 116, 104, 105, 110, 103, 32, 121, 111, 117, 32, 119, 97, 110, 116, 101, 100, 10, 73, 39, 108, 108, 32, 103, 101, 116, 32, 121, 111, 117, 32, 101, 118, 101, 114, 121, 116, 104, 105, 110, 103, 32, 121, 111, 117, 32, 110, 101, 101, 100, 10, 68, 111, 110, 39, 116, 32, 110, 101, 101, 100, 32, 116, 111, 32, 98, 101, 108, 105, 101, 118, 101, 32, 105, 110, 32, 104, 101, 114, 101, 97, 102, 116, 101, 114, 10, 74, 117, 115, 116, 32, 98, 101, 108, 105, 101, 118, 101, 32, 105, 110, 32, 109, 101, 1, 0, 0, 0, 0, 59, 154, 202, 0, 2, 170, 195, 250, 173, 109, 220, 38, 236, 70, 116, 50, 135, 65, 73, 143, 231, 75, 219, 13, 142, 73, 162, 36, 115, 160, 35, 112, 229, 61, 105, 176, 7, 152, 25, 213, 172, 63, 12, 211, 111, 37, 87, 142, 176, 66, 173, 42, 123, 89, 248, 74, 11, 95, 98, 46, 65, 172, 152, 47, 71, 142, 140, 178, 89]"

lemma computer_append: "computer s = Inr a \<Longrightarrow> computer (s @ t) = rbind (computer t) (\<lambda>b. Inr (a @ b))"
proof (induction s arbitrary: a rule: computer.induct)
  case 1
  then show ?case by (cases "computer t") simp_all
next
  case (3 c d s)
  then show ?case
    by (cases "computer t") (auto simp: rbind_eq_Inr split: option.splits)
qed simp

lemma genesis_hex_lines:
  "computer ''00000000000000000000000000000000000000000000000000000000000000000000616c35621abdf928185b74d57985cea7ff2d66ef318c58'' =
     Inr [0, 0, 0, 0, 0, 0, 0, 0, 0, 0, 0, 0, 0, 0, 0, 0, 0, 0, 0, 0, 0, 0, 0, 0, 0, 0, 0, 0, 0, 0, 0, 0, 0, 0, 97, 108, 53, 98, 26, 189, 249, 40, 24, 91, 116, 213, 121, 133, 206, 167, 255, 45, 102, 239, 49, 140, 88]"
  "computer ''ec7ea8dd01ed089028604e7f3101000000000000000000000000000000000000000000000000000000000000000000003aea13176dbcbf6210'' =
     Inr [236, 126, 168, 221, 1, 237, 8, 144, 40, 96, 78, 127, 49, 1, 0, 0, 0, 0, 0, 0, 0, 0, 0, 0, 0, 0, 0, 0, 0, 0, 0, 0, 0, 0, 0, 0, 0, 0, 0, 0, 0, 0, 0, 0, 0, 0, 0, 0, 58, 234, 19, 23, 109, 188, 191, 98, 16]"
  "computer ''55bdb3d6a138be4b73229d8584cb380e1dd1bbe1cedd42820000000000000000000000000000000000000000000000000000000000000000e3'' =
     Inr [85, 189, 179, 214, 161, 56, 190, 75, 115, 34, 157, 133, 132, 203, 56, 14, 29, 209, 187, 225, 206, 221, 66, 130, 0, 0, 0, 0, 0, 0, 0, 0, 0, 0, 0, 0, 0, 0, 0, 0, 0, 0, 0, 0, 0, 0, 0, 0, 0, 0, 0, 0, 0, 0, 0, 0, 227]"
  "computer ''8ee41a6b0f6584fe8b95bd8c8d7b4d6db961fa5c2a6fafe72ea1533dd2838b0100010000000000000000000000000000000000000000000000'' =
     Inr [142, 228, 26, 107, 15, 101, 132, 254, 139, 149, 189, 140, 141, 123, 77, 109, 185, 97, 250, 92, 42, 111, 175, 231, 46, 161, 83, 61, 210, 131, 139, 1, 0, 1, 0, 0, 0, 0, 0, 0, 0, 0, 0, 0, 0, 0, 0, 0, 0, 0, 0, 0, 0, 0, 0, 0, 0]"
  "computer ''000000000000000000000000000100000000ab596f75206275792061207069656365206f662070617261646973650a596f7520627579206120'' =
     Inr [0, 0, 0, 0, 0, 0, 0, 0, 0, 0, 0, 0, 0, 1, 0, 0, 0, 0, 171, 89, 111, 117, 32, 98, 117, 121, 32, 97, 32, 112, 105, 101, 99, 101, 32, 111, 102, 32, 112, 97, 114, 97, 100, 105, 115, 101, 10, 89, 111, 117, 32, 98, 117, 121, 32, 97, 32]"
  "computer ''7069656365206f66206d650a49276c6c2067657420796f752065766572797468696e6720796f752077616e7465640a49276c6c206765742079'' =
     Inr [112, 105, 101, 99, 101, 32, 111, 102, 32, 109, 101, 10, 73, 39, 108, 108, 32, 103, 101, 116, 32, 121, 111, 117, 32, 101, 118, 101, 114, 121, 116, 104, 105, 110, 103, 32, 121, 111, 117, 32, 119, 97, 110, 116, 101, 100, 10, 73, 39, 108, 108, 32, 103, 101, 116, 32, 121]"
  "computer ''6f752065766572797468696e6720796f75206e6565640a446f6e2774206e65656420746f2062656c6965766520696e20686572656166746572'' =
     Inr [111, 117, 32, 101, 118, 101, 114, 121, 116, 104, 105, 110, 103, 32, 121, 111, 117, 32, 110, 101, 101, 100, 10, 68, 111, 110, 39, 116, 32, 110, 101, 101, 100, 32, 116, 111, 32, 98, 101, 108, 105, 101, 118, 101, 32, 105, 110, 32, 104, 101, 114, 101, 97, 102, 116, 101, 114]"
  "computer ''0a4a7573742062656c6965766520696e206d6501000000003b9aca0002aac3faad6ddc26ec4674328741498fe74bdb0d8e49a22473a02370e5'' =
     Inr [10, 74, 117, 115, 116, 32, 98, 101, 108, 105, 101, 118, 101, 32, 105, 110, 32, 109, 101, 1, 0, 0, 0, 0, 59, 154, 202, 0, 2, 170, 195, 250, 173, 109, 220, 38, 236, 70, 116, 50, 135, 65, 73, 143, 231, 75, 219, 13, 142, 73, 162, 36, 115, 160, 35, 112, 229]"
  "computer ''3d69b0079819d5ac3f0cd36f25578eb042ad2a7b59f84a0b5f622e41ac982f478e8cb259'' =
     Inr [61, 105, 176, 7, 152, 25, 213, 172, 63, 12, 211, 111, 37, 87, 142, 176, 66, 173, 42, 123, 89, 248, 74, 11, 95, 98, 46, 65, 172, 152, 47, 71, 142, 140, 178, 89]"
  by (simp_all add: hex_value_simps)

lemma genesis_block_data_bytes: "genesis_block_data = Inr genesis_bytes"
  unfolding genesis_block_data_def genesis_block_hex_def genesis_bytes_def
  by (simp only: genesis_hex_lines(1-8) [THEN computer_append] genesis_hex_lines(9) rbind.simps)
    (simp only: append.simps)

lemma zero_hash_bytes: "zero_hash = [0, 0, 0, 0, 0, 0, 0, 0, 0, 0, 0, 0, 0, 0, 0, 0, 0, 0, 0, 0, 0, 0, 0, 0, 0, 0, 0, 0, 0, 0, 0, 0]"
  by (simp add: zero_hash_def numeral_eq_Suc)

lemma genesis_numbers:
  "be_bytes 8 1000000000 = [0, 0, 0, 0, 59, 154, 202, 0]" "be_bytes 4 1615757105 = [96, 78, 127, 49]"
  "be_bytes 4 0 = [0, 0, 0, 0]" "be_bytes 4 58 = [0, 0, 0, 58]"
  "be_bytes 32 (2 ^ 248) = [1, 0, 0, 0, 0, 0, 0, 0, 0, 0, 0, 0, 0, 0, 0, 0, 0, 0, 0, 0, 0, 0, 0, 0, 0, 0, 0, 0, 0, 0, 0, 0]"
  by code_simp+

lemma INITIAL_TARGET_bytes:
  "INITIAL_TARGET = [1, 0, 0, 0, 0, 0, 0, 0, 0, 0, 0, 0, 0, 0, 0, 0, 0, 0, 0, 0, 0, 0, 0, 0, 0, 0, 0, 0, 0, 0, 0, 0]"
  unfolding INITIAL_TARGET_def by (simp only: genesis_numbers mult_numeral_1 numeral_times_numeral num.simps arith_simps)

lemma genesis_coinbase_ser: "stream_serialize_transaction genesis_coinbase =
    Inr (drop 203 genesis_bytes)"
  unfolding genesis_coinbase_def just_believe_in_me_def ascii_bytes_def genesis_miner_key_def genesis_bytes_def
  by (simp add: stream_serialize_transaction_def stream_serialize_list_def stream_serialize_input_def
      stream_serialize_output_def stream_serialize_output_reference_def pack_uint_def stream_serialize_vlq_def
      bit_length_def nat_bit_length.simps genesis_numbers type_bytes zero_hash_bytes newline_def Let_def)

lemma genesis_header_ser: "stream_serialize_block_header (blk_header genesis_block) =
    Inr (take 202 genesis_bytes)"
  unfolding genesis_block_def genesis_bytes_def
  by (simp add: stream_serialize_block_header_def stream_serialize_block_summary_def INITIAL_TARGET_bytes genesis_numbers
      stream_serialize_pow_evidence_def pack_uint_def stream_serialize_vlq_def
      bit_length_def nat_bit_length.simps zero_hash_bytes Let_def)

lemma genesis_block_ser: "stream_serialize_block genesis_block = Inr genesis_bytes"
proof -
  have "stream_serialize_list stream_serialize_transaction [genesis_coinbase] = Inr (1 # drop 203 genesis_bytes)"
    by (simp add: stream_serialize_list_def genesis_coinbase_ser stream_serialize_vlq_def pack_uint_def
        bit_length_def nat_bit_length.simps Let_def)
  moreover have "blk_transactions genesis_block = [genesis_coinbase]" by (simp add: genesis_block_def)
  moreover have "take 202 genesis_bytes @ 1 # drop 203 genesis_bytes = genesis_bytes"
    by (simp add: genesis_bytes_def)
  ultimately show ?thesis by (simp add: stream_serialize_block_def genesis_header_ser)
qed

lemma genesis_block_wf: "block_wf genesis_block"
  by (simp add: genesis_block_def block_wf_def block_header_wf_def block_summary_wf_def pow_evidence_wf_def
      genesis_coinbase_def transaction_wf_def input_wf_def output_wf_def output_reference_wf_def
      genesis_miner_key_def just_believe_in_me_def ascii_bytes_def INITIAL_TARGET_bytes)

lemma genesis_deserialize: "deserialize_block cr genesis_bytes = Inr (block_canon cr genesis_block)"
  using block_wire.par_ser [OF genesis_block_wf genesis_block_ser, of cr "[]"]
  by (simp add: deserialize_block_def)

section \<open>Properties\<close>

text \<open>
  The genesis data decodes to bytes that are exactly the encoding of one block: height 0, no
  parent, the initial target, and a single coinbase whose random data is \<open>just_believe_in_me\<close> and
  whose only output pays 10 coins.
\<close>

theorem genesis_block_parses:
  "rbind genesis_block_data (deserialize_block cr) = Inr (block_canon cr genesis_block) \<and>
   rbind genesis_block_data (\<lambda>d. Inr (stream_serialize_block genesis_block = Inr d)) = Inr True \<and>
   block_height genesis_block = 0 \<and> block_previous_block_hash genesis_block = zero_hash \<and>
   block_target genesis_block = INITIAL_TARGET \<and>
   map (\<lambda>t. map inp_signature (tx_inputs t)) (blk_transactions genesis_block) =
     [[Some (CoinbaseData 0 just_believe_in_me)]] \<and>
   map (\<lambda>t. map out_value (tx_outputs t)) (blk_transactions genesis_block) = [[10 * SASHIMI_PER_COIN]]"
  by (simp add: genesis_block_data_bytes genesis_deserialize genesis_block_ser)
    (simp add: genesis_block_def genesis_coinbase_def block_height_def block_previous_block_hash_def block_target_def)

text \<open>
  \<open>CoinState.zero()\<close> returns, whatever the hash functions (with 32-byte outputs), a state that holds
  the genesis block alone, as its head.
\<close>

theorem zero_coinstate_returns:
  assumes "digests_ok cr"
  shows "\<exists>cs h. zero_coinstate cr = Inr cs \<and> block_hash cr (block_canon cr genesis_block) = Inr h \<and>
    cs_block_by_hash cs = [h \<mapsto> block_canon cr genesis_block] \<and> cs_current_chain_hash cs = Some h \<and>
    cs_heads cs = [h \<mapsto> block_canon cr genesis_block]"
proof -
  let ?g = "block_canon cr genesis_block"
  define h where "h = sha256d cr (take 202 genesis_bytes)"
  have len: "length (sha256d cr x) = 32" for x using length_digests(1) [OF assms] .
  then have ne: "sha256d cr x \<noteq> []" for x by (metis list.size(3) zero_neq_numeral)
  have hash: "block_hash cr ?g = Inr h"
    by (simp add: block_hash_def cached_or_def block_canon_def genesis_header_ser h_def ne)
  have prev: "block_previous_block_hash ?g = zero_hash"
    by (simp add: block_previous_block_hash_def block_canon_def genesis_block_def)
  have "\<exists>u. uto_apply_block cr Map.empty ?g = Inr u"
    by (auto simp: uto_apply_block_def block_canon_def genesis_block_def genesis_coinbase_def first_elem_def
        rbind_eq_Inr uto_apply_transaction_eq_Inr tx_spent_def tx_outputs_ok_def transaction_canon_def
        transaction_hash_def cached_or_def ne len)
  then obtain u where "uto_apply_block cr Map.empty ?g = Inr u" by blast
  then have "zero_coinstate cr = Inr (mk_coinstate [h \<mapsto> ?g] [h \<mapsto> u] [h \<mapsto> [0 \<mapsto> ?g]] [h \<mapsto> ?g] (Some h))"
    by (simp add: zero_coinstate_def genesis_block_data_bytes genesis_deserialize add_block_no_validation_def
        parent_unspent_def prev hash next_height_index_def next_current_chain_hash_def empty_coinstate_def)
  with hash show ?thesis by auto
qed

theorem zero_coinstate_returns_witness:
  "\<exists>cs h. zero_coinstate toy_crypto = Inr cs \<and> cs_current_chain_hash cs = Some h"
  using zero_coinstate_returns [OF toy_digests_ok] by blast

end
