(* ===== verification/Cheating.thy ===== *)
theory Cheating
  imports Humans
begin

text \<open>
  Model of \<open>skepticoin/cheating.py\<close>: the table of checkpoints \<open>KNOWN_HASHES\<close> (height to block hash in
  hexadecimal), in four parts, and \<open>MAX_KNOWN_HASH_HEIGHT\<close>. The entries are those of the dict display
  in its order; it repeats the keys from 131500 on (with the same values), and as in Python the last
  entry of a key counts. Shown: the keys are exactly the multiples of 500 from 0 to 163000.
\<close>

section \<open>The table\<close>

definition KNOWN_HASHES_1 :: "(int \<times> string) list" where
  "KNOWN_HASHES_1 = [
     (0, ''00c4ff1d0788c7058f3d8388d77b2feda0921fa141078fb895871634e0c36780''),
     (500, ''00786517cfdd81bbab75cc7d9ca738038cab005b0e0a6205b2aa07bfa917db25''),
     (1000, ''00fefe403e7108adca4f47a05ca59c61c08de1ee644d5d8a23b16b0f187de916''),
     (1500, ''004367b96c71fa69d931630a43dc60a070abb47c0febfa1b665690d5174a0869''),
     (2000, ''00c816a7c07d49ad3599c2ccfabf0e5055a0d547ebbc89ec358bb94328b1fef0''),
     (2500, ''0017f18030825766556c9e48d938092d3671b942c144e3ad84b06416ddabd8f3''),
     (3000, ''00b896c88866cf585491ef22d7ca42b8e70231815c6c7cc4863bce8a48bf7b83''),
     (3500, ''0027a1cc062e155cb83c8f47e4f1fd9b800614327c6e004c825793cdc010b5d6''),
     (4000, ''000b4a2d5ca016ee7f8e48438b139bc196610b379c85a73917c42d8bc06f4008''),
     (4500, ''00728eb4953a19471e1e0decb2d8b862fdd296740af14aa6db93943c9a786f2d''),
     (5000, ''0092f95d626f87faeae098b804470932b06ce0fcdded2a6c132078d764562ae4''),
     (5500, ''00a11402f94e899beab029b85b692f8d3247a3b98df375377f67e7ab6db6792a''),
     (6000, ''00591fee548a6cd736effe8143944f51e73fa6231ddf950eae92822cf914aa95''),
     (6500, ''0056e853dd5368797ccf4a9d2277002ca28d4b9c760ca28c2d136857101679fe''),
     (7000, ''00cae677cb2263dbf387a8232b05a73bd4464a0a559c7ce621934662c26321e0''),
     (7500, ''0033d2556494c990b83c80328be69aa88c83708d50d0764d2500380652e716b0''),
     (8000, ''006cf2ce65228fcd159ec63f44e7b666ac5378647342e917a2bb28fdfdbb326d''),
     (8500, ''001050a19cdfc579cf94811d793b9db54eb357aa98982f8eb6a985f41ab1464f''),
     (9000, ''0083671511256574b0d570f3143507f667414d150ef67157ab5d1f47a7732b52''),
     (9500, ''00429f3326540fe6ca64bb71f27785bbda820087c03828604776afe34af0ef94''),
     (10000, ''00e682c20eb9b53b176f64b33551f46bf03414328828717aae98733ac94e50d1''),
     (10500, ''00f8ff5cf06468c82ddf2ba5bb129c529496a664ee74a46e36dd6b8738130973''),
     (11000, ''010305c482e0675e9af8e539dc766a15c33f9e3270643d80b93b8bdd0358dc7b''),
     (11500, ''01a9fa19ea48c7492ee9a4eaaf86f80449c1c45f4db694642601fa0f959bab63''),
     (12000, ''008c8d01275a2b2467a4b5f81ffd4e276a323a7595f7043019bcff66dea2d6ba''),
     (12500, ''01e7366ff56295f9dbef382c35cebc96ea26738615ac23eddc88d8e678647bc6''),
     (13000, ''019c3834f6b28bef7825426198b0a8e7275d5883f92ab82c293e2e741c9d4908''),
     (13500, ''000571b36313a0ddf000bfef6daa9806bea85a6404451362fa601e3750245f21''),
     (14000, ''01316d05404a59ba9665b98e72cf746b80fe3240812edaa44f308cffb703d8fe''),
     (14500, ''0090f53d8908abaa2393fb7849e32d301ab08862b88a64ed3bd856c9dbf1da57''),
     (15000, ''015cd3436dcdd70d8999588f34a0d50f6a8ed77bc60fa3992970298b7d1a697a''),
     (15500, ''01909a27e929ec66cb10cc16c139d567ce64c929b3f2009c8751e50a18c61a85''),
     (16000, ''015ea1a4adce1cff0b8165e666fa3bcd76818627a510020b70fffbc8707579e4''),
     (16500, ''0123f7e399a69d35e4e38b33a4ce16b8f5f148e1e570d7386ab939268514fe84''),
     (17000, ''0097bb6832f6bd146352951bee48606e7ec66c7ffc535e0b8d123a1e72f7f9bb''),
     (17500, ''019f52e13ebf7fff127b4961dc32df935ed158a9a9163066b95c61cb71bfa403''),
     (18000, ''00bc834df67129b24bd70ad58a1380e1e7d38e75a55958f5c3b4fff02d134fcd''),
     (18500, ''00c9a686b830a342b5cba05807ed5affa79fe314b2fb96f4c7133f2fd58ef73e''),
     (19000, ''0130dc3498df05743b3b9a94a8543a5bb06167d7351b827312508b34bb351014''),
     (19500, ''0009d7cd29cb773819a90cab06ea63245617783c947b99567e025b5f0735edff''),
     (20000, ''0068f214398a98fead26716c6d9ff671c6b2cfcc33b58d6e6a8486917906c5de''),
     (20500, ''007b468c38a0b07216a362ea7ed7c0cb6643fc34a3a00628d395b87c34d14409''),
     (21000, ''004439061e8e3f2d2c369061231e88bbc4c02527e30257fafba42f3a1a903a58''),
     (21500, ''001eff9c184ea97bd4ea4c9768ac7a0c3adbcfae74689d398889229b80ebdf11''),
     (22000, ''00b6f967760291dcf9eae27ba9ba7dcfe187d10ed772e684300824b6477c4ec4''),
     (22500, ''00c41bb6b00808d2f8d8b62047bb3c96f172cb06e131cf89613f94875aefe306''),
     (23000, ''00e6adbe165ce035f82bd10f00a6d2cd9a737728d46959b67ef3386a96bcba19''),
     (23500, ''00514f3253ddfa37bf778bffbca80b249c515dbeb6ee94a9da35af7acd1a2691''),
     (24000, ''005dccd354d9d12350879f001592e7f686a3f86b2dd7ebaae5e120fbb2f2eec7''),
     (24500, ''00bee182c7bec6ebac2736118218d381bf32bce6528b9ed0c1d5d8c6e4d599a2''),
     (25000, ''001e9c22df502c7d9317e3d600fa5cf71817ba5824da0d9c498e7f3ac74f0535''),
     (25500, ''003458ac1abca1f193519ff9604ba2ba64a9fb439936870fce8e535a49c9d217''),
     (26000, ''00028c317426c00b1d1754d70d90d358427aab592bb890f6f5c40de6ceabded6''),
     (26500, ''0045a7b960ade0263ba5351aeb74bb660453672ac3e79ded41a51e0fee4befb9''),
     (27000, ''003ce08c576daf9048d4bd52a7211334ccbc89539ee64ab5d26026d38757e198''),
     (27500, ''00ce6e1e68279beee663ee2dc6f3e99b1355df6bf89b6e85f185b408b77d9da0''),
     (28000, ''0091c96462eec43315b341f85bdee1332483412c55cec58b427ff70209d1e783''),
     (28500, ''00afd5a7b7437ac5179aef03fc475e40b121a804354d2a27d0dae00222745a85''),
     (29000, ''000ac21dd0bcb6990d1b926fe2d819db77565bd634bc17e091a63e0f0e3f31f1''),
     (29500, ''0038e3cee2f151b07856e23cddda2681f03ed18c874f1e0e085a20caaf197507''),
     (30000, ''008772fe0b1ff4ff6f6e38fffebcca85ab5d1f40cc2d0f438194a9049b02ed87''),
     (30500, ''0019cd82963914d206df764407b4f953242515054357ca1d86e3e73a513405af''),
     (31000, ''000efab01b3def16cd202db5c8efdb7d2c1b285308d42f822dec7fe9b352833d''),
     (31500, ''0008c6d27e887230b4ab777007c5c447bc51c3f78f5aa796a26770c78167f75f''),
     (32000, ''0004069f3d0d157f9d593dbf7683229946b60d8c164e5d7cbc34e536169713a9''),
     (32500, ''00117371ac96d314466e112987b84f7e8c5849a95062d23142a1725f1d764286''),
     (33000, ''001290d9a15bbeb36cb7b0d7fb8d16cf6fce2c8b32f1211503fb956ba811cd01''),
     (33500, ''0007538ef32f67c8ad3c9a3eccf758590c6333586515e3dcbaff991b28d4e20b''),
     (34000, ''001c82a11a7c7d53345820bb18681e5e88c337bf0e3644080ea4178e27554d8f''),
     (34500, ''0020c5a64fe0663ea397cf501399493122a4739e4f461b07337f335ea72d6ea5''),
     (35000, ''001c938b98526a1b9cd762a445ec227b74ca613883c1169cbd140facefdc44d9''),
     (35500, ''0006c63553fe4535a1b925119db614585eae8d8d4be7c3e5c5f34a4d12125578''),
     (36000, ''001dcbc64605201a7ce65c06da46a541d47b6ebc527dbfcd89fcab8ade2baf50''),
     (36500, ''0015693ff0d962907b43357870dbedf5f3f9b21b94692079d12fcfe5470d061f''),
     (37000, ''0014733e4df4ed1df4879beefadd95ee6831b08db5da1a6598cd7faeef6787c7''),
     (37500, ''000f2c2c8e757ffb1edb47228148aab8c5304cc7555b10727e2194b386c0dfea''),
     (38000, ''0009d7e4be910406d7f0bca60f0fc9f64da1eed2d7848b7c592d6b202c9cc70f''),
     (38500, ''0016b04e168ff72a9b80aa646478fe32fd64ac682f5d856be629266db9594b50''),
     (39000, ''001675f660e1e4190ed24b74d8176549c78e6f951e4a7c908af67b7cdb83e1e1''),
     (39500, ''00134b449cc2f805c20a07d00874bf26437acb79f25f4dec37d57368b1a82e54''),
     (40000, ''000ed4d95f6a7f1d36e563a4ba77d56b90b4009c765a2463e7c87328673ff015''),
     (40500, ''000aacff0ca07682871db789eb4085ade315ead5235dd75f31472910da6d46d3''),
     (41000, ''000632a44748d3dcfa1c809747a2bdd6be702eeb48f7295c9196c6ba33b7177a''),
     (41500, ''0005f4cad67bde2cf944197d56ae30f5b369673cd57486d09c9d4189d2e8bf1a''),
     (42000, ''000a0313cae86293c5e2ca57ca5e86805d63779137af07befe3996b35a947274''),
     (42500, ''00028d624e0958bb46b2a3bafe6ea43247f62bc7e23049caad4d2ec68b664d8a''),
     (43000, ''000a836709382528ae32b4ee69ea4c3577b3b5b8f19a06908ee1e196a33145ce''),
     (43500, ''000b52b3e4bf7240abf29837571775413bb2ba3f4180bac51b8e36217a6a5758''),
     (44000, ''0006a771fcf3fd77824af393e89a1805de02ef5f80f2b55c4fca62a5aa0ca52e''),
     (44500, ''0009789beaa10ff240f7c15fc37536279b619c52d073becb716cac7673063505''),
     (45000, ''00087aa516a5bacf0ccf1aeb39ab404512d4b66dada014f7c3b8f7a4551564c3''),
     (45500, ''000baa48a6c46940a2218eba1207c70bb4fbba4f3766f109dfa5ccfbf7114c0f''),
     (46000, ''0005375013e0edaccd4b3fdde58a0f46a07da3d49ce04677e6abc84383a98d0e''),
     (46500, ''00055d0195aa679a4b9e718cf2d09446b32b44e8c51f10c17ad0ef2cd724da35''),
     (47000, ''0009739a41b81e0a1a4a4d2bdbae31fd80257f93e6e3c872fc28ab2e83755e01''),
     (47500, ''000bd0092a8f631f46bd1ddfea18d82961d7ca6e562310021fa4696d48a1d3e7''),
     (48000, ''00066f1152271199c375e5a5c0af45d086b6c4060b29bcbaff98a1295fc572cb''),
     (48500, ''000cb37f230c9872c8529112076304e9ca7bae46ea3429c47381e34a3ba8a979''),
     (49000, ''0003ac145c04fac7de2dcd99b9db7ca5a626fbd05f8c9c0700f98b98a72d0f4d''),
     (49500, ''000d135139a7b7a76b1b86460e0c5925e4faaa97c06395c963a9df74fc56d71e''),
     (50000, ''000b7ae57c3ad35188be313d9632849b74d943dca16ef6d09718e16a1a4f3f71''),
     (50500, ''00048b4e5e89e5949c9d5ffc1e6eccc1313e486cb249ba511171c01272d25fd5''),
     (51000, ''0000e71d5c5c3f2271db85b2adc5f367c58d03c0030d4a8f5869bc3602d24537''),
     (51500, ''00045dc2e1b83143fc0130999a12f26e0b7017832d9f773dfd7f168d3cb20ca5''),
     (52000, ''0002fcfeec38d61cabd7f94d8465b5025fd29856e370f46462f5267721fd668a''),
     (52500, ''0001e697ea7aa0b24fe141414c1577bf5c0b7ba8bd0ac7975b7a10f0270f2b66''),
     (53000, ''0000df351951f3fe464427c9a5afa4d89fdc0de8290322c6104df4e64e3954fa''),
     (53500, ''0004e3717c23fbf484859486c258265b0e5e0115bd88ea214e08b6d23e27e6d3''),
     (54000, ''0002615a54bd138108f55e938dc6d48ddbf6b42afb7e63e03b08497d891782f5''),
     (54500, ''0002d6f1967f465836f49a13555d8ec06b88e9e59b273896e8f3b8ff0df54a00''),
     (55000, ''00055ee5f37d1e956731a6787678e3b0487940e6333d123aedd45fdf2d0a6dc4''),
     (55500, ''00054e0eb417f4fa922bacfbae0ef1d314ad9760ff0487f52c75fd58bbcb7212''),
     (56000, ''0003ce7a5f981c06230fbdd684f4f658a12310dbb0db54871cfdae42622e43a5''),
     (56500, ''0002908e4f517cb9f2da042056ec5f0ea786ee950cd7b4d618e97da03619eddf''),
     (57000, ''0000061817173d8c25bd54817dff2fd833cad20f1ba2d3285c021a1752f220f7''),
     (57500, ''00025734df5384fa1949348c7c64382b66504f13e659eb264e2738e0628da442''),
     (58000, ''0003bf254e6ed9823c5f27535fbbe3e6f1e2ef30923d3d5c8c7978ae35564d7a''),
     (58500, ''0003fb8448055fb99e90c38a8f1e7cb9115192ad495b6bf758dd8794abd42e91''),
     (59000, ''0001f6fce0dea21fd918d923c514393e3a855c9f8d77aca3250d9465204c0c07''),
     (59500, ''00021cc2ab8444b5098849dbb23a38aa330097d2f9e8fbeab3dc629289d4b9ba'')]"

definition KNOWN_HASHES_2 :: "(int \<times> string) list" where
  "KNOWN_HASHES_2 = [
     (60000, ''0003c310f5e8a6672ec3563eed6de210c60ae2606ebc96f7129992af0a973135''),
     (60500, ''0001ad2c5c9b863d6104043093717900b4194376509fb9fc6f7a98736cb5b046''),
     (61000, ''000090d404c5ff912cac64eee093f5904faec94759d3f754a9e18c3dca047e7e''),
     (61500, ''0000d47eff1e0c9ff5c87a81452a62b8229ea7c4aed451ae8f75e681ee5a29f0''),
     (62000, ''000188e29e62c99ddcab636e2934acef4fdf2ab4679b42d8728cd9df0bf79598''),
     (62500, ''0002574bd5087fe64d20b83915eb79d80465267e047b5b8ce5159d8ae13ae807''),
     (63000, ''00030127a313578d0222ac26f0f187b263f0becf5233ce585ae9551f29baeaa6''),
     (63500, ''0000f609b3a1b7c811f649b0eb444466eb10823f883ecb80ed10a5cb05569abf''),
     (64000, ''00015ecf16c71b940f3a91c9c8049154e5175750ce70cd93b5fd1ffceb32d9a1''),
     (64500, ''0000306e8c64bbc945b559c7fc3621c920380999139513b51c792f0f23dbc13a''),
     (65000, ''00021609d155ecc99603d8ba4474f482f54511d7622bfabb50d34c3e2fca2d7e''),
     (65500, ''0002325c59c0560b5e906fe48db7d90e2e682497763a2d9585bcf1a22ce601ab''),
     (66000, ''000207d3f1a660c846a57a183aa0626a71421fed3286d59ef1b912ede6c772bb''),
     (66500, ''0001ea049c482a26a1d261841310cb0e116a6e313666de937f729259913f240f''),
     (67000, ''000232f5656444f14e24190faa582c72dc84a094254ecae624ecf36a5eca70d5''),
     (67500, ''0001c4e14c896a4fd1a9e6127b2d714babbcf5dbf8fea1c4c465cb397234c69f''),
     (68000, ''0000a5c68c3fd3dc9a7ae97f7b017791a37300c1d814b9adbc7f1da5e302ec00''),
     (68500, ''0000a1972a4349397849b7a858954bc1ab113ad1c83a3ec1225f2f57864bfd10''),
     (69000, ''0000ae7f8d17166d63940de067b9274a08ede146910548052d7cfd28ede4d9c1''),
     (69500, ''00022a0fb60b96d4a02b5255a7ebcbba17f4a941721d8f573dde226685ba0255''),
     (70000, ''00029681dea8c8240f85485f238c807fd1894eb5fc05a960a6f54bb29efa7320''),
     (70500, ''00026a98cc951c18a76018f64da6202848a7036babcec007255b139e7e876d07''),
     (71000, ''00009b4a2e27e45226063a1663b1a81f06453dcf460ffaa09c3124f7aeb6d83c''),
     (71500, ''000073fec617036e47d565d16a2dbe39f3cbbc6d3219c4f0f783c2d04cd6646f''),
     (72000, ''0000fac7cf9b280716eb68656883d56b9552d4bc49ee523209903e9f4c1bc9c3''),
     (72500, ''0000fc3ed21c591a043439b2b283cd34ff894c473f53e318c4ae144ec63bc5b7''),
     (73000, ''0000d53d985740a8dfef83a1f5d0374969c4e62c75033cb0fb29484b5f82eeb9''),
     (73500, ''0000fd639175dc097f5b304cedfca673f13a1c9b29358e35dc84099527a226cb''),
     (74000, ''00008dd81902f694e3d590f1178242508a9db4534b9160cfb9a3fecfca0e7b5f''),
     (74500, ''00002a8df8528c7855f9eea904d74cec67bf5cc197f470f42b63e841b25610f5''),
     (75000, ''000043e6541252e930542ee543b3895e02d1caa772bbbf4908320f3f70705ae7''),
     (75500, ''00000ef49327564163319dd5a3ce989d4f5dc2f72d6f66270441020888fba62b''),
     (76000, ''00010a1d5e8d27f23559156ac3709c4f22d38efd1f41e1ce3e5fcfabae14f2f2''),
     (76500, ''0000a6bb3e103d954fbc06ae9a2f5b4a17977dc42ae7e4600c35bccd891be50a''),
     (77000, ''0000c5249d848d27946b03d855dc26ff3d821a0af0864976d665d7eaeacad3c3''),
     (77500, ''0000a5ef623d5b2e73234c831222fcda41b5b94b12d3c750a57bbdad3024ef1f''),
     (78000, ''000144901c4fc0e033b31627e255b0c81f2f07c6b7b41d05dd2cb5bf2c871cbb''),
     (78500, ''00005ff206bd80965ca91a676915c5ed3896945e53ee776a427b4fa633bade6f''),
     (79000, ''0000647ec242f44df2416a00a4a3dfbd73987bd140932bd3278e4912c6ba1bb6''),
     (79500, ''000163327fdaa3d6edea902f5bc1725ef59ca83b2cd4fded176196a1b2a9d98a''),
     (80000, ''0000b9384aa1ea458a3327c46e58aae69593edb8fbd70240f69b1e8e4df577db''),
     (80500, ''0000242d55fd364377783bc511eba63fb15f303dceef39159270fa8a3775cc4b''),
     (81000, ''00004fa30612ba80bce020223f02fb2f13c300b19fd9e8f58ad0311444e764af''),
     (81500, ''0000d3d34aa321b228b064baa70fb98b7d97d459e6191cabea6f37c549d755b1''),
     (82000, ''000010d1b61d7cca99104148c9a6aeb6d6439e50b1d1410e421a1a9027ef9dfb''),
     (82500, ''0000018e697390aa58aac000262c287be6f9800600f6a6b54539b9b33fbe649d''),
     (83000, ''000062f08b9e7d93e25ea125d0d8f80a6eb311f7397501b1f26fd1a1008cc4c7''),
     (83500, ''00014963a4e972f0fec332955c7c0fede49aaebe22e07b63b0bd48093f64e446''),
     (84000, ''000095f711faefec0407ad5a9c58b5ef4137235c6fa8bd27591ab941b1d61386''),
     (84500, ''0000074a61975118c5c131c951dac6adf14c5db03c45f2839b7b042f8a945dca''),
     (85000, ''00010b1aa4b57b2f9bd53b194fca2396ad8bf5e1d672a30c2cf7dec32655cbbd''),
     (85500, ''00011f70233a0c8d02f6d1093e1fb90c457d6e1d914f2e5cddb538137d57a967''),
     (86000, ''00014dfe38900c62399e4c051ce0e77511047c1a61c3a9ad2f93c1c2069622a1''),
     (86500, ''000007fc1c4463a4f79ed1e9f54284ac119dc0ef9888d35b3a6a6388fc78b99e''),
     (87000, ''0000eccfec71b1a00f8520f8255bff8bbbe70bcd612116ec818220266db3b5c5''),
     (87500, ''00001cfe7a645c5b0d6055a1a48ad3096fa532666da087d0fb776358140a52f2''),
     (88000, ''00001bd3cf49bfa8639d02bb7881b405d8437e4eb8c3c76f8b754d0002b93b62''),
     (88500, ''000020259d02fa32e59b36cf0591460bd8f4ef38f864ffd2511f88887dbbc935''),
     (89000, ''0000ed0ba483fdfcb3e672f26ea0c39e1da176a7dd5c2a14e029f72b33249d21''),
     (89500, ''00006e54d5493a59dd068a2bd37162d8e153b4762571e0e4d34f70f5c988ab37''),
     (90000, ''0000ab4935e53dc6e055e96b0484aea1561975d54d47c91230e1232c4e03020c''),
     (90500, ''000127a66989bd5b6dea50d167795cf0a7bca22d4666660a2c59d9c94340dbb9''),
     (91000, ''0000ab0b1b0ef8ec92b98633c3f41536b87a36d3a2a5b13feff8f1bdd047f9b7''),
     (91500, ''00020da6b1c558d087096a53b07fc8f7df1604ecb11c0300fce40e90e0940e91''),
     (92000, ''0000fd2120b9d8ebaf5fb5157b76a2a8d06cc80f4e8d61558b43c965f2e59f5a''),
     (92500, ''00002e2080d6d04d532ecca730f8b26359724487f25ee86d2565ddda79f404ce''),
     (93000, ''000085acad6aab252338bb4f7fd9d1b778d9359f8ac9c70b0862fc0c36fe9746''),
     (93500, ''0000fd225ba1656d9423713a624ab61de8f9fe52bf4bae5bf88d3e85c96c92be''),
     (94000, ''0000658ae5282eb011683c3df1524f25a9b3688a777866252b03d9aead2762e2''),
     (94500, ''000156c1e9677a1b403d72c70190b87369e8f4a34c28768773fd0c02d269835d''),
     (95000, ''0000e3c44c2caca5f3da3cc2ae9b0203a92fb9c32fb4ba149f53a7559328fcf2''),
     (95500, ''0000d9b30b849374559742cdaed7fc1bd9b843947435e6f6523152973fb0c689''),
     (96000, ''0002081fd478ca0e0dc2984933b5292a872c5ac942e69afb33504a551bc11b7b''),
     (96500, ''00013247d6ca0454406c6532a0810b2db01be582738ad6ff623afd492bcbc976''),
     (97000, ''000077f82a8cf4db1da4ba848918d8b497cd916f57b5ca8f8c17e4f4658a48e7''),
     (97500, ''00005108d5dd77b2650de603c3b5975ed0e9d9da7215ac4216f5e22c44988628''),
     (98000, ''00005b7321b513dcf77ab1bda6de0ac1eb1b23da300c1e6a173b132abd199c50''),
     (98500, ''00013ed6c233a14b759040e238adf5343b7c65ecf25f7d978ba5df17fdc167d5''),
     (99000, ''0000b26d6227706a549583fe52c7d96b03e83bf48e733bd74f85ab610dd1df09''),
     (99500, ''0000584bbf106196da00e7c007a544c33781d93aa21d4befdd6b023526663c08''),
     (100000, ''00010a2df0731fcc00b2f31247dcaadfcce993899073ebe89f7d917404da29e2''),
     (100500, ''0001103c0db9a0b8746d551885c59a81acbacf4a2b3e8f7bd94f886d7da9b215''),
     (101000, ''0001ff7352323fd1c8543d909dd0d84502f24df3ef09dd5e4521a495ecd154f4''),
     (101500, ''00002a39a07f27e0fbc3971875f54f486b4f565831da3df6f99a687fe998be4d''),
     (102000, ''00022063cc45781400a7db59b777320356719af739c700ecc11196919c28395f''),
     (102500, ''00020c97e85b815bf463788615e584c66b3dafd9d4af60a1d60ac8c455c6031e''),
     (103000, ''00014a9ac40d831329f66a9885ca175a0d3e512b72dc828e2923d62fbf2531fb''),
     (103500, ''0000a2b03a6b552f61fbb6ca6a53141e7ccfe680a2c1261daef791f460ef4d7a''),
     (104000, ''00013431d12a1e002c06d4b558d9671a3237bafda8bb1f6a94521acb553fc345''),
     (104500, ''0000c6b228c65af99c49c280471a462e899308e643d0d57afcb4260a6b47b6fc''),
     (105000, ''0000b35f344db10ec48e576cd0715b521758e702ca5c1415c2cf7a50d17018d2''),
     (105500, ''00009e736a7e7b6a8895aefda4b0f271ec9e261b3f9311406a46fac60971997e''),
     (106000, ''000202b6509f4c3f11fa694d33f4dbcce355099efca78774b92bbd25ba2d2c4c''),
     (106500, ''000033bdb02cb0ad48483dd4dade67c7aecd107f2dfe7974bd191f0dbbcaf47f''),
     (107000, ''0000a5edc6b3511d3b628f1098694349da5070e86abfc3e418cb6f7f316cb48a''),
     (107500, ''0000fefc867d551545f0286ec0a0089eb5a64553b7c7f2dda2504d487ff01298''),
     (108000, ''0000e5ac221ef31d9dc501169aed818fd57ad30fae630c7d9f100c1226e4f772''),
     (108500, ''0000ee1abe3b26fec534291c25d806bfaa2fcfa0d5488323f4195f81c341b9d9''),
     (109000, ''0001fcfa48e051e436870fb82d20b96ef101ec16250d12d8a3b358071fd2cdb0''),
     (109500, ''00006dd2d1e515f0913f429e036ea3c3f832dcfebf867c7ade09b5b3af8fd597''),
     (110000, ''0000f05b0cbe04153a3244b2d8afc9c2ad2d5393266275158e6e9bbe00a547b5''),
     (110500, ''00003dda482d172e2888414ebec8d0afdc5b7e56b68c6c0f3d4fdfa70dabf29d''),
     (111000, ''0000e71fc8494fba0123a5d5f1a542932be982806a575d9cdc1efb7fc6242da8''),
     (111500, ''00017a1642ebc727b66fe7b72e51569e1afec8f7493b310d99f4d5c7391b8de5''),
     (112000, ''0001aa91a19065f3ecb60d0acc904f00230ed3a396fc19496f3328e2510d4eb6''),
     (112500, ''0000aa96e5944911181cc57e119218f2a9455a6eee439086bfb417733a2971df''),
     (113000, ''00006169811bc8b8a2443a355cd79f37b46a4c2db0230d4b5e317cdc7756a83c''),
     (113500, ''00009c8de33b183b5e4cdfe03b4bc489bfc42b40f4ae92b958b25bdf6f44eac0''),
     (114000, ''00019913023146b9259df7e8619a12a0ea6166a170d897a6b1c03ace250d70de''),
     (114500, ''0001c781f6e6a97ac77b1987fecb866a7c14700e2b9427c5abec933ace4cb9fe''),
     (115000, ''00018cdeb17be019a7cf4fa4d173a8a77e14086c615e1776c1a7c368807afab5''),
     (115500, ''0000fdf0d2395eae210cc364b4e85eaca6b15dbbdb50534d302dbd0a9fca541c''),
     (116000, ''00012afe7af24a1e3a9d043f31af0e6c5880ec7761627b1611ffadf8c97bf9d0''),
     (116500, ''00012ae7b20cee3fdeeb0ca88e105f633934593beabb99fdf43714c47a7a5ce4''),
     (117000, ''00000e941f9bb6c07358d879b4791477bc627d3d318df2d54a7c6b25676ecd95''),
     (117500, ''0001ad1f49bfd29bf6446b2a40000cac93fc25b57031b8c0b876f7d7b60d8fe1''),
     (118000, ''00007f0f8553b35ff7d4c7dcbb7b9faf8834e92f6f00814163f1ca08b7cacda2''),
     (118500, ''0001d04216d2315182ff6b2d5551c43ab8646b647d5137ba692bdac2d3941eca''),
     (119000, ''0000cd42f90e8b77864b095169e7a105ef11c77947e759f8d83944e4d5399c5a''),
     (119500, ''00002e4fef8a51c7098192ffb7a08e7e0f3ebd7571680002b5814cb70ecb5462'')]"

definition KNOWN_HASHES_3 :: "(int \<times> string) list" where
  "KNOWN_HASHES_3 = [
     (120000, ''00009dbee0f8591979f2e89c90eb1a65a0920c97f1c8a4ad55ed0d93e7c876a4''),
     (120500, ''00011b23f71d6a331b76bfda56c9c2b53dd0f7046ca0fff6f23ea6552ddfa78d''),
     (121000, ''00001081ad75a971a995bdbb28fd0b9b8c572e5df1867b40066efafed9929b6a''),
     (121500, ''000001dbee1cc6359b5525d4cafa432f26fc43c33a5d915d17fbf53066a709d3''),
     (122000, ''0002069bf16b170ecb3f9d614c3bcb2467e915b029480178abfb57fb514203b3''),
     (122500, ''000160e63cd13e94aea626de03392d2041e2e548d99c1205c7e6da6e08e23cc9''),
     (123000, ''000252a36cab644bca818974dbbdcbfd6cae30c3156287fcd971bd56b7cebf8d''),
     (123500, ''0000c08ac632c55727731a1a5543d01cb25c06a2464abd6bd1d5b2294b704db1''),
     (124000, ''00014748aba172cdfd4e0c7cc2feb363d9f22742e82e67dfcd3a7dcc1780e857''),
     (124500, ''000196eb8ebddf0e062945b6ba1ebdca3d39499a4234530b29b2e78647b01612''),
     (125000, ''0000f1e568e963a23b7e1dead3e1ae9c3f8f12f48e36655475184508f9fc1e7a''),
     (125500, ''0001dfd2be581f03d018053aaaae7e0c362ce230425b4f2d059cf8681554be1d''),
     (126000, ''0001a4fa94fac4e93059b130716493ebef4eb903dd90aeb189cee23196393b73''),
     (126500, ''00002e7d991dd3fcd176e7d70ca539b450ae4eaf9899cd252f61fcc3f161e863''),
     (127000, ''00024ed9f4f78ff143c7ff14c4597b3c81b33ff2f0a1778e99901fdb9d6a2835''),
     (127500, ''0000bb7c15dae55a7eb74d1911a474dd53d93ee4b2c8f3e40d499f8ad18af0fa''),
     (128000, ''0000a65afa7d82fc3e3c48a01c9c597945d27131e134715327afcc5ab5d558f4''),
     (128500, ''0000a6b7bc5a43f27767064b4521ee32f8bfe146ec005294261ac71194d52f24''),
     (129000, ''0001762725a88f0c01da324178c95bdbf838de3a4503ecc1cff0fec5bcf9b57b''),
     (129500, ''0001b1a5043563265f8e4ca1f437dee2a1735412907b80346a0dc429fcf6795d''),
     (130000, ''00020a52de24e26fbbbac30c16e421234b67d58ea8640d032274eebfb338775b''),
     (130500, ''0000c8078d3f8b055209242e7fc56ef6c8e92dfb11d8dbec6fa8659c644ad2c4''),
     (131000, ''00001dd55386d342c5990e6e8da9a1a36d2baf7f06f2c1c94b006eeb56f72492''),
     (131500, ''0002338491387df9f9986b884badacc7a0f145134125c20aa0784841590e8e14''),
     (132000, ''000135e9ee8503cee8819836582b9aa64e1d3ae60659e2edb0304f34d44c1ad8''),
     (132500, ''0001dd86098adac5287d15f22c37b71c76fe0a2b78b5f946ccbc7006c967e279''),
     (133000, ''000046aa6840197149032a079d745cdb1500f7b31daa0f8d1977dc2b232464eb''),
     (133500, ''0002db5f5c238e45358bbe2a397691afc8430c14f03628a2769de65eb85f44f4''),
     (134000, ''0000939c793768fd8e0d5372795c2bc8a5d158e2fa076bc312798ede3e6492d7''),
     (134500, ''000232030a0e2abcf50b5a2bf8a52089ecc4c05b40c0ce2bb6451389ac87d6d8''),
     (135000, ''00014eb822e989b06f87e21a53551b4ffb0aa2bfa8cd297418904215614463dd''),
     (135500, ''00023e42fb6fd91191df6f1df393f90693790c4aa199fbe6fa70163b98b1c0b1''),
     (136000, ''00002574f1108a94452eeec1a5422d02ca7b311f867885de271618ffc128057f''),
     (136500, ''00009b6ea443ddfff3074bd903f1f850dcc1d92544d8567a805d5ed22ba0e17e''),
     (137000, ''00002111f3604392110980d26e756fb18348c0ee9c38f0ca550875a2a6c38ff9''),
     (137500, ''0001a4fa0149f53d5ebe80fc91d2c2adf1b7a8c3338d764e987a37a9f5afadec''),
     (138000, ''000103c54890e9b76372105769026b3cd545e11d981a74ef7a357f8574b4e18c''),
     (138500, ''00018a65bb5e920d21c6cdba028d241c30de2132f31a7b6b1b75a05e1b147173''),
     (139000, ''00020dc7915223a68a680b37032110cf92df9db72926f7f1a67555c9bd5d0bd8''),
     (139500, ''0001d3fbc462b6cff66aa2e045a7cf868d28f600c8bd0e38698969b12809c020''),
     (140000, ''0002272c92a6c3ee780943618de055808a4c2b924e554690db3eb69092463ea1''),
     (140500, ''0001faf69b557f52fcd7c89029f2fccfa1ee44f8a2787274156bdd2ccafe1826''),
     (141000, ''00009e228d5ea8c1d6ce61ad284263c23a3efaa63f98563f5c7aa17c463eb1c6''),
     (141500, ''0001983ce6edbaf415d6ed41b1ed04204e6809e9acde2b82e8ca1cdfecad644b''),
     (142000, ''00019a825b222d857a2f984307be2954ff39c17f8d4de3f6fb382636cf67d317''),
     (142500, ''0000574ccdf81a69e8633a93f389821e3daf1e03e2d93d4caf68a951c8b4af56''),
     (143000, ''00001b4c6becd4c91881ae3a8979be65489344010cab29aad6550b35ed0802ca''),
     (143500, ''000004e5c7e8df2fbfbb5d21a4ead5a46b53c0fc88467e7a3d5b850dd8e82ebf''),
     (144000, ''0000b18f4b506f6372ce0c3e69dd79448e151a275328a7e4cfef72cefee1542c''),
     (144500, ''00010c16af8921e449673d4f99e642fb7365122a8abc0f3505be1934a732d300''),
     (145000, ''0000280664ebad32d87b7d366e3f22651d19928719ff2176fbd51427113a72d4''),
     (145500, ''000132f20096724461bc852f07f98ad2dcd60bfb2a99f4a540d5cb8f3a880285''),
     (146000, ''000133980629fd714facd254d448ff56a5809843958ffcac52bccb5b2d69520f''),
     (146500, ''0001cd5dc0a9656614f60c5706f814fa4eb357664442f31dd876d40cab16edf6''),
     (147000, ''00014f58898971675cbdcb4b4ae382392962f521caae3b2d32f8463c7fe223db''),
     (147500, ''00021df95739804d52074c5345024d0ed15e897a40311e2b0737a953235438c4''),
     (148000, ''00007632ef1acc2132ea4221b2a3543eae2d2ec1efbc43a36d94538e1139035a''),
     (148500, ''00014155378ffa8974ec331eaa68b3da447fb76996f2e4e8d3bc723b4c195fb0''),
     (149000, ''000179300f602c8e708a83789471f2eff5e93c453d2254f7733ee942883fae72''),
     (149500, ''0000cd37369f693bb1f62675985dafe57a047180f3f14ea64bb2f480ab4bf30d''),
     (150000, ''0000912341ad2d1192dede72b02210fb4b291e9b3ead451e2c9519a6b9a1903d''),
     (150500, ''0000deddfc10ac2631ed2483f045511018a08c55068c288a882be60ab81e1753''),
     (151000, ''000080b768243d180460334c28f5d229634fd247259971e83a65be49dff06aaf''),
     (151500, ''00017fb5a514566d0b6f915d3c998b015955b1ca891dea65799b98ac4a76b335''),
     (152000, ''0001d7398aa10f676b10ff57cfd89c7bb34532238486269b83ce7a92a0ab815d''),
     (152500, ''00010236f6a0f38be8dcf5271f45839a878abd67fc220f2684ecded3af1539d9''),
     (153000, ''0000e15652412bbbb04b1e0132002632c803cd5f5a27a74883b460edb64424d8''),
     (153500, ''0000cf3559a03e12cef4692b67ea19c5f768795a7b075e8e2421d81b27e84fa4''),
     (154000, ''0000951a71828350bd6d10921c63fcf328dd8ed3409d04883698997f21066e5a''),
     (154500, ''000055be7e66ab729fe4a695a7c69ecf1fc40321c040cef8dc300b3db1c0c5fc''),
     (155000, ''00005e04ab6675083146fa748a1dbf9b5d0d5f90200aa45e791b0e9855434a0f''),
     (155500, ''0000c25b7b020b6054209f1326f6ad3910a72b51dfd157ba8db7f18223dcc80c''),
     (156000, ''00005f8580d98ec76dc94ab15454f06edf50e3cee4b1d1cd226c6c89010eb420''),
     (156500, ''00008d4b9b88535827d22510b52215e11a65c21d3b14e19f3c8328951dfeba26''),
     (157000, ''00007c510c820a85fa9808bdec2265dec73468b9d3de00687ece45e93908ccc3''),
     (157500, ''0000f556d6232ca3a00e9f58aef872859215f18c8bd03c920ab07708bbc9fd9d''),
     (158000, ''0001bec35959fd0449493b30a0360751e0f82aa3891750f6156d9fcafeb20dde''),
     (158500, ''000139d9542a2707329a3bc00407b03f1b6c131db0001d8132966f5ae5bad839''),
     (159000, ''000107cf602117535fde5e2422094804f5d450cf4bc134e0188e031aa1686d3b''),
     (159500, ''0001b541f6a7337eafa546dcb2f1f65e0af660d57982ba3d4f56b705729a738c''),
     (160000, ''000097f56ed7d7d08cd53ee97290af169421b2bd923faf1687dca45918cbd0af''),
     (160500, ''000044ade46ca59b6abb379e8fcaad19e8cec8dc0606e3908e18a8056e816165''),
     (161000, ''0000f4962a9555d215c1e2b55e03ff92cdc4bdd226b97715386a2e6c265201fd''),
     (161500, ''00021f01ab272a102fbb2792112508a04f85007a13c7cb5a8dd9e7cb1b765bf2''),
     (162000, ''000341f112f8bee9db35253a2cd5f46fa216f5655f824d15bb9ce2db2242a61e''),
     (162500, ''0003ae006c8362483e97bd58e3474958aa3224ece58ccb86081d9b93ac37402a''),
     (163000, ''0004ffae52a8f42088d3ccc24f0f04b11489666329c0d6321ebaf0c3b9cd5140'')]"

definition KNOWN_HASHES_4 :: "(int \<times> string) list" where
  "KNOWN_HASHES_4 = [
     (131500, ''0002338491387df9f9986b884badacc7a0f145134125c20aa0784841590e8e14''),
     (132000, ''000135e9ee8503cee8819836582b9aa64e1d3ae60659e2edb0304f34d44c1ad8''),
     (132500, ''0001dd86098adac5287d15f22c37b71c76fe0a2b78b5f946ccbc7006c967e279''),
     (133000, ''000046aa6840197149032a079d745cdb1500f7b31daa0f8d1977dc2b232464eb''),
     (133500, ''0002db5f5c238e45358bbe2a397691afc8430c14f03628a2769de65eb85f44f4''),
     (134000, ''0000939c793768fd8e0d5372795c2bc8a5d158e2fa076bc312798ede3e6492d7''),
     (134500, ''000232030a0e2abcf50b5a2bf8a52089ecc4c05b40c0ce2bb6451389ac87d6d8''),
     (135000, ''00014eb822e989b06f87e21a53551b4ffb0aa2bfa8cd297418904215614463dd''),
     (135500, ''00023e42fb6fd91191df6f1df393f90693790c4aa199fbe6fa70163b98b1c0b1''),
     (136000, ''00002574f1108a94452eeec1a5422d02ca7b311f867885de271618ffc128057f''),
     (136500, ''00009b6ea443ddfff3074bd903f1f850dcc1d92544d8567a805d5ed22ba0e17e''),
     (137000, ''00002111f3604392110980d26e756fb18348c0ee9c38f0ca550875a2a6c38ff9''),
     (137500, ''0001a4fa0149f53d5ebe80fc91d2c2adf1b7a8c3338d764e987a37a9f5afadec''),
     (138000, ''000103c54890e9b76372105769026b3cd545e11d981a74ef7a357f8574b4e18c''),
     (138500, ''00018a65bb5e920d21c6cdba028d241c30de2132f31a7b6b1b75a05e1b147173''),
     (139000, ''00020dc7915223a68a680b37032110cf92df9db72926f7f1a67555c9bd5d0bd8''),
     (139500, ''0001d3fbc462b6cff66aa2e045a7cf868d28f600c8bd0e38698969b12809c020''),
     (140000, ''0002272c92a6c3ee780943618de055808a4c2b924e554690db3eb69092463ea1''),
     (140500, ''0001faf69b557f52fcd7c89029f2fccfa1ee44f8a2787274156bdd2ccafe1826''),
     (141000, ''00009e228d5ea8c1d6ce61ad284263c23a3efaa63f98563f5c7aa17c463eb1c6''),
     (141500, ''0001983ce6edbaf415d6ed41b1ed04204e6809e9acde2b82e8ca1cdfecad644b''),
     (142000, ''00019a825b222d857a2f984307be2954ff39c17f8d4de3f6fb382636cf67d317''),
     (142500, ''0000574ccdf81a69e8633a93f389821e3daf1e03e2d93d4caf68a951c8b4af56''),
     (143000, ''00001b4c6becd4c91881ae3a8979be65489344010cab29aad6550b35ed0802ca''),
     (143500, ''000004e5c7e8df2fbfbb5d21a4ead5a46b53c0fc88467e7a3d5b850dd8e82ebf''),
     (144000, ''0000b18f4b506f6372ce0c3e69dd79448e151a275328a7e4cfef72cefee1542c''),
     (144500, ''00010c16af8921e449673d4f99e642fb7365122a8abc0f3505be1934a732d300''),
     (145000, ''0000280664ebad32d87b7d366e3f22651d19928719ff2176fbd51427113a72d4''),
     (145500, ''000132f20096724461bc852f07f98ad2dcd60bfb2a99f4a540d5cb8f3a880285''),
     (146000, ''000133980629fd714facd254d448ff56a5809843958ffcac52bccb5b2d69520f''),
     (146500, ''0001cd5dc0a9656614f60c5706f814fa4eb357664442f31dd876d40cab16edf6''),
     (147000, ''00014f58898971675cbdcb4b4ae382392962f521caae3b2d32f8463c7fe223db''),
     (147500, ''00021df95739804d52074c5345024d0ed15e897a40311e2b0737a953235438c4''),
     (148000, ''00007632ef1acc2132ea4221b2a3543eae2d2ec1efbc43a36d94538e1139035a''),
     (148500, ''00014155378ffa8974ec331eaa68b3da447fb76996f2e4e8d3bc723b4c195fb0''),
     (149000, ''000179300f602c8e708a83789471f2eff5e93c453d2254f7733ee942883fae72''),
     (149500, ''0000cd37369f693bb1f62675985dafe57a047180f3f14ea64bb2f480ab4bf30d''),
     (150000, ''0000912341ad2d1192dede72b02210fb4b291e9b3ead451e2c9519a6b9a1903d''),
     (150500, ''0000deddfc10ac2631ed2483f045511018a08c55068c288a882be60ab81e1753''),
     (151000, ''000080b768243d180460334c28f5d229634fd247259971e83a65be49dff06aaf''),
     (151500, ''00017fb5a514566d0b6f915d3c998b015955b1ca891dea65799b98ac4a76b335''),
     (152000, ''0001d7398aa10f676b10ff57cfd89c7bb34532238486269b83ce7a92a0ab815d''),
     (152500, ''00010236f6a0f38be8dcf5271f45839a878abd67fc220f2684ecded3af1539d9''),
     (153000, ''0000e15652412bbbb04b1e0132002632c803cd5f5a27a74883b460edb64424d8''),
     (153500, ''0000cf3559a03e12cef4692b67ea19c5f768795a7b075e8e2421d81b27e84fa4''),
     (154000, ''0000951a71828350bd6d10921c63fcf328dd8ed3409d04883698997f21066e5a''),
     (154500, ''000055be7e66ab729fe4a695a7c69ecf1fc40321c040cef8dc300b3db1c0c5fc''),
     (155000, ''00005e04ab6675083146fa748a1dbf9b5d0d5f90200aa45e791b0e9855434a0f''),
     (155500, ''0000c25b7b020b6054209f1326f6ad3910a72b51dfd157ba8db7f18223dcc80c''),
     (156000, ''00005f8580d98ec76dc94ab15454f06edf50e3cee4b1d1cd226c6c89010eb420''),
     (156500, ''00008d4b9b88535827d22510b52215e11a65c21d3b14e19f3c8328951dfeba26''),
     (157000, ''00007c510c820a85fa9808bdec2265dec73468b9d3de00687ece45e93908ccc3''),
     (157500, ''0000f556d6232ca3a00e9f58aef872859215f18c8bd03c920ab07708bbc9fd9d''),
     (158000, ''0001bec35959fd0449493b30a0360751e0f82aa3891750f6156d9fcafeb20dde''),
     (158500, ''000139d9542a2707329a3bc00407b03f1b6c131db0001d8132966f5ae5bad839''),
     (159000, ''000107cf602117535fde5e2422094804f5d450cf4bc134e0188e031aa1686d3b''),
     (159500, ''0001b541f6a7337eafa546dcb2f1f65e0af660d57982ba3d4f56b705729a738c''),
     (160000, ''000097f56ed7d7d08cd53ee97290af169421b2bd923faf1687dca45918cbd0af''),
     (160500, ''000044ade46ca59b6abb379e8fcaad19e8cec8dc0606e3908e18a8056e816165''),
     (161000, ''0000f4962a9555d215c1e2b55e03ff92cdc4bdd226b97715386a2e6c265201fd''),
     (161500, ''00021f01ab272a102fbb2792112508a04f85007a13c7cb5a8dd9e7cb1b765bf2''),
     (162000, ''000341f112f8bee9db35253a2cd5f46fa216f5655f824d15bb9ce2db2242a61e''),
     (162500, ''0003ae006c8362483e97bd58e3474958aa3224ece58ccb86081d9b93ac37402a''),
     (163000, ''0004ffae52a8f42088d3ccc24f0f04b11489666329c0d6321ebaf0c3b9cd5140'')]"

definition KNOWN_HASHES_entries :: "(int \<times> string) list" where
  "KNOWN_HASHES_entries = KNOWN_HASHES_1 @ KNOWN_HASHES_2 @ KNOWN_HASHES_3 @ KNOWN_HASHES_4"

definition KNOWN_HASHES :: "int \<Rightarrow> string option" where
  "KNOWN_HASHES = map_of (rev KNOWN_HASHES_entries)"

definition MAX_KNOWN_HASH_HEIGHT :: int where
  "MAX_KNOWN_HASH_HEIGHT = foldr max (map fst KNOWN_HASHES_entries) 0"

section \<open>Its keys\<close>

lemma known_hashes_keys_parts:
  "map fst KNOWN_HASHES_1 = 0 # 500 # map (\<lambda>n. 500 * int n) [2..<120]"
  "map fst KNOWN_HASHES_2 = map (\<lambda>n. 500 * int n) [120..<240]"
  "map fst KNOWN_HASHES_3 = map (\<lambda>n. 500 * int n) [240..<327]"
  "map fst KNOWN_HASHES_4 = map (\<lambda>n. 500 * int n) [263..<327]"
  unfolding KNOWN_HASHES_1_def KNOWN_HASHES_2_def KNOWN_HASHES_3_def KNOWN_HASHES_4_def
  by (simp_all add: upt_rec_numeral)

lemma known_hashes_keys: "set (map fst KNOWN_HASHES_entries) = (\<lambda>n. 500 * int n) ` {..<327}"
proof -
  let ?f = "\<lambda>n. 500 * int n"
  have parts: "set (map fst KNOWN_HASHES_1) = ?f ` ({0, 1} \<union> {2..<120})"
    "set (map fst KNOWN_HASHES_2) = ?f ` {120..<240}" "set (map fst KNOWN_HASHES_3) = ?f ` {240..<327}"
    "set (map fst KNOWN_HASHES_4) = ?f ` {263..<327}"
    unfolding known_hashes_keys_parts set_map list.set set_upt by (simp_all only: image_Un) simp
  have "{..<327::nat} = {0, 1} \<union> {2..<120} \<union> {120..<240} \<union> {240..<327} \<union> {263..<327}" by auto
  then show ?thesis
    unfolding KNOWN_HASHES_entries_def map_append set_append parts by (simp only: image_Un Un_assoc)
qed

lemma KNOWN_HASHES_dom: "KNOWN_HASHES h \<noteq> None \<longleftrightarrow> 0 \<le> h \<and> h \<le> 163000 \<and> h mod 500 = 0"
proof -
  have "KNOWN_HASHES h \<noteq> None \<longleftrightarrow> h \<in> (\<lambda>n. 500 * int n) ` {..<327}"
    unfolding KNOWN_HASHES_def map_of_eq_None_iff using known_hashes_keys by auto
  also have "\<dots> \<longleftrightarrow> 0 \<le> h \<and> h \<le> 163000 \<and> h mod 500 = 0"
  proof
    assume "0 \<le> h \<and> h \<le> 163000 \<and> h mod 500 = 0"
    then have "h = 500 * int (nat (h div 500))" "nat (h div 500) < 327" by auto
    then show "h \<in> (\<lambda>n. 500 * int n) ` {..<327}" by blast
  qed auto
  finally show ?thesis .
qed

lemma foldr_max_le: "foldr max xs 0 \<le> (m :: int) \<longleftrightarrow> 0 \<le> m \<and> (\<forall>x\<in>set xs. x \<le> m)"
  by (induction xs) auto

lemma MAX_KNOWN_HASH_HEIGHT_value [simp]: "MAX_KNOWN_HASH_HEIGHT = 163000"
proof (rule antisym)
  show "MAX_KNOWN_HASH_HEIGHT \<le> 163000"
    unfolding MAX_KNOWN_HASH_HEIGHT_def foldr_max_le known_hashes_keys by auto
  have "163000 \<in> set (map fst KNOWN_HASHES_entries)"
    unfolding known_hashes_keys by (auto intro!: image_eqI [of _ _ 326])
  moreover have "foldr max (map fst KNOWN_HASHES_entries) 0 \<le> MAX_KNOWN_HASH_HEIGHT"
    by (simp add: MAX_KNOWN_HASH_HEIGHT_def)
  ultimately show "163000 \<le> MAX_KNOWN_HASH_HEIGHT" unfolding foldr_max_le by blast
qed

lemma KNOWN_HASHES_0: "KNOWN_HASHES 0 = Some ''00c4ff1d0788c7058f3d8388d77b2feda0921fa141078fb895871634e0c36780''"
proof -
  let ?v = "''00c4ff1d0788c7058f3d8388d77b2feda0921fa141078fb895871634e0c36780''"
  obtain rest where K1: "KNOWN_HASHES_1 = (0, ?v) # rest" by (simp add: KNOWN_HASHES_1_def)
  then have keys: "map fst rest = 500 # map (\<lambda>n. 500 * int n) [2..<120]"
    using known_hashes_keys_parts(1) unfolding K1 list.map fst_conv list.inject by blast
  have "0 \<notin> set (map fst (rest @ KNOWN_HASHES_2 @ KNOWN_HASHES_3 @ KNOWN_HASHES_4))"
    unfolding map_append keys known_hashes_keys_parts by auto
  then have "map_of (rev (rest @ KNOWN_HASHES_2 @ KNOWN_HASHES_3 @ KNOWN_HASHES_4)) 0 = None"
    by (simp only: map_of_eq_None_iff set_map set_rev not_False_eq_True)
  then show ?thesis
    by (simp add: KNOWN_HASHES_def KNOWN_HASHES_entries_def K1) (simp add: map_add_def)
qed

end
