(* ===== verification/Consensus.thy ===== *)
theory Consensus
  imports Merkletree Pow Genesis Cheating
begin

text \<open>
  Model of \<open>skepticoin/consensus.py\<close>, function by function: construction of blocks and their
  validation, alone and against a state. A validator returns \<open>()\<close> or the error it raises; checks
  run in the order of the source, so the first one that fails decides. \<open>CoinState.add_block\<close> is here
  too, because it calls the validators. The theorems on these definitions are in \<open>Targets\<close>,
  \<open>Validation\<close>, \<open>Mining_Blocks\<close> and \<open>Ledger\<close>.
\<close>

section \<open>Shared between construction and validation\<close>

definition calc_merkle_root_hash :: "crypto \<Rightarrow> transaction list \<Rightarrow> bytes result" where
  "calc_merkle_root_hash cr transactions =
     rbind (rmap (transaction_hash cr) transactions) (get_merkle_root cr)"

definition calculate_new_target :: "bytes \<Rightarrow> int \<Rightarrow> bytes result" where
  "calculate_new_target previous_target actual_time_passed =
     (let i_previous_target = be_value previous_target;
          res = (i_previous_target * actual_time_passed) div DESIRED_TARGET_READJUSTMENT_TIMESPAN;
          res = (if res > 2 ^ (32 * 8) - 1 then 2 ^ (32 * 8) - 1 else res) in
      to_bytes 32 res)"

definition calc_target :: "crypto \<Rightarrow> coinstate \<Rightarrow> int \<Rightarrow> int \<Rightarrow> block \<Rightarrow> bytes result" where
  "calc_target cr cs height current_timestamp previous_block =
     (if height mod BLOCKS_BETWEEN_TARGET_READJUSTMENT = 0
      then let interval_start_height = height - BLOCKS_BETWEEN_TARGET_READJUSTMENT in
           rbind (block_hash cr previous_block) (\<lambda>h.
           rbind (lookup_key (cs_block_by_height_by_hash cs) h) (\<lambda>by_height.
           rbind (lookup_key by_height interval_start_height) (\<lambda>interval_start_block.
           let time_passed = current_timestamp - block_timestamp interval_start_block in
           calculate_new_target (block_target previous_block) time_passed)))
      else Inr (block_target previous_block))"

section \<open>Construction\<close>

definition construct_minable_summary_genesis ::
  "crypto \<Rightarrow> transaction list \<Rightarrow> int \<Rightarrow> int \<Rightarrow> block_summary result" where
  "construct_minable_summary_genesis cr transactions current_timestamp nonce =
     rbind (calc_merkle_root_hash cr transactions) (\<lambda>merkle_root_hash.
     Inr \<lparr>bs_height = 0, bs_previous_block_hash = zero_hash, bs_merkle_root_hash = merkle_root_hash,
       bs_timestamp = current_timestamp, bs_target = INITIAL_TARGET, bs_nonce = nonce\<rparr>)"

definition construct_minable_summary ::
  "crypto \<Rightarrow> coinstate \<Rightarrow> transaction list \<Rightarrow> int \<Rightarrow> int \<Rightarrow> block_summary result" where
  "construct_minable_summary cr cs transactions current_timestamp nonce =
     (case cs_current_chain_hash cs of
        None \<Rightarrow> construct_minable_summary_genesis cr transactions current_timestamp nonce
      | Some current_chain_hash \<Rightarrow>
          rbind (cs_head cs) (\<lambda>previous_block.
          let height = block_height previous_block + 1 in
          rbind (calc_merkle_root_hash cr transactions) (\<lambda>merkle_root_hash.
          rbind (calc_target cr cs height current_timestamp previous_block) (\<lambda>target.
          Inr \<lparr>bs_height = height, bs_previous_block_hash = current_chain_hash,
            bs_merkle_root_hash = merkle_root_hash, bs_timestamp = current_timestamp, bs_target = target,
            bs_nonce = nonce\<rparr>))))"

definition get_transaction_fee :: "transaction \<Rightarrow> unspent \<Rightarrow> int result" where
  "get_transaction_fee t unspent_transactions =
     rbind (rmap (\<lambda>i. lookup_key unspent_transactions (inp_output_reference i)) (tx_inputs t)) (\<lambda>outs.
     let total_input_value = sum_list (map out_value outs);
         total_output_value = sum_list (map out_value (tx_outputs t)) in
     Inr (total_input_value - total_output_value))"

definition get_block_fees :: "transaction list \<Rightarrow> unspent \<Rightarrow> int result" where
  "get_block_fees non_coinbase_transactions unspent_transaction_outs =
     rbind (rmap (\<lambda>t. get_transaction_fee t unspent_transaction_outs) non_coinbase_transactions)
       (\<lambda>fees. Inr (sum_list fees))"

text \<open>
  For a negative height (which no block read from bytes has) Python's \<open>2 ** halvings\<close> is a float;
  the quotient is this number.
\<close>

definition get_block_subsidy :: "int \<Rightarrow> int" where
  "get_block_subsidy height =
     (let halvings = height div SUBSIDY_HALVING_INTERVAL in
      if halvings \<ge> 64 then 0
      else if halvings < 0 then INITIAL_SUBSIDY * 2 ^ nat (- halvings)
      else INITIAL_SUBSIDY div 2 ^ nat halvings)"

definition construct_reference_to_thin_air :: "output_reference result" where
  "construct_reference_to_thin_air = mk_output_reference zero_hash 0"

definition construct_coinbase_transaction ::
  "int \<Rightarrow> transaction list \<Rightarrow> unspent \<Rightarrow> bytes \<Rightarrow> public_key \<Rightarrow> transaction result" where
  "construct_coinbase_transaction height other_transactions unspent_transaction_outs sig miner_public_key =
     (let subsidy = get_block_subsidy height in
      rbind (get_block_fees other_transactions unspent_transaction_outs) (\<lambda>fees.
      rbind (mk_coinbase_data height sig) (\<lambda>coinbase_data.
      rbind construct_reference_to_thin_air (\<lambda>thin_air.
      Inr \<lparr>tx_inputs = [\<lparr>inp_output_reference = thin_air, inp_signature = Some coinbase_data\<rparr>],
           tx_outputs = [\<lparr>out_value = subsidy + fees, out_public_key = miner_public_key\<rparr>],
           tx_cached_hash = None\<rparr>))))"

definition construct_summary_hash :: "crypto \<Rightarrow> block_summary \<Rightarrow> int \<Rightarrow> bytes result" where
  "construct_summary_hash cr summary current_height =
     rbind (stream_serialize_block_summary summary) (\<lambda>password.
     rbind (to_bytes 8 current_height) (\<lambda>salt.
     Inr (scrypt cr password salt)))"

definition construct_pow_evidence_after_scrypt ::
  "crypto \<Rightarrow> bytes \<Rightarrow> coinstate \<Rightarrow> block_summary \<Rightarrow> int \<Rightarrow> transaction list \<Rightarrow> pow_evidence result" where
  "construct_pow_evidence_after_scrypt cr summary_hash cs summary current_height transactions =
     (let get_block_by_height = (\<lambda>h.
            rbind (lookup_key (cs_block_by_height_by_hash cs) (bs_previous_block_hash summary))
              (\<lambda>by_height. lookup_key by_height h)) in
      rbind (if current_height = 0 then Inr (replicate CHAIN_SAMPLE_TOTAL_SIZE 0)
             else select_n_k_length_slices_from_chain cr summary_hash current_height get_block_by_height
                    CHAIN_SAMPLE_COUNT CHAIN_SAMPLE_SIZE) (\<lambda>chain_sample.
      rbind (stream_serialize_list stream_serialize_transaction transactions) (\<lambda>serialized_transactions.
      Inr \<lparr>pe_summary_hash = summary_hash, pe_chain_sample = chain_sample,
           pe_block_hash = blake2 cr (summary_hash @ chain_sample @ serialized_transactions)\<rparr>)))"

definition construct_pow_evidence ::
  "crypto \<Rightarrow> coinstate \<Rightarrow> block_summary \<Rightarrow> int \<Rightarrow> transaction list \<Rightarrow> pow_evidence result" where
  "construct_pow_evidence cr cs summary current_height transactions =
     rbind (construct_summary_hash cr summary current_height) (\<lambda>summary_hash.
     construct_pow_evidence_after_scrypt cr summary_hash cs summary current_height transactions)"

text \<open>\<open>Block(BlockHeader(summary, evidence), transactions)\<close>\<close>

definition mk_block :: "block_summary \<Rightarrow> pow_evidence \<Rightarrow> transaction list \<Rightarrow> block" where
  "mk_block summary evidence transactions =
     \<lparr>blk_header = \<lparr>hd_summary = summary, hd_pow_evidence = evidence\<rparr>, blk_transactions = transactions,
      blk_cached_hash = None\<rparr>"

definition construct_block_for_mining_genesis ::
  "crypto \<Rightarrow> transaction list \<Rightarrow> public_key \<Rightarrow> int \<Rightarrow> bytes \<Rightarrow> int \<Rightarrow> block result" where
  "construct_block_for_mining_genesis cr non_coinbase_transactions miner_public_key current_timestamp
       random_data nonce =
     rbind (construct_coinbase_transaction 0 non_coinbase_transactions Map.empty random_data miner_public_key)
       (\<lambda>coinbase_transaction.
      let transactions = [coinbase_transaction] @ non_coinbase_transactions in
      rbind (construct_minable_summary cr empty_coinstate transactions current_timestamp nonce) (\<lambda>summary.
      rbind (construct_pow_evidence cr empty_coinstate summary 0 transactions) (\<lambda>evidence.
      Inr (mk_block summary evidence transactions))))"

definition construct_block_pow_evidence_input ::
  "crypto \<Rightarrow> coinstate \<Rightarrow> transaction list \<Rightarrow> public_key \<Rightarrow> int \<Rightarrow> bytes \<Rightarrow> int \<Rightarrow>
   (block_summary \<times> int \<times> transaction list) result" where
  "construct_block_pow_evidence_input cr cs non_coinbase_transactions miner_public_key current_timestamp
       random_data nonce =
     rbind (cs_head cs) (\<lambda>previous_block.
      let current_height = block_height previous_block + 1 in
      rbind (assert_current cs) (\<lambda>current_chain_hash.
      rbind (lookup_key (cs_unspent_transaction_outs_by_hash cs) current_chain_hash) (\<lambda>unspent_transaction_outs.
      rbind (construct_coinbase_transaction current_height non_coinbase_transactions unspent_transaction_outs
               random_data miner_public_key) (\<lambda>coinbase_transaction.
      let transactions = [coinbase_transaction] @ non_coinbase_transactions in
      rbind (construct_minable_summary cr cs transactions current_timestamp nonce) (\<lambda>summary.
      Inr (summary, current_height, transactions))))))"

definition construct_block_for_mining ::
  "crypto \<Rightarrow> coinstate \<Rightarrow> transaction list \<Rightarrow> public_key \<Rightarrow> int \<Rightarrow> bytes \<Rightarrow> int \<Rightarrow> block result" where
  "construct_block_for_mining cr cs non_coinbase_transactions miner_public_key current_timestamp
       random_data nonce =
     rbind (construct_block_pow_evidence_input cr cs non_coinbase_transactions miner_public_key
              current_timestamp random_data nonce) (\<lambda>(summary, current_height, transactions).
     rbind (construct_pow_evidence cr cs summary current_height transactions) (\<lambda>evidence.
     Inr (mk_block summary evidence transactions)))"

section \<open>Validation of transactions\<close>

definition validate_sashimi_range :: "int \<Rightarrow> unit result" where
  "validate_sashimi_range value =
     raise_if (\<not> (0 < value \<and> value \<le> MAX_SASHIMI)) (ValidationError ''Value out of range.'')"

text \<open>\<open>if x in seen: raise e\<close> and \<open>seen.add(x)\<close>\<close>

definition see_reference :: "string \<Rightarrow> output_reference list \<Rightarrow> tx_input \<Rightarrow> output_reference list result" where
  "see_reference message seen input =
     rbind (raise_if (inp_output_reference input \<in> set seen) (ValidateTransactionError message))
       (\<lambda>_. Inr (inp_output_reference input # seen))"

definition validate_input_by_itself :: "tx_input \<Rightarrow> unit result" where
  "validate_input_by_itself input =
     rbind (raise_if (references_thin_air (inp_output_reference input))
              (ValidateTransactionError ''Coinbase-like null-reference in non-coinbase transaction.'')) (\<lambda>_.
     case inp_signature input of
       None \<Rightarrow> Inl AssertionError
     | Some s \<Rightarrow> raise_if (is_not_signature s)
         (ValidateTransactionError ''Non-signature Signature class used where a real one is expected.''))"

definition validate_non_coinbase_transaction_by_itself :: "transaction \<Rightarrow> unit result" where
  "validate_non_coinbase_transaction_by_itself t =
     rbind (raise_if (length (tx_inputs t) = 0) (ValidateTransactionError ''No inputs'')) (\<lambda>_.
     rbind (raise_if (length (tx_outputs t) = 0) (ValidateTransactionError ''No outputs'')) (\<lambda>_.
     rbind (stream_serialize_transaction t) (\<lambda>bs.
     rbind (raise_if (MAX_BLOCK_SIZE < int (length bs)) (ValidateTransactionError ''transaction > MAX_BLOCK_SIZE'')) (\<lambda>_.
     rbind (rfold (\<lambda>total p. rbind (validate_sashimi_range (out_value p)) (\<lambda>_. Inr (total + out_value p)))
              0 (tx_outputs t)) (\<lambda>total_transaction_output_value.
     rbind (validate_sashimi_range total_transaction_output_value) (\<lambda>_.
     rbind (rfold (see_reference ''Single output_reference referenced more than once in single transaction.'')
              [] (tx_inputs t)) (\<lambda>_.
     rforeach validate_input_by_itself (tx_inputs t))))))))"

definition validate_signature_for_spend :: "crypto \<Rightarrow> tx_input \<Rightarrow> tx_output \<Rightarrow> transaction \<Rightarrow> unit result" where
  "validate_signature_for_spend cr input previous_output t =
     rbind (stream_serialize_transaction (transaction_signable_equivalent t)) (\<lambda>message.
     case inp_signature input of
       None \<Rightarrow> Inl AssertionError
     | Some s \<Rightarrow>
         rbind (signature_validate cr s (out_public_key previous_output) message) (\<lambda>valid.
         raise_if (\<not> valid) (ValidateTransactionError ''Wrong signature for claimed output'')))"

definition validate_coinbase_transaction_by_itself :: "transaction \<Rightarrow> unit result" where
  "validate_coinbase_transaction_by_itself t =
     rbind (raise_if (length (tx_inputs t) \<noteq> 1)
              (ValidateTransactionError ''Coinbase transaction should have precisely 1 input'')) (\<lambda>_.
     rbind (first_elem (tx_inputs t)) (\<lambda>input.
     rbind (raise_if (\<not> references_thin_air (inp_output_reference input))
              (ValidateTransactionError ''Coinbase must create its value out of thin air'')) (\<lambda>_.
     case inp_signature input of
       Some (CoinbaseData height sig) \<Rightarrow>
         raise_if (MAX_COINBASE_RANDOM_DATA_SIZE < int (length sig))
           (ValidateTransactionError ''Random data > MAX_COINBASE_RANDOM_DATA_SIZE'')
     | _ \<Rightarrow> Inl (ValidateTransactionError ''A coinbase transaction should have CoinbaseData''))))"

section \<open>Validation of headers and blocks\<close>

definition validate_proof_of_work :: "bytes \<Rightarrow> bytes \<Rightarrow> unit result" where
  "validate_proof_of_work hash target = raise_if (hash \<ge> target) (ValidatePOWError ''hash >= target'')"

definition validate_block_header_by_itself :: "crypto \<Rightarrow> block_header \<Rightarrow> int \<Rightarrow> unit result" where
  "validate_block_header_by_itself cr h current_timestamp =
     rbind (block_header_hash cr h) (\<lambda>hash.
     rbind (validate_proof_of_work hash (bs_target (hd_summary h))) (\<lambda>_.
     raise_if (bs_timestamp (hd_summary h) > current_timestamp + MAX_FUTURE_BLOCK_TIME)
       (ValidateBlockHeaderError ''Block timestamp in the future'')))"

text \<open>
  Membership in a Python set of transactions: equal hashes and \<open>__eq__\<close>. (The set compares the
  64-bit \<open>hash(bytes)\<close> of the hashes first; a collision there is taken not to happen.)
\<close>

definition see_transaction ::
  "crypto \<Rightarrow> (bytes \<times> transaction) list \<Rightarrow> transaction \<Rightarrow> (bytes \<times> transaction) list result" where
  "see_transaction cr seen t =
     rbind (transaction_hash cr t) (\<lambda>h.
     rbind (raise_if (\<exists>(h', t')\<in>set seen. h' = h \<and> transaction_eq t' t)
              (ValidateTransactionError ''Duplicate transaction.''))
       (\<lambda>_. Inr ((h, t) # seen)))"

definition validate_no_duplicate_transactions :: "crypto \<Rightarrow> transaction list \<Rightarrow> unit result" where
  "validate_no_duplicate_transactions cr transactions =
     rbind (rfold (see_transaction cr) [] transactions) (\<lambda>_. Inr ())"

definition validate_no_duplicate_output_references_in_transactions :: "transaction list \<Rightarrow> unit result" where
  "validate_no_duplicate_output_references_in_transactions transactions =
     rbind (rfold (\<lambda>seen t. rfold (see_reference ''Duplicate output_reference.'') seen (tx_inputs t))
              [] transactions) (\<lambda>_. Inr ())"

text \<open>\<open>coinbase_transaction.inputs[0].signature.height\<close>\<close>

definition coinbase_height :: "transaction \<Rightarrow> int result" where
  "coinbase_height t =
     rbind (first_elem (tx_inputs t)) (\<lambda>input.
     case inp_signature input of
       Some (CoinbaseData height sig) \<Rightarrow> Inr height
     | _ \<Rightarrow> Inl AttributeError)"

definition validate_block_by_itself :: "crypto \<Rightarrow> block \<Rightarrow> int \<Rightarrow> unit result" where
  "validate_block_by_itself cr b current_timestamp =
     rbind (validate_block_header_by_itself cr (blk_header b) current_timestamp) (\<lambda>_.
     rbind (raise_if (length (blk_transactions b) = 0) (ValidateBlockError ''No transactions in block'')) (\<lambda>_.
     rbind (stream_serialize_block b) (\<lambda>bs.
     rbind (raise_if (MAX_BLOCK_SIZE < int (length bs)) (ValidateBlockError ''Block > MAX_BLOCK_SIZE'')) (\<lambda>_.
     rbind (first_elem (blk_transactions b)) (\<lambda>coinbase_transaction.
     rbind (validate_coinbase_transaction_by_itself coinbase_transaction) (\<lambda>_.
     rbind (coinbase_height coinbase_transaction) (\<lambda>height.
     rbind (raise_if (height \<noteq> block_height b) (ValidateBlockError ''block.height != coinbase.height'')) (\<lambda>_.
     rbind (rforeach validate_non_coinbase_transaction_by_itself (tl (blk_transactions b))) (\<lambda>_.
     rbind (validate_no_duplicate_transactions cr (tl (blk_transactions b))) (\<lambda>_.
     rbind (validate_no_duplicate_output_references_in_transactions (tl (blk_transactions b))) (\<lambda>_.
     rbind (calc_merkle_root_hash cr (blk_transactions b)) (\<lambda>merkle_root_hash.
     raise_if (bs_merkle_root_hash (block_summary_of b) \<noteq> merkle_root_hash)
       (ValidateBlockError ''Incorrect merkle_root_hash'')))))))))))))"

section \<open>Validation against a state\<close>

definition validate_coinbase_transaction_in_coinstate ::
  "transaction \<Rightarrow> block \<Rightarrow> coinstate \<Rightarrow> unit result" where
  "validate_coinbase_transaction_in_coinstate t b cs =
     (let prev = bs_previous_block_hash (block_summary_of b) in
      rbind (lookup_key (cs_block_by_hash cs) prev) (\<lambda>previous_block.
      let calculated_current_height = block_height previous_block + 1 in
      rbind (raise_if (block_height b \<noteq> calculated_current_height)
               (ValidateBlockHeaderError ''Block's reported height incorrect.'')) (\<lambda>_.
      rbind (lookup_key (cs_unspent_transaction_outs_by_hash cs) prev) (\<lambda>unspent_transaction_outs.
      rbind (get_block_fees (tl (blk_transactions b)) unspent_transaction_outs) (\<lambda>fees.
      let subsidy = get_block_subsidy (block_height b) in
      raise_if (fees + subsidy < sum_list (map out_value (tx_outputs t)))
        (ValidateTransactionError ''Transaction overspending (Coinbase)''))))))"

definition validate_input_in_coinstate ::
  "crypto \<Rightarrow> unspent \<Rightarrow> transaction \<Rightarrow> int \<Rightarrow> tx_input \<Rightarrow> int result" where
  "validate_input_in_coinstate cr unspent_transaction_outs t total_input_value input =
     (case unspent_transaction_outs (inp_output_reference input) of
        None \<Rightarrow> Inl (ValidateTransactionError ''input's output_reference does not exist as an unspent out'')
      | Some previous_output \<Rightarrow>
          rbind (validate_signature_for_spend cr input previous_output t) (\<lambda>_.
          Inr (total_input_value + out_value previous_output)))"

definition validate_non_coinbase_transaction_in_coinstate ::
  "crypto \<Rightarrow> transaction \<Rightarrow> bytes \<Rightarrow> coinstate \<Rightarrow> unit result" where
  "validate_non_coinbase_transaction_in_coinstate cr t at_hash cs =
     rbind (lookup_key (cs_unspent_transaction_outs_by_hash cs) at_hash) (\<lambda>unspent_transaction_outs.
     rbind (rfold (validate_input_in_coinstate cr unspent_transaction_outs t) 0 (tx_inputs t))
       (\<lambda>total_input_value.
     raise_if (total_input_value < sum_list (map out_value (tx_outputs t)))
       (ValidateTransactionError ''Transaction overspending'')))"

definition validate_block_summary_in_coinstate :: "crypto \<Rightarrow> block_summary \<Rightarrow> coinstate \<Rightarrow> unit result" where
  "validate_block_summary_in_coinstate cr s cs =
     (case cs_block_by_hash cs (bs_previous_block_hash s) of
        None \<Rightarrow> Inl (ValidateBlockHeaderError ''previous_block_hash unknown: '')
      | Some previous_block \<Rightarrow>
          rbind (raise_if (bs_timestamp s \<le> block_timestamp previous_block)
                   (ValidateBlockHeaderError ''Timestamps must be strictly increasing.'')) (\<lambda>_.
          let calculated_current_height = block_height previous_block + 1 in
          rbind (calc_target cr cs calculated_current_height (bs_timestamp s) previous_block) (\<lambda>calculated_target.
          raise_if (bs_target s \<noteq> calculated_target)
            (ValidateBlockHeaderError ''Block's reported target incorrect''))))"

definition validate_block_in_coinstate :: "crypto \<Rightarrow> block \<Rightarrow> coinstate \<Rightarrow> unit result" where
  "validate_block_in_coinstate cr b cs =
     (if block_height b \<le> MAX_KNOWN_HASH_HEIGHT
      then case KNOWN_HASHES (block_height b) of
             None \<Rightarrow> Inr ()
           | Some known \<Rightarrow>
               rbind (block_hash cr b) (\<lambda>h.
               rbind (computer known) (\<lambda>known_hash.
               raise_if (h \<noteq> known_hash) (ValidationError ''No forks allowed before block 163000'')))
      else
        rbind (validate_block_summary_in_coinstate cr (block_summary_of b) cs) (\<lambda>_.
        rbind (construct_pow_evidence cr cs (block_summary_of b) (block_height b) (blk_transactions b))
          (\<lambda>reconstructed_evidence.
        rbind (raise_if (hd_pow_evidence (blk_header b) \<noteq> reconstructed_evidence)
                 (ValidateBlockError ''POW Evidence incorrect'')) (\<lambda>_.
        rbind (first_elem (blk_transactions b)) (\<lambda>coinbase_transaction.
        rbind (validate_coinbase_transaction_in_coinstate coinbase_transaction b cs) (\<lambda>_.
        rforeach (\<lambda>t. validate_non_coinbase_transaction_in_coinstate cr t (block_previous_block_hash b) cs)
          (tl (blk_transactions b))))))))"

section \<open>CoinState.add_block\<close>

definition add_block :: "crypto \<Rightarrow> coinstate \<Rightarrow> block \<Rightarrow> int \<Rightarrow> coinstate result" where
  "add_block cr cs b current_timestamp =
     rbind (validate_block_by_itself cr b current_timestamp) (\<lambda>_.
     rbind (validate_block_in_coinstate cr b cs) (\<lambda>_.
     add_block_no_validation cr cs b))"

end
