(* ===== verification/Targets.thy ===== *)
theory Targets
  imports Consensus
begin

text \<open>
  The arithmetic of \<open>consensus.py\<close>: how many coins there will ever be, what the target becomes, and
  that comparing hashes as byte strings compares them as numbers.
\<close>

section \<open>The subsidy\<close>

lemma get_block_subsidy_nonneg: "0 \<le> get_block_subsidy h"
  by (simp add: get_block_subsidy_def Let_def pos_imp_zdiv_nonneg_iff)

text \<open>The subsidy in the \<open>k\<close>-th period.\<close>

definition period_subsidy :: "nat \<Rightarrow> int" where
  "period_subsidy k = (if k \<ge> 64 then 0 else 1000000000 div 2 ^ k)"

lemma get_block_subsidy_period: "get_block_subsidy (int h) = period_subsidy (h div 1050000)"
proof -
  have "int h div 1050000 = int (h div 1050000)" by (simp add: zdiv_int)
  then show ?thesis by (simp add: get_block_subsidy_def period_subsidy_def Let_def)
qed

lemma sum_subsidy_periods:
  "(\<Sum>h<K * 1050000. get_block_subsidy (int h)) = 1050000 * (\<Sum>k<K. period_subsidy k)"
proof -
  have "(\<Sum>h<K * 1050000. get_block_subsidy (int h)) =
      (\<Sum>k<K. \<Sum>h = k * 1050000..<k * 1050000 + 1050000. get_block_subsidy (int h))"
    by (rule sum.nat_group [symmetric])
  also have "\<dots> = (\<Sum>k<K. \<Sum>h = k * 1050000..<k * 1050000 + 1050000. period_subsidy k)"
  proof (intro sum.cong refl)
    fix k h :: nat assume "h \<in> {k * 1050000..<k * 1050000 + 1050000}"
    then have "h div 1050000 = k" by (intro div_nat_eqI) auto
    then show "get_block_subsidy (int h) = period_subsidy k" by (simp add: get_block_subsidy_period)
  qed
  also have "\<dots> = 1050000 * (\<Sum>k<K. period_subsidy k)" by (simp add: sum_distrib_left)
  finally show ?thesis .
qed

lemma sum_periods: "(\<Sum>k<64. period_subsidy k) = 1999999987"
proof -
  have "(\<Sum>k<64. period_subsidy k) = sum_list (map period_subsidy [0..<64])"
    by (simp only: interv_sum_list_conv_sum_set_nat set_upt atLeast0LessThan)
  also have "\<dots> = 1999999987" by code_simp
  finally show ?thesis .
qed

text \<open>
  All the subsidies there will ever be add up to exactly \<open>MAX_SASHIMI\<close>: those of the first
  \<open>n\<close> blocks never exceed it, for any \<open>n\<close>, and those of the 64 halving periods reach it.
\<close>

theorem subsidies_sum_to_max_sashimi:
  "(\<Sum>h<n. get_block_subsidy (int h)) \<le> MAX_SASHIMI \<and>
   (\<Sum>h<64 * nat SUBSIDY_HALVING_INTERVAL. get_block_subsidy (int h)) = MAX_SASHIMI"
proof
  have total: "(\<Sum>h<64 * 1050000. get_block_subsidy (int h)) = MAX_SASHIMI"
    unfolding sum_subsidy_periods sum_periods by simp
  then show "(\<Sum>h<64 * nat SUBSIDY_HALVING_INTERVAL. get_block_subsidy (int h)) = MAX_SASHIMI" by simp
  have zero: "get_block_subsidy (int h) = 0" if "64 * 1050000 \<le> h" for h
  proof -
    have "64 \<le> h div 1050000" using div_le_mono [OF that, of 1050000] by simp
    then show ?thesis by (simp add: get_block_subsidy_period period_subsidy_def)
  qed
  show "(\<Sum>h<n. get_block_subsidy (int h)) \<le> MAX_SASHIMI"
  proof (cases "n \<le> 64 * 1050000")
    case True
    then have "(\<Sum>h<n. get_block_subsidy (int h)) \<le> (\<Sum>h<64 * 1050000. get_block_subsidy (int h))"
      by (intro sum_mono2) (auto simp: get_block_subsidy_nonneg)
    with total show ?thesis by simp
  next
    case False
    then have "(\<Sum>h<n. get_block_subsidy (int h)) = (\<Sum>h<64 * 1050000. get_block_subsidy (int h))"
      by (intro sum.mono_neutral_right) (auto simp: zero)
    with total show ?thesis by simp
  qed
qed

section \<open>Targets\<close>

lemma be_value_nonneg: "0 \<le> be_value b" and be_value_bound: "be_value b < 256 ^ length b"
  using be_value_bounds [of b] by simp_all

text \<open>
  With a non-negative time span the new target is 32 bytes holding the old target scaled by the
  span over two weeks, rounded down and capped at the largest 256-bit number; with a negative span
  a non-zero target raises \<open>OverflowError\<close>.
\<close>

theorem calculate_new_target_scales:
  "(if 0 \<le> actual_time_passed
    then \<exists>t. calculate_new_target previous_target actual_time_passed = Inr t \<and> length t = 32 \<and>
      be_value t = min (be_value previous_target * actual_time_passed div 1209600) (2 ^ 256 - 1)
    else be_value previous_target = 0 \<or>
      calculate_new_target previous_target actual_time_passed = Inl OverflowError)"
proof (cases "0 \<le> actual_time_passed")
  case True
  let ?r = "be_value previous_target * actual_time_passed div 1209600"
  let ?m = "if ?r > 2 ^ (32 * 8) - 1 then 2 ^ (32 * 8) - 1 else ?r"
  have "0 \<le> be_value previous_target" by (rule be_value_nonneg)
  with True have m: "0 \<le> ?m" "?m < 256 ^ 32" by (auto simp: pos_imp_zdiv_nonneg_iff)
  then have "calculate_new_target previous_target actual_time_passed = Inr (be_bytes 32 ?m)"
    by (simp_all only: calculate_new_target_def to_bytes_def Let_def param_values if_True conj_absorb simp_thms)
  moreover have "be_value (be_bytes 32 ?m) = ?m" using m by (rule be_value_be_bytes)
  moreover have "?m = min ?r (2 ^ 256 - 1)" by (simp add: min_def)
  ultimately show ?thesis using True by auto
next
  case False
  have "calculate_new_target previous_target actual_time_passed = Inl OverflowError"
    if "be_value previous_target \<noteq> 0"
  proof -
    have "0 < be_value previous_target" using that be_value_nonneg [of previous_target] by simp
    with False have "be_value previous_target * actual_time_passed < 0" by (simp add: mult_pos_neg)
    then have "be_value previous_target * actual_time_passed div 1209600 < 0"
      by (simp add: neg_imp_zdiv_neg_iff)
    then show ?thesis by (simp add: calculate_new_target_def to_bytes_def Let_def)
  qed
  with False show ?thesis by auto
qed

section \<open>Hashes as numbers\<close>

lemma be_value_Cons: "be_value (b # bs) = uint b * 256 ^ length bs + be_value bs"
  by (induction bs rule: rev_induct) (simp_all add: be_value_def algebra_simps)

lemma bytes_less_iff:
  "length a = length b \<Longrightarrow> a < b \<longleftrightarrow> be_value a < be_value (b :: bytes)"
proof (induction a b rule: list_induct2)
  case (Cons x xs y ys)
  have bounds: "0 \<le> be_value xs" "be_value xs < 256 ^ length ys" "0 \<le> be_value ys" "be_value ys < 256 ^ length ys"
    using Cons.hyps be_value_nonneg be_value_bound [of xs] be_value_bound [of ys] by auto
  have less: "be_value (x # xs) < be_value (y # ys)" if "uint x < uint y" "length xs = length ys" for x y :: byte and xs ys
  proof -
    have "(uint x + 1) * 256 ^ length ys \<le> uint y * 256 ^ length ys"
      using \<open>uint x < uint y\<close> by (intro mult_right_mono) auto
    with be_value_bound [of xs] be_value_nonneg [of ys] \<open>length xs = length ys\<close> show ?thesis
      by (simp add: be_value_Cons algebra_simps)
  qed
  show ?case
  proof (cases "x = y")
    case True
    with Cons show ?thesis by (simp add: be_value_Cons)
  next
    case False
    then consider "uint x < uint y" | "uint y < uint x" by (metis linorder_neqE_linordered_idom word_uint_eq_iff)
    then show ?thesis
      using less [of x y xs ys] less [of y x ys xs] Cons.hyps
      by cases (auto simp: word_less_def)
  qed
qed simp

text \<open>
  Comparing a block hash with the target as byte strings, as the code does, is comparing the two
  as 256-bit numbers: proof of work passes exactly when the hash, read as a number, is below the
  target.
\<close>

theorem proof_of_work_is_numeric:
  assumes "length h = length t"
  shows "validate_proof_of_work h t = Inr () \<longleftrightarrow> be_value h < be_value t"
  using bytes_less_iff [OF assms] by (auto simp: validate_proof_of_work_def raise_if_eq_Inr not_le)

theorem proof_of_work_is_numeric_witness:
  "validate_proof_of_work [0, 255] [1, 0] = Inr () \<longleftrightarrow> be_value [0, 255] < be_value [1, 0]"
  by (rule proof_of_work_is_numeric) simp

end
