(* ===== verification/Validation.thy ===== *)
theory Validation
  imports Targets
begin

text \<open>
  What it means to pass the validators of \<open>consensus.py\<close>: each is shown equivalent to a declarative
  condition, from which follow that spends are authorised by the owner's key, that a block spends no
  output twice, that a validated block attaches to its parent and applies without error, and, where
  the validators do less than their comments say, exactly how much less.
\<close>

section \<open>Transactions alone\<close>

lemma see_reference_eq_Inr:
  "see_reference message seen x = Inr seen' \<longleftrightarrow>
     inp_output_reference x \<notin> set seen \<and> seen' = inp_output_reference x # seen"
  by (auto simp: see_reference_def rbind_eq_Inr raise_if_eq_Inr)

lemma see_references_eq_Inr:
  "rfold (see_reference message) seen xs = Inr seen' \<longleftrightarrow>
     distinct (map inp_output_reference xs) \<and> inp_output_reference ` set xs \<inter> set seen = {} \<and>
     seen' = rev (map inp_output_reference xs) @ seen"
proof (induction xs arbitrary: seen)
  case (Cons x xs)
  show ?case by (auto simp: rbind_eq_Inr see_reference_eq_Inr Cons.IH)
qed auto

lemma input_refs_set: "set (input_refs t) = inp_output_reference ` set (tx_inputs t)"
  by (simp add: input_refs_def)

lemma see_transactions_references_eq_Inr:
  "rfold (\<lambda>seen t. rfold (see_reference message) seen (tx_inputs t)) seen ts = Inr seen' \<longleftrightarrow>
     distinct (concat (map input_refs ts)) \<and> \<Union> (set ` input_refs ` set ts) \<inter> set seen = {} \<and>
     seen' = rev (concat (map input_refs ts)) @ seen"
proof (induction ts arbitrary: seen)
  case (Cons t ts)
  show ?case
    by (auto simp: rbind_eq_Inr see_references_eq_Inr Cons.IH input_refs_set [symmetric] input_refs_def [symmetric])
qed auto

lemma validate_no_duplicate_references_iff:
  "validate_no_duplicate_output_references_in_transactions ts = Inr r \<longleftrightarrow> distinct (concat (map input_refs ts))"
  by (auto simp: validate_no_duplicate_output_references_in_transactions_def rbind_eq_Inr
      see_transactions_references_eq_Inr)

lemma validate_sashimi_range_iff: "validate_sashimi_range v = Inr r \<longleftrightarrow> 0 < v \<and> v \<le> MAX_SASHIMI"
  by (simp add: validate_sashimi_range_def raise_if_eq_Inr)

lemma validate_outputs_loop_eq_Inr:
  "rfold (\<lambda>total p. rbind (validate_sashimi_range (out_value p)) (\<lambda>_. Inr (total + out_value p))) n ps = Inr m \<longleftrightarrow>
     (\<forall>p\<in>set ps. 0 < out_value p \<and> out_value p \<le> MAX_SASHIMI) \<and> m = n + sum_list (map out_value ps)"
  by (induction ps arbitrary: n) (auto simp: rbind_eq_Inr validate_sashimi_range_iff)

definition signed_input :: "tx_input \<Rightarrow> bool" where
  "signed_input i \<longleftrightarrow> (\<exists>s. inp_signature i = Some (SECP256k1Signature s))"

lemma is_not_signature_iff: "\<not> is_not_signature s \<longleftrightarrow> (\<exists>b. s = SECP256k1Signature b)"
  by (cases s) simp_all

lemma validate_input_by_itself_iff:
  "validate_input_by_itself i = Inr r \<longleftrightarrow> \<not> references_thin_air (inp_output_reference i) \<and> signed_input i"
  by (auto simp: validate_input_by_itself_def result_simps signed_input_def is_not_signature_iff
      split: option.splits)

definition transaction_ok :: "transaction \<Rightarrow> bool" where
  "transaction_ok t \<longleftrightarrow>
     tx_inputs t \<noteq> [] \<and> tx_outputs t \<noteq> [] \<and>
     (\<exists>bs. stream_serialize_transaction t = Inr bs \<and> int (length bs) \<le> MAX_BLOCK_SIZE) \<and>
     (\<forall>p\<in>set (tx_outputs t). 0 < out_value p \<and> out_value p \<le> MAX_SASHIMI) \<and>
     0 < outputs_value t \<and> outputs_value t \<le> MAX_SASHIMI \<and>
     distinct (input_refs t) \<and>
     (\<forall>i\<in>set (tx_inputs t). \<not> references_thin_air (inp_output_reference i) \<and> signed_input i)"

lemma validate_non_coinbase_transaction_by_itself_iff:
  "validate_non_coinbase_transaction_by_itself t = Inr r \<longleftrightarrow> transaction_ok t"
  unfolding validate_non_coinbase_transaction_by_itself_def transaction_ok_def rbind_eq_Inr
    raise_if_eq_Inr validate_outputs_loop_eq_Inr validate_sashimi_range_iff see_references_eq_Inr
    rforeach_eq_Inr validate_input_by_itself_iff outputs_value_def input_refs_def
  by (auto simp: not_less)

section \<open>Transactions against a state\<close>

text \<open>The owner of the output agreed: its key verifies the signature over the signable bytes.\<close>

definition authorised :: "crypto \<Rightarrow> unspent \<Rightarrow> transaction \<Rightarrow> tx_input \<Rightarrow> bool" where
  "authorised cr u t i \<longleftrightarrow> (\<exists>p s m.
     u (inp_output_reference i) = Some p \<and> inp_signature i = Some (SECP256k1Signature s) \<and>
     stream_serialize_transaction (transaction_signable_equivalent t) = Inr m \<and>
     ecdsa_point_ok cr (pk_bytes (out_public_key p)) \<and> ecdsa_verify cr (pk_bytes (out_public_key p)) s m)"

lemma validate_signature_for_spend_iff:
  "validate_signature_for_spend cr i p t = Inr r \<longleftrightarrow> (\<exists>s m. inp_signature i = Some (SECP256k1Signature s) \<and>
     stream_serialize_transaction (transaction_signable_equivalent t) = Inr m \<and>
     ecdsa_point_ok cr (pk_bytes (out_public_key p)) \<and> ecdsa_verify cr (pk_bytes (out_public_key p)) s m)"
proof -
  have true: "(\<exists>v. m = Inr v \<and> \<not> \<not> v) \<longleftrightarrow> m = Inr True" for m :: "bool result" by auto
  show ?thesis
    unfolding validate_signature_for_spend_def rbind_eq_Inr
    by (cases "inp_signature i") (auto simp only: option.case rbind_eq_Inr raise_if_eq_Inr true
        signature_validate_True option.inject option.distinct sum.distinct)
qed

lemma validate_inputs_in_coinstate_eq_Inr:
  "rfold (validate_input_in_coinstate cr u t) n xs = Inr m \<longleftrightarrow>
     (\<forall>i\<in>set xs. authorised cr u t i) \<and> m = n + sum_list (map (\<lambda>i. value_at u (inp_output_reference i)) xs)"
proof (induction xs arbitrary: n)
  case (Cons i xs)
  have "validate_input_in_coinstate cr u t n i = Inr k \<longleftrightarrow>
      authorised cr u t i \<and> k = n + value_at u (inp_output_reference i)" for k
    by (auto simp: validate_input_in_coinstate_def rbind_eq_Inr validate_signature_for_spend_iff
        authorised_def value_at_def split: option.splits)
  then show ?case by (auto simp: rbind_eq_Inr Cons.IH)
qed auto

definition spend_ok :: "crypto \<Rightarrow> unspent \<Rightarrow> transaction \<Rightarrow> bool" where
  "spend_ok cr u t \<longleftrightarrow> (\<forall>i\<in>set (tx_inputs t). authorised cr u t i) \<and>
     outputs_value t \<le> sum_list (map (value_at u) (input_refs t))"

lemma validate_non_coinbase_transaction_in_coinstate_iff:
  "validate_non_coinbase_transaction_in_coinstate cr t at_hash cs = Inr r \<longleftrightarrow>
     (\<exists>u. cs_unspent_transaction_outs_by_hash cs at_hash = Some u \<and> spend_ok cr u t)"
  by (auto simp: validate_non_coinbase_transaction_in_coinstate_def rbind_eq_Inr lookup_key_eq_Inr
      validate_inputs_in_coinstate_eq_Inr raise_if_eq_Inr spend_ok_def outputs_value_def input_refs_def comp_def not_less)

lemma spend_ok_refs: "spend_ok cr u t \<Longrightarrow> set (input_refs t) \<subseteq> dom u"
  by (auto simp: spend_ok_def authorised_def input_refs_def)

section \<open>Fees\<close>

lemma lookups_eq_Inr:
  "rmap (\<lambda>i. lookup_key u (f i)) xs = Inr ps \<longleftrightarrow> f ` set xs \<subseteq> dom u \<and> ps = map (\<lambda>i. the (u (f i))) xs"
  by (induction xs arbitrary: ps) (auto simp: rbind_eq_Inr lookup_key_eq_Inr)

lemma get_transaction_fee_eq_Inr:
  "get_transaction_fee t u = Inr fee \<longleftrightarrow> set (input_refs t) \<subseteq> dom u \<and>
     fee = sum_list (map (value_at u) (input_refs t)) - outputs_value t"
proof -
  have "sum_list (map out_value (map (\<lambda>i. the (u (inp_output_reference i))) xs)) =
      sum_list (map (value_at u) (map inp_output_reference xs))" if "inp_output_reference ` set xs \<subseteq> dom u" for xs
    using that by (induction xs) (auto simp: value_at_def)
  then show ?thesis
    by (auto simp: get_transaction_fee_def rbind_eq_Inr lookups_eq_Inr Let_def outputs_value_def
        input_refs_def simp del: map_map)
qed

definition fees_of :: "unspent \<Rightarrow> transaction list \<Rightarrow> int" where
  "fees_of u ts = (\<Sum>t\<leftarrow>ts. sum_list (map (value_at u) (input_refs t)) - outputs_value t)"

lemma get_block_fees_eq_Inr:
  "get_block_fees ts u = Inr fees \<longleftrightarrow> \<Union> (set ` input_refs ` set ts) \<subseteq> dom u \<and> fees = fees_of u ts"
proof -
  have "rmap (\<lambda>t. get_transaction_fee t u) ts = Inr fs \<longleftrightarrow> \<Union> (set ` input_refs ` set ts) \<subseteq> dom u \<and>
      fs = map (\<lambda>t. sum_list (map (value_at u) (input_refs t)) - outputs_value t) ts" for fs
    by (induction ts arbitrary: fs) (auto simp: rbind_eq_Inr get_transaction_fee_eq_Inr)
  then show ?thesis by (auto simp: get_block_fees_def rbind_eq_Inr fees_of_def)
qed

section \<open>Blocks alone\<close>

definition coinbase_ok :: "transaction \<Rightarrow> int \<Rightarrow> bool" where
  "coinbase_ok t height \<longleftrightarrow> (\<exists>i s. tx_inputs t = [i] \<and> references_thin_air (inp_output_reference i) \<and>
     inp_signature i = Some (CoinbaseData height s) \<and> int (length s) \<le> MAX_COINBASE_RANDOM_DATA_SIZE)"

lemma validate_coinbase_iff:
  "validate_coinbase_transaction_by_itself t = Inr r \<and> coinbase_height t = Inr height \<longleftrightarrow> coinbase_ok t height"
proof (cases "\<exists>i. tx_inputs t = [i]")
  case True
  then obtain i where i: "tx_inputs t = [i]" by blast
  then have "first_elem (tx_inputs t) = Inr i" by (simp add: first_elem_def)
  then show ?thesis
    by (cases "inp_signature i"; cases "the (inp_signature i)")
      (auto simp: validate_coinbase_transaction_by_itself_def coinbase_height_def coinbase_ok_def i
        rbind_eq_Inr raise_if_eq_Inr not_less)
next
  case False
  then have "length (tx_inputs t) \<noteq> 1" by (metis One_nat_def length_0_conv length_Suc_conv)
  with False show ?thesis
    by (auto simp: validate_coinbase_transaction_by_itself_def coinbase_ok_def)
qed

definition block_ok :: "crypto \<Rightarrow> block \<Rightarrow> int \<Rightarrow> transaction \<Rightarrow> transaction list \<Rightarrow> bool" where
  "block_ok cr b now coinbase ts \<longleftrightarrow>
     (\<exists>h. block_header_hash cr (blk_header b) = Inr h \<and> h < block_target b) \<and>
     block_timestamp b \<le> now + MAX_FUTURE_BLOCK_TIME \<and>
     blk_transactions b = coinbase # ts \<and>
     (\<exists>bs. stream_serialize_block b = Inr bs \<and> int (length bs) \<le> MAX_BLOCK_SIZE) \<and>
     coinbase_ok coinbase (block_height b) \<and>
     (\<forall>t\<in>set ts. transaction_ok t) \<and>
     validate_no_duplicate_transactions cr ts = Inr () \<and>
     distinct (concat (map input_refs ts)) \<and>
     calc_merkle_root_hash cr (coinbase # ts) = Inr (bs_merkle_root_hash (block_summary_of b))"

lemma validate_block_by_itself_iff:
  "validate_block_by_itself cr b now = Inr r \<longleftrightarrow> (\<exists>coinbase ts. block_ok cr b now coinbase ts)"
proof (cases "blk_transactions b")
  case Nil
  then show ?thesis
    by (auto simp: validate_block_by_itself_def block_ok_def rbind_eq_Inr raise_if_eq_Inr)
next
  case (Cons c ts)
  have header: "validate_block_header_by_itself cr (blk_header b) now = Inr r \<longleftrightarrow>
      (\<exists>h. block_header_hash cr (blk_header b) = Inr h \<and> h < block_target b) \<and>
      block_timestamp b \<le> now + MAX_FUTURE_BLOCK_TIME" for r
    by (auto simp: validate_block_header_by_itself_def rbind_eq_Inr raise_if_eq_Inr validate_proof_of_work_def
        block_target_def block_timestamp_def not_le not_less)
  have coinbase: "(validate_coinbase_transaction_by_itself c = Inr r \<and>
      (\<exists>height. coinbase_height c = Inr height \<and> height = block_height b)) \<longleftrightarrow> coinbase_ok c (block_height b)" for r
    using validate_coinbase_iff by blast
  show ?thesis
    unfolding validate_block_by_itself_def rbind_eq_Inr raise_if_eq_Inr header Cons list.sel
      rforeach_eq_Inr validate_non_coinbase_transaction_by_itself_iff
      validate_no_duplicate_references_iff first_elem_eq_Inr
    using coinbase by (auto simp: block_ok_def Cons not_less)
qed

text \<open>The check for duplicate transactions never fails on a block that passes the others.\<close>

lemma see_transactions_returns:
  assumes "distinct (concat (map input_refs ts))" and "\<forall>t\<in>set ts. tx_inputs t \<noteq> [] \<and> returns (transaction_hash cr t)"
    and "\<forall>(h, t)\<in>set seen. \<forall>t'\<in>set ts. input_refs t \<noteq> input_refs t'"
  shows "returns (rfold (see_transaction cr) seen ts)"
  using assms
proof (induction ts arbitrary: seen)
  case (Cons t ts)
  then obtain h where h: "transaction_hash cr t = Inr h" by auto
  have eq_refs: "input_refs t1 = input_refs t2" if "transaction_eq t1 t2" for t1 t2
    using that by (auto simp: transaction_eq_def input_refs_def list_all2_conv_all_nth input_eq_def
        intro!: nth_equalityI)
  have "\<not> (\<exists>(h', t')\<in>set seen. h' = h \<and> transaction_eq t' t)"
    using Cons.prems(3) eq_refs by fastforce
  then have step: "see_transaction cr seen t = Inr ((h, t) # seen)"
    by (simp add: see_transaction_def h raise_if_def)
  have "input_refs t \<noteq> input_refs t'" if "t' \<in> set ts" for t'
  proof
    assume eq: "input_refs t = input_refs t'"
    from Cons.prems(2) have "input_refs t \<noteq> []" by (simp add: input_refs_def)
    then obtain r where "r \<in> set (input_refs t)" by (cases "input_refs t") auto
    with eq that Cons.prems(1) show False by auto
  qed
  with Cons.prems have "returns (rfold (see_transaction cr) ((h, t) # seen) ts)"
    by (intro Cons.IH) auto
  then show ?case by (simp add: step)
qed simp

lemma duplicate_transactions_redundant:
  assumes "distinct (concat (map input_refs ts))" and "\<forall>t\<in>set ts. tx_inputs t \<noteq> [] \<and> returns (transaction_hash cr t)"
  shows "validate_no_duplicate_transactions cr ts = Inr ()"
  using see_transactions_returns [OF assms, of "[]"] by (auto simp: validate_no_duplicate_transactions_def)

section \<open>Blocks against a state\<close>

definition block_in_coinstate_ok ::
  "crypto \<Rightarrow> block \<Rightarrow> coinstate \<Rightarrow> block \<Rightarrow> unspent \<Rightarrow> transaction \<Rightarrow> transaction list \<Rightarrow> bool" where
  "block_in_coinstate_ok cr b cs parent u coinbase ts \<longleftrightarrow>
     cs_block_by_hash cs (block_previous_block_hash b) = Some parent \<and>
     block_timestamp parent < block_timestamp b \<and>
     calc_target cr cs (block_height parent + 1) (block_timestamp b) parent = Inr (block_target b) \<and>
     construct_pow_evidence cr cs (block_summary_of b) (block_height b) (blk_transactions b) =
       Inr (hd_pow_evidence (blk_header b)) \<and>
     blk_transactions b = coinbase # ts \<and>
     block_height b = block_height parent + 1 \<and>
     cs_unspent_transaction_outs_by_hash cs (block_previous_block_hash b) = Some u \<and>
     \<Union> (set ` input_refs ` set ts) \<subseteq> dom u \<and>
     outputs_value coinbase \<le> fees_of u ts + get_block_subsidy (block_height b) \<and>
     (\<forall>t\<in>set ts. spend_ok cr u t)"

lemma validate_block_in_coinstate_iff:
  assumes "MAX_KNOWN_HASH_HEIGHT < block_height b"
  shows "validate_block_in_coinstate cr b cs = Inr r \<longleftrightarrow>
    (\<exists>parent u coinbase ts. block_in_coinstate_ok cr b cs parent u coinbase ts)"
proof -
  have summary: "validate_block_summary_in_coinstate cr (block_summary_of b) cs = Inr r \<longleftrightarrow>
      (\<exists>parent. cs_block_by_hash cs (block_previous_block_hash b) = Some parent \<and>
        block_timestamp parent < block_timestamp b \<and>
        calc_target cr cs (block_height parent + 1) (block_timestamp b) parent = Inr (block_target b))" for r
    by (auto simp: validate_block_summary_in_coinstate_def Let_def rbind_eq_Inr raise_if_eq_Inr
        block_previous_block_hash_def [of b] block_timestamp_def [of b] block_target_def [of b] not_le split: option.splits)
  have coinbase: "validate_coinbase_transaction_in_coinstate c b cs = Inr r \<longleftrightarrow>
      (\<exists>parent u. cs_block_by_hash cs (block_previous_block_hash b) = Some parent \<and>
        block_height b = block_height parent + 1 \<and>
        cs_unspent_transaction_outs_by_hash cs (block_previous_block_hash b) = Some u \<and>
        \<Union> (set ` input_refs ` set (tl (blk_transactions b))) \<subseteq> dom u \<and>
        outputs_value c \<le> fees_of u (tl (blk_transactions b)) + get_block_subsidy (block_height b))" for c r
    by (auto simp: validate_coinbase_transaction_in_coinstate_def Let_def rbind_eq_Inr raise_if_eq_Inr
        lookup_key_eq_Inr get_block_fees_eq_Inr block_previous_block_hash_def [of b] outputs_value_def not_less)
  have above: "\<not> block_height b \<le> MAX_KNOWN_HASH_HEIGHT" using assms by simp
  show ?thesis
    unfolding validate_block_in_coinstate_def if_not_P [OF above] rbind_eq_Inr summary coinbase raise_if_eq_Inr
      rforeach_eq_Inr validate_non_coinbase_transaction_in_coinstate_iff first_elem_eq_Inr
    unfolding block_in_coinstate_ok_def by auto
qed

section \<open>What can be written\<close>

lemma rconcat_elems: "rconcat ms = Inr bs \<Longrightarrow> m \<in> set ms \<Longrightarrow> returns m"
  by (induction ms arbitrary: bs) (auto simp: rbind_eq_Inr)

lemma rconcat_length:
  assumes "\<And>x. f x \<noteq> Inr []"
  shows "rconcat (map f xs) = Inr bs \<Longrightarrow> length xs \<le> length bs"
proof (induction xs arbitrary: bs)
  case (Cons x xs)
  from Cons.prems obtain b cs where b: "f x = Inr b" and cs: "rconcat (map f xs) = Inr cs" "bs = b @ cs"
    by (auto simp: rbind_eq_Inr)
  have "b \<noteq> []" using b assms [of x] by auto
  with Cons.IH [OF cs(1)] cs(2) show ?case by (cases b) simp_all
qed simp

lemma stream_serialize_list_elems:
  "stream_serialize_list ser xs = Inr bs \<Longrightarrow> x \<in> set xs \<Longrightarrow> returns (ser x)"
  unfolding stream_serialize_list_def by (erule rconcat_elems) simp

lemma stream_serialize_output_nonempty: "stream_serialize_output p \<noteq> Inr []"
  by (cases "out_public_key p") (auto simp: stream_serialize_output_def rbind_eq_Inr pack_uint_def type_bytes)

lemma transaction_ser_parts:
  assumes "stream_serialize_transaction t = Inr bs"
  shows "outputs_nonneg t" and "length (tx_outputs t) \<le> length bs"
proof -
  obtain a b where b: "stream_serialize_list stream_serialize_output (tx_outputs t) = Inr b"
    and bs: "bs = [0] @ a @ b"
    using assms by (auto simp: stream_serialize_transaction_def result_simps)
  show "outputs_nonneg t"
    unfolding outputs_nonneg_def
  proof
    fix p assume "p \<in> set (tx_outputs t)"
    with stream_serialize_list_elems [OF b] have "returns (stream_serialize_output p)" by blast
    then show "0 \<le> out_value p" by (auto simp: stream_serialize_output_def result_simps)
  qed
  obtain n c where "rconcat (map stream_serialize_output (tx_outputs t)) = Inr c" "b = n @ c"
    using b by (auto simp: stream_serialize_list_def result_simps)
  then have "length (tx_outputs t) \<le> length b"
    using rconcat_length [where f = stream_serialize_output, OF stream_serialize_output_nonempty]
    by fastforce
  then show "length (tx_outputs t) \<le> length bs" by (simp add: bs)
qed

lemma block_ser_transactions:
  assumes "stream_serialize_block b = Inr bs" and "t \<in> set (blk_transactions b)"
  shows "outputs_nonneg t" and "returns (stream_serialize_transaction t)"
proof -
  obtain c where "stream_serialize_list stream_serialize_transaction (blk_transactions b) = Inr c"
    using assms(1) by (auto simp: stream_serialize_block_def result_simps)
  from stream_serialize_list_elems [OF this assms(2)] show "returns (stream_serialize_transaction t)" .
  then show "outputs_nonneg t" using transaction_ser_parts(1) by blast
qed

lemma block_ser_output_count:
  assumes "stream_serialize_block b = Inr bs" and "t \<in> set (blk_transactions b)"
  shows "length (tx_outputs t) \<le> length bs"
proof -
  obtain a c where c: "stream_serialize_list stream_serialize_transaction (blk_transactions b) = Inr c"
    and bs: "bs = a @ c"
    using assms(1) by (auto simp: stream_serialize_block_def result_simps)
  then obtain n d where d: "rconcat (map stream_serialize_transaction (blk_transactions b)) = Inr d" "c = n @ d"
    by (auto simp: stream_serialize_list_def result_simps)
  have "\<exists>x. stream_serialize_transaction t = Inr x \<and> length x \<le> length d"
    if "rconcat (map stream_serialize_transaction ts) = Inr d" "t \<in> set ts" for ts d
    using that by (induction ts arbitrary: d) (fastforce simp: rbind_eq_Inr)+
  with d(1) assms(2) obtain x where "stream_serialize_transaction t = Inr x" "length x \<le> length d" by blast
  with transaction_ser_parts(2) [of t x] show ?thesis by (simp add: bs d(2))
qed

section \<open>A validated block applies\<close>

definition hashes_ok :: "crypto \<Rightarrow> block \<Rightarrow> bool" where
  "hashes_ok cr b \<longleftrightarrow> (\<forall>t\<in>set (blk_transactions b). \<exists>h. transaction_hash cr t = Inr h \<and> length h = 32)"

lemma uto_apply_transactions_returns:
  assumes "distinct (concat (map input_refs ts))" and "\<Union> (set ` input_refs ` set ts) \<subseteq> dom u"
    and "\<forall>t\<in>set ts. tx_outputs_ok cr t"
  shows "returns (rfold (\<lambda>u t. uto_apply_transaction cr u t False) u ts)"
  using assms
proof (induction ts arbitrary: u)
  case (Cons t ts)
  let ?v = "u |` (- set (input_refs t)) ++ tx_created cr t"
  have "uto_apply_transaction cr u t False = Inr ?v"
    using Cons.prems by (auto simp: uto_apply_transaction_eq_Inr tx_spent_def)
  moreover have "\<Union> (set ` input_refs ` set ts) \<subseteq> dom ?v"
    using Cons.prems(1,2) by auto
  then have "returns (rfold (\<lambda>u t. uto_apply_transaction cr u t False) ?v ts)"
    using Cons.prems by (intro Cons.IH) auto
  ultimately show ?case by simp
qed simp

lemma uto_apply_block_returns:
  assumes "blk_transactions b = c # ts" and "distinct (concat (map input_refs ts))"
    and "\<Union> (set ` input_refs ` set ts) \<subseteq> dom u" and "\<forall>t\<in>set (c # ts). tx_outputs_ok cr t"
  shows "returns (uto_apply_block cr u b)"
proof -
  have "uto_apply_transaction cr u c True = Inr (u |` (- {}) ++ tx_created cr c)"
    using assms(4) by (simp add: uto_apply_transaction_eq_Inr tx_spent_def)
  moreover have "returns (rfold (\<lambda>u t. uto_apply_transaction cr u t False) (u |` (- {}) ++ tx_created cr c) ts)"
    using assms by (intro uto_apply_transactions_returns) auto
  ultimately show ?thesis by (simp add: uto_apply_block_def first_elem_def assms(1))
qed

text \<open>The maps of a state cover the same blocks. Every reachable state is like this.\<close>

definition maps_agree :: "coinstate \<Rightarrow> bool" where
  "maps_agree cs \<longleftrightarrow>
     dom (cs_unspent_transaction_outs_by_hash cs) = dom (cs_block_by_hash cs) \<and>
     dom (cs_block_by_height_by_hash cs) = dom (cs_block_by_hash cs) \<and>
     zero_hash \<notin> dom (cs_block_by_hash cs) \<and>
     (\<forall>cur. cs_current_chain_hash cs = Some cur \<longrightarrow> cur \<in> dom (cs_block_by_hash cs))"

lemma reachable_maps_agree: "coinstate_reachable cr cs \<Longrightarrow> maps_agree cs"
proof -
  assume "coinstate_reachable cr cs"
  then have ok: "cs_ok cr cs" by (rule coinstate_machine.reachable_inv)
  have "zero_hash \<notin> dom (cs_block_by_hash cs)"
    using cs_ok_entry [OF ok] by (auto simp: entry_ok_def)
  with ok show ?thesis by (auto simp: maps_agree_def cs_ok_def)
qed

lemma validated_block_applies:
  assumes "maps_agree cs" and "block_ok cr b now coinbase ts" and "block_in_coinstate_ok cr b cs parent u coinbase ts"
    and "hashes_ok cr b" and "block_hash cr b = Inr h"
  shows "block_previous_block_hash b \<noteq> zero_hash" and "parent_unspent cs b = Inr u"
    and "\<exists>cs' u'. uto_apply_block cr u b = Inr u' \<and> add_block_no_validation cr cs b = Inr cs' \<and>
      cs_unspent_transaction_outs_by_hash cs' h = Some u'"
proof -
  let ?prev = "block_previous_block_hash b"
  have prev: "?prev \<in> dom (cs_block_by_hash cs)" and u: "cs_unspent_transaction_outs_by_hash cs ?prev = Some u"
    using assms(3) by (auto simp: block_in_coinstate_ok_def)
  with assms(1) show nz: "?prev \<noteq> zero_hash" by (auto simp: maps_agree_def)
  with u show p: "parent_unspent cs b = Inr u" by (simp add: parent_unspent_def lookup_key_def)
  obtain bs where bs: "stream_serialize_block b = Inr bs" "int (length bs) \<le> MAX_BLOCK_SIZE"
    using assms(2) by (auto simp: block_ok_def)
  have "tx_outputs_ok cr t" if "t \<in> set (blk_transactions b)" for t
    using block_ser_output_count [OF bs(1) that] bs(2) assms(4) that
    by (auto simp: tx_outputs_ok_def hashes_ok_def)
  then have "returns (uto_apply_block cr u b)"
    using assms(2,3) by (intro uto_apply_block_returns) (auto simp: block_ok_def block_in_coinstate_ok_def)
  then obtain u' where u': "uto_apply_block cr u b = Inr u'" by blast
  have "returns (next_height_index cs b h)"
    using prev assms(1) nz by (auto simp: next_height_index_def lookup_key_def maps_agree_def split: option.splits)
  moreover have "returns (next_current_chain_hash cs b h)"
    using assms(1) by (auto simp: next_current_chain_hash_def lookup_key_def maps_agree_def split: option.splits)
  ultimately obtain cs' where cs': "add_block_no_validation cr cs b = Inr cs'"
    using p u' assms(5) by (auto simp: add_block_no_validation_def)
  moreover have "cs_unspent_transaction_outs_by_hash cs' h = Some u'"
    using cs' assms(5) by (rule add_block_no_validationE) (use p u' in auto)
  ultimately show "\<exists>cs' u'. uto_apply_block cr u b = Inr u' \<and> add_block_no_validation cr cs b = Inr cs' \<and>
      cs_unspent_transaction_outs_by_hash cs' h = Some u'" using u' by blast
qed

end
