(* ===== verification/Mining_Blocks.thy ===== *)
theory Mining_Blocks
  imports Validation
begin

text \<open>
  The construction half of \<open>consensus.py\<close> against its validation half: the evidence can always be
  computed over a known chain, and a block built by \<open>construct_block_for_mining\<close> from valid
  transactions, once its hash is below the target, passes every check. An example state above the
  checkpoints, with a block mined on it, serves the concrete examples of the later theories.
\<close>

section \<open>The evidence can be computed\<close>

lemma select_block_slice_returns: "blk \<noteq> [] \<Longrightarrow> \<exists>b. select_block_slice h blk k = Inr b \<and> length b = k"
  by (simp add: select_block_slice_eq)

lemma block_ser_nonempty: "stream_serialize_block b \<noteq> Inr []"
  by (auto simp: stream_serialize_block_def stream_serialize_block_header_def rbind_eq_Inr pack_uint_def)

lemma select_slices_returns:
  assumes "0 < height" and "\<And>i. 0 \<le> i \<Longrightarrow> i < height \<Longrightarrow> \<exists>b bs. f i = Inr b \<and> stream_serialize_block b = Inr bs"
  shows "\<exists>bs. select_slices_loop cr n h height f k = Inr bs"
proof (induction n arbitrary: h)
  case (Suc n)
  let ?i = "be_value (take 8 h) mod height"
  have "0 \<le> ?i" "?i < height" using assms(1) by simp_all
  then obtain b bs where b: "f ?i = Inr b" "stream_serialize_block b = Inr bs" using assms(2) by blast
  have "bs \<noteq> []" using b(2) block_ser_nonempty by auto
  then obtain s where "select_block_slice h bs k = Inr s" using select_block_slice_returns by blast
  with b assms(1) have "select_slice_from_chain h height f k = Inr s"
    by (simp add: select_slice_from_chain_def select_block_height_def py_mod_def)
  with Suc.IH [of "if n \<noteq> 0 then sha256d cr (h @ s) else h"] show ?case by auto
qed simp

lemma construct_pow_evidence_returns:
  assumes "stream_serialize_block_summary summary = Inr x" and "0 < height" and "height < 256 ^ 8"
    and "cs_block_by_height_by_hash cs (bs_previous_block_hash summary) = Some m"
    and "\<And>i. 0 \<le> i \<Longrightarrow> i < height \<Longrightarrow> \<exists>b bs. m i = Some b \<and> stream_serialize_block b = Inr bs"
    and "stream_serialize_list stream_serialize_transaction txs = Inr y"
  shows "returns (construct_pow_evidence cr cs summary height txs)"
proof -
  let ?h = "scrypt cr x (be_bytes 8 height)"
  let ?get = "\<lambda>h. rbind (lookup_key (cs_block_by_height_by_hash cs) (bs_previous_block_hash summary))
              (\<lambda>by_height. lookup_key by_height h)"
  have "construct_summary_hash cr summary height = Inr ?h"
    using assms(1-3) by (simp add: construct_summary_hash_def to_bytes_def)
  moreover have "\<exists>bs. select_slices_loop cr 8 ?h height ?get 4 = Inr bs"
    using assms(2,4,5) by (intro select_slices_returns) (fastforce simp: lookup_key_def)+
  ultimately show ?thesis
    using assms(2,6) by (auto simp: construct_pow_evidence_def construct_pow_evidence_after_scrypt_def
        select_n_k_length_slices_from_chain_def)
qed

lemma select_n_k_length:
  assumes "select_n_k_length_slices_from_chain cr h height f n k = Inr s"
  shows "length s = n * k"
proof -
  obtain bs where bs: "select_slices_loop cr n h height f k = Inr bs" "s = concat bs"
    using assms by (auto simp: select_n_k_length_slices_from_chain_def rbind_eq_Inr)
  have "length (concat bs) = length bs * k" if "\<forall>b\<in>set bs. length b = k" for bs :: "bytes list"
    using that by (induction bs) auto
  with select_slices_loop_lengths [OF bs(1)] bs(2) show ?thesis by simp
qed

text \<open>The evidence has the sizes of the wire format, and its last hash covers the transactions.\<close>

lemma construct_pow_evidence_shape:
  assumes "construct_pow_evidence cr cs summary height txs = Inr e" and "digests_ok cr"
  shows "pow_evidence_wf e" and "\<exists>x y. stream_serialize_list stream_serialize_transaction txs = Inr y \<and>
    pe_block_hash e = blake2 cr (x @ y)"
proof -
  obtain h s y where h: "construct_summary_hash cr summary height = Inr h"
    and s: "(height = 0 \<and> s = replicate 32 0) \<or>
      (\<exists>f. select_n_k_length_slices_from_chain cr h height f 8 4 = Inr s)"
    and y: "stream_serialize_list stream_serialize_transaction txs = Inr y"
    and e: "e = \<lparr>pe_summary_hash = h, pe_chain_sample = s, pe_block_hash = blake2 cr (h @ s @ y)\<rparr>"
    using assms(1) by (auto simp: construct_pow_evidence_def construct_pow_evidence_after_scrypt_def
        rbind_eq_Inr split: if_splits)
  have "length h = 32"
    using h assms(2) by (auto simp: construct_summary_hash_def rbind_eq_Inr length_digests)
  moreover have "length s = 32" using s by (auto dest: select_n_k_length)
  ultimately show "pow_evidence_wf e"
    using assms(2) by (simp add: e pow_evidence_wf_def length_digests)
  have "pe_block_hash e = blake2 cr ((h @ s) @ y)" by (simp add: e)
  with y show "\<exists>x y. stream_serialize_list stream_serialize_transaction txs = Inr y \<and>
    pe_block_hash e = blake2 cr (x @ y)" by blast
qed

section \<open>A mined block is valid\<close>

definition pool_ok :: "crypto \<Rightarrow> unspent \<Rightarrow> transaction list \<Rightarrow> bool" where
  "pool_ok cr u ts \<longleftrightarrow> (\<forall>t\<in>set ts. transaction_ok t \<and> spend_ok cr u t) \<and> distinct (concat (map input_refs ts))"

lemma mined_block_parts:
  assumes "construct_block_for_mining cr cs ts pk timestamp data nonce = Inr b"
    and "cs_head cs = Inr parent" and "cs_current_chain_hash cs = Some cur" and "cur \<noteq> []"
    and "cs_unspent_transaction_outs_by_hash cs cur = Some u"
  obtains coinbase where "blk_transactions b = coinbase # ts" "block_height b = block_height parent + 1"
    "block_previous_block_hash b = cur" "block_timestamp b = timestamp"
    "construct_coinbase_transaction (block_height b) ts u data pk = Inr coinbase"
    "calc_merkle_root_hash cr (coinbase # ts) = Inr (bs_merkle_root_hash (block_summary_of b))"
    "calc_target cr cs (block_height b) timestamp parent = Inr (block_target b)"
    "construct_pow_evidence cr cs (block_summary_of b) (block_height b) (coinbase # ts) =
       Inr (hd_pow_evidence (blk_header b))"
proof -
  have "assert_current cs = Inr cur" using assms(3,4) by (simp add: assert_current_def)
  with assms(1,2,3,5) that show thesis
    unfolding construct_block_for_mining_def construct_block_pow_evidence_input_def
      construct_minable_summary_def
    by (auto simp: rbind_eq_Inr Let_def lookup_key_eq_Inr mk_block_def block_height_def
        block_previous_block_hash_def block_timestamp_def block_target_def)
qed

lemma coinbase_parts:
  assumes "construct_coinbase_transaction height ts u data pk = Inr c"
  shows "0 \<le> height \<and> height \<le> 0xFFFFFFFF \<and> length data \<le> 256 \<and>
    outputs_value c = get_block_subsidy height + fees_of u ts \<and> \<Union> (set ` input_refs ` set ts) \<subseteq> dom u \<and>
    (length data \<le> 200 \<longrightarrow> coinbase_ok c height)"
  using assms
  by (auto simp: construct_coinbase_transaction_def Let_def rbind_eq_Inr get_block_fees_eq_Inr
      mk_coinbase_data_eq_Inr construct_reference_to_thin_air_def mk_output_reference_eq_Inr
      outputs_value_def coinbase_ok_def references_thin_air_def)

lemma transaction_ok_hash: "transaction_ok t \<Longrightarrow> returns (transaction_hash cr t)"
  by (auto simp: transaction_ok_def transaction_hash_def cached_or_def split: option.splits)

lemma mined_block_valid:
  assumes mine: "construct_block_for_mining cr cs ts pk timestamp data nonce = Inr b"
    and cs: "cs_head cs = Inr parent" "cs_current_chain_hash cs = Some cur" "cur \<noteq> []"
      "cs_unspent_transaction_outs_by_hash cs cur = Some u"
    and height: "MAX_KNOWN_HASH_HEIGHT \<le> block_height parent"
    and pool: "pool_ok cr u ts" and data: "length data \<le> 200"
    and time: "block_timestamp parent < timestamp" "timestamp \<le> now + MAX_FUTURE_BLOCK_TIME"
    and size: "stream_serialize_block b = Inr bs" "int (length bs) \<le> MAX_BLOCK_SIZE"
    and work: "block_header_hash cr (blk_header b) = Inr h" "h < block_target b"
  shows "\<exists>coinbase. block_ok cr b now coinbase ts \<and> block_in_coinstate_ok cr b cs parent u coinbase ts"
proof -
  obtain c where c: "blk_transactions b = c # ts" "block_height b = block_height parent + 1"
    "block_previous_block_hash b = cur" "block_timestamp b = timestamp"
    "construct_coinbase_transaction (block_height b) ts u data pk = Inr c"
    "calc_merkle_root_hash cr (c # ts) = Inr (bs_merkle_root_hash (block_summary_of b))"
    "calc_target cr cs (block_height b) timestamp parent = Inr (block_target b)"
    "construct_pow_evidence cr cs (block_summary_of b) (block_height b) (c # ts) =
       Inr (hd_pow_evidence (blk_header b))"
    by (rule mined_block_parts [OF mine cs])
  note coinbase = coinbase_parts [OF c(5)]
  have "validate_no_duplicate_transactions cr ts = Inr ()"
    using pool transaction_ok_hash
    by (intro duplicate_transactions_redundant) (auto simp: pool_ok_def transaction_ok_def)
  then have "block_ok cr b now c ts"
    using c coinbase pool data time size work by (auto simp: block_ok_def pool_ok_def)
  moreover have "cs_block_by_hash cs cur = Some parent"
    using cs(1,2) by (simp add: cs_head_def lookup_key_eq_Inr)
  then have "block_in_coinstate_ok cr b cs parent u c ts"
    using c coinbase pool time cs(4) by (auto simp: block_in_coinstate_ok_def pool_ok_def)
  ultimately show ?thesis by blast
qed

section \<open>An example above the checkpoints\<close>

definition top_target :: bytes where
  "top_target = replicate 32 0xff"

definition top_parent :: block where
  "top_parent =
     \<lparr>blk_header =
        \<lparr>hd_summary = \<lparr>bs_height = 163000, bs_previous_block_hash = zero_hash, bs_merkle_root_hash = zero_hash,
           bs_timestamp = 100, bs_target = top_target, bs_nonce = 0\<rparr>,
         hd_pow_evidence = \<lparr>pe_summary_hash = zero_hash, pe_chain_sample = zero_hash, pe_block_hash = zero_hash\<rparr>\<rparr>,
      blk_transactions = [], blk_cached_hash = Some (sample_hash 1)\<rparr>"

definition top_state :: coinstate where
  "top_state = mk_coinstate [sample_hash 1 \<mapsto> top_parent] [sample_hash 1 \<mapsto> sample_unspent]
     [sample_hash 1 \<mapsto> (\<lambda>i. Some top_parent)] [sample_hash 1 \<mapsto> top_parent] (Some (sample_hash 1))"

definition top_transaction :: transaction where
  "top_transaction = sample_transaction 7 [sample_input 8 0 3] [sample_output 6 5]"

definition top_coinbase :: transaction where
  "top_coinbase =
     \<lparr>tx_inputs = [\<lparr>inp_output_reference = \<lparr>ref_hash = zero_hash, ref_index = 0\<rparr>,
        inp_signature = Some (CoinbaseData 163001 [])\<rparr>],
      tx_outputs = [sample_output 1000000004 4], tx_cached_hash = None\<rparr>"

definition top_block :: block where
  "top_block = projr (construct_block_for_mining toy_crypto top_state [top_transaction]
     (SECP256k1PublicKey (replicate 64 4)) 200 [] 0)"

lemma small_vlq: "stream_serialize_vlq 1 = Inr [1]" "stream_serialize_vlq 2 = Inr [2]"
  "stream_serialize_vlq 163000 = Inr [0x89, 0xf9, 0x38]" "stream_serialize_vlq 163001 = Inr [0x89, 0xf9, 0x39]"
proof -
  have three: "vlq_loop 3 m i = vlq_loop (Suc (Suc (Suc 0))) m i" for m i by (simp only: numeral_3_eq_3)
  show "stream_serialize_vlq 1 = Inr [1]" "stream_serialize_vlq 2 = Inr [2]"
    "stream_serialize_vlq 163000 = Inr [0x89, 0xf9, 0x38]" "stream_serialize_vlq 163001 = Inr [0x89, 0xf9, 0x39]"
    by (simp_all add: stream_serialize_vlq_def bit_length_def nat_bit_length.simps pack_uint_def Let_def three)
qed

lemma top_transaction_ser:
  "\<exists>a. stream_serialize_transaction top_transaction = Inr (a @ replicate 64 5) \<and> length a = 113"
  "\<exists>m. stream_serialize_transaction (transaction_signable_equivalent top_transaction) = Inr m"
  by (simp_all add: top_transaction_def sample_input_def sample_output_def stream_serialize_transaction_def
      stream_serialize_list_def stream_serialize_input_def stream_serialize_output_def small_vlq
      stream_serialize_output_reference_def pack_uint_def type_bytes Let_def transaction_signable_equivalent_def
      input_signable_equivalent_def)

lemma top_coinbase_ser: "\<exists>a. stream_serialize_transaction top_coinbase = Inr a \<and> length a = 118"
  by (simp add: top_coinbase_def sample_output_def stream_serialize_transaction_def
      stream_serialize_list_def stream_serialize_input_def stream_serialize_output_def small_vlq
      stream_serialize_output_reference_def pack_uint_def type_bytes Let_def)

lemma top_transaction_ok: "transaction_ok top_transaction"
proof -
  obtain a where "stream_serialize_transaction top_transaction = Inr (a @ replicate 64 5)" "length a = 113"
    using top_transaction_ser(1) by blast
  then have "\<exists>bs. stream_serialize_transaction top_transaction = Inr bs \<and> int (length bs) \<le> MAX_BLOCK_SIZE"
    by simp
  moreover have "tx_outputs top_transaction = [sample_output 6 5]" "tx_inputs top_transaction = [sample_input 8 0 3]"
    by (simp_all add: top_transaction_def)
  ultimately show ?thesis
    by (simp add: transaction_ok_def sample_output_def outputs_value_def input_refs_def signed_input_def
        sample_input_def references_thin_air_def)
qed

lemma top_pool_ok: "pool_ok toy_crypto sample_unspent [top_transaction]"
proof -
  have ref: "sample_unspent \<lparr>ref_hash = sample_hash 8, ref_index = 0\<rparr> = Some (sample_output 10 3)"
    by (simp add: sample_unspent_def created_def)
  have "authorised toy_crypto sample_unspent top_transaction (sample_input 8 0 3)"
    using top_transaction_ser(2) ref
    by (simp add: authorised_def sample_input_def sample_output_def)
  then have "spend_ok toy_crypto sample_unspent top_transaction"
    by (simp add: spend_ok_def top_transaction_def outputs_value_def input_refs_def value_at_def sample_input_def ref)
      (simp add: sample_output_def)
  with top_transaction_ok show ?thesis by (simp add: pool_ok_def top_transaction_def input_refs_def)
qed

lemma top_parent_ser: "\<exists>bs. stream_serialize_block top_parent = Inr bs"
  by (intro block_wire.ser_returns) (simp add: top_parent_def block_wf_def block_header_wf_def
      block_summary_wf_def pow_evidence_wf_def top_target_def)

lemma top_state_simps:
  "cs_head top_state = Inr top_parent" "cs_current_chain_hash top_state = Some (sample_hash 1)"
  "cs_unspent_transaction_outs_by_hash top_state (sample_hash 1) = Some sample_unspent"
  "cs_block_by_height_by_hash top_state (sample_hash 1) = Some (\<lambda>i. Some top_parent)"
  "block_height top_parent = 163000" "block_timestamp top_parent = 100" "block_target top_parent = top_target"
  "maps_agree top_state"
  by (simp_all add: cs_head_def top_state_def lookup_key_def top_parent_def block_height_def block_timestamp_def
      block_target_def maps_agree_def eq_commute [of zero_hash])

lemma toy_digest_append: "32 \<le> length y \<Longrightarrow> toy_digest (x @ y) = toy_digest y"
  by (simp add: toy_digest_def)

lemma top_coinbase_constructed:
  "construct_coinbase_transaction 163001 [top_transaction] sample_unspent [] (SECP256k1PublicKey (replicate 64 4)) =
     Inr top_coinbase"
proof -
  have "get_transaction_fee top_transaction sample_unspent = Inr 4"
    by (simp add: get_transaction_fee_eq_Inr top_transaction_def input_refs_def sample_input_def
        sample_unspent_def created_def value_at_def outputs_value_def dom_def)
      (simp add: sample_output_def)
  then show ?thesis
    by (simp add: construct_coinbase_transaction_def get_block_fees_def get_block_subsidy_def Let_def
        mk_coinbase_data_def construct_reference_to_thin_air_def mk_output_reference_def top_coinbase_def
        sample_output_def)
qed

lemma top_block_evidence:
  assumes "length merkle = 32"
  shows "returns (construct_pow_evidence toy_crypto top_state
    \<lparr>bs_height = 163001, bs_previous_block_hash = sample_hash 1, bs_merkle_root_hash = merkle,
     bs_timestamp = 200, bs_target = top_target, bs_nonce = 0\<rparr> 163001 [top_coinbase, top_transaction])"
proof -
  let ?s = "\<lparr>bs_height = 163001, bs_previous_block_hash = sample_hash 1, bs_merkle_root_hash = merkle,
     bs_timestamp = 200, bs_target = top_target, bs_nonce = 0\<rparr>"
  obtain x where "stream_serialize_block_summary ?s = Inr x"
    using summary_wire.ser_returns [of ?s] assms by (auto simp: block_summary_wf_def top_target_def)
  moreover obtain y where "stream_serialize_list stream_serialize_transaction [top_coinbase, top_transaction] = Inr y"
    using top_coinbase_ser top_transaction_ser(1) by (auto simp: stream_serialize_list_def small_vlq)
  ultimately show ?thesis
    using top_parent_ser by (intro construct_pow_evidence_returns) (auto simp: top_state_simps)
qed

lemma top_block_parts:
  "\<exists>merkle e. length merkle = 32 \<and>
     construct_block_for_mining toy_crypto top_state [top_transaction] (SECP256k1PublicKey (replicate 64 4)) 200 [] 0 =
       Inr top_block \<and>
     construct_pow_evidence toy_crypto top_state (block_summary_of top_block) 163001 [top_coinbase, top_transaction] = Inr e \<and>
     top_block = mk_block \<lparr>bs_height = 163001, bs_previous_block_hash = sample_hash 1, bs_merkle_root_hash = merkle,
         bs_timestamp = 200, bs_target = top_target, bs_nonce = 0\<rparr> e [top_coinbase, top_transaction]"
proof -
  obtain c where c: "stream_serialize_transaction top_coinbase = Inr c" using top_coinbase_ser by blast
  define merkle where "merkle = toy_digest (toy_digest c @ sample_hash 7)"
  have "transaction_hash toy_crypto top_coinbase = Inr (toy_digest c)"
    using c by (simp add: transaction_hash_def cached_or_def top_coinbase_def)
  moreover have "transaction_hash toy_crypto top_transaction = Inr (sample_hash 7)"
    by (simp add: top_transaction_def)
  ultimately have merkle: "calc_merkle_root_hash toy_crypto [top_coinbase, top_transaction] = Inr merkle"
    by (simp add: calc_merkle_root_hash_def get_merkle_root.simps merkle_def)
  have len: "length merkle = 32" by (simp add: merkle_def)
  let ?s = "\<lparr>bs_height = 163001, bs_previous_block_hash = sample_hash 1, bs_merkle_root_hash = merkle,
         bs_timestamp = 200, bs_target = top_target, bs_nonce = 0\<rparr>"
  obtain e where e: "construct_pow_evidence toy_crypto top_state ?s 163001 [top_coinbase, top_transaction] = Inr e"
    using top_block_evidence [OF len] by blast
  have b: "construct_block_for_mining toy_crypto top_state [top_transaction]
       (SECP256k1PublicKey (replicate 64 4)) 200 [] 0 = Inr (mk_block ?s e [top_coinbase, top_transaction])"
    using top_coinbase_constructed merkle e
    by (simp add: construct_block_for_mining_def construct_block_pow_evidence_input_def top_state_simps
        assert_current_def lookup_key_def construct_minable_summary_def Let_def calc_target_def)
  then have "top_block = mk_block ?s e [top_coinbase, top_transaction]" by (simp add: top_block_def)
  moreover have "block_summary_of (mk_block ?s e [top_coinbase, top_transaction]) = ?s" by (simp add: mk_block_def)
  ultimately show ?thesis using b e len by metis
qed

lemma top_block_constructed:
  "construct_block_for_mining toy_crypto top_state [top_transaction] (SECP256k1PublicKey (replicate 64 4)) 200 [] 0 =
     Inr top_block"
  using top_block_parts by blast

lemma replicate_less: "k < l \<Longrightarrow> 0 < n \<Longrightarrow> replicate n k < replicate n (l :: byte)"
  by (cases n) auto

lemma top_block_facts:
  "block_height top_block = 163001" "block_timestamp top_block = 200" "block_target top_block = top_target"
  "block_previous_block_hash top_block = sample_hash 1" "blk_transactions top_block = [top_coinbase, top_transaction]"
proof -
  obtain merkle e where b: "top_block = mk_block \<lparr>bs_height = 163001, bs_previous_block_hash = sample_hash 1,
        bs_merkle_root_hash = merkle, bs_timestamp = 200, bs_target = top_target, bs_nonce = 0\<rparr> e
        [top_coinbase, top_transaction]"
    using top_block_parts by blast
  show "block_height top_block = 163001" "block_timestamp top_block = 200" "block_target top_block = top_target"
    "block_previous_block_hash top_block = sample_hash 1" "blk_transactions top_block = [top_coinbase, top_transaction]"
    by (simp_all add: b mk_block_def block_height_def block_timestamp_def block_target_def
        block_previous_block_hash_def)
qed

lemma top_block_work:
  "\<exists>h. block_header_hash toy_crypto (blk_header top_block) = Inr h \<and> h < top_target"
  "\<exists>bs. stream_serialize_block top_block = Inr bs \<and> int (length bs) \<le> MAX_BLOCK_SIZE"
proof -
  obtain merkle e where len: "length merkle = 32"
    and e: "construct_pow_evidence toy_crypto top_state (block_summary_of top_block) 163001
        [top_coinbase, top_transaction] = Inr e"
    and b: "top_block = mk_block \<lparr>bs_height = 163001, bs_previous_block_hash = sample_hash 1,
        bs_merkle_root_hash = merkle, bs_timestamp = 200, bs_target = top_target, bs_nonce = 0\<rparr> e
        [top_coinbase, top_transaction]"
    using top_block_parts by blast
  note wf = construct_pow_evidence_shape(1) [OF e toy_digests_ok]
  obtain x y where y: "stream_serialize_list stream_serialize_transaction [top_coinbase, top_transaction] = Inr y"
    and h: "pe_block_hash e = toy_digest (x @ y)"
    using construct_pow_evidence_shape(2) [OF e toy_digests_ok] by (auto simp: blake2_def)
  obtain a where a: "stream_serialize_transaction top_transaction = Inr (a @ replicate 64 5)" "length a = 113"
    using top_transaction_ser(1) by blast
  obtain c where c: "stream_serialize_transaction top_coinbase = Inr c" "length c = 118"
    using top_coinbase_ser by blast
  have y_eq: "y = ([2] @ c @ a @ replicate 32 5) @ replicate 32 5"
    using y a c by (simp add: stream_serialize_list_def small_vlq replicate_add [symmetric])
  have "x @ y = (x @ [2] @ c @ a @ replicate 32 5) @ replicate 32 5" by (simp add: y_eq)
  then have hash: "pe_block_hash e = replicate 32 5"
    using toy_digest_append [of "replicate 32 5"] by (simp add: h toy_digest_fixed del: append_assoc)
  define z where "z = [0, 0x89, 0xf9, 0x39] @ sample_hash 1 @ merkle @ be_bytes 4 200 @ top_target @
      be_bytes 4 0 @ pe_summary_hash e @ pe_chain_sample e"
  have z: "stream_serialize_block_header (blk_header top_block) = Inr (z @ replicate 32 5)" "length z = 172"
    using len wf by (simp_all add: z_def b mk_block_def stream_serialize_block_header_def stream_serialize_block_summary_def
        small_vlq pack_uint_def top_target_def stream_serialize_pow_evidence_def hash pow_evidence_wf_def)
  then have "block_header_hash toy_crypto (blk_header top_block) = Inr (replicate 32 5)"
    by (simp add: block_header_hash_def toy_digest_append toy_digest_fixed)
  then show "\<exists>h. block_header_hash toy_crypto (blk_header top_block) = Inr h \<and> h < top_target"
    by (simp add: top_target_def replicate_less)
  show "\<exists>bs. stream_serialize_block top_block = Inr bs \<and> int (length bs) \<le> MAX_BLOCK_SIZE"
    using z y by (simp add: stream_serialize_block_def top_block_facts y_eq c a)
qed

lemma top_block_valid:
  "\<exists>coinbase. block_ok toy_crypto top_block 200 coinbase [top_transaction] \<and>
     block_in_coinstate_ok toy_crypto top_block top_state top_parent sample_unspent coinbase [top_transaction]"
proof -
  obtain h where h: "block_header_hash toy_crypto (blk_header top_block) = Inr h" "h < block_target top_block"
    using top_block_work(1) by (auto simp: top_block_facts)
  obtain bs where bs: "stream_serialize_block top_block = Inr bs" "int (length bs) \<le> MAX_BLOCK_SIZE"
    using top_block_work(2) by blast
  show ?thesis
    by (rule mined_block_valid [where cur = "sample_hash 1",
          OF top_block_constructed _ _ _ _ _ top_pool_ok _ _ _ bs h])
      (simp_all add: top_state_simps)
qed

section \<open>Properties\<close>

text \<open>
  C5: miners produce valid blocks: a block built by \<open>construct_block_for_mining\<close> above the checkpoints
  from transactions that pass validation at the head and spend disjoint outputs, with at most 200
  bytes of random data, a time after the parent's and not in the future, a size within the limit
  and a hash below the target, passes \<open>validate_block_by_itself\<close> and \<open>validate_block_in_coinstate\<close>.
\<close>

theorem mined_block_passes_validation:
  assumes "construct_block_for_mining cr cs ts pk timestamp data nonce = Inr b"
    and "cs_head cs = Inr parent" and "cs_current_chain_hash cs = Some cur" and "cur \<noteq> []"
    and "cs_unspent_transaction_outs_by_hash cs cur = Some u"
    and "MAX_KNOWN_HASH_HEIGHT \<le> block_height parent"
    and "\<forall>t\<in>set ts. validate_non_coinbase_transaction_by_itself t = Inr () \<and>
       validate_non_coinbase_transaction_in_coinstate cr t cur cs = Inr ()"
    and "validate_no_duplicate_output_references_in_transactions ts = Inr ()"
    and "length data \<le> 200"
    and "block_timestamp parent < timestamp" and "timestamp \<le> now + MAX_FUTURE_BLOCK_TIME"
    and "stream_serialize_block b = Inr bs" and "int (length bs) \<le> MAX_BLOCK_SIZE"
    and "block_header_hash cr (blk_header b) = Inr h" and "h < block_target b"
  shows "validate_block_by_itself cr b now = Inr () \<and> validate_block_in_coinstate cr b cs = Inr ()"
proof -
  have "pool_ok cr u ts"
    using assms(5,7,8) by (auto simp: pool_ok_def validate_non_coinbase_transaction_by_itself_iff
        validate_non_coinbase_transaction_in_coinstate_iff validate_no_duplicate_references_iff)
  from mined_block_valid [OF assms(1-6) this assms(9-15)] obtain c
    where c: "block_ok cr b now c ts" "block_in_coinstate_ok cr b cs parent u c ts" by blast
  then have "MAX_KNOWN_HASH_HEIGHT < block_height b"
    using assms(6) by (simp add: block_in_coinstate_ok_def)
  with c show ?thesis
    unfolding validate_block_by_itself_iff by (auto simp: validate_block_in_coinstate_iff)
qed

theorem mined_block_passes_validation_witness:
  "validate_block_by_itself toy_crypto top_block 200 = Inr () \<and>
   validate_block_in_coinstate toy_crypto top_block top_state = Inr ()"
proof -
  obtain h where h: "block_header_hash toy_crypto (blk_header top_block) = Inr h" "h < block_target top_block"
    using top_block_work(1) by (auto simp: top_block_facts)
  obtain bs where bs: "stream_serialize_block top_block = Inr bs" "int (length bs) \<le> MAX_BLOCK_SIZE"
    using top_block_work(2) by blast
  show ?thesis
    using top_pool_ok
    by (intro mined_block_passes_validation [where cur = "sample_hash 1" and parent = top_parent and
          u = sample_unspent, OF top_block_constructed _ _ _ _ _ _ _ _ _ _ bs h])
      (simp_all add: top_state_simps pool_ok_def validate_non_coinbase_transaction_by_itself_iff
        validate_non_coinbase_transaction_in_coinstate_iff validate_no_duplicate_references_iff)
qed

end
