(* ===== verification/Wire_Properties.thy ===== *)
theory Wire_Properties
  imports Balances
begin

text \<open>
  What the wire formats of \<open>serialization.py\<close>, \<open>signing.py\<close> and \<open>datatypes.py\<close> promise to the
  rest of the program: round trips, unambiguous framing, the message that signatures cover, and the
  two places where they promise less than one might expect (a length byte that does not fit, and
  encodings of transactions that are not unique).
\<close>

section \<open>Round trips and framing\<close>

text \<open>
  Every natural number is written as a variable-length quantity that reads back as the same
  number, whatever follows it in the stream.
\<close>

theorem vlq_roundtrip:
  assumes "0 \<le> i"
  shows "\<exists>bs. stream_serialize_vlq i = Inr bs \<and> (\<forall>rest. stream_deserialize_vlq (bs @ rest) = Inr (i, rest))"
  using vlq_roundtrip_aux [OF assms] by blast

theorem vlq_roundtrip_witness:
  "\<exists>bs. stream_serialize_vlq 300 = Inr bs \<and> stream_deserialize_vlq (bs @ [7]) = Inr (300, [7])"
  using vlq_roundtrip [of 300] by auto

text \<open>
  C18: a well-formed block is always written, and the bytes, with anything after them, read back as exactly
  that block, every field of its header and of its transactions the same, with its caches filled: the cached hash of
  the block is the double SHA-256 of the header as written, that of each transaction the double SHA-256
  of the transaction as written.
\<close>

theorem block_roundtrip:
  assumes "block_wf b"
  shows "\<exists>h bs ts. stream_serialize_block_header (blk_header b) = Inr h \<and> stream_serialize_block b = Inr bs \<and>
    list_all2 (\<lambda>t t'. \<exists>x. stream_serialize_transaction t = Inr x \<and> t' = t\<lparr>tx_cached_hash := Some (sha256d cr x)\<rparr>)
      (blk_transactions b) ts \<and>
    (\<forall>rest. stream_deserialize_block cr (bs @ rest) =
       Inr (\<lparr>blk_header = blk_header b, blk_transactions = ts, blk_cached_hash = Some (sha256d cr h)\<rparr>, rest))"
proof -
  obtain h where h: "stream_serialize_block_header (blk_header b) = Inr h"
    using assms header_wire.ser_returns by (auto simp: block_wf_def)
  obtain bs where bs: "stream_serialize_block b = Inr bs" using block_wire.ser_returns [OF assms] by blast
  have "\<exists>x. stream_serialize_transaction t = Inr x \<and> transaction_canon cr t = t\<lparr>tx_cached_hash := Some (sha256d cr x)\<rparr>"
    if "t \<in> set (blk_transactions b)" for t
    using tx_wire.ser_returns [of t] assms that by (auto simp: block_wf_def transaction_canon_def)
  then have "list_all2 (\<lambda>t t'. \<exists>x. stream_serialize_transaction t = Inr x \<and> t' = t\<lparr>tx_cached_hash := Some (sha256d cr x)\<rparr>)
      (blk_transactions b) (map (transaction_canon cr) (blk_transactions b))"
    by (simp add: list_all2_conv_all_nth)
  moreover have "block_canon cr b = \<lparr>blk_header = blk_header b, blk_transactions = map (transaction_canon cr) (blk_transactions b),
      blk_cached_hash = Some (sha256d cr h)\<rparr>"
    by (simp add: block_canon_def h)
  ultimately show ?thesis using block_wire.par_ser [OF assms bs] h bs by auto
qed

lemma sample_block_wf: "0 \<le> h \<Longrightarrow> h < 2 ^ 32 \<Longrightarrow> length prev = 32 \<Longrightarrow>
    \<forall>t\<in>set txs. transaction_wf t \<Longrightarrow> block_wf (sample_block h prev hash txs)"
  by (simp add: sample_block_def block_wf_def block_header_wf_def block_summary_wf_def pow_evidence_wf_def)

lemma sample_transaction_wf: "transaction_wf (sample_transaction 7 [sample_input 8 0 3] [sample_output 6 5])"
  by (simp add: transaction_wf_def sample_transaction_def input_wf_def output_wf_def sample_input_def
      sample_output_def output_reference_wf_def)

theorem block_roundtrip_witness:
  "\<exists>bs b'. stream_serialize_block (sample_block 1 zero_hash zero_hash
       [sample_transaction 7 [sample_input 8 0 3] [sample_output 6 5]]) = Inr bs \<and>
     stream_deserialize_block toy_crypto (bs @ [1]) = Inr (b', [1]) \<and> block_height b' = 1"
proof -
  let ?b = "sample_block 1 zero_hash zero_hash [sample_transaction 7 [sample_input 8 0 3] [sample_output 6 5]]"
  have "block_wf ?b" using sample_transaction_wf by (intro sample_block_wf) auto
  from block_roundtrip [OF this, of toy_crypto] obtain bs ts h where "stream_serialize_block ?b = Inr bs"
    "stream_deserialize_block toy_crypto (bs @ [1]) =
       Inr (\<lparr>blk_header = blk_header ?b, blk_transactions = ts, blk_cached_hash = Some (sha256d toy_crypto h)\<rparr>, [1])"
    by blast
  moreover have "block_height \<lparr>blk_header = blk_header ?b, blk_transactions = ts, blk_cached_hash = x\<rparr> = 1" for x
    by (simp add: block_height_def sample_block_def)
  ultimately show ?thesis by blast
qed

text \<open>
  C39: whatever bytes a peer sends, a block read from them is well-formed, consumes at least one byte
  and depends only on the bytes consumed; and cutting the encoding of a block short anywhere never
  gives a block.
\<close>

theorem block_framing:
  assumes "stream_deserialize_block cr s = Inr (b, s')"
  shows "block_wf b \<and> length s' < length s \<and>
    (\<exists>u. s = u @ s' \<and> (\<forall>t. stream_deserialize_block cr (u @ t) = Inr (b, t)) \<and>
       (\<forall>p q. u = p @ q \<and> q \<noteq> [] \<longrightarrow> \<not> returns (stream_deserialize_block cr p)))"
proof -
  obtain u where u: "s = u @ s'" "\<And>t. stream_deserialize_block cr (u @ t) = Inr (b, t)"
    by (rule local_parserE [OF block_wire.par_local assms]) blast
  have "\<not> returns (stream_deserialize_block cr p)" if pq: "u = p @ q" "q \<noteq> []" for p q
  proof
    assume "returns (stream_deserialize_block cr p)"
    then obtain b' r where r: "stream_deserialize_block cr p = Inr (b', r)" by auto
    obtain v where v: "p = v @ r" "\<And>t. stream_deserialize_block cr (v @ t) = Inr (b', t)"
      by (rule local_parserE [OF block_wire.par_local r]) blast
    from u(2) [of "[]"] v(2) [of "r @ q"] pq v(1) show False by simp
  qed
  with u block_wire.par_wf [OF assms] productiveD [OF block_wire.par_productive assms] show ?thesis by blast
qed

theorem block_framing_witness:
  "\<exists>u. (\<exists>b. \<forall>t. stream_deserialize_block toy_crypto (u @ t) = Inr (b, t)) \<and>
     (\<forall>p q. u = p @ q \<and> q \<noteq> [] \<longrightarrow> \<not> returns (stream_deserialize_block toy_crypto p))"
proof -
  have wf: "block_wf (sample_block 1 zero_hash zero_hash [])" by (intro sample_block_wf) auto
  then obtain bs where "stream_serialize_block (sample_block 1 zero_hash zero_hash []) = Inr bs"
    using block_wire.ser_returns by blast
  from block_framing [OF block_wire.par_ser [OF wf this, of toy_crypto "[]"]] show ?thesis by blast
qed

lemma read_empty_transaction: "stream_deserialize_transaction toy_crypto [0, 0, 0] =
    Inr (\<lparr>tx_inputs = [], tx_outputs = [], tx_cached_hash = Some (toy_digest [0, 0, 0])\<rparr>, [])"
  by (simp add: stream_deserialize_transaction_def stream_deserialize_transaction_body_def pbind_def
      pconsumed_def safe_read_def stream_deserialize_list_def stream_deserialize_vlq_def preturn_def Let_def)

text \<open>
  A peer cannot make the reader build more than it sent: a transaction read from \<open>n\<close> bytes has
  fewer than \<open>n\<close> inputs and outputs in all, whatever lengths the bytes claim.
\<close>

theorem transaction_size_bound:
  assumes "stream_deserialize_transaction cr s = Inr (t, s')"
  shows "length (tx_inputs t) + length (tx_outputs t) < length s"
proof -
  obtain s1 s2 where v: "safe_read 1 s = Inr ([0], s1)"
    and i: "stream_deserialize_list stream_deserialize_input s1 = Inr (tx_inputs t, s2)"
    and p: "stream_deserialize_list stream_deserialize_output s2 = Inr (tx_outputs t, s')"
    using assms by (auto simp: stream_deserialize_transaction_def stream_deserialize_transaction_body_def
        result_simps split: if_splits)
  from input_wire.list_length_bound [OF i] output_wire.list_length_bound [OF p] v show ?thesis
    by (auto simp: safe_read_eq_Inr)
qed

theorem transaction_size_bound_witness:
  "\<exists>t. stream_deserialize_transaction toy_crypto [0, 0, 0] = Inr (t, []) \<and>
     length (tx_inputs t) + length (tx_outputs t) < 3"
  using transaction_size_bound [OF read_empty_transaction] read_empty_transaction by auto

section \<open>Signatures cover what is spent and who receives it\<close>

text \<open>
  C38: the message that a signature covers determines the outputs spent and the outputs created: two
  well-formed transactions with the same signable bytes name the same references in the same order
  and have the same outputs. (It leaves out all signatures.)
\<close>

theorem signable_bytes_determine_transfer:
  assumes "transaction_wf t" and "transaction_wf t'"
    and "stream_serialize_transaction (transaction_signable_equivalent t) = Inr m"
    and "stream_serialize_transaction (transaction_signable_equivalent t') = Inr m"
  shows "input_refs t = input_refs t' \<and> tx_outputs t = tx_outputs t'"
proof -
  have wf: "transaction_wf (transaction_signable_equivalent x)" if "transaction_wf x" for x
    using that by (auto simp: transaction_wf_def transaction_signable_equivalent_def input_wf_def
        input_signable_equivalent_def)
  let ?c = "transaction_canon toy_crypto"
  have eq: "?c (transaction_signable_equivalent t) = ?c (transaction_signable_equivalent t')"
    using tx_wire.ser_injective [OF wf [OF assms(1)] wf [OF assms(2)] assms(3,4)] .
  have "map inp_output_reference (tx_inputs (?c (transaction_signable_equivalent x))) = input_refs x"
    and "tx_outputs (?c (transaction_signable_equivalent x)) = tx_outputs x" for x
    by (simp_all add: transaction_canon_def transaction_signable_equivalent_def
        input_signable_equivalent_def input_refs_def)
  with eq show ?thesis by metis
qed

theorem signable_bytes_determine_transfer_witness:
  "input_refs (sample_transaction 7 [sample_input 8 0 3] [sample_output 6 5]) =
     input_refs (sample_transaction 9 [sample_input 8 0 4] [sample_output 6 5])"
proof -
  let ?t = "sample_transaction 7 [sample_input 8 0 3] [sample_output 6 5]"
    and ?t' = "sample_transaction 9 [sample_input 8 0 4] [sample_output 6 5]"
  have same: "transaction_signable_equivalent ?t = transaction_signable_equivalent ?t'"
    by (simp add: transaction_signable_equivalent_def input_signable_equivalent_def sample_input_def)
  have wf': "transaction_wf ?t'"
    by (simp add: transaction_wf_def input_wf_def output_wf_def sample_input_def
        sample_output_def output_reference_wf_def)
  have "transaction_wf (transaction_signable_equivalent ?t)"
    by (simp add: transaction_wf_def transaction_signable_equivalent_def input_wf_def output_wf_def
        input_signable_equivalent_def sample_input_def sample_output_def output_reference_wf_def)
  then obtain m where m: "stream_serialize_transaction (transaction_signable_equivalent ?t) = Inr m"
    using tx_wire.ser_returns by blast
  show ?thesis
    using signable_bytes_determine_transfer [OF sample_transaction_wf wf' m] m same by simp
qed

section \<open>Where encodings are not unique\<close>

text \<open>
  Transactions are malleable: inserting a byte 0x80 after the version of an encoded transaction
  gives other bytes that read as an equal transaction (\<open>__eq__\<close>) with the same signable message,
  but with a hash computed from the other bytes.
\<close>

theorem transaction_encoding_malleable:
  assumes "stream_deserialize_transaction cr (0 # s) = Inr (t, [])"
  shows "\<exists>t'. stream_deserialize_transaction cr (0 # 0x80 # s) = Inr (t', []) \<and> transaction_eq t t' \<and>
    transaction_signable_equivalent t = transaction_signable_equivalent t' \<and>
    tx_cached_hash t = Some (sha256d cr (0 # s)) \<and> tx_cached_hash t' = Some (sha256d cr (0 # 0x80 # s))"
proof -
  let ?r = "\<lambda>s. pbind (stream_deserialize_list stream_deserialize_input) (\<lambda>inputs.
            pbind (stream_deserialize_list stream_deserialize_output) (\<lambda>outputs.
            preturn (inputs, outputs))) s"
  have body: "stream_deserialize_transaction_body (0 # s) = ?r s" for s
    by (simp add: stream_deserialize_transaction_body_def pbind_def safe_read_def)
  have "stream_deserialize_list p (0x80 # s) = stream_deserialize_list p s" for p :: "tx_input parser"
    by (simp add: stream_deserialize_list_def pbind_def stream_deserialize_vlq_padding)
  then have pad: "stream_deserialize_transaction_body (0 # 0x80 # s) = stream_deserialize_transaction_body (0 # s)"
    unfolding body by (simp add: pbind_def)
  from assms have "stream_deserialize_transaction_body (0 # s) = Inr ((tx_inputs t, tx_outputs t), [])"
    and "tx_cached_hash t = Some (sha256d cr (0 # s))"
    by (auto simp: stream_deserialize_transaction_def result_simps)
  moreover have "input_eq i i" for i
    by (cases "inp_signature i") (simp_all add: input_eq_def)
  ultimately show ?thesis
    by (auto simp: stream_deserialize_transaction_def pbind_def pconsumed_def pad preturn_def
        transaction_eq_def list_all2_refl transaction_signable_equivalent_def)
qed

theorem transaction_encoding_malleable_witness:
  "\<exists>t'. stream_deserialize_transaction toy_crypto [0, 0x80, 0, 0] = Inr (t', []) \<and>
     tx_cached_hash t' = Some (toy_digest [0, 0x80, 0, 0])"
  using transaction_encoding_malleable [OF read_empty_transaction] by auto

text \<open>
  The constructor of \<open>CoinbaseData\<close> accepts random data of 256 bytes, but such a value cannot
  be written: its length does not fit the length byte.
\<close>

theorem coinbase_data_of_256_bytes:
  assumes "0 \<le> h" and "h \<le> 0xFFFFFFFF"
  shows "mk_coinbase_data h (replicate 256 b) = Inr (CoinbaseData h (replicate 256 b)) \<and>
    stream_serialize_signature (CoinbaseData h (replicate 256 b)) = Inl StructError"
  using coinbase_data_unserializable [OF assms, of "replicate 256 b"] by simp

theorem coinbase_data_of_256_bytes_witness:
  "stream_serialize_signature (CoinbaseData 5 (replicate 256 1)) = Inl StructError"
  using coinbase_data_of_256_bytes [of 5 1] by simp

end
