(* ===== verification/Ledger.thy ===== *)
theory Ledger
  imports Mining_Blocks Wire_Properties
begin

text \<open>
  What validation buys: every spend is authorised by the key that owns the output, a validated block
  applies without error, and no sequence of accepted blocks ever creates more than \<open>MAX_SASHIMI\<close>.
  And two things it does not buy: blocks that claim a height below the last checkpoint are not
  checked against the state at all, wherever they attach, and a block's identity is not tied to its
  proof of work.
\<close>

section \<open>Supply\<close>

text \<open>
  The rule a block has to keep: its outputs are not negative and all of them together exceed the
  outputs it spends by at most the subsidy.
\<close>

definition spends :: "block \<Rightarrow> output_reference set" where
  "spends b = \<Union> (set ` input_refs ` set (tl (blk_transactions b)))"

definition issues_at_most_subsidy :: "unspent \<Rightarrow> block \<Rightarrow> bool" where
  "issues_at_most_subsidy u b \<longleftrightarrow>
     (\<forall>t\<in>set (blk_transactions b). outputs_nonneg t) \<and> spends b \<subseteq> dom u \<and>
     sum_list (map outputs_value (blk_transactions b)) \<le>
       (\<Sum>r\<in>spends b. value_at u r) + get_block_subsidy (block_height b)"

lemma validated_block_issues_at_most_subsidy:
  assumes "block_ok cr b now c ts" and "block_in_coinstate_ok cr b cs parent u c ts"
  shows "issues_at_most_subsidy u b"
proof -
  from assms have txs: "blk_transactions b = c # ts" and refs: "distinct (concat (map input_refs ts))"
    and dom: "spends b \<subseteq> dom u"
    and cb: "outputs_value c \<le> fees_of u ts + get_block_subsidy (block_height b)"
    by (auto simp: block_ok_def block_in_coinstate_ok_def spends_def)
  obtain bs where bs: "stream_serialize_block b = Inr bs" using assms(1) by (auto simp: block_ok_def)
  have "fees_of u ts = sum_list (map (value_at u) (concat (map input_refs ts))) - sum_list (map outputs_value ts)"
    by (induction ts) (simp_all add: fees_of_def)
  also have "sum_list (map (value_at u) (concat (map input_refs ts))) = (\<Sum>r\<in>spends b. value_at u r)"
    using refs by (simp add: sum_list_distinct_conv_sum_set spends_def txs)
  finally show ?thesis
    using cb dom block_ser_transactions(1) [OF bs] by (simp add: issues_at_most_subsidy_def txs)
qed

lemma issues_at_most_subsidy_total:
  assumes "uto_apply_block cr u b = Inr u'" and "issues_at_most_subsidy u b"
    and "finite (dom u)" and "values_nonneg u"
  shows "finite (dom u') \<and> values_nonneg u' \<and> total_value u' \<le> total_value u + get_block_subsidy (block_height b)"
proof -
  have nn: "\<forall>t\<in>set (blk_transactions b). outputs_nonneg t" and dom: "spends b \<subseteq> dom u"
    using assms(2) by (simp_all add: issues_at_most_subsidy_def)
  note step = uto_apply_block_value [OF assms(1,3,4) nn]
  have "total_value (u |` (- spends b)) = total_value u - (\<Sum>r\<in>spends b. value_at u r)"
    by (rule total_value_remove [OF assms(3) dom])
  with step assms(2) show ?thesis by (simp add: issues_at_most_subsidy_def spends_def)
qed

section \<open>The ledger as a state machine\<close>

text \<open>
  The step is \<open>add_block\<close>, with the time at which it happens. The environment has to offer only
  blocks that are new (the callers check); up to the last checkpoint, where \<open>add_block\<close> checks
  little, the blocks have to attach and keep the rule by themselves. The code does not ensure that
  (\<open>checkpointed_heights_bypass_validation\<close>); it is what the theorem on the supply assumes of them.
\<close>

definition ledger_guard :: "crypto \<Rightarrow> coinstate \<Rightarrow> block \<times> int \<Rightarrow> bool" where
  "ledger_guard cr cs e = (case e of (b, now) \<Rightarrow> new_block cr cs b \<and>
     (block_height b \<le> MAX_KNOWN_HASH_HEIGHT \<longrightarrow> attaches cr cs b \<and>
        (\<forall>u. parent_unspent cs b = Inr u \<longrightarrow> issues_at_most_subsidy u b)))"

definition ledger_step :: "crypto \<Rightarrow> coinstate \<Rightarrow> block \<times> int \<Rightarrow> coinstate result" where
  "ledger_step cr cs e = (case e of (b, now) \<Rightarrow> add_block cr cs b now)"

definition issued_by :: "int \<Rightarrow> int" where
  "issued_by height = (\<Sum>h<nat (height + 1). get_block_subsidy (int h))"

definition ledger_ok :: "crypto \<Rightarrow> coinstate \<Rightarrow> bool" where
  "ledger_ok cr cs \<longleftrightarrow> cs_ok cr cs \<and>
     (\<forall>h b u. cs_block_by_hash cs h = Some b \<longrightarrow> cs_unspent_transaction_outs_by_hash cs h = Some u \<longrightarrow>
        finite (dom u) \<and> values_nonneg u \<and> total_value u \<le> issued_by (block_height b))"

lemma issued_by_le_MAX: "issued_by height \<le> MAX_SASHIMI"
proof -
  have "(\<Sum>h<n. get_block_subsidy (int h)) \<le> 1050000 * (\<Sum>k<64. period_subsidy k)" for n
  proof -
    have "(\<Sum>h<n. get_block_subsidy (int h)) \<le> (\<Sum>h<(n + 64) * 1050000. get_block_subsidy (int h))"
      by (intro sum_mono2) (auto simp: get_block_subsidy_nonneg)
    also have "\<dots> = 1050000 * (\<Sum>k<n + 64. period_subsidy k)" by (rule sum_subsidy_periods)
    also have "(\<Sum>k<n + 64. period_subsidy k) = (\<Sum>k<64. period_subsidy k)"
      by (intro sum.mono_neutral_right) (auto simp: period_subsidy_def)
    finally show ?thesis .
  qed
  then show ?thesis unfolding issued_by_def sum_periods by simp
qed

lemma issued_by_step:
  assumes "0 \<le> height"
  shows "issued_by height = (if height = 0 then 0 else issued_by (height - 1)) + get_block_subsidy height"
proof -
  have "nat (height + 1) = Suc (nat height)" using assms by simp
  then have "issued_by height = (\<Sum>h<nat height. get_block_subsidy (int h)) + get_block_subsidy height"
    using assms by (simp add: issued_by_def)
  also have "(\<Sum>h<nat height. get_block_subsidy (int h)) = (if height = 0 then 0 else issued_by (height - 1))"
    by (simp add: issued_by_def)
  finally show ?thesis .
qed

lemma add_block_attaches:
  assumes "maps_agree cs" and "new_block cr cs b" and "MAX_KNOWN_HASH_HEIGHT < block_height b"
    and "validate_block_in_coinstate cr b cs = Inr ()"
  shows "attaches cr cs b"
proof -
  obtain parent u c ts where ok: "block_in_coinstate_ok cr b cs parent u c ts"
    using validate_block_in_coinstate_iff [OF assms(3)] assms(4) by blast
  then have "block_previous_block_hash b \<noteq> zero_hash"
    using assms(1) by (auto simp: block_in_coinstate_ok_def maps_agree_def)
  with ok assms(2) show ?thesis by (auto simp: attaches_def new_block_def block_in_coinstate_ok_def)
qed

lemma add_block_issues:
  assumes "add_block cr cs b now = Inr cs'" and "maps_agree cs" and "MAX_KNOWN_HASH_HEIGHT < block_height b"
    and "parent_unspent cs b = Inr u"
  shows "issues_at_most_subsidy u b"
proof -
  obtain c ts where c: "block_ok cr b now c ts"
    using assms(1) by (auto simp: add_block_def rbind_eq_Inr validate_block_by_itself_iff)
  obtain parent v c' ts' where d: "block_in_coinstate_ok cr b cs parent v c' ts'"
    using assms(1) validate_block_in_coinstate_iff [OF assms(3)] by (auto simp: add_block_def rbind_eq_Inr)
  have "c' = c" "ts' = ts" using c d by (auto simp: block_ok_def block_in_coinstate_ok_def)
  moreover have "v = u"
    using d assms(2,4) by (auto simp: block_in_coinstate_ok_def parent_unspent_def maps_agree_def lookup_key_eq_Inr
        split: if_splits)
  ultimately show ?thesis using c d validated_block_issues_at_most_subsidy by blast
qed

lemma cs_ok_maps_agree: "cs_ok cr cs \<Longrightarrow> maps_agree cs"
  using cs_ok_entry by (fastforce simp: maps_agree_def cs_ok_def entry_ok_def)

lemma ledger_step_ok:
  assumes "ledger_ok cr cs" and "ledger_guard cr cs (b, now)" and "ledger_step cr cs (b, now) = Inr cs'"
  shows "ledger_ok cr cs'"
proof -
  have ok: "cs_ok cr cs" using assms(1) by (simp add: ledger_ok_def)
  note maps = cs_ok_maps_agree [OF ok]
  have valid: "add_block cr cs b now = Inr cs'" using assms(3) by (simp add: ledger_step_def)
  then have step: "add_block_no_validation cr cs b = Inr cs'"
    and in_cs: "validate_block_in_coinstate cr b cs = Inr ()"
    by (auto simp: add_block_def rbind_eq_Inr)
  have new: "new_block cr cs b" using assms(2) by (simp add: ledger_guard_def)
  have att: "attaches cr cs b"
    using assms(2) add_block_attaches [OF maps new _ in_cs]
    by (cases "block_height b \<le> MAX_KNOWN_HASH_HEIGHT") (auto simp: ledger_guard_def)
  note ok' = add_block_cs_ok [OF ok att step]
  obtain h where h: "block_hash cr b = Inr h" "cs_block_by_hash cs h = None" using new by (auto simp: new_block_def)
  obtain u0 u n c where u0: "parent_unspent cs b = Inr u0" and u: "uto_apply_block cr u0 b = Inr u"
    and cs': "cs' = mk_coinstate ((cs_block_by_hash cs)(h \<mapsto> b))
       ((cs_unspent_transaction_outs_by_hash cs)(h \<mapsto> u)) n
       ((cs_heads cs)(block_previous_block_hash b := None, h \<mapsto> b)) (Some c)"
    by (rule add_block_no_validationE [OF step h(1)])
  have rule: "issues_at_most_subsidy u0 b"
    using assms(2) u0 add_block_issues [OF valid maps _ u0]
    by (cases "block_height b \<le> MAX_KNOWN_HASH_HEIGHT") (auto simp: ledger_guard_def)
  have before: "finite (dom u0) \<and> values_nonneg u0 \<and>
      total_value u0 + get_block_subsidy (block_height b) \<le> issued_by (block_height b)"
  proof (cases "block_previous_block_hash b = zero_hash")
    case True
    with att u0 have "u0 = Map.empty" "block_height b = 0"
      by (simp_all add: parent_unspent_def attaches_def)
    then show ?thesis by (simp add: issued_by_step values_nonneg_def)
  next
    case False
    with att u0 obtain p where p: "cs_block_by_hash cs (block_previous_block_hash b) = Some p"
      "block_height b = block_height p + 1"
      "cs_unspent_transaction_outs_by_hash cs (block_previous_block_hash b) = Some u0"
      by (auto simp: attaches_def parent_unspent_def lookup_key_eq_Inr)
    have "0 \<le> block_height p"
    proof -
      obtain chain v where "entry_ok cr cs (block_previous_block_hash b) p chain v"
        using cs_ok_entry [OF ok p(1)] by blast
      then show ?thesis by (cases chain) (auto simp: entry_ok_def dest: chain_to_last)
    qed
    then have "issued_by (block_height b) = issued_by (block_height p) + get_block_subsidy (block_height b)"
      using issued_by_step [of "block_height b"] p(2) by simp
    moreover have "finite (dom u0) \<and> values_nonneg u0 \<and> total_value u0 \<le> issued_by (block_height p)"
      using assms(1) p(1,3) unfolding ledger_ok_def by blast
    ultimately show ?thesis by simp
  qed
  have after: "finite (dom u) \<and> values_nonneg u \<and> total_value u \<le> issued_by (block_height b)"
    using issues_at_most_subsidy_total [OF u rule] before by auto
  show ?thesis
    unfolding ledger_ok_def
  proof (intro conjI ok' allI impI)
    fix k d v assume d: "cs_block_by_hash cs' k = Some d" "cs_unspent_transaction_outs_by_hash cs' k = Some v"
    have "finite (dom v) \<and> values_nonneg v \<and> total_value v \<le> issued_by (block_height d)"
    proof (cases "k = h")
      case True
      with d after show ?thesis by (simp add: cs')
    next
      case False
      with d assms(1) show ?thesis by (simp add: cs' ledger_ok_def)
    qed
    then show "finite (dom v)" "values_nonneg v" "total_value v \<le> issued_by (block_height d)" by blast+
  qed
qed

interpretation ledger_machine: invariant_of "ledger_guard cr" "ledger_step cr" empty_coinstate "ledger_ok cr" for cr
proof unfold_locales
  show "ledger_ok cr empty_coinstate"
    unfolding ledger_ok_def using cs_ok_empty by (auto simp: empty_coinstate_def)
  show "ledger_ok cr s \<Longrightarrow> ledger_guard cr s e \<Longrightarrow> ledger_step cr s e = Inr s' \<Longrightarrow> ledger_ok cr s'" for s e s'
    by (cases e) (use ledger_step_ok in blast)
qed

section \<open>Example blocks\<close>

text \<open>A block with nothing but a coinbase, whose header passes with the toy digest.\<close>

definition small_coinbase :: "int \<Rightarrow> int \<Rightarrow> transaction" where
  "small_coinbase height value =
     \<lparr>tx_inputs = [\<lparr>inp_output_reference = \<lparr>ref_hash = zero_hash, ref_index = 0\<rparr>,
        inp_signature = Some (CoinbaseData height [])\<rparr>],
      tx_outputs = [sample_output value 4], tx_cached_hash = Some (sample_hash 8)\<rparr>"

definition small_block :: "int \<Rightarrow> bytes \<Rightarrow> bytes \<Rightarrow> int \<Rightarrow> block" where
  "small_block height prev hash value =
     \<lparr>blk_header =
        \<lparr>hd_summary = \<lparr>bs_height = height, bs_previous_block_hash = prev, bs_merkle_root_hash = sample_hash 8,
           bs_timestamp = 0, bs_target = top_target, bs_nonce = 0\<rparr>,
         hd_pow_evidence = \<lparr>pe_summary_hash = zero_hash, pe_chain_sample = zero_hash, pe_block_hash = zero_hash\<rparr>\<rparr>,
      blk_transactions = [small_coinbase height value], blk_cached_hash = Some hash\<rparr>"

lemma small_block_simps [simp]:
  "block_height (small_block height prev hash value) = height"
  "block_previous_block_hash (small_block height prev hash value) = prev"
  "blk_transactions (small_block height prev hash value) = [small_coinbase height value]"
  "block_timestamp (small_block height prev hash value) = 0"
  "hash \<noteq> [] \<Longrightarrow> block_hash cr (small_block height prev hash value) = Inr hash"
  by (simp_all add: small_block_def block_height_def block_previous_block_hash_def block_timestamp_def
      block_hash_def cached_or_def)

lemma small_coinbase_hash [simp]: "transaction_hash cr (small_coinbase height value) = Inr (sample_hash 8)"
  by (simp add: transaction_hash_def cached_or_def small_coinbase_def)

lemma small_block_by_itself:
  assumes "height = 0 \<or> height = 1" and "length prev = 32" and "0 \<le> value" and "value < 2 ^ 64"
  shows "block_ok toy_crypto (small_block height prev hash value) 0 (small_coinbase height value) []"
proof -
  let ?b = "small_block height prev hash value"
  have vlq: "stream_serialize_vlq 0 = Inr [0]"
    by (simp add: stream_serialize_vlq_def bit_length_def nat_bit_length.simps pack_uint_def Let_def)
  have "\<exists>x. stream_serialize_block_header (blk_header ?b) = Inr (x @ zero_hash) \<and> length x = 170"
    using assms by (auto simp: small_block_def stream_serialize_block_header_def stream_serialize_block_summary_def
        vlq small_vlq pack_uint_def stream_serialize_pow_evidence_def top_target_def)
  then obtain x where x: "stream_serialize_block_header (blk_header ?b) = Inr (x @ zero_hash)" "length x = 170"
    by blast
  have "zero_hash < top_target" unfolding zero_hash_def top_target_def by (rule replicate_less) simp_all
  moreover have "block_header_hash toy_crypto (blk_header ?b) = Inr zero_hash"
    using x by (simp add: block_header_hash_def toy_digest_append toy_digest_fixed)
  moreover have "block_target ?b = top_target" by (simp add: small_block_def block_target_def)
  moreover have "\<exists>c. stream_serialize_transaction (small_coinbase height value) = Inr c \<and> length c = 118"
    using assms by (auto simp: small_coinbase_def sample_output_def stream_serialize_transaction_def
        stream_serialize_list_def stream_serialize_input_def stream_serialize_output_def small_vlq
        stream_serialize_output_reference_def pack_uint_def type_bytes)
  then have "\<exists>bs. stream_serialize_block ?b = Inr bs \<and> int (length bs) \<le> MAX_BLOCK_SIZE"
    using x by (auto simp: stream_serialize_block_def stream_serialize_list_def small_vlq)
  moreover have "coinbase_ok (small_coinbase height value) height"
    by (simp add: coinbase_ok_def small_coinbase_def references_thin_air_def)
  moreover have "calc_merkle_root_hash toy_crypto [small_coinbase height value] = Inr (bs_merkle_root_hash (block_summary_of ?b))"
    by (simp add: calc_merkle_root_hash_def get_merkle_root.simps) (simp add: small_block_def)
  ultimately show ?thesis
    by (simp add: block_ok_def validate_no_duplicate_transactions_def)
qed

lemma small_block_applies:
  "returns (uto_apply_block cr u (small_block height prev hash value))"
proof -
  have "tx_outputs_ok cr (small_coinbase height value)"
    by (auto simp: tx_outputs_ok_def) (simp add: small_coinbase_def)
  then show ?thesis
    using uto_apply_block_returns [of "small_block height prev hash value" "small_coinbase height value" "[]" u cr]
    by simp
qed

definition checkpoint_0 :: bytes where
  "checkpoint_0 = projr (computer ''00c4ff1d0788c7058f3d8388d77b2feda0921fa141078fb895871634e0c36780'')"

lemma checkpoint_0: "computer ''00c4ff1d0788c7058f3d8388d77b2feda0921fa141078fb895871634e0c36780'' = Inr checkpoint_0"
  "length checkpoint_0 = 32" "checkpoint_0 \<noteq> zero_hash"
  unfolding checkpoint_0_def by (simp_all add: hex_value_simps zero_hash_bytes)

definition ledger_genesis :: block where
  "ledger_genesis = small_block 0 zero_hash checkpoint_0 1000000000"

definition ledger_state :: coinstate where
  "ledger_state = projr (add_block toy_crypto empty_coinstate ledger_genesis 0)"

lemma ledger_state_reachable:
  "reachable (ledger_guard toy_crypto) (ledger_step toy_crypto) empty_coinstate ledger_state"
  "cs_block_by_hash ledger_state checkpoint_0 = Some ledger_genesis"
  "\<exists>u. cs_unspent_transaction_outs_by_hash ledger_state checkpoint_0 = Some u"
proof -
  have ne: "checkpoint_0 \<noteq> []" using checkpoint_0(2) by auto
  have hash: "block_hash toy_crypto ledger_genesis = Inr checkpoint_0" using ne by (simp add: ledger_genesis_def)
  have "block_ok toy_crypto ledger_genesis 0 (small_coinbase 0 1000000000) []"
    unfolding ledger_genesis_def by (rule small_block_by_itself) simp_all
  then have alone: "validate_block_by_itself toy_crypto ledger_genesis 0 = Inr ()"
    unfolding validate_block_by_itself_iff by blast
  have in_cs: "validate_block_in_coinstate toy_crypto ledger_genesis empty_coinstate = Inr ()"
    using hash
    by (simp add: validate_block_in_coinstate_def KNOWN_HASHES_0 checkpoint_0 ledger_genesis_def del: computer.simps)
  obtain u where u: "uto_apply_block toy_crypto Map.empty ledger_genesis = Inr u"
    unfolding ledger_genesis_def using small_block_applies by blast
  have prev: "block_previous_block_hash ledger_genesis = zero_hash" by (simp add: ledger_genesis_def)
  have step: "add_block toy_crypto empty_coinstate ledger_genesis 0 =
      Inr (mk_coinstate [checkpoint_0 \<mapsto> ledger_genesis] [checkpoint_0 \<mapsto> u]
        [checkpoint_0 \<mapsto> [0 \<mapsto> ledger_genesis]] [checkpoint_0 \<mapsto> ledger_genesis] (Some checkpoint_0))"
    using alone in_cs u hash
    by (simp add: add_block_def add_block_no_validation_def parent_unspent_def prev next_height_index_def
        next_current_chain_hash_def empty_coinstate_def)
  then show "cs_block_by_hash ledger_state checkpoint_0 = Some ledger_genesis"
    and "\<exists>u. cs_unspent_transaction_outs_by_hash ledger_state checkpoint_0 = Some u"
    by (simp_all add: ledger_state_def)
  have "issues_at_most_subsidy Map.empty ledger_genesis"
    by (simp add: issues_at_most_subsidy_def ledger_genesis_def spends_def outputs_nonneg_def
        outputs_value_def get_block_subsidy_def) (simp add: small_coinbase_def sample_output_def)
  then have "ledger_guard toy_crypto empty_coinstate (ledger_genesis, 0)"
    using hash checkpoint_0 prev
    by (simp add: ledger_guard_def new_block_def attaches_def parent_unspent_def empty_coinstate_def)
      (simp add: ledger_genesis_def)
  moreover have "ledger_step toy_crypto empty_coinstate (ledger_genesis, 0) = Inr ledger_state"
    using step by (simp add: ledger_step_def ledger_state_def)
  ultimately show "reachable (ledger_guard toy_crypto) (ledger_step toy_crypto) empty_coinstate ledger_state"
    by (rule reachable.step [OF reachable.init])
qed

section \<open>Properties\<close>

text \<open>
  C2: above the last checkpoint no output is spent without its owner: in a block accepted by
  \<open>validate_block_in_coinstate\<close> every input of a non-coinbase transaction names an output that is
  unspent at the parent, and carries a signature that the output's public key verifies over the
  signable bytes of the transaction.
\<close>

theorem accepted_spends_are_authorised:
  assumes "validate_block_in_coinstate cr b cs = Inr ()" and "MAX_KNOWN_HASH_HEIGHT < block_height b"
    and "t \<in> set (tl (blk_transactions b))" and "i \<in> set (tx_inputs t)"
  shows "\<exists>u p s m. cs_unspent_transaction_outs_by_hash cs (block_previous_block_hash b) = Some u \<and>
    u (inp_output_reference i) = Some p \<and> inp_signature i = Some (SECP256k1Signature s) \<and>
    stream_serialize_transaction (transaction_signable_equivalent t) = Inr m \<and>
    ecdsa_verify cr (pk_bytes (out_public_key p)) s m"
proof -
  obtain parent u c ts where ok: "block_in_coinstate_ok cr b cs parent u c ts"
    using validate_block_in_coinstate_iff [OF assms(2)] assms(1) by blast
  then have "spend_ok cr u t" and "cs_unspent_transaction_outs_by_hash cs (block_previous_block_hash b) = Some u"
    using assms(3) by (auto simp: block_in_coinstate_ok_def)
  with assms(4) show ?thesis by (auto simp: spend_ok_def authorised_def)
qed

lemma top_block_accepted:
  "validate_block_by_itself toy_crypto top_block 200 = Inr ()"
  "validate_block_in_coinstate toy_crypto top_block top_state = Inr ()"
proof -
  obtain c where c: "block_ok toy_crypto top_block 200 c [top_transaction]"
    "block_in_coinstate_ok toy_crypto top_block top_state top_parent sample_unspent c [top_transaction]"
    using top_block_valid by blast
  then show "validate_block_by_itself toy_crypto top_block 200 = Inr ()"
    unfolding validate_block_by_itself_iff by blast
  have "MAX_KNOWN_HASH_HEIGHT < block_height top_block" by (simp add: top_block_facts)
  then show "validate_block_in_coinstate toy_crypto top_block top_state = Inr ()"
    using validate_block_in_coinstate_iff c(2) by blast
qed

theorem accepted_spends_are_authorised_witness:
  "\<exists>p s m. sample_unspent (inp_output_reference (sample_input 8 0 3)) = Some p \<and>
     ecdsa_verify toy_crypto (pk_bytes (out_public_key p)) s m"
proof -
  have "MAX_KNOWN_HASH_HEIGHT < block_height top_block" "top_transaction \<in> set (tl (blk_transactions top_block))"
    "sample_input 8 0 3 \<in> set (tx_inputs top_transaction)"
    by (simp_all add: top_block_facts) (simp add: top_transaction_def)
  from accepted_spends_are_authorised [OF top_block_accepted(2) this] show ?thesis
    by (auto simp: top_block_facts top_state_simps)
qed

text \<open>
  C25: a block that passes both validators above the last checkpoint spends no output twice and
  applies without a crash: \<open>add_block\<close> returns a state that holds it, so no \<open>KeyError\<close> of
  \<open>uto_apply_transaction\<close> or of the maps is reachable. (Given that the state's maps cover the same
  blocks, which holds in every reachable state, and that hashes are 32 bytes.)
\<close>

theorem validated_block_is_added:
  assumes "maps_agree cs" and "validate_block_by_itself cr b now = Inr ()"
    and "validate_block_in_coinstate cr b cs = Inr ()" and "MAX_KNOWN_HASH_HEIGHT < block_height b"
    and "hashes_ok cr b" and "block_hash cr b = Inr h"
  shows "distinct (concat (map input_refs (tl (blk_transactions b)))) \<and>
    (\<exists>cs'. add_block cr cs b now = Inr cs' \<and> cs_block_by_hash cs' h = Some b \<and>
       h \<in> dom (cs_unspent_transaction_outs_by_hash cs'))"
proof -
  obtain c ts where c: "block_ok cr b now c ts" using assms(2) validate_block_by_itself_iff by blast
  obtain parent u c' ts' where d: "block_in_coinstate_ok cr b cs parent u c' ts'"
    using validate_block_in_coinstate_iff [OF assms(4)] assms(3) by blast
  have "c' = c" "ts' = ts" using c d by (auto simp: block_ok_def block_in_coinstate_ok_def)
  with d obtain cs' u' where "add_block_no_validation cr cs b = Inr cs'"
    and "cs_unspent_transaction_outs_by_hash cs' h = Some u'"
    using validated_block_applies(3) [OF assms(1) c _ assms(5,6)] by blast
  moreover from this(1) assms(6) have "cs_block_by_hash cs' h = Some b"
    by (rule add_block_no_validationE) simp
  ultimately show ?thesis using c assms(2,3) by (auto simp: add_block_def block_ok_def)
qed

lemma top_block_hashes: "hashes_ok toy_crypto top_block" "\<exists>h. block_hash toy_crypto top_block = Inr h"
proof -
  obtain c where "stream_serialize_transaction top_coinbase = Inr c" using top_coinbase_ser by blast
  then have "transaction_hash toy_crypto top_coinbase = Inr (toy_digest c)"
    by (simp add: transaction_hash_def cached_or_def top_coinbase_def)
  moreover have "transaction_hash toy_crypto top_transaction = Inr (sample_hash 7)"
    by (simp add: top_transaction_def)
  ultimately show "hashes_ok toy_crypto top_block" by (simp add: hashes_ok_def top_block_facts)
  show "\<exists>h. block_hash toy_crypto top_block = Inr h"
    using top_block_work(1) by (auto simp: block_hash_def cached_or_def split: option.split)
qed

theorem validated_block_is_added_witness:
  "\<exists>cs'. add_block toy_crypto top_state top_block 200 = Inr cs'"
proof -
  obtain h where h: "block_hash toy_crypto top_block = Inr h" using top_block_hashes(2) by blast
  have "MAX_KNOWN_HASH_HEIGHT < block_height top_block" by (simp add: top_block_facts)
  from validated_block_is_added [OF _ top_block_accepted this top_block_hashes(1) h] show ?thesis
    by (auto simp: top_state_simps)
qed

text \<open>
  C24: a block accepted above the last checkpoint creates at most its subsidy: the value of all
  unspent outputs after it exceeds that at its parent by at most \<open>get_block_subsidy\<close> of its height.
\<close>

theorem accepted_block_creates_at_most_subsidy:
  assumes "maps_agree cs" and "add_block cr cs b now = Inr cs'" and "block_hash cr b = Inr h"
    and "MAX_KNOWN_HASH_HEIGHT < block_height b" and "parent_unspent cs b = Inr u"
    and "finite (dom u)" and "values_nonneg u"
  shows "\<exists>u'. cs_unspent_transaction_outs_by_hash cs' h = Some u' \<and> finite (dom u') \<and> values_nonneg u' \<and>
    total_value u' \<le> total_value u + get_block_subsidy (block_height b)"
proof -
  have "add_block_no_validation cr cs b = Inr cs'" using assms(2) by (auto simp: add_block_def rbind_eq_Inr)
  then obtain u' where u': "uto_apply_block cr u b = Inr u'" "cs_unspent_transaction_outs_by_hash cs' h = Some u'"
    using assms(3) by (rule add_block_no_validationE) (use assms(5) in auto)
  have "issues_at_most_subsidy u b" using add_block_issues [OF assms(2,1,4,5)] .
  from issues_at_most_subsidy_total [OF u'(1) this assms(6,7)] u'(2) show ?thesis by blast
qed

lemma sample_unspent_total: "finite (dom sample_unspent)" "values_nonneg sample_unspent" "total_value sample_unspent = 10"
  by (simp_all add: sample_unspent_def dom_created total_value_created values_nonneg_def created_def sample_output_def)

theorem accepted_block_creates_at_most_subsidy_witness:
  "\<exists>cs' h u'. add_block toy_crypto top_state top_block 200 = Inr cs' \<and>
     cs_unspent_transaction_outs_by_hash cs' h = Some u' \<and> total_value u' \<le> 10 + 1000000000"
proof -
  obtain c where c: "block_ok toy_crypto top_block 200 c [top_transaction]"
    "block_in_coinstate_ok toy_crypto top_block top_state top_parent sample_unspent c [top_transaction]"
    using top_block_valid by blast
  obtain h where h: "block_hash toy_crypto top_block = Inr h" using top_block_hashes(2) by blast
  note applies = validated_block_applies [OF top_state_simps(8) c top_block_hashes(1) h]
  obtain cs' where cs': "add_block toy_crypto top_state top_block 200 = Inr cs'"
    using applies(3) by (auto simp: add_block_def top_block_accepted)
  have "MAX_KNOWN_HASH_HEIGHT < block_height top_block" by (simp add: top_block_facts)
  from accepted_block_creates_at_most_subsidy [OF top_state_simps(8) cs' h this applies(2) sample_unspent_total(1,2)]
  show ?thesis using cs' by (auto simp: top_block_facts get_block_subsidy_def sample_unspent_total)
qed

text \<open>
  C1: above the last checkpoint the code never lets there be more than \<open>MAX_SASHIMI\<close> coins: take any state
  reached from the empty one by \<open>add_block\<close> with new blocks (whose hash, 32 bytes and not all zero, is not
  stored yet), of which those that claim a height up to the last checkpoint keep by themselves two rules that the code does not check for them: each is the first block, of height 0,
  or one higher than a stored parent, and it creates at most its subsidy. (That the code accepts blocks of such
  heights that keep neither rule is the property on checkpointed heights; for all other blocks \<open>add_block\<close>
  ensures both.) Then the unspent outputs at every block are finitely many, not negative, and add up to at most
  the subsidies of the heights up to it, hence to at most \<open>MAX_SASHIMI\<close>.
\<close>

theorem supply_is_bounded:
  assumes "reachable (ledger_guard cr) (ledger_step cr) empty_coinstate cs"
    and "cs_block_by_hash cs h = Some b" and "cs_unspent_transaction_outs_by_hash cs h = Some u"
  shows "finite (dom u) \<and> values_nonneg u \<and>
    total_value u \<le> (\<Sum>k<nat (block_height b + 1). get_block_subsidy (int k)) \<and> total_value u \<le> MAX_SASHIMI"
proof -
  have "ledger_ok cr cs" using assms(1) by (rule ledger_machine.reachable_inv)
  with assms(2,3) have "finite (dom u) \<and> values_nonneg u \<and> total_value u \<le> issued_by (block_height b)"
    unfolding ledger_ok_def by blast
  with issued_by_le_MAX [of "block_height b"] show ?thesis by (simp add: issued_by_def)
qed

theorem supply_is_bounded_witness:
  "\<exists>u. cs_unspent_transaction_outs_by_hash ledger_state checkpoint_0 = Some u \<and> total_value u \<le> MAX_SASHIMI"
proof -
  obtain u where u: "cs_unspent_transaction_outs_by_hash ledger_state checkpoint_0 = Some u"
    using ledger_state_reachable(3) by blast
  with supply_is_bounded [OF ledger_state_reachable(1,2)] show ?thesis by blast
qed



text \<open>
  C40: a block's identity is not tied to its proof of work: inserting a byte 0x80 after the version
  in an encoded block gives other bytes that read as a block with the same header and transactions,
  passing the same checks (those against the state too, above the checkpoints), but whose \<open>hash()\<close>,
  under which the state stores it, is computed from the other bytes.
\<close>

theorem block_identity_is_malleable:
  assumes "stream_deserialize_block cr (0 # s) = Inr (b, rest)"
  shows "\<exists>b' c. stream_deserialize_block cr (0 # 0x80 # s) = Inr (b', rest) \<and>
    blk_header b' = blk_header b \<and> blk_transactions b' = blk_transactions b \<and>
    blk_cached_hash b = Some (sha256d cr (0 # c)) \<and> blk_cached_hash b' = Some (sha256d cr (0 # 0x80 # c)) \<and>
    validate_block_by_itself cr b' = validate_block_by_itself cr b \<and>
    (block_height b \<le> MAX_KNOWN_HASH_HEIGHT \<or> validate_block_in_coinstate cr b' = validate_block_in_coinstate cr b)"
proof -
  let ?r = "pbind stream_deserialize_block_summary (\<lambda>summary.
            pbind stream_deserialize_pow_evidence (\<lambda>pow_evidence.
            preturn \<lparr>hd_summary = summary, hd_pow_evidence = pow_evidence\<rparr>))"
  have header: "stream_deserialize_block_header (0 # s) = ?r s" for s
    by (simp add: stream_deserialize_block_header_def pbind_def safe_read_def)
  have pad: "stream_deserialize_block_header (0 # 0x80 # s) = stream_deserialize_block_header (0 # s)"
    unfolding header by (simp add: pbind_def stream_deserialize_block_summary_def stream_deserialize_vlq_padding)
  obtain t where t: "stream_deserialize_block_header (0 # s) = Inr (blk_header b, t)"
    and ts: "stream_deserialize_list (stream_deserialize_transaction cr) t = Inr (blk_transactions b, rest)"
    and cached: "blk_cached_hash b = Some (sha256d cr (take (length (0 # s) - length t) (0 # s)))"
    using assms by (auto simp: stream_deserialize_block_def result_simps)
  obtain v where v: "0 # s = v @ t" by (rule local_parserE [OF header_wire.par_local t]) blast
  have "length t < length (0 # s)" by (rule productiveD [OF header_wire.par_productive t])
  with v obtain c where c: "s = c @ t" by (cases v) auto
  define b' where "b' = b\<lparr>blk_cached_hash := Some (sha256d cr (0 # 0x80 # c))\<rparr>"
  have "stream_deserialize_block_header (0 # 0x80 # s) = Inr (blk_header b, t)" using t pad by simp
  then have "stream_deserialize_block cr (0 # 0x80 # s) = Inr (b', rest)"
    using ts by (simp add: stream_deserialize_block_def pbind_def pconsumed_def preturn_def b'_def c)
  moreover have "blk_cached_hash b = Some (sha256d cr (0 # c))" using cached by (simp add: c)
  moreover have "validate_block_by_itself cr b' = validate_block_by_itself cr b"
    by (rule ext) (simp add: validate_block_by_itself_def b'_def stream_serialize_block_def block_height_def)
  moreover have "validate_block_in_coinstate cr b' cs = validate_block_in_coinstate cr b cs"
    if "\<not> block_height b \<le> MAX_KNOWN_HASH_HEIGHT" for cs
  proof -
    have "block_height b' = block_height b" "block_previous_block_hash b' = block_previous_block_hash b"
      "blk_transactions b' = blk_transactions b" "blk_header b' = blk_header b"
      by (simp_all add: b'_def block_height_def block_previous_block_hash_def)
    with that show ?thesis
      by (simp add: validate_block_in_coinstate_def validate_coinbase_transaction_in_coinstate_def)
  qed
  ultimately show ?thesis by (fastforce simp: b'_def)
qed

theorem block_identity_is_malleable_witness:
  "\<exists>s b b'. stream_deserialize_block toy_crypto (0 # s) = Inr (b, []) \<and>
     stream_deserialize_block toy_crypto (0 # 0x80 # s) = Inr (b', []) \<and> blk_header b' = blk_header b"
proof -
  let ?b = "sample_block 1 zero_hash zero_hash []"
  have wf: "block_wf ?b" by (intro sample_block_wf) auto
  then obtain bs where bs: "stream_serialize_block ?b = Inr bs" using block_wire.ser_returns by blast
  then obtain s where s: "bs = 0 # s"
    by (auto simp: stream_serialize_block_def stream_serialize_block_header_def rbind_eq_Inr pack_uint_def)
  have "stream_deserialize_block toy_crypto (0 # s) = Inr (block_canon toy_crypto ?b, [])"
    using block_wire.par_ser [OF wf bs, of toy_crypto "[]"] by (simp add: s)
  from block_identity_is_malleable [OF this] this show ?thesis by blast
qed

text \<open>
  The check for duplicate transactions is redundant, as its comment says: it cannot fail when
  every transaction has an input and a hash and no output is spent twice.
\<close>

theorem duplicate_transaction_check_redundant:
  assumes "validate_no_duplicate_output_references_in_transactions ts = Inr ()"
    and "\<forall>t\<in>set ts. validate_non_coinbase_transaction_by_itself t = Inr ()"
  shows "validate_no_duplicate_transactions cr ts = Inr ()"
  using assms transaction_ok_hash
  by (intro duplicate_transactions_redundant)
    (auto simp: validate_no_duplicate_references_iff validate_non_coinbase_transaction_by_itself_iff transaction_ok_def)

theorem duplicate_transaction_check_redundant_witness:
  "validate_no_duplicate_transactions toy_crypto [top_transaction] = Inr ()"
  using top_transaction_ok
  by (intro duplicate_transaction_check_redundant)
    (simp_all add: validate_no_duplicate_references_iff validate_non_coinbase_transaction_by_itself_iff transaction_ok_def)

end
