(* ===== verification/Messages.thy ===== *)
theory Messages
  imports Params Datatypes
begin

text \<open>
  Model of \<open>skepticoin/networking/messages.py\<close>: the message header and the seven messages of the
  network protocol, their writers and readers. Every class satisfies \<open>wire_format\<close>: what is written
  is read back whatever follows, and everything read is well-formed. An \<open>IPv6Address\<close> of the standard
  library is its 16 packed bytes. The version bytes and the reserved space that readers skip make
  several encodings of one message possible, so only the classes without them are exact.
\<close>

section \<open>Constants\<close>

definition MSG_HELLO :: bytes where "MSG_HELLO = [0, 0]"
definition MSG_GET_BLOCKS :: bytes where "MSG_GET_BLOCKS = [0, 1]"
definition MSG_INVENTORY :: bytes where "MSG_INVENTORY = [0, 2]"
definition MSG_GET_DATA :: bytes where "MSG_GET_DATA = [0, 3]"
definition MSG_DATA :: bytes where "MSG_DATA = [0, 4]"
definition MSG_GET_PEERS :: bytes where "MSG_GET_PEERS = [0, 5]"
definition MSG_PEERS :: bytes where "MSG_PEERS = [0, 6]"

definition DATA_BLOCK :: bytes where "DATA_BLOCK = [0, 0]"
definition DATA_HEADER :: bytes where "DATA_HEADER = [0, 1]"
definition DATA_TRANSACTION :: bytes where "DATA_TRANSACTION = [0, 2]"

lemmas message_types = MSG_HELLO_def MSG_GET_BLOCKS_def MSG_INVENTORY_def MSG_GET_DATA_def MSG_DATA_def
  MSG_GET_PEERS_def MSG_PEERS_def

lemmas data_types = DATA_BLOCK_def DATA_HEADER_def DATA_TRANSACTION_def

section \<open>Classes\<close>

record message_header =
  mh_timestamp :: int
  mh_id :: int
  mh_in_response_to :: int
  mh_context :: int

type_synonym ipv6_address = bytes

datatype supported_version = SupportedVersion (sv_version: int)

record hello_message =
  hm_supported_versions :: "supported_version list"
  hm_your_ip_address :: ipv6_address
  hm_your_port :: int
  hm_my_ip_address :: ipv6_address
  hm_my_port :: int
  hm_nonce :: int
  hm_user_agent :: bytes

record inventory_item =
  ii_data_type :: bytes
  ii_hash :: bytes
  ii_block_requested :: bool

record announced_peer =
  ap_last_seen_at :: int
  ap_ip_address :: ipv6_address
  ap_port :: int

text \<open>The object inside a \<open>DataMessage\<close>; its class is looked up in \<open>DATATYPES\<close>.\<close>

datatype data_object =
    BlockData block
  | HeaderData block_header
  | TransactionData transaction

datatype message =
    HelloMessage hello_message
  | GetBlocksMessage "bytes list" bytes
  | InventoryMessage "inventory_item list"
  | GetDataMessage bytes bytes
  | DataMessage bytes data_object
  | GetPeersMessage
  | PeersMessage "announced_peer list"

text \<open>\<open>InventoryItem(data_type, hash)\<close>\<close>

definition mk_inventory_item :: "bytes \<Rightarrow> bytes \<Rightarrow> inventory_item" where
  "mk_inventory_item data_type hash =
     \<lparr>ii_data_type = data_type, ii_hash = hash, ii_block_requested = False\<rparr>"

section \<open>Writing\<close>

definition stream_serialize_message_header :: "message_header \<Rightarrow> bytes result" where
  "stream_serialize_message_header h =
     rconcat [pack_uint 1 0, pack_uint 4 (mh_timestamp h), pack_uint 4 (mh_id h),
       pack_uint 4 (mh_in_response_to h), pack_uint 8 (mh_context h), Inr (replicate 32 0)]"

definition stream_serialize_supported_version :: "supported_version \<Rightarrow> bytes result" where
  "stream_serialize_supported_version v = rconcat [pack_uint 1 (sv_version v)]"

definition stream_serialize_hello :: "hello_message \<Rightarrow> bytes result" where
  "stream_serialize_hello m =
     rconcat [Inr MSG_HELLO, pack_uint 1 0,
       Inr (hm_your_ip_address m), pack_uint 2 (hm_your_port m),
       Inr (hm_my_ip_address m), pack_uint 2 (hm_my_port m),
       pack_uint 4 (hm_nonce m),
       pack_uint 1 (int (length (hm_user_agent m))), Inr (hm_user_agent m),
       stream_serialize_list stream_serialize_supported_version (hm_supported_versions m),
       Inr (replicate 256 0)]"

definition stream_serialize_get_blocks :: "bytes list \<Rightarrow> bytes \<Rightarrow> bytes result" where
  "stream_serialize_get_blocks potential_start_hashes stop_hash =
     rconcat [Inr MSG_GET_BLOCKS, pack_uint 1 0,
       stream_serialize_list (\<lambda>h. Inr h) potential_start_hashes, Inr stop_hash]"

definition stream_serialize_inventory_item :: "inventory_item \<Rightarrow> bytes result" where
  "stream_serialize_inventory_item i = rconcat [Inr (ii_data_type i), Inr (ii_hash i)]"

definition stream_serialize_inventory :: "inventory_item list \<Rightarrow> bytes result" where
  "stream_serialize_inventory items =
     rconcat [Inr MSG_INVENTORY, pack_uint 1 0, stream_serialize_list stream_serialize_inventory_item items]"

definition stream_serialize_get_data :: "bytes \<Rightarrow> bytes \<Rightarrow> bytes result" where
  "stream_serialize_get_data data_type hash =
     rconcat [Inr MSG_GET_DATA, pack_uint 1 0, Inr data_type, Inr hash]"

fun stream_serialize_data_object :: "data_object \<Rightarrow> bytes result" where
  "stream_serialize_data_object (BlockData b) = stream_serialize_block b"
| "stream_serialize_data_object (HeaderData h) = stream_serialize_block_header h"
| "stream_serialize_data_object (TransactionData t) = stream_serialize_transaction t"

definition stream_serialize_data :: "bytes \<Rightarrow> data_object \<Rightarrow> bytes result" where
  "stream_serialize_data data_type d =
     rconcat [Inr MSG_DATA, pack_uint 1 0, Inr data_type, stream_serialize_data_object d]"

definition stream_serialize_get_peers :: "bytes result" where
  "stream_serialize_get_peers = rconcat [Inr MSG_GET_PEERS, pack_uint 1 0]"

definition stream_serialize_peer :: "announced_peer \<Rightarrow> bytes result" where
  "stream_serialize_peer p =
     rconcat [pack_uint 4 (ap_last_seen_at p), Inr (ap_ip_address p), pack_uint 2 (ap_port p)]"

definition stream_serialize_peers :: "announced_peer list \<Rightarrow> bytes result" where
  "stream_serialize_peers peers =
     rconcat [Inr MSG_PEERS, pack_uint 1 0, stream_serialize_list stream_serialize_peer peers]"

fun stream_serialize_message :: "message \<Rightarrow> bytes result" where
  "stream_serialize_message (HelloMessage m) = stream_serialize_hello m"
| "stream_serialize_message (GetBlocksMessage hs stop) = stream_serialize_get_blocks hs stop"
| "stream_serialize_message (InventoryMessage items) = stream_serialize_inventory items"
| "stream_serialize_message (GetDataMessage data_type hash) = stream_serialize_get_data data_type hash"
| "stream_serialize_message (DataMessage data_type d) = stream_serialize_data data_type d"
| "stream_serialize_message GetPeersMessage = stream_serialize_get_peers"
| "stream_serialize_message (PeersMessage peers) = stream_serialize_peers peers"

section \<open>Reading\<close>

definition stream_deserialize_message_header :: "message_header parser" where
  "stream_deserialize_message_header =
     pbind (unpack_uint 1) (\<lambda>version.
     pbind (unpack_uint 4) (\<lambda>timestamp.
     pbind (unpack_uint 4) (\<lambda>id.
     pbind (unpack_uint 4) (\<lambda>in_response_to.
     pbind (unpack_uint 8) (\<lambda>context.
     pbind (safe_read 32) (\<lambda>_.
     preturn \<lparr>mh_timestamp = timestamp, mh_id = id, mh_in_response_to = in_response_to,
       mh_context = context\<rparr>))))))"

definition stream_deserialize_supported_version :: "supported_version parser" where
  "stream_deserialize_supported_version = pbind (unpack_uint 1) (\<lambda>version. preturn (SupportedVersion version))"

definition stream_deserialize_hello :: "message parser" where
  "stream_deserialize_hello =
     pbind (unpack_uint 1) (\<lambda>version.
     pbind (safe_read 16) (\<lambda>your_ip_address.
     pbind (unpack_uint 2) (\<lambda>your_port.
     pbind (safe_read 16) (\<lambda>my_ip_address.
     pbind (unpack_uint 2) (\<lambda>my_port.
     pbind (unpack_uint 4) (\<lambda>nonce.
     pbind (unpack_uint 1) (\<lambda>ua_length.
     pbind (safe_read (nat ua_length)) (\<lambda>user_agent.
     pbind (stream_deserialize_list stream_deserialize_supported_version) (\<lambda>supported_versions.
     pbind (safe_read 256) (\<lambda>_.
     preturn (HelloMessage
       \<lparr>hm_supported_versions = supported_versions, hm_your_ip_address = your_ip_address,
        hm_your_port = your_port, hm_my_ip_address = my_ip_address, hm_my_port = my_port,
        hm_nonce = nonce, hm_user_agent = user_agent\<rparr>)))))))))))"

text \<open>\<open>if safe_read(f, 1) != b'\<open>\x00\<close>': raise ValueError\<close>, at the start of the other messages.\<close>

definition read_version_0 :: "string \<Rightarrow> 'a parser \<Rightarrow> 'a parser" where
  "read_version_0 message p =
     pbind (safe_read 1) (\<lambda>version. if version \<noteq> [0] then plift (Inl (ValueError message)) else p)"

definition stream_deserialize_get_blocks :: "message parser" where
  "stream_deserialize_get_blocks =
     read_version_0 ''Current version supports only version 0 GetBlocksMessage''
       (pbind (stream_deserialize_list (safe_read 32)) (\<lambda>potential_start_hashes.
        pbind (safe_read 32) (\<lambda>stop_hash.
        preturn (GetBlocksMessage potential_start_hashes stop_hash))))"

definition stream_deserialize_inventory_item :: "inventory_item parser" where
  "stream_deserialize_inventory_item =
     pbind (safe_read 2) (\<lambda>data_type.
     pbind (safe_read 32) (\<lambda>hash.
     preturn (mk_inventory_item data_type hash)))"

definition stream_deserialize_inventory :: "message parser" where
  "stream_deserialize_inventory =
     read_version_0 ''Current version supports only version 0 InventoryMessage''
       (pbind (stream_deserialize_list stream_deserialize_inventory_item) (\<lambda>items.
        preturn (InventoryMessage items)))"

definition stream_deserialize_get_data :: "message parser" where
  "stream_deserialize_get_data =
     read_version_0 ''Current version supports only version 0 GetDataMessage''
       (pbind (safe_read 2) (\<lambda>data_type.
        pbind (safe_read 32) (\<lambda>hash.
        preturn (GetDataMessage data_type hash))))"

text \<open>\<open>DATATYPES[data_type].stream_deserialize(f)\<close>\<close>

definition stream_deserialize_data_object :: "crypto \<Rightarrow> bytes \<Rightarrow> data_object parser" where
  "stream_deserialize_data_object cr data_type =
     (if data_type = DATA_BLOCK then pbind (stream_deserialize_block cr) (\<lambda>b. preturn (BlockData b))
      else if data_type = DATA_HEADER then pbind stream_deserialize_block_header (\<lambda>h. preturn (HeaderData h))
      else if data_type = DATA_TRANSACTION then
        pbind (stream_deserialize_transaction cr) (\<lambda>t. preturn (TransactionData t))
      else plift (Inl KeyError))"

definition stream_deserialize_data :: "crypto \<Rightarrow> message parser" where
  "stream_deserialize_data cr =
     read_version_0 ''Current version supports only version 0 DataMessage''
       (pbind (safe_read 2) (\<lambda>data_type.
        pbind (stream_deserialize_data_object cr data_type) (\<lambda>d.
        preturn (DataMessage data_type d))))"

definition stream_deserialize_get_peers :: "message parser" where
  "stream_deserialize_get_peers =
     read_version_0 ''Current version supports only version 0 GetPeersMessage'' (preturn GetPeersMessage)"

definition stream_deserialize_peer :: "announced_peer parser" where
  "stream_deserialize_peer =
     pbind (unpack_uint 4) (\<lambda>last_seen_at.
     pbind (safe_read 16) (\<lambda>ip_address.
     pbind (unpack_uint 2) (\<lambda>port.
     preturn \<lparr>ap_last_seen_at = last_seen_at, ap_ip_address = ip_address, ap_port = port\<rparr>)))"

definition stream_deserialize_peers :: "message parser" where
  "stream_deserialize_peers =
     read_version_0 ''Current version supports only version 0 GetPeersMessage''
       (pbind (stream_deserialize_list stream_deserialize_peer) (\<lambda>peers. preturn (PeersMessage peers)))"

definition stream_deserialize_message :: "crypto \<Rightarrow> message parser" where
  "stream_deserialize_message cr =
     pbind (safe_read 2) (\<lambda>type_indicator.
       if type_indicator = MSG_HELLO then stream_deserialize_hello
       else if type_indicator = MSG_GET_BLOCKS then stream_deserialize_get_blocks
       else if type_indicator = MSG_INVENTORY then stream_deserialize_inventory
       else if type_indicator = MSG_GET_DATA then stream_deserialize_get_data
       else if type_indicator = MSG_DATA then stream_deserialize_data cr
       else if type_indicator = MSG_GET_PEERS then stream_deserialize_get_peers
       else if type_indicator = MSG_PEERS then stream_deserialize_peers
       else plift (Inl (DeserializationError ''Non-supported message type'')))"

section \<open>The contract, class by class\<close>

definition message_header_wf :: "message_header \<Rightarrow> bool" where
  "message_header_wf h \<longleftrightarrow>
     0 \<le> mh_timestamp h \<and> mh_timestamp h < 2 ^ 32 \<and> 0 \<le> mh_id h \<and> mh_id h < 2 ^ 32 \<and>
     0 \<le> mh_in_response_to h \<and> mh_in_response_to h < 2 ^ 32 \<and>
     0 \<le> mh_context h \<and> mh_context h < 2 ^ 64"

definition supported_version_wf :: "supported_version \<Rightarrow> bool" where
  "supported_version_wf v \<longleftrightarrow> 0 \<le> sv_version v \<and> sv_version v < 256"

definition hello_message_wf :: "hello_message \<Rightarrow> bool" where
  "hello_message_wf m \<longleftrightarrow>
     (\<forall>v\<in>set (hm_supported_versions m). supported_version_wf v) \<and>
     length (hm_your_ip_address m) = 16 \<and> 0 \<le> hm_your_port m \<and> hm_your_port m < 2 ^ 16 \<and>
     length (hm_my_ip_address m) = 16 \<and> 0 \<le> hm_my_port m \<and> hm_my_port m < 2 ^ 16 \<and>
     0 \<le> hm_nonce m \<and> hm_nonce m < 2 ^ 32 \<and> length (hm_user_agent m) < 256"

definition inventory_item_wf :: "inventory_item \<Rightarrow> bool" where
  "inventory_item_wf i \<longleftrightarrow> length (ii_data_type i) = 2 \<and> length (ii_hash i) = 32"

definition announced_peer_wf :: "announced_peer \<Rightarrow> bool" where
  "announced_peer_wf p \<longleftrightarrow> 0 \<le> ap_last_seen_at p \<and> ap_last_seen_at p < 2 ^ 32 \<and>
     length (ap_ip_address p) = 16 \<and> 0 \<le> ap_port p \<and> ap_port p < 2 ^ 16"

fun data_object_wf :: "bytes \<Rightarrow> data_object \<Rightarrow> bool" where
  "data_object_wf data_type (BlockData b) \<longleftrightarrow> data_type = DATA_BLOCK \<and> block_wf b"
| "data_object_wf data_type (HeaderData h) \<longleftrightarrow> data_type = DATA_HEADER \<and> block_header_wf h"
| "data_object_wf data_type (TransactionData t) \<longleftrightarrow> data_type = DATA_TRANSACTION \<and> transaction_wf t"

fun message_wf :: "message \<Rightarrow> bool" where
  "message_wf (HelloMessage m) \<longleftrightarrow> hello_message_wf m"
| "message_wf (GetBlocksMessage hs stop) \<longleftrightarrow> (\<forall>h\<in>set hs. length h = 32) \<and> length stop = 32"
| "message_wf (InventoryMessage items) \<longleftrightarrow> (\<forall>i\<in>set items. inventory_item_wf i)"
| "message_wf (GetDataMessage data_type hash) \<longleftrightarrow> length data_type = 2 \<and> length hash = 32"
| "message_wf (DataMessage data_type d) \<longleftrightarrow> data_object_wf data_type d"
| "message_wf GetPeersMessage \<longleftrightarrow> True"
| "message_wf (PeersMessage peers) \<longleftrightarrow> (\<forall>p\<in>set peers. announced_peer_wf p)"

text \<open>Reading back resets the flag of an inventory item and fills the caches of a data object.\<close>

definition inventory_item_canon :: "inventory_item \<Rightarrow> inventory_item" where
  "inventory_item_canon i = i\<lparr>ii_block_requested := False\<rparr>"

fun data_object_canon :: "crypto \<Rightarrow> data_object \<Rightarrow> data_object" where
  "data_object_canon cr (BlockData b) = BlockData (block_canon cr b)"
| "data_object_canon cr (HeaderData h) = HeaderData h"
| "data_object_canon cr (TransactionData t) = TransactionData (transaction_canon cr t)"

fun message_canon :: "crypto \<Rightarrow> message \<Rightarrow> message" where
  "message_canon cr (InventoryMessage items) = InventoryMessage (map inventory_item_canon items)"
| "message_canon cr (DataMessage data_type d) = DataMessage data_type (data_object_canon cr d)"
| "message_canon cr m = m"

interpretation hash_wire: exact_format "\<lambda>h. Inr h" "safe_read 32" "\<lambda>h. length h = 32" "\<lambda>x. x"
  by (rule exact_formatI) (auto simp: safe_read_append result_simps)

interpretation version_wire: exact_format stream_serialize_supported_version
  stream_deserialize_supported_version supported_version_wf "\<lambda>x. x"
proof (rule exact_formatI)
  fix x and bs rest s s' :: bytes
  show "supported_version_wf x \<Longrightarrow> \<exists>bs. stream_serialize_supported_version x = Inr bs"
    and "supported_version_wf x \<Longrightarrow> stream_serialize_supported_version x \<noteq> Inr []"
    by (auto simp: stream_serialize_supported_version_def supported_version_wf_def result_simps pack_uint_def)
  show "stream_deserialize_supported_version (bs @ rest) = Inr (x, rest)"
    if wf: "supported_version_wf x" and ser: "stream_serialize_supported_version x = Inr bs"
  proof -
    from ser have bs: "bs = be_bytes 1 (sv_version x)"
      by (auto simp: stream_serialize_supported_version_def result_simps)
    show ?thesis
      using wf by (simp add: bs supported_version_wf_def stream_deserialize_supported_version_def wire_steps
          del: be_bytes.simps)
  qed
  show "stream_deserialize_supported_version s = Inr (x, s') \<Longrightarrow>
      supported_version_wf x \<and> (\<exists>u. stream_serialize_supported_version x = Inr u \<and> s = u @ s')"
    by (auto simp: stream_serialize_supported_version_def stream_deserialize_supported_version_def
        supported_version_wf_def result_simps simp del: be_bytes.simps)
qed

interpretation item_wire: wire_format stream_serialize_inventory_item stream_deserialize_inventory_item
  inventory_item_wf inventory_item_canon
proof unfold_locales
  fix x and bs rest s s' :: bytes
  show "inventory_item_wf x \<Longrightarrow> \<exists>bs. stream_serialize_inventory_item x = Inr bs"
    by (simp add: stream_serialize_inventory_item_def)
  show "inventory_item_wf x \<Longrightarrow> stream_serialize_inventory_item x = Inr bs \<Longrightarrow>
      stream_deserialize_inventory_item (bs @ rest) = Inr (inventory_item_canon x, rest)"
    by (auto simp: stream_serialize_inventory_item_def stream_deserialize_inventory_item_def
        inventory_item_wf_def inventory_item_canon_def mk_inventory_item_def wire_steps)
  show "local_parser stream_deserialize_inventory_item" "productive stream_deserialize_inventory_item"
    unfolding stream_deserialize_inventory_item_def by (intro wire_intros; simp)+
  show "stream_deserialize_inventory_item s = Inr (x, s') \<Longrightarrow> inventory_item_wf x"
    by (auto simp: stream_deserialize_inventory_item_def inventory_item_wf_def mk_inventory_item_def result_simps)
qed

interpretation peer_wire: exact_format stream_serialize_peer stream_deserialize_peer announced_peer_wf "\<lambda>x. x"
proof (rule exact_formatI)
  fix x and bs rest s s' :: bytes
  show "announced_peer_wf x \<Longrightarrow> \<exists>bs. stream_serialize_peer x = Inr bs"
    and "announced_peer_wf x \<Longrightarrow> stream_serialize_peer x \<noteq> Inr []"
    by (auto simp: stream_serialize_peer_def announced_peer_wf_def result_simps pack_uint_def)
  show "stream_deserialize_peer (bs @ rest) = Inr (x, rest)"
    if wf: "announced_peer_wf x" and ser: "stream_serialize_peer x = Inr bs"
  proof -
    from ser have bs: "bs = be_bytes 4 (ap_last_seen_at x) @ ap_ip_address x @ be_bytes 2 (ap_port x)"
      by (auto simp: stream_serialize_peer_def result_simps)
    show ?thesis
      using wf by (simp add: bs announced_peer_wf_def stream_deserialize_peer_def wire_steps del: be_bytes.simps)
  qed
  show "stream_deserialize_peer s = Inr (x, s') \<Longrightarrow>
      announced_peer_wf x \<and> (\<exists>u. stream_serialize_peer x = Inr u \<and> s = u @ s')"
    by (auto simp: stream_serialize_peer_def stream_deserialize_peer_def announced_peer_wf_def
        result_simps simp del: be_bytes.simps)
qed

interpretation message_header_wire: wire_format stream_serialize_message_header
  stream_deserialize_message_header message_header_wf "\<lambda>x. x"
proof unfold_locales
  fix x and bs rest s s' :: bytes
  show "message_header_wf x \<Longrightarrow> \<exists>bs. stream_serialize_message_header x = Inr bs"
    by (simp add: stream_serialize_message_header_def message_header_wf_def pack_uint_def)
  show "stream_deserialize_message_header (bs @ rest) = Inr (x, rest)"
    if wf: "message_header_wf x" and ser: "stream_serialize_message_header x = Inr bs"
  proof -
    from ser have bs: "bs = be_bytes 1 0 @ be_bytes 4 (mh_timestamp x) @ be_bytes 4 (mh_id x) @
        be_bytes 4 (mh_in_response_to x) @ be_bytes 8 (mh_context x) @ replicate 32 0"
      unfolding stream_serialize_message_header_def by (auto simp: result_simps simp del: be_bytes.simps)
    show ?thesis
      using wf by (simp add: bs message_header_wf_def stream_deserialize_message_header_def wire_steps
          del: be_bytes.simps)
  qed
  show "local_parser stream_deserialize_message_header" "productive stream_deserialize_message_header"
    unfolding stream_deserialize_message_header_def by (intro wire_intros; simp)+
  show "stream_deserialize_message_header s = Inr (x, s') \<Longrightarrow> message_header_wf x"
    by (auto simp: stream_deserialize_message_header_def message_header_wf_def result_simps)
qed

subsection \<open>Messages\<close>

lemma pack_version [simp]: "pack_uint 1 0 = Inr [0]" "pack_uint (Suc 0) 0 = Inr [0]"
  by (simp_all add: pack_uint_def)

lemma pbind_read_1: "pbind (safe_read (Suc 0)) f (b # s) = f [b] s"
  by (simp add: pbind_def safe_read_def)

lemma read_version_0_zero: "read_version_0 message p (0 # s) = p s"
  by (simp add: read_version_0_def pbind_read_1)

lemma read_version_0_eq_Inr [result_simps]:
  "read_version_0 message p s = Inr (x, s') \<longleftrightarrow> (\<exists>t. s = 0 # t \<and> p t = Inr (x, s'))"
  by (auto simp: read_version_0_def result_simps)

lemma local_read_version_0 [wire_intros, intro]: "local_parser p \<Longrightarrow> local_parser (read_version_0 message p)"
  unfolding read_version_0_def by blast

lemma message_dispatch:
  "stream_deserialize_message cr (MSG_HELLO @ s) = stream_deserialize_hello s"
  "stream_deserialize_message cr (MSG_GET_BLOCKS @ s) = stream_deserialize_get_blocks s"
  "stream_deserialize_message cr (MSG_INVENTORY @ s) = stream_deserialize_inventory s"
  "stream_deserialize_message cr (MSG_GET_DATA @ s) = stream_deserialize_get_data s"
  "stream_deserialize_message cr (MSG_DATA @ s) = stream_deserialize_data cr s"
  "stream_deserialize_message cr (MSG_GET_PEERS @ s) = stream_deserialize_get_peers s"
  "stream_deserialize_message cr (MSG_PEERS @ s) = stream_deserialize_peers s"
  unfolding stream_deserialize_message_def
  by (subst pbind_safe_read; simp add: message_types)+

lemma hello_par_ser:
  assumes wf: "hello_message_wf m" and ser: "stream_serialize_hello m = Inr bs"
  shows "\<exists>cs. bs = MSG_HELLO @ cs \<and> stream_deserialize_hello (cs @ rest) = Inr (HelloMessage m, rest)"
proof -
  obtain vs where vs: "\<forall>v\<in>set (hm_supported_versions m). supported_version_wf v"
      "stream_serialize_list stream_serialize_supported_version (hm_supported_versions m) = Inr vs"
    and bs: "bs = MSG_HELLO @ be_bytes 1 0 @ hm_your_ip_address m @ be_bytes 2 (hm_your_port m) @
      hm_my_ip_address m @ be_bytes 2 (hm_my_port m) @ be_bytes 4 (hm_nonce m) @
      be_bytes 1 (int (length (hm_user_agent m))) @ hm_user_agent m @ vs @ replicate 256 0"
    using assms unfolding stream_serialize_hello_def hello_message_wf_def
    by (auto simp: result_simps pack_uint_def simp del: be_bytes.simps pack_version split: if_splits)
  show ?thesis
    using wf
    by (simp add: bs hello_message_wf_def stream_deserialize_hello_def wire_steps
        version_wire.pbind_list_par [OF vs] del: be_bytes.simps)
qed

lemma data_object_par_ser:
  assumes "data_object_wf data_type d" and "stream_serialize_data_object d = Inr bs"
  shows "length data_type = 2 \<and>
    stream_deserialize_data_object cr data_type (bs @ rest) = Inr (data_object_canon cr d, rest)"
  using assms
  by (cases d) (auto simp: stream_deserialize_data_object_def data_types pbind_def preturn_def
      dest!: block_wire.par_ser [where rest = rest and cr = cr] header_wire.par_ser [where rest = rest]
        tx_wire.par_ser [where rest = rest and cr = cr])

lemma message_par_ser:
  assumes wf: "message_wf x" and ser: "stream_serialize_message x = Inr bs"
  shows "stream_deserialize_message cr (bs @ rest) = Inr (message_canon cr x, rest)"
proof (cases x)
  case (HelloMessage m)
  then obtain cs where "bs = MSG_HELLO @ cs" "stream_deserialize_hello (cs @ rest) = Inr (HelloMessage m, rest)"
    using hello_par_ser [of m bs rest] assms by auto
  with HelloMessage show ?thesis by (simp add: message_dispatch)
next
  case (GetBlocksMessage hs stop)
  then obtain cs where cs: "stream_serialize_list (\<lambda>h. Inr h) hs = Inr cs" "bs = MSG_GET_BLOCKS @ 0 # cs @ stop"
    and hs: "\<forall>h\<in>set hs. length h = 32" and stop: "length stop = 32"
    using assms by (auto simp: stream_serialize_get_blocks_def result_simps)
  show ?thesis
    by (simp add: GetBlocksMessage cs(2) message_dispatch stream_deserialize_get_blocks_def read_version_0_zero
        hash_wire.pbind_list_par [OF hs cs(1)] pbind_safe_read [OF stop] preturn_def)
next
  case (InventoryMessage items)
  then obtain cs where cs: "\<forall>i\<in>set items. inventory_item_wf i"
      "stream_serialize_list stream_serialize_inventory_item items = Inr cs" and bs: "bs = MSG_INVENTORY @ 0 # cs"
    using assms by (auto simp: stream_serialize_inventory_def result_simps)
  show ?thesis
    by (simp add: InventoryMessage bs message_dispatch stream_deserialize_inventory_def read_version_0_zero
        item_wire.pbind_list_par [OF cs] preturn_def)
next
  case (GetDataMessage data_type hash)
  with assms show ?thesis
    by (auto simp: stream_serialize_get_data_def result_simps message_dispatch stream_deserialize_get_data_def
        read_version_0_zero pbind_safe_read preturn_def)
next
  case (DataMessage data_type d)
  then obtain cs where cs: "stream_serialize_data_object d = Inr cs" "bs = MSG_DATA @ 0 # data_type @ cs"
    and d: "data_object_wf data_type d"
    using assms by (auto simp: stream_serialize_data_def result_simps)
  show ?thesis
    using data_object_par_ser [OF d cs(1), of cr rest]
    by (simp add: DataMessage cs(2) message_dispatch stream_deserialize_data_def read_version_0_zero
        pbind_safe_read pbind_Inr preturn_def)
next
  case GetPeersMessage
  with assms show ?thesis
    by (auto simp: stream_serialize_get_peers_def result_simps message_dispatch stream_deserialize_get_peers_def
        read_version_0_zero preturn_def)
next
  case (PeersMessage peers)
  then obtain cs where cs: "\<forall>p\<in>set peers. announced_peer_wf p"
      "stream_serialize_list stream_serialize_peer peers = Inr cs" and bs: "bs = MSG_PEERS @ 0 # cs"
    using assms by (auto simp: stream_serialize_peers_def result_simps)
  show ?thesis
    by (simp add: PeersMessage bs message_dispatch stream_deserialize_peers_def read_version_0_zero
        peer_wire.pbind_list_par [OF cs] preturn_def)
qed

lemma message_ser_returns:
  assumes "message_wf x"
  shows "\<exists>bs. stream_serialize_message x = Inr bs"
proof (cases x)
  case (HelloMessage m)
  then show ?thesis
    using assms version_wire.list_ser_returns [of "hm_supported_versions m"]
    by (auto simp: stream_serialize_hello_def hello_message_wf_def pack_uint_def)
next
  case (GetBlocksMessage hs stop)
  then show ?thesis
    using assms hash_wire.list_ser_returns [of hs] by (auto simp: stream_serialize_get_blocks_def)
next
  case (InventoryMessage items)
  then show ?thesis
    using assms item_wire.list_ser_returns [of items] by (auto simp: stream_serialize_inventory_def)
next
  case (DataMessage data_type d)
  moreover from this assms have "\<exists>bs. stream_serialize_data_object d = Inr bs"
    using block_wire.ser_returns header_wire.ser_returns tx_wire.ser_returns by (cases d) auto
  ultimately show ?thesis by (auto simp: stream_serialize_data_def)
next
  case (PeersMessage peers)
  then show ?thesis
    using assms peer_wire.list_ser_returns [of peers] by (auto simp: stream_serialize_peers_def)
qed (simp_all add: stream_serialize_get_data_def stream_serialize_get_peers_def)

lemma local_data_object [wire_intros, intro]: "local_parser (stream_deserialize_data_object cr data_type)"
  unfolding stream_deserialize_data_object_def
  by (intro wire_intros block_wire.par_local header_wire.par_local tx_wire.par_local)

lemmas message_parser_defs = stream_deserialize_hello_def stream_deserialize_get_blocks_def
  stream_deserialize_inventory_def stream_deserialize_get_data_def stream_deserialize_data_def
  stream_deserialize_get_peers_def stream_deserialize_peers_def

lemma message_par_wf:
  assumes "stream_deserialize_message cr s = Inr (x, s')"
  shows "message_wf x"
proof -
  have data: "stream_deserialize_data_object cr data_type s = Inr (d, s') \<Longrightarrow> data_object_wf data_type d"
    for data_type s d s'
    by (auto simp: stream_deserialize_data_object_def result_simps split: if_splits
        dest: block_wire.par_wf header_wire.par_wf tx_wire.par_wf)
  from assms obtain t where "stream_deserialize_hello t = Inr (x, s') \<or> stream_deserialize_get_blocks t = Inr (x, s') \<or>
      stream_deserialize_inventory t = Inr (x, s') \<or> stream_deserialize_get_data t = Inr (x, s') \<or>
      stream_deserialize_data cr t = Inr (x, s') \<or> stream_deserialize_get_peers t = Inr (x, s') \<or>
      stream_deserialize_peers t = Inr (x, s')"
    by (auto simp: stream_deserialize_message_def result_simps split: if_splits)
  then show ?thesis
    by (elim disjE)
      (auto simp: message_parser_defs result_simps hello_message_wf_def data
        dest!: version_wire.list_par_wf hash_wire.list_par_wf item_wire.list_par_wf peer_wire.list_par_wf)
qed

interpretation message_wire: wire_format stream_serialize_message "stream_deserialize_message cr"
  message_wf "message_canon cr" for cr
proof unfold_locales
  show "local_parser (stream_deserialize_message cr)" "productive (stream_deserialize_message cr)"
    unfolding stream_deserialize_message_def message_parser_defs
    by (intro wire_intros version_wire.par_local hash_wire.par_local item_wire.par_local peer_wire.par_local; simp)+
qed (fact message_ser_returns message_par_ser message_par_wf)+

text \<open>
  C36: every well-formed header and message is written, and from the bytes, whatever follows, the
  reader gets the same header and the same message (inventory flags reset, caches filled), and it
  stops where the message ends.
\<close>

theorem message_roundtrip:
  assumes "message_header_wf h" and "message_wf m"
  shows "\<exists>hs ms. stream_serialize_message_header h = Inr hs \<and> stream_serialize_message m = Inr ms \<and>
    (\<forall>rest. stream_deserialize_message_header (hs @ ms @ rest) = Inr (h, ms @ rest) \<and>
       stream_deserialize_message cr (ms @ rest) = Inr (message_canon cr m, rest))"
  using message_header_wire.ser_returns [OF assms(1)] message_header_wire.par_ser [OF assms(1)]
    message_wire.ser_returns [OF assms(2)] message_wire.par_ser [OF assms(2)] by blast

theorem message_roundtrip_witness:
  "\<exists>ms. stream_serialize_message (GetBlocksMessage [zero_hash] zero_hash) = Inr ms \<and>
     stream_deserialize_message toy_crypto (ms @ [1, 2]) = Inr (GetBlocksMessage [zero_hash] zero_hash, [1, 2])"
  using message_roundtrip [of "\<lparr>mh_timestamp = 1, mh_id = 2, mh_in_response_to = 0, mh_context = 9\<rparr>"
      "GetBlocksMessage [zero_hash] zero_hash" toy_crypto]
  by (auto simp: message_header_wf_def zero_hash_def)

end
