(* ===== verification/Actions.thy ===== *)
theory Actions
  imports Prelude
begin

text \<open>
  Code that changes state and may raise half-way: an action returns a result together with the state,
  and the state is returned on an exception too, because the callers that catch exceptions
  (\<open>except Exception\<close> around a selector event, around a disconnect) go on with what the code had
  changed before it raised. The triple \<open>ensures\<close> is the program logic of the component proofs: a
  precondition, a postcondition and a condition for the exceptional exits.
\<close>

section \<open>Actions\<close>

type_synonym ('s, 'a) action = "'s \<Rightarrow> 'a result \<times> 's"

definition aret :: "'a \<Rightarrow> ('s, 'a) action" where
  "aret x s = (Inr x, s)"

definition araise :: "exn \<Rightarrow> ('s, 'a) action" where
  "araise e s = (Inl e, s)"

definition alift :: "'a result \<Rightarrow> ('s, 'a) action" where
  "alift r s = (r, s)"

text \<open>Reading a part of the state, and replacing the state.\<close>

definition aget :: "('s \<Rightarrow> 'a) \<Rightarrow> ('s, 'a) action" where
  "aget f s = (Inr (f s), s)"

definition amod :: "('s \<Rightarrow> 's) \<Rightarrow> ('s, unit) action" where
  "amod f s = (Inr (), f s)"

definition abind :: "('s, 'a) action \<Rightarrow> ('a \<Rightarrow> ('s, 'b) action) \<Rightarrow> ('s, 'b) action" where
  "abind m f s = (case m s of (Inl e, s') \<Rightarrow> (Inl e, s') | (Inr x, s') \<Rightarrow> f x s')"

abbreviation athen :: "('s, 'a) action \<Rightarrow> ('s, 'b) action \<Rightarrow> ('s, 'b) action" where
  "athen m n \<equiv> abind m (\<lambda>_. n)"

text \<open>\<open>try: m except ...: h\<close>; the handler says which exceptions it passes on.\<close>

definition acatch :: "('s, 'a) action \<Rightarrow> (exn \<Rightarrow> ('s, 'a) action) \<Rightarrow> ('s, 'a) action" where
  "acatch m h s = (case m s of (Inl e, s') \<Rightarrow> h e s' | (Inr x, s') \<Rightarrow> (Inr x, s'))"

definition awhen :: "bool \<Rightarrow> ('s, unit) action \<Rightarrow> ('s, unit) action" where
  "awhen c m = (if c then m else aret ())"

fun aforeach :: "('a \<Rightarrow> ('s, unit) action) \<Rightarrow> 'a list \<Rightarrow> ('s, unit) action" where
  "aforeach f [] = aret ()"
| "aforeach f (x # xs) = athen (f x) (aforeach f xs)"

lemma action_apply:
  "aret x s = (Inr x, s)" "araise e s = (Inl e, s)" "alift r s = (r, s)" "aget g s = (Inr (g s), s)"
  "amod f s = (Inr (), f s)"
  by (simp_all add: aret_def araise_def alift_def aget_def amod_def)

lemma awhen_simps [simp]: "awhen True m = m" "awhen False m = aret ()"
  by (simp_all add: awhen_def)

lemma abind_Inr: "m s = (Inr x, s') \<Longrightarrow> abind m f s = f x s'"
  by (simp add: abind_def)

lemma abind_Inl: "m s = (Inl e, s') \<Longrightarrow> abind m f s = (Inl e, s')"
  by (simp add: abind_def)

lemma abind_eq_Inr: "abind m f s = (Inr y, s') \<longleftrightarrow> (\<exists>x s1. m s = (Inr x, s1) \<and> f x s1 = (Inr y, s'))"
  by (auto simp: abind_def split: prod.split sum.split)

lemma abind_simps [simp]:
  "abind (aret x) f = f x" "abind (araise e) f = araise e"
  by (rule ext; simp add: abind_def aret_def araise_def)+

lemma abind_apply:
  "abind (aget g) f s = f (g s) s" "abind (amod h) k s = k () (h s)"
  by (simp_all add: abind_def aget_def amod_def)

lemma abind_assoc: "abind (abind m f) g = abind m (\<lambda>x. abind (f x) g)"
  by (rule ext) (simp add: abind_def split: prod.split sum.split)

lemma abind_cong [fundef_cong]:
  "m = m' \<Longrightarrow> s = s' \<Longrightarrow> (\<And>x t. m' s' = (Inr x, t) \<Longrightarrow> f x t = f' x t) \<Longrightarrow> abind m f s = abind m' f' s'"
  by (auto simp: abind_def split: prod.split sum.split)

lemma aforeach_append: "aforeach f (xs @ ys) = athen (aforeach f xs) (aforeach f ys)"
  by (induction xs) (auto simp: abind_assoc)

section \<open>Triples\<close>

definition ensures ::
  "('s \<Rightarrow> bool) \<Rightarrow> ('s, 'a) action \<Rightarrow> ('a \<Rightarrow> 's \<Rightarrow> bool) \<Rightarrow> (exn \<Rightarrow> 's \<Rightarrow> bool) \<Rightarrow> bool" where
  "ensures P m Q E \<longleftrightarrow>
     (\<forall>s. P s \<longrightarrow> (case m s of (Inr x, s') \<Rightarrow> Q x s' | (Inl e, s') \<Rightarrow> E e s'))"

named_theorems ensures_intros "rules of the triple, one per way to build an action"

lemma ensuresI:
  "(\<And>s x s'. P s \<Longrightarrow> m s = (Inr x, s') \<Longrightarrow> Q x s') \<Longrightarrow> (\<And>s e s'. P s \<Longrightarrow> m s = (Inl e, s') \<Longrightarrow> E e s') \<Longrightarrow>
     ensures P m Q E"
  by (auto simp: ensures_def split: prod.split sum.split)

lemma ensures_Inr: "ensures P m Q E \<Longrightarrow> P s \<Longrightarrow> m s = (Inr x, s') \<Longrightarrow> Q x s'"
  by (fastforce simp: ensures_def)

lemma ensures_Inl: "ensures P m Q E \<Longrightarrow> P s \<Longrightarrow> m s = (Inl e, s') \<Longrightarrow> E e s'"
  by (fastforce simp: ensures_def)

lemma ensures_aret [ensures_intros]: "(\<And>s. P s \<Longrightarrow> Q x s) \<Longrightarrow> ensures P (aret x) Q E"
  and ensures_araise [ensures_intros]: "(\<And>s. P s \<Longrightarrow> E e s) \<Longrightarrow> ensures P (araise e) Q E"
  and ensures_aget [ensures_intros]: "(\<And>s. P s \<Longrightarrow> Q (g s) s) \<Longrightarrow> ensures P (aget g) Q E"
  and ensures_amod [ensures_intros]: "(\<And>s. P s \<Longrightarrow> Q () (f s)) \<Longrightarrow> ensures P (amod f) Q E"
  by (simp_all add: ensures_def action_apply)

lemma ensures_alift [ensures_intros]:
  "(\<And>s x. P s \<Longrightarrow> r = Inr x \<Longrightarrow> Q x s) \<Longrightarrow> (\<And>s e. P s \<Longrightarrow> r = Inl e \<Longrightarrow> E e s) \<Longrightarrow> ensures P (alift r) Q E"
  by (auto simp: ensures_def alift_def split: sum.split)

lemma ensures_abind [ensures_intros]:
  "ensures P m R E \<Longrightarrow> (\<And>x. ensures (R x) (f x) Q E) \<Longrightarrow> ensures P (abind m f) Q E"
  by (fastforce simp: ensures_def abind_def split: prod.splits sum.splits)

lemma ensures_alift_abind:
  "(\<And>x. r = Inr x \<Longrightarrow> ensures P (f x) Q E) \<Longrightarrow> (\<And>e s. P s \<Longrightarrow> E e s) \<Longrightarrow> ensures P (abind (alift r) f) Q E"
  by (cases r) (auto simp: ensures_def abind_def alift_def)

lemma ensures_aget_abind:
  "(\<And>s. P s \<Longrightarrow> g s = x) \<Longrightarrow> ensures P (f x) Q E \<Longrightarrow> ensures P (abind (aget g) f) Q E"
  by (simp add: ensures_def abind_def aget_def)

lemma ensures_acatch [ensures_intros]:
  "ensures P m Q R \<Longrightarrow> (\<And>e. ensures (R e) (h e) Q E) \<Longrightarrow> ensures P (acatch m h) Q E"
  by (fastforce simp: ensures_def acatch_def split: prod.splits sum.splits)

lemma ensures_if [ensures_intros]:
  "(c \<Longrightarrow> ensures P m Q E) \<Longrightarrow> (\<not> c \<Longrightarrow> ensures P n Q E) \<Longrightarrow> ensures P (if c then m else n) Q E"
  by simp

lemma ensures_awhen [ensures_intros]:
  "(c \<Longrightarrow> ensures P m Q E) \<Longrightarrow> (\<And>s. \<not> c \<Longrightarrow> P s \<Longrightarrow> Q () s) \<Longrightarrow> ensures P (awhen c m) Q E"
  by (cases c) (auto intro: ensures_aret)

lemma ensures_weaken:
  "ensures P' m Q' E' \<Longrightarrow> (\<And>s. P s \<Longrightarrow> P' s) \<Longrightarrow> (\<And>x s. Q' x s \<Longrightarrow> Q x s) \<Longrightarrow> (\<And>e s. E' e s \<Longrightarrow> E e s) \<Longrightarrow>
     ensures P m Q E"
  by (fastforce simp: ensures_def split: prod.splits sum.splits)

lemma ensures_aforeach [ensures_intros]:
  "(\<And>x. x \<in> set xs \<Longrightarrow> ensures P (f x) (\<lambda>_. P) E) \<Longrightarrow> ensures P (aforeach f xs) (\<lambda>_. P) E"
proof (induction xs)
  case (Cons x xs)
  then show ?case by (auto intro!: ensures_abind [where R = "\<lambda>_. P"])
qed (auto intro: ensures_aret)

text \<open>An action keeps a property of the state, whether it raises or not.\<close>

abbreviation keeps :: "('s \<Rightarrow> bool) \<Rightarrow> ('s, 'a) action \<Rightarrow> bool" where
  "keeps P m \<equiv> ensures P m (\<lambda>_. P) (\<lambda>_. P)"

lemma keeps_iff: "keeps P m \<longleftrightarrow> (\<forall>s. P s \<longrightarrow> P (snd (m s)))"
proof -
  have "(case m s of (Inl e, s') \<Rightarrow> P s' | (Inr x, s') \<Rightarrow> P s') \<longleftrightarrow> P (snd (m s))" for s
    by (simp split: prod.split sum.split)
  then show ?thesis by (simp add: ensures_def)
qed

named_theorems keeps_intros "actions built from actions that keep a property keep it"

lemma keeps_basic [keeps_intros]:
  "keeps P (aret x)" "keeps P (araise e)" "keeps P (aget g)" "keeps P (alift r)"
  by (simp_all add: keeps_iff action_apply)

lemma keeps_amod [keeps_intros]: "(\<And>s. P s \<Longrightarrow> P (f s)) \<Longrightarrow> keeps P (amod f)"
  by (simp add: keeps_iff action_apply)

lemma keeps_abind [keeps_intros]: "keeps P m \<Longrightarrow> (\<And>x. keeps P (f x)) \<Longrightarrow> keeps P (abind m f)"
  by (rule ensures_abind)

lemma keeps_acatch [keeps_intros]: "keeps P m \<Longrightarrow> (\<And>e. keeps P (h e)) \<Longrightarrow> keeps P (acatch m h)"
  by (rule ensures_acatch)

lemma keeps_awhen [keeps_intros]: "(c \<Longrightarrow> keeps P m) \<Longrightarrow> keeps P (awhen c m)"
  by (rule ensures_awhen)

lemma keeps_if [keeps_intros]: "(c \<Longrightarrow> keeps P m) \<Longrightarrow> (\<not> c \<Longrightarrow> keeps P n) \<Longrightarrow> keeps P (if c then m else n)"
  by simp

lemma keeps_aforeach [keeps_intros]: "(\<And>x. keeps P (f x)) \<Longrightarrow> keeps P (aforeach f xs)"
  by (rule ensures_aforeach)

lemma keeps_cases [keeps_intros]:
  "keeps P m \<Longrightarrow> (\<And>x. keeps P (f x)) \<Longrightarrow> keeps P (case z of None \<Rightarrow> m | Some x \<Rightarrow> f x)"
  "(\<And>e. keeps P (g e)) \<Longrightarrow> (\<And>x. keeps P (f x)) \<Longrightarrow> keeps P (case r of Inl e \<Rightarrow> g e | Inr x \<Rightarrow> f x)"
  "(\<And>a b. keeps P (h a b)) \<Longrightarrow> keeps P (case w of (a, b) \<Rightarrow> h a b)"
  by (auto split: option.split sum.split prod.split)

lemma keepsD: "keeps P m \<Longrightarrow> P s \<Longrightarrow> m s = (r, s') \<Longrightarrow> P s'"
  by (metis keeps_iff snd_conv)

section \<open>Actions that leave a part of the state alone\<close>

definition preserves :: "('s \<Rightarrow> 'v) \<Rightarrow> ('s, 'a) action \<Rightarrow> bool" where
  "preserves v m \<longleftrightarrow> (\<forall>x. keeps (\<lambda>s. v s = x) m)"

lemma preserves_iff: "preserves v m \<longleftrightarrow> (\<forall>s. v (snd (m s)) = v s)"
  unfolding preserves_def keeps_iff by metis

lemma preserves_keeps: "preserves v m \<Longrightarrow> keeps (\<lambda>s. P (v s)) m"
  by (simp add: preserves_iff keeps_iff)

named_theorems preserves_intros "actions built from actions that leave a part of the state alone"

lemma preserves_basic [preserves_intros]:
  "preserves v (aret x)" "preserves v (araise e)" "preserves v (aget g)" "preserves v (alift r)"
  by (simp_all add: preserves_def keeps_basic)

lemma preserves_amod [preserves_intros]: "(\<And>s. v (f s) = v s) \<Longrightarrow> preserves v (amod f)"
  by (simp add: preserves_iff action_apply)

lemma preserves_abind [preserves_intros]: "preserves v m \<Longrightarrow> (\<And>x. preserves v (f x)) \<Longrightarrow> preserves v (abind m f)"
  and preserves_acatch [preserves_intros]: "preserves v k \<Longrightarrow> (\<And>e. preserves v (h e)) \<Longrightarrow> preserves v (acatch k h)"
  and preserves_awhen [preserves_intros]: "(c \<Longrightarrow> preserves v n) \<Longrightarrow> preserves v (awhen c n)"
  and preserves_aforeach [preserves_intros]: "(\<And>x. preserves v (g x)) \<Longrightarrow> preserves v (aforeach g xs)"
  unfolding preserves_def by (blast intro: keeps_intros)+

lemma preserves_if [preserves_intros]:
  "(c \<Longrightarrow> preserves v m) \<Longrightarrow> (\<not> c \<Longrightarrow> preserves v n) \<Longrightarrow> preserves v (if c then m else n)"
  by simp

lemma preserves_cases [preserves_intros]:
  "preserves v m \<Longrightarrow> (\<And>x. preserves v (f x)) \<Longrightarrow> preserves v (case z of None \<Rightarrow> m | Some x \<Rightarrow> f x)"
  "(\<And>e. preserves v (g e)) \<Longrightarrow> (\<And>x. preserves v (f x)) \<Longrightarrow> preserves v (case r of Inl e \<Rightarrow> g e | Inr x \<Rightarrow> f x)"
  "(\<And>a b. preserves v (h a b)) \<Longrightarrow> preserves v (case w of (a, b) \<Rightarrow> h a b)"
  by (auto split: option.split sum.split prod.split)

lemma preserves_exn [preserves_intros]:
  "preserves v m \<Longrightarrow> preserves v n \<Longrightarrow> preserves v (case e of ValueError s \<Rightarrow> m | _ \<Rightarrow> n)"
  "preserves v m \<Longrightarrow> preserves v n \<Longrightarrow>
     preserves v (case e of ValueError s \<Rightarrow> m | KeyError \<Rightarrow> m | OSError \<Rightarrow> m | _ \<Rightarrow> n)"
  by (auto split: exn.split)

lemma preserves_let [preserves_intros]: "preserves v (f x) \<Longrightarrow> preserves v (Let x f)"
  by simp

end
