(* ===== verification/Chain_Manager.thy ===== *)
theory Chain_Manager
  imports Mining_Blocks Messages Actions
begin

text \<open>
  Model of \<open>ChainManager\<close> in \<open>skepticoin/networking/manager.py\<close>: the state a node has accepted, the last
  one it validated, and the pool of transactions waiting to be mined. \<open>step\<close>, which talks to the
  peers, is in \<open>Network\<close>. Shown: over every sequence of calls that return, the pool holds only
  transactions that are valid at the head and spend no output twice, so that a block made of it is
  valid; and which blocks a node names when it asks for more.
\<close>

section \<open>State\<close>

text \<open>
  The peers from which blocks are being fetched are numbered (the objects are in \<open>Network\<close>). The
  constructor leaves \<open>coinstate\<close> unset and \<open>NetworkingThread\<close> calls \<open>set_coinstate\<close> at once; a new
  manager is the outcome of both.
\<close>

record chain_manager =
  cm_coinstate :: coinstate
  cm_actively_fetching_blocks_from_peers :: "(int \<times> nat) list"
  cm_started_at :: int
  cm_transaction_pool :: "transaction list"
  cm_last_known_valid_coinstate :: "coinstate option"

definition new_chain_manager :: "coinstate \<Rightarrow> int \<Rightarrow> chain_manager" where
  "new_chain_manager cs current_time =
     \<lparr>cm_coinstate = cs, cm_actively_fetching_blocks_from_peers = [], cm_started_at = current_time,
      cm_transaction_pool = [], cm_last_known_valid_coinstate = Some cs\<rparr>"

section \<open>Operations\<close>

text \<open>\<open>assert self.coinstate.current_chain_hash\<close> and the validation at the head.\<close>

definition validate_at_head :: "crypto \<Rightarrow> coinstate \<Rightarrow> transaction \<Rightarrow> unit result" where
  "validate_at_head cr cs t =
     rbind (assert_current cs) (\<lambda>current_chain_hash.
     validate_non_coinbase_transaction_in_coinstate cr t current_chain_hash cs)"

text \<open>\<open>is_valid\<close>: only \<open>ValidateTransactionError\<close> is caught.\<close>

definition pool_transaction_is_valid :: "crypto \<Rightarrow> coinstate \<Rightarrow> transaction \<Rightarrow> bool result" where
  "pool_transaction_is_valid cr cs t =
     (case validate_at_head cr cs t of
        Inr _ \<Rightarrow> Inr True
      | Inl (ValidateTransactionError message) \<Rightarrow> Inr False
      | Inl e \<Rightarrow> Inl e)"

text \<open>\<open>[t for t in self.transaction_pool if is_valid(t)]\<close>\<close>

fun valid_transactions :: "crypto \<Rightarrow> coinstate \<Rightarrow> transaction list \<Rightarrow> transaction list result" where
  "valid_transactions cr cs [] = Inr []"
| "valid_transactions cr cs (t # ts) =
     rbind (pool_transaction_is_valid cr cs t) (\<lambda>valid.
     rbind (valid_transactions cr cs ts) (\<lambda>rest.
     Inr (if valid then t # rest else rest)))"

definition cleanup_transaction_pool_for_coinstate :: "crypto \<Rightarrow> (chain_manager, unit) action" where
  "cleanup_transaction_pool_for_coinstate cr =
     abind (aget id) (\<lambda>cm.
     abind (alift (valid_transactions cr (cm_coinstate cm) (cm_transaction_pool cm))) (\<lambda>pool.
     amod (\<lambda>cm. cm\<lparr>cm_transaction_pool := pool\<rparr>)))"

definition set_coinstate :: "crypto \<Rightarrow> coinstate \<Rightarrow> bool \<Rightarrow> (chain_manager, unit) action" where
  "set_coinstate cr cs validated =
     athen (amod (\<lambda>cm. cm\<lparr>cm_coinstate := cs\<rparr>))
     (athen (cleanup_transaction_pool_for_coinstate cr)
     (awhen validated (amod (\<lambda>cm. cm\<lparr>cm_last_known_valid_coinstate := Some cs\<rparr>))))"

text \<open>
  The \<open>try\<close> block of \<open>add_transaction_to_pool\<close>. Its \<open>except\<close> saves the transaction to a file for
  debugging (here: serializes it, which may raise) and returns \<open>False\<close>.
\<close>

definition validate_for_pool :: "crypto \<Rightarrow> chain_manager \<Rightarrow> transaction \<Rightarrow> unit result" where
  "validate_for_pool cr cm t =
     rbind (validate_non_coinbase_transaction_by_itself t) (\<lambda>_.
     rbind (validate_at_head cr (cm_coinstate cm) t) (\<lambda>_.
     validate_no_duplicate_output_references_in_transactions (cm_transaction_pool cm @ [t])))"

definition add_transaction_to_pool :: "crypto \<Rightarrow> transaction \<Rightarrow> (chain_manager, bool) action" where
  "add_transaction_to_pool cr t =
     athen (alift (transaction_hash cr t))
     (abind (aget id) (\<lambda>cm.
      case validate_for_pool cr cm t of
        Inr _ \<Rightarrow>
          athen (amod (\<lambda>cm. cm\<lparr>cm_transaction_pool := cm_transaction_pool cm @ [t]\<rparr>)) (aret True)
      | Inl (ValidateTransactionError message) \<Rightarrow>
          athen (alift (stream_serialize_transaction t)) (aret False)
      | Inl e \<Rightarrow> araise e))"

definition get_state :: "chain_manager \<Rightarrow> coinstate \<times> transaction list" where
  "get_state cm = (cm_coinstate cm, cm_transaction_pool cm)"

definition should_actively_fetch_blocks :: "chain_manager \<Rightarrow> int \<Rightarrow> bool result" where
  "should_actively_fetch_blocks cm current_time =
     rbind (cs_head (cm_coinstate cm)) (\<lambda>head.
     Inr (current_time > block_timestamp head + SWITCH_TO_ACTIVE_MODE_TIMEOUT \<or>
          current_time \<le> cm_started_at cm + 60 \<or>
          current_time mod 60 = 0))"

text \<open>\<open>list(range(10)) + [pow(x, 2) for x in range(4, 64)]\<close>\<close>

definition oldness :: "int list" where
  "oldness = map int [0..<10] @ map (\<lambda>x. int x ^ 2) [4..<64]"

definition get_recent_block_heights :: "int \<Rightarrow> int list" where
  "get_recent_block_heights height = filter (\<lambda>x. 0 \<le> x) (map (\<lambda>old. height - old) oldness)"

definition get_get_blocks_message :: "crypto \<Rightarrow> coinstate \<Rightarrow> message result" where
  "get_get_blocks_message cr cs =
     rbind (cs_head cs) (\<lambda>head.
     rbind (rmap (\<lambda>height.
         rbind (by_height_at_head cs) (\<lambda>by_height.
         rbind (lookup_key by_height height) (block_hash cr)))
       (get_recent_block_heights (block_height head))) (\<lambda>potential_start_hashes.
     Inr (GetBlocksMessage potential_start_hashes zero_hash)))"

section \<open>What the operations do\<close>

lemma validate_at_head_iff:
  "validate_at_head cr cs t = Inr r \<longleftrightarrow>
     (\<exists>cur u. cs_current_chain_hash cs = Some cur \<and> cur \<noteq> [] \<and>
        cs_unspent_transaction_outs_by_hash cs cur = Some u \<and> spend_ok cr u t)"
  by (auto simp: validate_at_head_def rbind_eq_Inr assert_current_def
      validate_non_coinbase_transaction_in_coinstate_iff split: option.splits if_splits)

lemma pool_transaction_is_valid_True:
  "pool_transaction_is_valid cr cs t = Inr True \<longleftrightarrow> validate_at_head cr cs t = Inr ()"
  by (auto simp: pool_transaction_is_valid_def split: sum.splits exn.splits)

lemma valid_transactions_eq_Inr:
  "valid_transactions cr cs ts = Inr ts' \<Longrightarrow> ts' = filter (\<lambda>t. validate_at_head cr cs t = Inr ()) ts"
proof (induction ts arbitrary: ts')
  case (Cons t ts)
  then obtain v rest where v: "pool_transaction_is_valid cr cs t = Inr v"
    and rest: "valid_transactions cr cs ts = Inr rest" and "ts' = (if v then t # rest else rest)"
    by (auto simp: rbind_eq_Inr)
  moreover have "v \<longleftrightarrow> validate_at_head cr cs t = Inr ()"
    using v pool_transaction_is_valid_True [of cr cs t] by (cases v) auto
  ultimately show ?case using Cons.IH [OF rest] by simp
qed simp

lemma set_coinstate_eq:
  "set_coinstate cr cs validated cm =
     (case valid_transactions cr cs (cm_transaction_pool cm) of
        Inl e \<Rightarrow> (Inl e, cm\<lparr>cm_coinstate := cs\<rparr>)
      | Inr pool \<Rightarrow> (Inr (), cm\<lparr>cm_coinstate := cs, cm_transaction_pool := pool,
          cm_last_known_valid_coinstate :=
            (if validated then Some cs else cm_last_known_valid_coinstate cm)\<rparr>))"
  by (cases cm) (simp add: set_coinstate_def cleanup_transaction_pool_for_coinstate_def abind_def
      action_apply awhen_def split: sum.split)

lemma add_transaction_to_pool_True:
  "add_transaction_to_pool cr t cm = (Inr True, cm') \<longleftrightarrow>
     returns (transaction_hash cr t) \<and> validate_for_pool cr cm t = Inr () \<and>
     cm' = cm\<lparr>cm_transaction_pool := cm_transaction_pool cm @ [t]\<rparr>"
  by (auto simp: add_transaction_to_pool_def abind_def action_apply split: sum.splits exn.splits)

lemma add_transaction_to_pool_other:
  "add_transaction_to_pool cr t cm = (r, cm') \<Longrightarrow> r \<noteq> Inr True \<Longrightarrow> cm' = cm"
  by (auto simp: add_transaction_to_pool_def abind_def action_apply split: sum.splits exn.splits)

section \<open>The pool\<close>

definition pool_valid :: "crypto \<Rightarrow> chain_manager \<Rightarrow> bool" where
  "pool_valid cr cm \<longleftrightarrow>
     (\<forall>t\<in>set (cm_transaction_pool cm).
        transaction_ok t \<and> validate_at_head cr (cm_coinstate cm) t = Inr ()) \<and>
     distinct (concat (map input_refs (cm_transaction_pool cm)))"

text \<open>The calls that change the pool, each of which is taken to return (an exception ends the run).\<close>

datatype chain_call =
    SetCoinstate coinstate bool
  | AddTransaction transaction

fun chain_call_step :: "crypto \<Rightarrow> chain_manager \<Rightarrow> chain_call \<Rightarrow> chain_manager result" where
  "chain_call_step cr cm (SetCoinstate cs validated) =
     (let (r, cm') = set_coinstate cr cs validated cm in rbind r (\<lambda>_. Inr cm'))"
| "chain_call_step cr cm (AddTransaction t) =
     (let (r, cm') = add_transaction_to_pool cr t cm in rbind r (\<lambda>_. Inr cm'))"

lemma distinct_concat_filter:
  "distinct (concat (map f xs)) \<Longrightarrow> distinct (concat (map f (filter P xs)))"
  by (induction xs) auto

lemma pool_valid_set_coinstate:
  assumes "pool_valid cr cm" and "set_coinstate cr cs validated cm = (Inr (), cm')"
  shows "pool_valid cr cm'"
proof -
  obtain pool where "valid_transactions cr cs (cm_transaction_pool cm) = Inr pool"
    and cm': "cm' = cm\<lparr>cm_coinstate := cs, cm_transaction_pool := pool,
      cm_last_known_valid_coinstate := (if validated then Some cs else cm_last_known_valid_coinstate cm)\<rparr>"
    using assms(2) by (auto simp: set_coinstate_eq split: sum.splits)
  from valid_transactions_eq_Inr [OF this(1)] assms(1) show ?thesis
    by (auto simp: pool_valid_def cm' distinct_concat_filter)
qed

lemma pool_valid_add:
  assumes "pool_valid cr cm" and "add_transaction_to_pool cr t cm = (r, cm')"
  shows "pool_valid cr cm'"
proof (cases "r = Inr True")
  case True
  with assms(2) have v: "validate_for_pool cr cm t = Inr ()"
    and cm': "cm' = cm\<lparr>cm_transaction_pool := cm_transaction_pool cm @ [t]\<rparr>"
    using add_transaction_to_pool_True by blast+
  from v have "transaction_ok t \<and> validate_at_head cr (cm_coinstate cm) t = Inr () \<and>
      distinct (concat (map input_refs (cm_transaction_pool cm @ [t])))"
    unfolding validate_for_pool_def rbind_eq_Inr validate_non_coinbase_transaction_by_itself_iff
      validate_no_duplicate_references_iff by simp
  with assms(1) show ?thesis by (auto simp: pool_valid_def cm')
next
  case False
  then show ?thesis using assms add_transaction_to_pool_other by metis
qed

interpretation chain_machine: invariant_of "\<lambda>_ _. True" "chain_call_step cr" "new_chain_manager cs t0"
  "pool_valid cr" for cr cs t0
proof unfold_locales
  show "pool_valid cr (new_chain_manager cs t0)" by (simp add: pool_valid_def new_chain_manager_def)
  fix cm e cm' assume "pool_valid cr cm" "chain_call_step cr cm e = Inr cm'"
  then show "pool_valid cr cm'"
    by (cases e) (auto simp: rbind_eq_Inr split: prod.splits intro: pool_valid_set_coinstate pool_valid_add)
qed

abbreviation chain_manager_reachable :: "crypto \<Rightarrow> coinstate \<Rightarrow> int \<Rightarrow> chain_manager \<Rightarrow> bool" where
  "chain_manager_reachable cr cs t0 \<equiv> reachable (\<lambda>_ _. True) (chain_call_step cr) (new_chain_manager cs t0)"

section \<open>An example pool\<close>

definition top_manager :: chain_manager where
  "top_manager = (new_chain_manager top_state 0)\<lparr>cm_transaction_pool := [top_transaction]\<rparr>"

lemma top_manager_reachable: "chain_manager_reachable toy_crypto top_state 0 top_manager"
proof -
  have "spend_ok toy_crypto sample_unspent top_transaction" using top_pool_ok by (simp add: pool_ok_def)
  then have "validate_at_head toy_crypto top_state top_transaction = Inr ()"
    using top_state_simps by (auto simp: validate_at_head_iff)
  then have v: "validate_for_pool toy_crypto (new_chain_manager top_state 0) top_transaction = Inr ()"
    using top_transaction_ok top_pool_ok
    by (simp add: validate_for_pool_def rbind_eq_Inr validate_non_coinbase_transaction_by_itself_iff
        validate_no_duplicate_references_iff new_chain_manager_def pool_ok_def)
  moreover have "returns (transaction_hash toy_crypto top_transaction)" by (simp add: top_transaction_def)
  moreover have "top_manager = (new_chain_manager top_state 0)
      \<lparr>cm_transaction_pool := cm_transaction_pool (new_chain_manager top_state 0) @ [top_transaction]\<rparr>"
    by (simp add: top_manager_def new_chain_manager_def)
  ultimately have "add_transaction_to_pool toy_crypto top_transaction (new_chain_manager top_state 0) = (Inr True, top_manager)"
    by (simp add: add_transaction_to_pool_True)
  then show ?thesis
    by (intro reachable.step [OF reachable.init, where e = "AddTransaction top_transaction"]) simp_all
qed

lemma top_manager_simps:
  "cm_coinstate top_manager = top_state" "cm_transaction_pool top_manager = [top_transaction]"
  "get_state top_manager = (top_state, [top_transaction])"
  by (simp_all add: top_manager_def new_chain_manager_def get_state_def)

section \<open>Properties\<close>

text \<open>
  Whatever sequence of states is set and transactions are offered, as long as the calls return,
  every transaction in the pool passes both validations for the head of the current state, and no
  two of them spend the same output.
\<close>

theorem pool_stays_valid:
  assumes "chain_manager_reachable cr cs t0 cm"
  shows "(\<forall>t\<in>set (cm_transaction_pool cm).
      validate_non_coinbase_transaction_by_itself t = Inr () \<and>
      (\<exists>cur. cs_current_chain_hash (cm_coinstate cm) = Some cur \<and>
         validate_non_coinbase_transaction_in_coinstate cr t cur (cm_coinstate cm) = Inr ())) \<and>
    validate_no_duplicate_output_references_in_transactions (cm_transaction_pool cm) = Inr ()"
  using chain_machine.reachable_inv [OF assms]
  by (auto simp: pool_valid_def validate_non_coinbase_transaction_by_itself_iff validate_at_head_iff
      validate_no_duplicate_references_iff validate_non_coinbase_transaction_in_coinstate_iff)

theorem pool_stays_valid_witness:
  "validate_non_coinbase_transaction_by_itself top_transaction = Inr () \<and>
   validate_non_coinbase_transaction_in_coinstate toy_crypto top_transaction (sample_hash 1) top_state = Inr ()"
  using pool_stays_valid [OF top_manager_reachable] by (simp add: top_manager_simps top_state_simps)

text \<open>
  A block mined on the state and the pool that \<open>get_state\<close> hands out, with a hash below its target,
  passes all validation, provided its timestamp is in range and the pool fits in a block.
\<close>

theorem pool_makes_valid_blocks:
  assumes "chain_manager_reachable cr cs0 t0 cm" and "get_state cm = (cs, pool)"
    and "construct_block_for_mining cr cs pool pk timestamp [] nonce = Inr b"
    and "cs_head cs = Inr parent" and "cs_current_chain_hash cs = Some cur" and "cur \<noteq> []"
    and "cs_unspent_transaction_outs_by_hash cs cur = Some u"
    and "MAX_KNOWN_HASH_HEIGHT \<le> block_height parent"
    and "block_timestamp parent < timestamp" and "timestamp \<le> now + MAX_FUTURE_BLOCK_TIME"
    and "stream_serialize_block b = Inr bs" and "int (length bs) \<le> MAX_BLOCK_SIZE"
    and "block_header_hash cr (blk_header b) = Inr h" and "h < block_target b"
  shows "validate_block_by_itself cr b now = Inr () \<and> validate_block_in_coinstate cr b cs = Inr ()"
proof -
  have cm: "cm_coinstate cm = cs" "cm_transaction_pool cm = pool" using assms(2) by (auto simp: get_state_def)
  with chain_machine.reachable_inv [OF assms(1)] assms(5,7) have "pool_ok cr u pool"
    by (auto simp: pool_valid_def pool_ok_def validate_at_head_iff)
  from mined_block_valid [OF assms(3-8) this _ assms(9-14)] obtain c
    where c: "block_ok cr b now c pool" "block_in_coinstate_ok cr b cs parent u c pool" by auto
  then have "MAX_KNOWN_HASH_HEIGHT < block_height b"
    using assms(8) by (simp add: block_in_coinstate_ok_def)
  with c show ?thesis
    unfolding validate_block_by_itself_iff by (auto simp: validate_block_in_coinstate_iff)
qed

theorem pool_makes_valid_blocks_witness:
  "validate_block_by_itself toy_crypto top_block 200 = Inr () \<and>
   validate_block_in_coinstate toy_crypto top_block top_state = Inr ()"
proof -
  obtain h where h: "block_header_hash toy_crypto (blk_header top_block) = Inr h" "h < block_target top_block"
    using top_block_work(1) by (auto simp: top_block_facts)
  obtain bs where bs: "stream_serialize_block top_block = Inr bs" "int (length bs) \<le> MAX_BLOCK_SIZE"
    using top_block_work(2) by blast
  show ?thesis
    by (rule pool_makes_valid_blocks [where cur = "sample_hash 1" and parent = top_parent and u = sample_unspent,
          OF top_manager_reachable top_manager_simps(3) top_block_constructed _ _ _ _ _ _ _ bs h])
      (simp_all add: top_state_simps)
qed

end
