(* ===== verification/Block_Tree.thy ===== *)
theory Block_Tree
  imports Coinstate
begin

text \<open>
  The tree of blocks in a \<open>CoinState\<close> (\<open>skepticoin/coinstate.py\<close>) under the conditions that the callers of
  \<open>add_block_no_validation\<close> do check, whatever heights the blocks claim: each block is new and its parent is stored,
  or it is the first block. Shown: what the maps hold then; that the height index is that of the chain
  where the blocks of the chain claim their places; and that a state in which all blocks do so
  is one that is reached by blocks that attach, so that what is shown of those states holds of it.
\<close>

section \<open>States under what callers check\<close>

definition hangs_on :: "crypto \<Rightarrow> coinstate \<Rightarrow> block \<Rightarrow> bool" where
  "hangs_on cr cs b \<longleftrightarrow> new_block cr cs b \<and>
     (if block_previous_block_hash b = zero_hash then cs_block_by_hash cs = Map.empty
      else cs_block_by_hash cs (block_previous_block_hash b) \<noteq> None)"

text \<open>The height index of a chain: the first block at 0, each other at the height it claims, later ones over earlier ones.\<close>

definition claimed_map :: "block list \<Rightarrow> int \<Rightarrow> block option" where
  "claimed_map chain = fold (\<lambda>b m. m(block_height b \<mapsto> b)) (tl chain) [0 \<mapsto> hd chain]"

definition in_place :: "block list \<Rightarrow> bool" where
  "in_place chain \<longleftrightarrow> (\<forall>i<length chain. block_height (chain ! i) = int i)"

lemma claimed_map_snoc: "chain \<noteq> [] \<Longrightarrow> claimed_map (chain @ [b]) = (claimed_map chain)(block_height b \<mapsto> b)"
  by (simp add: claimed_map_def)

lemma claimed_map_in_place: "chain \<noteq> [] \<Longrightarrow> in_place chain \<Longrightarrow> claimed_map chain = chain_map chain"
proof (induction chain rule: rev_induct)
  case (snoc b chain)
  show ?case
  proof (cases "chain = []")
    case True
    then show ?thesis by (auto simp: claimed_map_def chain_map_def fun_eq_iff)
  next
    case False
    have "in_place chain" using snoc.prems(2) by (auto simp: in_place_def nth_append split: if_splits)
    moreover have "block_height b = int (length chain)" using snoc.prems(2) by (auto simp: in_place_def nth_append)
    ultimately show ?thesis using snoc.IH False by (simp add: claimed_map_snoc chain_map_snoc)
  qed
qed simp

section \<open>Invariant\<close>

definition tree_entry :: "crypto \<Rightarrow> coinstate \<Rightarrow> bytes \<Rightarrow> block \<Rightarrow> block list \<Rightarrow> unspent \<Rightarrow> bool" where
  "tree_entry cr cs h b chain u \<longleftrightarrow>
     cs_block_by_hash cs h = Some b \<and> block_hash cr b = Inr h \<and> length h = 32 \<and>
     chain_to (cs_block_by_hash cs) h chain \<and>
     cs_unspent_transaction_outs_by_hash cs h = Some u \<and> replay cr chain = Inr u \<and>
     cs_block_by_height_by_hash cs h = Some (claimed_map chain)"

definition tree_ok :: "crypto \<Rightarrow> coinstate \<Rightarrow> bool" where
  "tree_ok cr cs \<longleftrightarrow>
     (\<forall>h b. cs_block_by_hash cs h = Some b \<longrightarrow> (\<exists>chain u. tree_entry cr cs h b chain u)) \<and>
     (\<forall>h. cs_heads cs h = (if childless cs h then cs_block_by_hash cs h else None)) \<and>
     (case cs_current_chain_hash cs of None \<Rightarrow> cs_block_by_hash cs = Map.empty | Some h \<Rightarrow> cs_heads cs h \<noteq> None) \<and>
     pbc_block_by_hash (cs_public_key_balances_by_hash cs) = cs_block_by_hash cs \<and>
     cache_ok cr (cs_public_key_balances_by_hash cs)"

lemma tree_ok_entry: "tree_ok cr cs \<Longrightarrow> cs_block_by_hash cs h = Some b \<Longrightarrow> \<exists>chain u. tree_entry cr cs h b chain u"
  by (simp add: tree_ok_def)

lemma tree_childless_new:
  assumes "tree_ok cr cs" and "cs_block_by_hash cs h = None" and "h \<noteq> zero_hash"
  shows "childless cs h"
  unfolding childless_def
proof
  fix b assume "b \<in> ran (cs_block_by_hash cs)"
  then obtain k chain where "cs_block_by_hash cs k = Some b" "chain_to (cs_block_by_hash cs) k chain"
    using tree_ok_entry [OF assms(1)] by (fastforce simp: ran_def tree_entry_def)
  from this(2,1) show "block_previous_block_hash b \<noteq> h"
    by (cases rule: chain_to.cases) (use assms(2,3) chain_to_last in fastforce)+
qed

lemma tree_step:
  assumes ok: "tree_ok cr cs" and "hangs_on cr cs b" and "add_block_no_validation cr cs b = Inr cs'"
  shows "tree_ok cr cs'"
proof -
  let ?prev = "block_previous_block_hash b"
  obtain h where h: "block_hash cr b = Inr h" "h \<noteq> zero_hash" "cs_block_by_hash cs h = None" "length h = 32"
    using assms(2) by (auto simp: hangs_on_def new_block_def)
  obtain u0 u n c where u: "parent_unspent cs b = Inr u0" "uto_apply_block cr u0 b = Inr u"
    and n: "next_height_index cs b h = Inr n" and c: "next_current_chain_hash cs b h = Inr c"
    and cs': "cs' = mk_coinstate ((cs_block_by_hash cs)(h \<mapsto> b)) ((cs_unspent_transaction_outs_by_hash cs)(h \<mapsto> u)) n
      ((cs_heads cs)(?prev := None, h \<mapsto> b)) (Some c)"
    by (rule add_block_no_validationE [OF assms(3) h(1)])
  have heads: "cs_heads cs k = (if childless cs k then cs_block_by_hash cs k else None)" for k
    using ok by (simp add: tree_ok_def)
  have prev: "?prev \<noteq> h" using assms(2) h(2,3) by (auto simp: hangs_on_def split: if_splits)
  have mono: "chain_to (cs_block_by_hash cs') k chain" if "chain_to (cs_block_by_hash cs) k chain" for k chain
    by (rule chain_to_mono [OF that]) (use h(3) in \<open>auto simp: cs'\<close>)
  have new: "\<exists>chain. tree_entry cr cs' h b chain u"
  proof (cases "?prev = zero_hash")
    case True
    then have "u0 = Map.empty" "n = [h \<mapsto> [0 \<mapsto> b]]" using u n by (simp_all add: parent_unspent_def next_height_index_def)
    with True u h(1,4) have "tree_entry cr cs' h b [b] u"
      by (auto simp: tree_entry_def cs' claimed_map_def replay_def intro!: chain_to.genesis)
    then show ?thesis by blast
  next
    case False
    then obtain p where "cs_block_by_hash cs ?prev = Some p" using assms(2) by (auto simp: hangs_on_def)
    then obtain chain v where p: "tree_entry cr cs ?prev p chain v" using tree_ok_entry [OF ok] by blast
    then have "v = u0" "n = (cs_block_by_height_by_hash cs)(h \<mapsto> (claimed_map chain)(block_height b \<mapsto> b))"
      using u n False by (auto simp: tree_entry_def parent_unspent_def next_height_index_def lookup_key_def)
    moreover have "chain_to (cs_block_by_hash cs') h (chain @ [b])"
      using p False mono by (intro chain_to.extend) (simp_all add: tree_entry_def, simp add: cs')
    moreover have "chain \<noteq> []" using p chain_to_last by (auto simp: tree_entry_def)
    ultimately have "tree_entry cr cs' h b (chain @ [b]) u"
      using p u h(1,4) by (simp add: tree_entry_def) (simp add: cs' claimed_map_snoc replay_snoc)
    then show ?thesis by blast
  qed
  have entries: "\<exists>chain u. tree_entry cr cs' k d chain u" if "cs_block_by_hash cs' k = Some d" for k d
  proof (cases "k = h")
    case True
    with that new show ?thesis by (auto simp: cs')
  next
    case False
    with that have k: "cs_block_by_hash cs k = Some d" by (simp add: cs')
    then obtain chain v where e: "tree_entry cr cs k d chain v" using tree_ok_entry [OF ok] by blast
    from k have "cs_block_by_hash cs \<noteq> Map.empty" by auto
    then have "?prev \<noteq> zero_hash" using assms(2) by (auto simp: hangs_on_def)
    then have "n k = cs_block_by_height_by_hash cs k" using n False by (auto simp: next_height_index_def rbind_eq_Inr)
    with e False mono [of k chain] have "tree_entry cr cs' k d chain v" by (simp add: tree_entry_def) (simp add: cs')
    then show ?thesis by blast
  qed
  have "childless cs' k \<longleftrightarrow> childless cs k \<and> ?prev \<noteq> k" for k
    using ran_map_upd [where m = "cs_block_by_hash cs", OF h(3)] by (auto simp: childless_def cs')
  then have heads': "cs_heads cs' k = (if childless cs' k then cs_block_by_hash cs' k else None)" for k
    using heads [of k] tree_childless_new [OF ok h(3,2)] prev by (simp add: cs')
  have "c = h \<or> (\<exists>cur. cs_current_chain_hash cs = Some cur \<and> c = cur \<and> cur \<noteq> ?prev)"
    using c by (auto simp: next_current_chain_hash_def rbind_eq_Inr split: option.splits if_splits)
  then have "cs_heads cs' c \<noteq> None" using ok by (auto simp: cs' tree_ok_def)
  with entries heads' show ?thesis by (simp add: tree_ok_def) (simp add: cs' cache_ok_def)
qed

interpretation tree_machine: invariant_of "hangs_on cr" "add_block_no_validation cr" empty_coinstate "tree_ok cr" for cr
proof unfold_locales
  show "tree_ok cr empty_coinstate" by (simp add: tree_ok_def empty_coinstate_def cache_ok_def)
qed (rule tree_step)

abbreviation tree_reachable :: "crypto \<Rightarrow> coinstate \<Rightarrow> bool" where
  "tree_reachable cr \<equiv> reachable (hangs_on cr) (add_block_no_validation cr) empty_coinstate"

text \<open>Where the blocks of the main chain keep to the rules of \<open>block_fresh\<close>, the balances describe the unspent outputs.\<close>

lemma tree_balances_at_head:
  assumes ok: "tree_ok cr cs" and cur: "cs_current_chain_hash cs = Some cur"
    and chain: "chain_at_hash (cs_block_by_hash cs) cur = Inr chain" and fresh: "chain_fresh cr Map.empty chain"
  shows "\<exists>cs' m u. balances_at_head cr cs = Inr (cs', m) \<and> unspent_at_head cs = Inr u \<and> describes u m"
proof -
  have "cs_heads cs cur = (if childless cs cur then cs_block_by_hash cs cur else None)"
    using ok unfolding tree_ok_def by blast
  then obtain b where "cs_block_by_hash cs cur = Some b" using ok cur by (auto simp: tree_ok_def split: if_splits)
  then obtain chain' u where e: "tree_entry cr cs cur b chain' u" using tree_ok_entry [OF ok] by blast
  then have "chain' = chain" using chain chain_at_hash_chain_to by (fastforce simp: tree_entry_def)
  with e have u: "rfold (uto_apply_block cr) Map.empty chain = Inr u" by (simp add: tree_entry_def replay_def)
  obtain m where "rfold (balances_step cr) (Map.empty, Map.empty) chain = Inr (m, u)" and m: "describes u m"
    using balances_run_describes [OF u describes_empty fresh] by blast
  then have m_eq: "public_key_balances_by_hash cr (cs_block_by_hash cs) (Some cur) = Inr m"
    using chain by (simp add: public_key_balances_by_hash_def)
  have "cache_ok cr (cs_public_key_balances_by_hash cs)"
    and "pbc_block_by_hash (cs_public_key_balances_by_hash cs) = cs_block_by_hash cs"
    using ok by (simp_all add: tree_ok_def)
  then obtain c' where "pkb_getitem cr (cs_public_key_balances_by_hash cs) cur = Inr (c', m)"
    using m_eq by (cases "pbc_cache (cs_public_key_balances_by_hash cs) cur") (auto simp: pkb_getitem_def cache_ok_def)
  moreover have "cur \<noteq> []" using e by (auto simp: tree_entry_def)
  ultimately have "balances_at_head cr cs = Inr (cs\<lparr>cs_public_key_balances_by_hash := c'\<rparr>, m)" "unspent_at_head cs = Inr u"
    using cur e by (simp_all add: balances_at_head_def unspent_at_head_def assert_current_def lookup_key_def tree_entry_def)
  with m show ?thesis by blast
qed

section \<open>Where all heights are right\<close>

definition heights_right :: "coinstate \<Rightarrow> bool" where
  "heights_right cs \<longleftrightarrow> (\<forall>b\<in>ran (cs_block_by_hash cs).
     if block_previous_block_hash b = zero_hash then block_height b = 0
     else \<exists>p. cs_block_by_hash cs (block_previous_block_hash b) = Some p \<and> block_height b = block_height p + 1)"

text \<open>Such a state was reached by blocks that attach: the condition on the last state gives that on every step.\<close>

lemma heights_right_reachable:
  assumes "tree_reachable cr cs" and "heights_right cs"
  shows "coinstate_reachable cr cs"
  using assms
proof (induction rule: reachable.induct)
  case (step cs b cs')
  have ok: "tree_ok cr cs" using step.hyps(1) by (rule tree_machine.reachable_inv)
  obtain h where h: "block_hash cr b = Inr h" "length h = 32" "h \<noteq> zero_hash" "cs_block_by_hash cs h = None"
    using step.hyps(2) by (auto simp: hangs_on_def new_block_def)
  have blocks: "cs_block_by_hash cs' = (cs_block_by_hash cs)(h \<mapsto> b)"
    by (rule add_block_no_validationE [OF step.hyps(3) h(1)]) simp
  have "heights_right cs"
    unfolding heights_right_def
  proof
    fix d assume "d \<in> ran (cs_block_by_hash cs)"
    then obtain k chain where k: "cs_block_by_hash cs k = Some d" "chain_to (cs_block_by_hash cs) k chain"
      using tree_ok_entry [OF ok] by (fastforce simp: ran_def tree_entry_def)
    have "cs_block_by_hash cs' k = Some d" using k(1) h(4) by (auto simp: blocks)
    then have "d \<in> ran (cs_block_by_hash cs')" by (rule ranI)
    with step.prems have right: "if block_previous_block_hash d = zero_hash then block_height d = 0
        else \<exists>p. cs_block_by_hash cs' (block_previous_block_hash d) = Some p \<and> block_height d = block_height p + 1"
      unfolding heights_right_def by blast
    from k(2,1) have "block_previous_block_hash d = zero_hash \<or> cs_block_by_hash cs (block_previous_block_hash d) \<noteq> None"
      by (cases rule: chain_to.cases) (auto dest: chain_to_last)
    with right h(4) show "if block_previous_block_hash d = zero_hash then block_height d = 0
        else \<exists>p. cs_block_by_hash cs (block_previous_block_hash d) = Some p \<and> block_height d = block_height p + 1"
      by (auto simp: blocks split: if_splits)
  qed
  then have "coinstate_reachable cr cs" by (rule step.IH)
  moreover have "attaches cr cs b"
  proof -
    have "b \<in> ran (cs_block_by_hash cs')" by (auto simp: blocks ran_def)
    with step.prems have "if block_previous_block_hash b = zero_hash then block_height b = 0
        else \<exists>p. cs_block_by_hash cs' (block_previous_block_hash b) = Some p \<and> block_height b = block_height p + 1"
      unfolding heights_right_def by blast
    with step.hyps(2) h show ?thesis by (auto simp: attaches_def hangs_on_def blocks split: if_splits)
  qed
  ultimately show ?case using step.hyps(3) by (rule reachable.step)
qed (rule reachable.init)

lemma attaches_hangs_on: "attaches cr cs b \<Longrightarrow> hangs_on cr cs b"
  by (auto simp: attaches_def hangs_on_def new_block_def split: if_splits)

lemma coinstate_reachable_tree: "coinstate_reachable cr cs \<Longrightarrow> tree_reachable cr cs"
  by (induction rule: reachable.induct) (auto intro: reachable.intros attaches_hangs_on)

lemma last_index: "chain \<noteq> [] \<Longrightarrow> int (length chain - Suc 0) = int (length chain) - 1"
  by (cases chain) simp_all

lemma heights_right_in_place:
  "chain_to (cs_block_by_hash cs) h chain \<Longrightarrow> heights_right cs \<Longrightarrow> in_place chain"
proof (induction rule: chain_to.induct)
  case (genesis h b)
  have "b \<in> ran (cs_block_by_hash cs)" using genesis(1) by (rule ranI)
  with genesis(2,3) show ?case by (auto simp: heights_right_def in_place_def)
next
  case (extend b chain h)
  have "chain \<noteq> []" and last: "cs_block_by_hash cs (block_previous_block_hash b) = Some (last chain)"
    using chain_to_last [OF extend.hyps(1)] by auto
  moreover have "b \<in> ran (cs_block_by_hash cs)" using extend.hyps(2) by (rule ranI)
  then have "block_height b = block_height (last chain) + 1"
    using extend.hyps(3) extend.prems last by (fastforce simp: heights_right_def)
  moreover have "in_place chain" by (rule extend.IH [OF extend.prems])
  ultimately show ?case by (auto simp: in_place_def nth_append last_conv_nth less_Suc_eq last_index)
qed

section \<open>An example\<close>

text \<open>A child of the first block that claims height 7.\<close>

definition odd_child :: block where
  "odd_child = sample_block 7 (sample_hash 1) (sample_hash 2) [sample_transaction 9 [] [sample_output 10 4]]"

definition odd_state :: coinstate where
  "odd_state = projr (add_block_no_validation toy_crypto sample_coinstate odd_child)"

lemma odd_state:
  "tree_reachable toy_crypto odd_state" "cs_block_by_hash odd_state (sample_hash 2) = Some odd_child"
  "cs_block_by_hash odd_state (sample_hash 1) = Some sample_genesis" "\<not> heights_right odd_state"
  "cs_current_chain_hash odd_state = Some (sample_hash 2)"
proof -
  have p: "parent_unspent sample_coinstate odd_child = Inr sample_unspent"
    by (simp add: parent_unspent_def odd_child_def sample_coinstate_def lookup_key_def)
  obtain u where u: "uto_apply_block toy_crypto sample_unspent odd_child = Inr u"
    by (simp add: uto_apply_block_def odd_child_def first_elem_def rbind_eq_Inr uto_apply_transaction_eq_Inr
        tx_spent_def tx_outputs_ok_def tx_created_def)
  have hash: "block_hash toy_crypto odd_child = Inr (sample_hash 2)" by (simp add: odd_child_def)
  have "\<exists>n. next_height_index sample_coinstate odd_child (sample_hash 2) = Inr n"
    "next_current_chain_hash sample_coinstate odd_child (sample_hash 2) = Inr (sample_hash 2)"
    by (simp_all add: next_height_index_def next_current_chain_hash_def lookup_key_def odd_child_def sample_coinstate_def)
  with p u hash have "\<exists>cs. add_block_no_validation toy_crypto sample_coinstate odd_child = Inr cs \<and>
      cs_current_chain_hash cs = Some (sample_hash 2)"
    by (auto simp: add_block_no_validation_def)
  then have cur: "cs_current_chain_hash odd_state = Some (sample_hash 2)"
    and add: "add_block_no_validation toy_crypto sample_coinstate odd_child = Inr odd_state"
    by (auto simp: odd_state_def)
  show "cs_current_chain_hash odd_state = Some (sample_hash 2)" by (rule cur)
  have "hangs_on toy_crypto sample_coinstate odd_child"
    by (simp add: hangs_on_def new_block_def odd_child_def sample_coinstate_def)
  from reachable.step [OF coinstate_reachable_tree [OF sample_reachable] this add]
  show "tree_reachable toy_crypto odd_state" .
  have "cs_block_by_hash odd_state = (cs_block_by_hash sample_coinstate)(sample_hash 2 \<mapsto> odd_child)"
    by (rule add_block_no_validationE [OF add hash]) (drule arg_cong [where f = cs_block_by_hash], simp)
  then have "cs_block_by_hash odd_state = [sample_hash 1 \<mapsto> sample_genesis, sample_hash 2 \<mapsto> odd_child]"
    by (simp add: sample_coinstate_def)
  then show stored: "cs_block_by_hash odd_state (sample_hash 2) = Some odd_child"
    and first: "cs_block_by_hash odd_state (sample_hash 1) = Some sample_genesis" by simp_all
  have "odd_child \<in> ran (cs_block_by_hash odd_state)" using stored by (rule ranI)
  moreover have "block_previous_block_hash odd_child = sample_hash 1" "block_height odd_child = 7" "block_height sample_genesis = 0"
    by (simp_all add: odd_child_def sample_genesis_def)
  ultimately show "\<not> heights_right odd_state" using first
    unfolding heights_right_def by (intro notI) (drule (1) bspec, simp)
qed

text \<open>A chain of up to 100 blocks, each with a coinbase of its own.\<close>

definition tower_hash :: "nat \<Rightarrow> bytes" where
  "tower_hash k = sample_hash (of_nat (Suc k))"

definition tower_coinbase :: "nat \<Rightarrow> transaction" where
  "tower_coinbase k = sample_transaction (of_nat (Suc k)) [] [sample_output (10 + int k) 3]"

definition tower_block :: "nat \<Rightarrow> block" where
  "tower_block k = sample_block (int k) (if k = 0 then zero_hash else tower_hash (k - 1)) (tower_hash k) [tower_coinbase k]"

primrec tower_state :: "nat \<Rightarrow> coinstate" where
  "tower_state 0 = projr (add_block_no_validation toy_crypto empty_coinstate (tower_block 0))"
| "tower_state (Suc n) = projr (add_block_no_validation toy_crypto (tower_state n) (tower_block (Suc n)))"

lemma tower_hash_eq: "k < 100 \<Longrightarrow> l < 100 \<Longrightarrow> tower_hash k = tower_hash l \<longleftrightarrow> k = l"
  by (auto simp: tower_hash_def word_unat_eq_iff unat_of_nat simp del: of_nat_Suc)

lemma tower_hash_zero: "k < 100 \<Longrightarrow> tower_hash k \<noteq> zero_hash"
  by (simp add: tower_hash_def word_unat_eq_iff unat_of_nat del: of_nat_Suc)

lemma tower_block_simps [simp]:
  "block_hash cr (tower_block k) = Inr (tower_hash k)" "block_height (tower_block k) = int k"
  "blk_transactions (tower_block k) = [tower_coinbase k]"
  "block_previous_block_hash (tower_block k) = (if k = 0 then zero_hash else tower_hash (k - 1))"
  "length (tower_hash k) = 32"
  by (simp_all add: tower_block_def tower_hash_def)

lemma tower_applies: "\<exists>u'. uto_apply_block cr u (tower_block k) = Inr u'"
  by (simp add: uto_apply_block_def first_elem_def rbind_eq_Inr uto_apply_transaction_eq_Inr tx_spent_def tx_outputs_ok_def
      tx_created_def tower_coinbase_def)

lemma tower_facts:
  assumes "n < 100"
  shows "coinstate_reachable toy_crypto (tower_state n) \<and> cs_current_chain_hash (tower_state n) = Some (tower_hash n) \<and>
    chain_to (cs_block_by_hash (tower_state n)) (tower_hash n) (map tower_block [0..<Suc n]) \<and>
    dom (cs_block_by_hash (tower_state n)) = tower_hash ` {..n}"
  using assms
proof (induction n)
  case 0
  have att: "attaches toy_crypto empty_coinstate (tower_block 0)"
    using tower_hash_zero [of 0] by (simp add: attaches_def empty_coinstate_def)
  obtain u where "uto_apply_block toy_crypto Map.empty (tower_block 0) = Inr u" using tower_applies by blast
  then obtain cs where "add_block_no_validation toy_crypto empty_coinstate (tower_block 0) = Inr cs"
    using add_block_returns [OF cs_ok_empty att tower_block_simps(1)] by (fastforce simp: parent_unspent_def)
  then have add: "add_block_no_validation toy_crypto empty_coinstate (tower_block 0) = Inr (tower_state 0)" by simp
  have blocks: "cs_block_by_hash (tower_state 0) = [tower_hash 0 \<mapsto> tower_block 0]"
    using add_block_maps(1) [OF add _ att] by (simp add: empty_coinstate_def)
  then have "chain_to (cs_block_by_hash (tower_state 0)) (tower_hash 0) [tower_block 0]"
    by (intro chain_to.genesis) simp_all
  moreover have "cs_current_chain_hash (tower_state 0) = Some (tower_hash 0)"
    using add_block_head [OF cs_ok_empty att add] by (simp add: empty_coinstate_def)
  moreover have "coinstate_reachable toy_crypto (tower_state 0)"
    by (rule reachable.step) (rule reachable.init att add)+
  moreover have "dom (cs_block_by_hash (tower_state 0)) = tower_hash ` {..0}"
    by (simp add: blocks del: tower_state.simps)
  ultimately show ?case by (simp del: tower_state.simps)
next
  case (Suc n)
  let ?cs = "tower_state n" and ?b = "tower_block (Suc n)" and ?h = "tower_hash (Suc n)"
  have reach: "coinstate_reachable toy_crypto ?cs" and cur: "cs_current_chain_hash ?cs = Some (tower_hash n)"
    and chain: "chain_to (cs_block_by_hash ?cs) (tower_hash n) (map tower_block [0..<Suc n])"
    and dom: "dom (cs_block_by_hash ?cs) = tower_hash ` {..n}"
    using Suc by simp_all
  have ok: "cs_ok toy_crypto ?cs" using reach by (rule coinstate_machine.reachable_inv)
  have p: "cs_block_by_hash ?cs (tower_hash n) = Some (tower_block n)" using chain_to_last [OF chain] by simp
  have "?h \<notin> dom (cs_block_by_hash ?cs)" using Suc.prems by (auto simp: dom tower_hash_eq)
  then have new: "cs_block_by_hash ?cs ?h = None" by blast
  have nz: "tower_hash n \<noteq> zero_hash" "?h \<noteq> zero_hash" using tower_hash_zero Suc.prems by simp_all
  then have att: "attaches toy_crypto ?cs ?b" using new p by (simp add: attaches_def)
  obtain c v where "entry_ok toy_crypto ?cs (tower_hash n) (tower_block n) c v" using cs_ok_entry [OF ok p] by blast
  then have u: "parent_unspent ?cs ?b = Inr v" using nz by (simp add: entry_ok_def parent_unspent_def lookup_key_def)
  obtain u' where "uto_apply_block toy_crypto v ?b = Inr u'" using tower_applies by blast
  then obtain cs where "add_block_no_validation toy_crypto ?cs ?b = Inr cs"
    using add_block_returns [OF ok att _ u] by auto
  then have add: "add_block_no_validation toy_crypto ?cs ?b = Inr (tower_state (Suc n))" by simp
  have blocks: "cs_block_by_hash (tower_state (Suc n)) = (cs_block_by_hash ?cs)(?h \<mapsto> ?b)"
    using add_block_maps(1) [OF add _ att] by simp
  have "chain_to (cs_block_by_hash (tower_state (Suc n))) (tower_hash n) (map tower_block [0..<Suc n])"
    by (rule chain_to_mono [OF chain]) (use new in \<open>auto simp: blocks simp del: tower_state.simps\<close>)
  then have "chain_to (cs_block_by_hash (tower_state (Suc n))) ?h (map tower_block [0..<Suc n] @ [?b])"
    using nz by (intro chain_to.extend) (simp_all add: blocks del: tower_state.simps)
  moreover have "cs_current_chain_hash (tower_state (Suc n)) = Some ?h"
    using add_block_head [OF ok att add] p by (simp add: cur del: tower_state.simps)
  moreover have "dom (cs_block_by_hash (tower_state (Suc n))) = tower_hash ` {..Suc n}"
    using dom by (simp add: blocks atMost_Suc del: tower_state.simps)
  moreover have "coinstate_reachable toy_crypto (tower_state (Suc n))"
    using reach att add by (rule reachable.step)
  ultimately show ?case by (simp del: tower_state.simps)
qed

lemma sample_heights_right: "heights_right sample_coinstate" "cs_block_by_hash sample_coinstate (sample_hash 1) = Some sample_genesis"
  using sample_hash_zero [of 1, THEN iffD1, OF sym]
  by (auto simp: heights_right_def sample_coinstate_def) (auto simp: sample_genesis_def)

section \<open>Properties\<close>

text \<open>
  C6: in every state reached by adding blocks that are new (with a hash of 32 bytes, not all zero) and have a stored
  parent (or are the first), whatever heights they claim, each stored block has a chain, walked back to the first block by \<open>chain_at_hash\<close>
  (which therefore returns), and the state stored under its hash is the one of that chain: the unspent outputs are
  those obtained by applying the chain's blocks in order to the empty map, and the height index maps the heights
  that the blocks of the chain claim, a later one overwriting an earlier one. Where the blocks of the chain
  claim their own places, and so wherever every stored block is one higher than its parent, the index maps exactly
  the heights of the chain to its blocks.
\<close>

theorem coinstate_tracks_chains:
  assumes "tree_reachable cr cs" and "cs_block_by_hash cs h = Some b"
  shows "\<exists>chain u. chain_at_hash (cs_block_by_hash cs) h = Inr chain \<and> last chain = b \<and>
    cs_unspent_transaction_outs_by_hash cs h = Some u \<and> rfold (uto_apply_block cr) Map.empty chain = Inr u \<and>
    cs_block_by_height_by_hash cs h = Some (claimed_map chain) \<and>
    (in_place chain \<longrightarrow> block_height b = int (length chain) - 1 \<and> cs_block_by_height_by_hash cs h = Some (chain_map chain)) \<and>
    (heights_right cs \<longrightarrow> in_place chain)"
proof -
  have "tree_ok cr cs" using assms(1) by (rule tree_machine.reachable_inv)
  then obtain chain u where e: "tree_entry cr cs h b chain u" using tree_ok_entry [OF _ assms(2)] by blast
  then have c: "chain_to (cs_block_by_hash cs) h chain" by (simp add: tree_entry_def)
  with assms(2) have last: "chain \<noteq> []" "last chain = b" by (auto dest: chain_to_last)
  then have "in_place chain \<longrightarrow> block_height b = int (length chain) - 1"
    by (auto simp: in_place_def last_conv_nth last_index)
  with e last chain_at_hash_chain_to [OF c] claimed_map_in_place [OF last(1)] heights_right_in_place [OF c]
  show ?thesis by (auto simp: tree_entry_def replay_def)
qed

theorem coinstate_tracks_chains_witness:
  "(\<exists>chain. chain_at_hash (cs_block_by_hash odd_state) (sample_hash 2) = Inr chain \<and> last chain = odd_child \<and>
     cs_block_by_height_by_hash odd_state (sample_hash 2) = Some (claimed_map chain)) \<and>
   (\<exists>chain. chain_at_hash (cs_block_by_hash sample_coinstate) (sample_hash 1) = Inr chain \<and>
     cs_block_by_height_by_hash sample_coinstate (sample_hash 1) = Some (chain_map chain))"
  using coinstate_tracks_chains [OF odd_state(1,2)] sample_heights_right(1)
    coinstate_tracks_chains [OF coinstate_reachable_tree [OF sample_reachable [of toy_crypto]] sample_heights_right(2)]
  by blast

text \<open>
  C19: in every state reached by adding blocks that are new (with a hash of 32 bytes, not all zero) and have a stored
  parent (or are the first), whatever heights they claim, \<open>heads\<close> holds exactly the blocks that no stored block names as its parent, and the current
  chain's head is one of them. Where every stored block is one higher than its parent, no stored block is higher
  than that head.
\<close>

theorem coinstate_heads_and_head:
  assumes "tree_reachable cr cs"
  shows "(cs_heads cs h = Some b \<longleftrightarrow>
      cs_block_by_hash cs h = Some b \<and>
      (\<nexists>k c. cs_block_by_hash cs k = Some c \<and> block_previous_block_hash c = h)) \<and>
    (case cs_current_chain_hash cs of
       None \<Rightarrow> cs_block_by_hash cs = Map.empty
     | Some cur \<Rightarrow> \<exists>cb. cs_head cs = Inr cb \<and> cs_heads cs cur = Some cb \<and>
         (heights_right cs \<longrightarrow> (\<forall>b\<in>ran (cs_block_by_hash cs). block_height b \<le> block_height cb)))"
proof
  have ok: "tree_ok cr cs" using assms by (rule tree_machine.reachable_inv)
  then have heads: "cs_heads cs k = (if childless cs k then cs_block_by_hash cs k else None)" for k
    by (simp add: tree_ok_def)
  then show "cs_heads cs h = Some b \<longleftrightarrow> cs_block_by_hash cs h = Some b \<and>
      (\<nexists>k c. cs_block_by_hash cs k = Some c \<and> block_previous_block_hash c = h)"
    by (auto simp: childless_def ran_def)
  show "case cs_current_chain_hash cs of
       None \<Rightarrow> cs_block_by_hash cs = Map.empty
     | Some cur \<Rightarrow> \<exists>cb. cs_head cs = Inr cb \<and> cs_heads cs cur = Some cb \<and>
         (heights_right cs \<longrightarrow> (\<forall>b\<in>ran (cs_block_by_hash cs). block_height b \<le> block_height cb))"
  proof (cases "cs_current_chain_hash cs")
    case None
    with ok show ?thesis by (simp add: tree_ok_def)
  next
    case (Some cur)
    with ok obtain cb where cb: "cs_heads cs cur = Some cb" by (auto simp: tree_ok_def)
    then have head: "cs_head cs = Inr cb" using heads [of cur] by (simp add: cs_head_def Some lookup_key_def split: if_splits)
    have "block_height d \<le> block_height cb" if "heights_right cs" "d \<in> ran (cs_block_by_hash cs)" for d
      using coinstate_machine.reachable_inv [OF heights_right_reachable [OF assms that(1)]] that(2) head
      by (auto simp: cs_ok_def Some cs_head_def lookup_key_def)
    with head cb Some show ?thesis by auto
  qed
qed

theorem coinstate_heads_and_head_witness:
  "cs_heads odd_state (sample_hash 1) = None \<and> cs_head odd_state = Inr odd_child \<and>
     cs_heads odd_state (sample_hash 2) = Some odd_child"
proof -
  have "block_previous_block_hash odd_child = sample_hash 1" by (simp add: odd_child_def)
  then have "cs_heads odd_state (sample_hash 1) \<noteq> Some b" for b
    using conjunct1 [OF coinstate_heads_and_head [OF odd_state(1), of "sample_hash 1" b]] odd_state(2) by blast
  moreover have "cs_head odd_state = Inr odd_child" using odd_state(2,5) by (simp add: cs_head_def lookup_key_def)
  ultimately show ?thesis
    using conjunct2 [OF coinstate_heads_and_head [OF odd_state(1)]] odd_state(5) by auto
qed

end
