(* ===== verification/Chain_Sync.thy ===== *)
theory Chain_Sync
  imports Chain_Manager Block_Tree
begin

text \<open>
  How a node catches up: the blocks it names when it asks for more (\<open>get_get_blocks_message\<close> of
  \<open>Chain_Manager\<close>) and the inventory another node answers with, the computation inside
  \<open>ConnectedRemotePeer.handle_get_blocks_message_received\<close> (\<open>skepticoin/networking/remote_peer.py\<close>).
  Shown: the answer is a contiguous piece of the answering node's main chain, and when the head of the
  node that asks is on that chain, the piece starts with the block after it.
\<close>

section \<open>The answer to a GetBlocksMessage\<close>

text \<open>
  The \<open>for ... else\<close> loop: \<open>None\<close> is the early return with an empty inventory.
\<close>

fun find_start_height :: "coinstate \<Rightarrow> bytes list \<Rightarrow> int option result" where
  "find_start_height cs [] = Inr (Some 1)"
| "find_start_height cs (potential_start_hash # hashes) =
     (case cs_block_by_hash cs potential_start_hash of
        None \<Rightarrow> find_start_height cs hashes
      | Some b \<Rightarrow>
          let start_height = block_height b + 1 in
          rbind (by_height_at_head cs) (\<lambda>by_height.
          case by_height start_height of
            None \<Rightarrow> Inr None
          | Some next_block \<Rightarrow>
              if block_previous_block_hash next_block = potential_start_hash then Inr (Some start_height)
              else find_start_height cs hashes))"

definition inventory_from :: "crypto \<Rightarrow> coinstate \<Rightarrow> int \<Rightarrow> inventory_item list result" where
  "inventory_from cr cs start_height =
     rbind (cs_head cs) (\<lambda>head.
     let max_height = block_height head + 1 in
     rmap (\<lambda>height.
         rbind (by_height_at_head cs) (\<lambda>by_height.
         rbind (lookup_key by_height height) (\<lambda>b.
         rbind (block_hash cr b) (\<lambda>h.
         Inr (mk_inventory_item DATA_BLOCK h)))))
       [start_height .. min (start_height + GET_BLOCKS_INVENTORY_SIZE) max_height - 1])"

definition get_blocks_reply :: "crypto \<Rightarrow> coinstate \<Rightarrow> bytes list \<Rightarrow> inventory_item list result" where
  "get_blocks_reply cr cs potential_start_hashes =
     rbind (find_start_height cs potential_start_hashes) (\<lambda>start.
     case start of None \<Rightarrow> Inr [] | Some start_height \<Rightarrow> inventory_from cr cs start_height)"

section \<open>The main chain\<close>

lemma chain_links:
  assumes "chain_to blocks h chain" and "Suc i < length chain"
  shows "blocks (block_previous_block_hash (chain ! Suc i)) = Some (chain ! i)"
proof -
  obtain k where k: "chain_to blocks k (take (Suc (Suc i)) chain)"
    using chain_to_nth [OF assms] by blast
  have split: "take (Suc (Suc i)) chain = take (Suc i) chain @ [chain ! Suc i]"
    using assms(2) by (rule take_Suc_conv_app_nth)
  have ne: "take (Suc i) chain \<noteq> []" using assms(2) by auto
  from k have "chain_to blocks (block_previous_block_hash (chain ! Suc i)) (take (Suc i) chain)"
    unfolding split by (rule chain_toE) (use ne in auto)
  from chain_to_last [OF this] show ?thesis
    using assms(2) by (simp add: take_Suc_conv_app_nth)
qed

text \<open>The facts about the main chain that the loops of both sides need.\<close>

definition main_chain :: "crypto \<Rightarrow> coinstate \<Rightarrow> block list \<Rightarrow> bytes list \<Rightarrow> bool" where
  "main_chain cr cs main hs \<longleftrightarrow> main \<noteq> [] \<and> length hs = length main \<and>
     cs_current_chain_hash cs = Some (last hs) \<and> cs_head cs = Inr (last main) \<and>
     by_height_at_head cs = Inr (chain_map main) \<and>
     (\<forall>i<length main. cs_block_by_hash cs (hs ! i) = Some (main ! i) \<and> block_hash cr (main ! i) = Inr (hs ! i) \<and>
        block_height (main ! i) = int i) \<and>
     (\<forall>i. Suc i < length main \<longrightarrow> block_previous_block_hash (main ! Suc i) = hs ! i) \<and>
     (\<forall>h b. cs_block_by_hash cs h = Some b \<longrightarrow>
        block_hash cr b = Inr h \<and> 0 \<le> block_height b \<and> block_height b < int (length main))"

lemma cs_ok_main_chain:
  assumes ok: "cs_ok cr cs" and cur: "cs_current_chain_hash cs = Some cur"
  shows "\<exists>main hs. chain_at_hash (cs_block_by_hash cs) cur = Inr main \<and> main_chain cr cs main hs"
proof -
  obtain b main u where e: "entry_ok cr cs cur b main u" using cs_ok_current [OF ok cur] by blast
  then have c: "chain_to (cs_block_by_hash cs) cur main" and len: "block_height b = int (length main) - 1"
    and b: "cs_block_by_hash cs cur = Some b" by (simp_all add: entry_ok_def)
  have last: "main \<noteq> []" "b = last main" using chain_to_last [OF c] b by simp_all
  define hs where "hs = map (\<lambda>b. projr (block_hash cr b)) main"
  have nth: "\<exists>k. cs_block_by_hash cs k = Some (main ! i) \<and> block_hash cr (main ! i) = Inr k \<and>
      block_height (main ! i) = int i" if i: "i < length main" for i
  proof -
    obtain k where k: "cs_block_by_hash cs k = Some (main ! i)"
      "chain_to (cs_block_by_hash cs) k (take (Suc i) main)" using chain_to_nth [OF c i] by blast
    from cs_ok_entry [OF ok k(1)] obtain ch v where "entry_ok cr cs k (main ! i) ch v" by blast
    then have "block_height (main ! i) = int (length ch) - 1" and "chain_to (cs_block_by_hash cs) k ch"
      by (simp_all add: entry_ok_def)
    moreover from this have "take (Suc i) main = ch" using chain_to_unique [OF k(2)] by blast
    ultimately have "block_height (main ! i) = int i" using i by auto
    with k(1) cs_ok_hash [OF ok k(1)] show ?thesis by blast
  qed
  have cur_hash: "last hs = cur"
    using cs_ok_hash [OF ok b] last by (simp add: hs_def last_map)
  have links: "block_previous_block_hash (main ! Suc i) = hs ! i" if "Suc i < length main" for i
    using cs_ok_hash [OF ok chain_links [OF c that]] that by (simp add: hs_def)
  have all: "0 \<le> block_height b' \<and> block_height b' < int (length main)"
    if b': "cs_block_by_hash cs h = Some b'" for h b'
  proof -
    from cs_ok_entry [OF ok b'] obtain ch v where "entry_ok cr cs h b' ch v" by blast
    then have "block_height b' = int (length ch) - 1" "ch \<noteq> []"
      using chain_to_last by (auto simp: entry_ok_def)
    moreover have "block_height b' \<le> block_height b"
      using ok cur b b' by (auto simp: cs_ok_def ran_def)
    ultimately show ?thesis using len by (cases ch) auto
  qed
  have "cs_block_by_hash cs (hs ! i) = Some (main ! i) \<and> block_hash cr (main ! i) = Inr (hs ! i) \<and>
      block_height (main ! i) = int i" if "i < length main" for i
    using nth [OF that] that by (auto simp: hs_def)
  moreover have "length hs = length main" by (simp add: hs_def)
  ultimately have "main_chain cr cs main hs"
    using last links all cs_ok_hash [OF ok] cur cur_hash cs_ok_at_head(2,3) [OF ok cur e]
    unfolding main_chain_def by blast
  with chain_at_hash_chain_to [OF c] show ?thesis by blast
qed

lemma main_chain_lookup:
  "main_chain cr cs main hs \<Longrightarrow> i < length main \<Longrightarrow> chain_map main (int i) = Some (main ! i)"
  by (simp add: chain_map_def)

text \<open>Hashes of the main chain, looked up height by height.\<close>

lemma main_chain_hashes:
  assumes "main_chain cr cs main hs" and "\<forall>x\<in>set xs. 0 \<le> x \<and> x < int (length main)"
    and "\<And>b h. block_hash cr b = Inr h \<Longrightarrow> g b = Inr (f h)"
  shows "rmap (\<lambda>height. rbind (by_height_at_head cs) (\<lambda>by_height. rbind (lookup_key by_height height) g)) xs =
    Inr (map (\<lambda>x. f (hs ! nat x)) xs)"
  using assms(2)
proof (induction xs)
  case (Cons x xs)
  then have "chain_map main x = Some (main ! nat x)" "g (main ! nat x) = Inr (f (hs ! nat x))"
    using assms(1,3) by (auto simp: main_chain_def chain_map_def nat_less_iff)
  with Cons assms(1) show ?case by (simp add: main_chain_def lookup_key_def)
qed simp

section \<open>What is answered\<close>

text \<open>What the loop has found, among the hashes \<open>S\<close>: a block as high as the head, or where to start.\<close>

definition start_ok :: "coinstate \<Rightarrow> block list \<Rightarrow> bytes list \<Rightarrow> bytes set \<Rightarrow> int option \<Rightarrow> bool" where
  "start_ok cs main hs S start \<longleftrightarrow>
    (case start of
       None \<Rightarrow> \<exists>h\<in>S. \<exists>b. cs_block_by_hash cs h = Some b \<and> block_height b = int (length main) - 1
     | Some n \<Rightarrow> n = 1 \<or> (\<exists>i. n = int i + 1 \<and> Suc i < length main \<and> hs ! i \<in> S))"

lemma start_ok_mono: "start_ok cs main hs S start \<Longrightarrow> S \<subseteq> T \<Longrightarrow> start_ok cs main hs T start"
  by (cases start) (auto simp: start_ok_def)

lemma find_start_height_main:
  assumes "main_chain cr cs main hs"
  shows "\<exists>start. find_start_height cs hashes = Inr start \<and> start_ok cs main hs (set hashes) start"
proof (induction hashes)
  case Nil
  then show ?case by (simp add: start_ok_def)
next
  case (Cons h hashes)
  then have later: "\<exists>start. find_start_height cs hashes = Inr start \<and> start_ok cs main hs (set (h # hashes)) start"
    by (auto intro: start_ok_mono)
  show ?case
  proof (cases "cs_block_by_hash cs h")
    case None
    with later show ?thesis by simp
  next
    case (Some b)
    then have b: "0 \<le> block_height b" "block_height b < int (length main)"
      using assms by (auto simp: main_chain_def)
    define i where "i = nat (block_height b)"
    have i: "block_height b = int i" "i < length main" using b by (simp_all add: i_def nat_less_iff)
    have at: "by_height_at_head cs = Inr (chain_map main)" using assms by (simp add: main_chain_def)
    show ?thesis
    proof (cases "Suc i < length main")
      case True
      then have "chain_map main (block_height b + 1) = Some (main ! Suc i)"
        by (simp add: chain_map_def i nat_add_distrib)
      moreover have "block_previous_block_hash (main ! Suc i) = hs ! i"
        using assms True by (simp add: main_chain_def)
      moreover have "start_ok cs main hs (set (h # hashes)) (Some (int i + 1))" if "hs ! i = h"
        using True that by (auto simp: start_ok_def)
      ultimately show ?thesis
        using later at i Some by (cases "hs ! i = h") simp_all
    next
      case False
      then have "chain_map main (block_height b + 1) = None" by (simp add: chain_map_def i)
      moreover have "start_ok cs main hs (set (h # hashes)) None" using False i Some by (auto simp: start_ok_def)
      ultimately show ?thesis using at Some by simp
    qed
  qed
qed

lemma map_nth_interval:
  fixes n :: nat
  assumes "n \<le> length xs"
  shows "map (\<lambda>x. f (xs ! nat x)) [int n .. min (int n + k) (int (length xs)) - 1] = map f (take (nat k) (drop n xs))"
proof (cases "0 \<le> k")
  case True
  define m where "m = min (n + nat k) (length xs)"
  have m: "min (int n + k) (int (length xs)) = int m" using True by (simp add: m_def of_nat_min)
  have "map (\<lambda>x. f (xs ! nat x)) [int n .. int m - 1] = map (\<lambda>i. f (xs ! i)) [n..<m]"
    by (rule nth_equalityI) (auto simp: nat_add_distrib)
  also have "\<dots> = map f (take (m - n) (drop n xs))"
    using assms by (intro nth_equalityI) (auto simp: m_def less_diff_conv add.commute)
  also have "take (m - n) (drop n xs) = take (nat k) (drop n xs)"
    by (cases "n + nat k \<le> length xs") (simp_all add: m_def)
  finally show ?thesis by (simp add: m)
qed (use assms in simp)

lemma inventory_from_main:
  assumes main: "main_chain cr cs main hs" and n: "1 \<le> n"
  shows "inventory_from cr cs (int n) =
    Inr (map (mk_inventory_item DATA_BLOCK) (take (nat GET_BLOCKS_INVENTORY_SIZE) (drop n hs)))"
proof -
  have len: "length hs = length main" and head: "cs_head cs = Inr (last main)"
    and height: "block_height (last main) + 1 = int (length hs)"
    using main by (auto simp: main_chain_def last_conv_nth of_nat_diff Suc_leI)
  let ?r = "[int n .. min (int n + GET_BLOCKS_INVENTORY_SIZE) (int (length hs)) - 1]"
  have "inventory_from cr cs (int n) = Inr (map (\<lambda>x. mk_inventory_item DATA_BLOCK (hs ! nat x)) ?r)"
    unfolding inventory_from_def head rbind.simps height Let_def
    by (rule main_chain_hashes [OF main]) (auto simp: len)
  also have "map (\<lambda>x. mk_inventory_item DATA_BLOCK (hs ! nat x)) ?r =
      map (mk_inventory_item DATA_BLOCK) (take (nat GET_BLOCKS_INVENTORY_SIZE) (drop n hs))"
  proof (cases "n \<le> length hs")
    case True
    then show ?thesis by (rule map_nth_interval)
  next
    case False
    then show ?thesis by (auto simp: min_def)
  qed
  finally show ?thesis .
qed

lemma get_blocks_reply_main:
  assumes "main_chain cr cs main hs"
  shows "\<exists>n. 1 \<le> n \<and> get_blocks_reply cr cs hashes =
      Inr (map (mk_inventory_item DATA_BLOCK) (take (nat GET_BLOCKS_INVENTORY_SIZE) (drop n hs))) \<and>
    (n = 1 \<or> (n \<le> length main \<and> (\<exists>h\<in>set hashes. \<exists>b. cs_block_by_hash cs h = Some b \<and>
       block_height b = int n - 1 \<and> (n < length main \<longrightarrow> h = hs ! (n - 1)))))"
proof -
  obtain start where s: "find_start_height cs hashes = Inr start" "start_ok cs main hs (set hashes) start"
    using find_start_height_main [OF assms] by blast
  have len: "length hs = length main" "1 \<le> length main"
    using assms by (auto simp: main_chain_def Suc_leI)
  show ?thesis
  proof (cases start)
    case None
    with s have "get_blocks_reply cr cs hashes = Inr []" by (simp add: get_blocks_reply_def)
    moreover have "drop (length main) hs = []" by (simp add: len)
    ultimately show ?thesis
      using s(2) len None by (intro exI [of _ "length main"]) (auto simp: start_ok_def)
  next
    case (Some n)
    define m where "m = nat n"
    have m: "n = int m" "1 \<le> m" "m = 1 \<or> (m < length main \<and> hs ! (m - 1) \<in> set hashes)"
      using s(2) Some by (auto simp: start_ok_def m_def nat_add_distrib)
    have "cs_block_by_hash cs (hs ! (m - 1)) = Some (main ! (m - 1)) \<and> block_height (main ! (m - 1)) = int m - 1"
      if "m < length main" using assms m(2) that by (simp add: main_chain_def of_nat_diff)
    moreover have "get_blocks_reply cr cs hashes =
        Inr (map (mk_inventory_item DATA_BLOCK) (take (nat GET_BLOCKS_INVENTORY_SIZE) (drop m hs)))"
      using s(1) Some m(1) inventory_from_main [OF assms m(2)] by (simp add: get_blocks_reply_def)
    ultimately show ?thesis using m(2,3) by (intro exI [of _ m]) auto
  qed
qed

text \<open>The hashes a node names: its head first, and then older and older blocks of its main chain.\<close>

lemma oldness_Cons: "oldness = 0 # map int [1..<10] @ map (\<lambda>x. int x ^ 2) [4..<64]"
  unfolding oldness_def by (subst upt_conv_Cons) simp_all

lemma recent_heights:
  "0 \<le> height \<Longrightarrow> \<exists>xs. get_recent_block_heights height = height # xs \<and> (\<forall>x\<in>set xs. 0 \<le> x \<and> x < height)"
  unfolding get_recent_block_heights_def oldness_Cons
  by (auto simp del: upt_rec_numeral upt_Suc)

lemma get_get_blocks_message_main:
  assumes "main_chain cr cs main hs"
  shows "\<exists>rest. get_get_blocks_message cr cs = Inr (GetBlocksMessage (last hs # rest) zero_hash) \<and> set rest \<subseteq> set hs"
proof -
  have ne: "main \<noteq> []" "length hs = length main" and head: "cs_head cs = Inr (last main)"
    and height: "block_height (last main) = int (length main) - 1"
    using assms by (auto simp: main_chain_def last_conv_nth of_nat_diff Suc_leI)
  then obtain xs where xs: "get_recent_block_heights (block_height (last main)) = block_height (last main) # xs"
    "\<forall>x\<in>set xs. 0 \<le> x \<and> x < block_height (last main)" using recent_heights [of "block_height (last main)"] by (auto simp: Suc_leI)
  have "rmap (\<lambda>height. rbind (by_height_at_head cs) (\<lambda>by_height. rbind (lookup_key by_height height) (block_hash cr)))
      (block_height (last main) # xs) = Inr (map (\<lambda>x. hs ! nat x) (block_height (last main) # xs))"
    by (rule main_chain_hashes [OF assms, where f = "\<lambda>h. h"]) (use xs(2) ne height in \<open>auto simp: Suc_leI\<close>)
  moreover have "hs \<noteq> []" and "nat (block_height (last main)) = length hs - 1" using ne height by auto
  then have "hs ! nat (block_height (last main)) = last hs" using last_conv_nth [of hs] by metis
  moreover have "set (map (\<lambda>x. hs ! nat x) xs) \<subseteq> set hs"
    using xs(2) ne height by (auto intro!: nth_mem simp: nat_less_iff)
  ultimately show ?thesis using xs(1) by (auto simp: get_get_blocks_message_def head)
qed

section \<open>Properties\<close>

text \<open>
  Whatever hashes a peer names, the answer is at most 500 consecutive blocks of the current main
  chain in ascending order (the items are their hashes, each the parent of the next), starting after
  a block that the peer named or after the genesis block; it is empty when a named block is as high
  as the head.
\<close>

theorem inventory_is_part_of_main_chain:
  assumes "coinstate_reachable cr cs" and "cs_current_chain_hash cs = Some cur"
  shows "\<exists>n hs main. get_blocks_reply cr cs hashes = Inr (map (mk_inventory_item DATA_BLOCK) hs) \<and>
    chain_at_hash (cs_block_by_hash cs) cur = Inr main \<and> 1 \<le> n \<and>
    list_all2 (\<lambda>h b. block_hash cr b = Inr h) hs (take 500 (drop n main)) \<and>
    (n = 1 \<or> (\<exists>h\<in>set hashes. \<exists>b. cs_block_by_hash cs h = Some b \<and> block_height b = int n - 1 \<and>
       (n < length main \<longrightarrow> b = main ! (n - 1))))"
proof -
  have "cs_ok cr cs" using assms(1) by (rule coinstate_machine.reachable_inv)
  then obtain main hs where main: "chain_at_hash (cs_block_by_hash cs) cur = Inr main" "main_chain cr cs main hs"
    using cs_ok_main_chain assms(2) by blast
  from get_blocks_reply_main [OF main(2), of hashes] obtain n where n: "1 \<le> n"
    "get_blocks_reply cr cs hashes = Inr (map (mk_inventory_item DATA_BLOCK) (take 500 (drop n hs)))"
    "n = 1 \<or> (n \<le> length main \<and> (\<exists>h\<in>set hashes. \<exists>b. cs_block_by_hash cs h = Some b \<and>
       block_height b = int n - 1 \<and> (n < length main \<longrightarrow> h = hs ! (n - 1))))" by auto
  have "list_all2 (\<lambda>h b. block_hash cr b = Inr h) (take 500 (drop n hs)) (take 500 (drop n main))"
    using main(2) by (auto simp: main_chain_def list_all2_conv_all_nth)
  moreover have "cs_block_by_hash cs (hs ! (n - 1)) = Some (main ! (n - 1))" if "n < length main"
    using main(2) that by (simp add: main_chain_def)
  ultimately show ?thesis using n main(1) by fastforce
qed

theorem inventory_is_part_of_main_chain_witness:
  "\<exists>hs. get_blocks_reply toy_crypto sample_coinstate [zero_hash] = Inr (map (mk_inventory_item DATA_BLOCK) hs)"
  using inventory_is_part_of_main_chain [OF sample_reachable, where cr = toy_crypto and cur = "sample_hash 1" and
      hashes = "[zero_hash]"]
  by (auto simp: sample_coinstate_def)

text \<open>
  C27: catching up makes progress, between nodes whose states were reached by blocks that attach (each one higher
  than its stored parent): if the head of the node that asks is a block of the main chain of the node that is asked, the answer to its \<open>GetBlocksMessage\<close> is exactly the blocks that follow
  that head there, at most 500 of them, so it is empty only when there is nothing to catch up.
\<close>

theorem catching_up_progresses:
  assumes "coinstate_reachable cr mine" and "cs_current_chain_hash mine = Some h"
    and "coinstate_reachable cr theirs" and "cs_current_chain_hash theirs = Some cur"
    and "chain_at_hash (cs_block_by_hash theirs) cur = Inr main"
    and "i < length main" and "block_hash cr (main ! i) = Inr h"
  shows "\<exists>rest hs. get_get_blocks_message cr mine = Inr (GetBlocksMessage (h # rest) zero_hash) \<and>
    get_blocks_reply cr theirs (h # rest) = Inr (map (mk_inventory_item DATA_BLOCK) hs) \<and>
    list_all2 (\<lambda>h b. block_hash cr b = Inr h) hs (take 500 (drop (Suc i) main))"
proof -
  have ok: "cs_ok cr mine" "cs_ok cr theirs"
    using assms(1,3) by (auto intro: coinstate_machine.reachable_inv)
  obtain main' hs' where "main_chain cr mine main' hs'" using cs_ok_main_chain [OF ok(1) assms(2)] by blast
  from get_get_blocks_message_main [OF this] this assms(2) obtain rest where
    ask: "get_get_blocks_message cr mine = Inr (GetBlocksMessage (h # rest) zero_hash)"
    by (auto simp: main_chain_def)
  obtain hs where main: "main_chain cr theirs main hs"
    using cs_ok_main_chain [OF ok(2) assms(4)] assms(5) by auto
  then have h: "hs ! i = h" "cs_block_by_hash theirs h = Some (main ! i)" "block_height (main ! i) = int i"
    using assms(6,7) by (auto simp: main_chain_def)
  have at: "by_height_at_head theirs = Inr (chain_map main)" using main by (simp add: main_chain_def)
  have "get_blocks_reply cr theirs (h # rest) = Inr (map (mk_inventory_item DATA_BLOCK) (take 500 (drop (Suc i) hs)))"
  proof (cases "Suc i < length main")
    case True
    then have "find_start_height theirs (h # rest) = Inr (Some (int (Suc i)))"
      using main h by (simp add: at chain_map_def nat_add_distrib main_chain_def)
    then show ?thesis using inventory_from_main [OF main, of "Suc i"] by (simp add: get_blocks_reply_def)
  next
    case False
    then have "find_start_height theirs (h # rest) = Inr None" using h by (simp add: at chain_map_def)
    moreover have "drop (Suc i) hs = []" using main False by (simp add: main_chain_def)
    ultimately show ?thesis by (simp add: get_blocks_reply_def)
  qed
  moreover have "list_all2 (\<lambda>h b. block_hash cr b = Inr h) (take 500 (drop (Suc i) hs)) (take 500 (drop (Suc i) main))"
    using main by (auto simp: main_chain_def list_all2_conv_all_nth)
  ultimately show ?thesis using ask by blast
qed

theorem catching_up_progresses_witness:
  "\<exists>rest. get_get_blocks_message toy_crypto (tower_state 2) = Inr (GetBlocksMessage (tower_hash 2 # rest) zero_hash) \<and>
     get_blocks_reply toy_crypto (tower_state 5) (tower_hash 2 # rest) =
       Inr (map (mk_inventory_item DATA_BLOCK) [tower_hash 3, tower_hash 4, tower_hash 5])"
proof -
  have mine: "coinstate_reachable toy_crypto (tower_state 2)" "cs_current_chain_hash (tower_state 2) = Some (tower_hash 2)"
    and theirs: "coinstate_reachable toy_crypto (tower_state 5)" "cs_current_chain_hash (tower_state 5) = Some (tower_hash 5)"
    using tower_facts [of 2] tower_facts [of 5] by simp_all
  have main: "chain_at_hash (cs_block_by_hash (tower_state 5)) (tower_hash 5) = Inr (map tower_block [0..<Suc 5])"
    using tower_facts [of 5] by (intro chain_at_hash_chain_to) (simp del: tower_state.simps upt_Suc)
  have "map tower_block [0..<Suc 5] = [tower_block 0, tower_block 1, tower_block 2, tower_block 3, tower_block 4, tower_block 5]"
    by (simp add: upt_rec numeral_eq_Suc)
  moreover from this obtain rest hs where
    "get_get_blocks_message toy_crypto (tower_state 2) = Inr (GetBlocksMessage (tower_hash 2 # rest) zero_hash)"
    "get_blocks_reply toy_crypto (tower_state 5) (tower_hash 2 # rest) = Inr (map (mk_inventory_item DATA_BLOCK) hs)"
    "list_all2 (\<lambda>h b. block_hash toy_crypto b = Inr h) hs (take 500 (drop (Suc 2) (map tower_block [0..<Suc 5])))"
    using catching_up_progresses [OF mine theirs main, of 2] by auto
  ultimately show ?thesis by (auto simp: list_all2_Cons2)
qed

end
