(* ===== verification/Message_Receiver.thy ===== *)
theory Message_Receiver
  imports Messages Actions
begin

text \<open>
  Model of \<open>MessageReceiver\<close> and of the framing in \<open>ConnectedRemotePeer.send_message\<close>, from
  \<open>skepticoin/networking/remote_peer.py\<close>: a stream of bytes is cut into messages by a magic number
  and a length. The peer that handles the messages is the argument \<open>handle\<close>, an action on any state.
  Shown: however the stream is cut into pieces by the network, the same messages are handled in the
  same order, and they are those that were framed.
\<close>

section \<open>The receiver\<close>

definition MAGIC :: bytes where
  "MAGIC = [0x4D, 0x41, 0x4A, 0x49]"

record receiver =
  rc_buffer :: bytes
  rc_magic_read :: bool
  rc_len :: "nat option"

definition empty_receiver :: receiver where
  "empty_receiver = \<lparr>rc_buffer = [], rc_magic_read = False, rc_len = None\<rparr>"

text \<open>The two first blocks of \<open>receive\<close>.\<close>

definition read_magic :: "receiver \<Rightarrow> unit result \<times> receiver" where
  "read_magic r =
     (if \<not> rc_magic_read r \<and> 4 \<le> length (rc_buffer r)
      then if take 4 (rc_buffer r) \<noteq> MAGIC then (Inl (PyException ''Insufficient magic''), r)
           else (Inr (), r\<lparr>rc_magic_read := True, rc_buffer := drop 4 (rc_buffer r)\<rparr>)
      else (Inr (), r))"

definition read_len :: "receiver \<Rightarrow> unit result \<times> receiver" where
  "read_len r =
     (if rc_len r = None \<and> 4 \<le> length (rc_buffer r)
      then let len = be_value (take 4 (rc_buffer r)); r = r\<lparr>rc_len := Some (nat len)\<rparr> in
           if len > MAX_MESSAGE_SIZE then (Inl (PyException ''len > MAX_MESSAGE_SIZE''), r)
           else (Inr (), r\<lparr>rc_buffer := drop 4 (rc_buffer r)\<rparr>)
      else (Inr (), r))"

text \<open>Bytes after the message inside the frame are ignored.\<close>

definition handle_message_data ::
  "crypto \<Rightarrow> (message_header \<Rightarrow> message \<Rightarrow> ('s, unit) action) \<Rightarrow> bytes \<Rightarrow> ('s, unit) action" where
  "handle_message_data cr handle message_data s =
     (case stream_deserialize_message_header message_data of
        Inl e \<Rightarrow> (Inl e, s)
      | Inr (header, f) \<Rightarrow>
          (case stream_deserialize_message cr f of
             Inl e \<Rightarrow> (Inl e, s)
           | Inr (message, _) \<Rightarrow> handle header message s))"

lemma read_magic_measure:
  "read_magic r = (x, r') \<Longrightarrow>
     length (rc_buffer r') + (if rc_magic_read r' then 4 else 0) \<le> length (rc_buffer r) + (if rc_magic_read r then 4 else 0)"
  "read_magic r = (x, r') \<Longrightarrow> rc_len r' = rc_len r"
  by (auto simp: read_magic_def split: if_splits)

lemma read_len_measure:
  "read_len r = (Inr x, r') \<Longrightarrow>
     length (rc_buffer r') + (if rc_len r' = None then 0 else 4) \<le> length (rc_buffer r) + (if rc_len r = None then 0 else 4)"
  "read_len r = (y, r') \<Longrightarrow> rc_magic_read r' = rc_magic_read r"
  by (auto simp: read_len_def Let_def split: if_splits)

function receive ::
  "crypto \<Rightarrow> (message_header \<Rightarrow> message \<Rightarrow> ('s, unit) action) \<Rightarrow> bytes \<Rightarrow> (receiver \<times> 's, unit) action" where
  "receive cr handle data (r, s) =
     (case read_magic (r\<lparr>rc_buffer := rc_buffer r @ data\<rparr>) of
        (Inl e, r) \<Rightarrow> (Inl e, (r, s))
      | (Inr _, r) \<Rightarrow>
          (case read_len r of
             (Inl e, r) \<Rightarrow> (Inl e, (r, s))
           | (Inr _, r) \<Rightarrow>
               (case rc_len r of
                  None \<Rightarrow> (Inr (), (r, s))
                | Some len \<Rightarrow>
                    if len \<le> length (rc_buffer r)
                    then (case handle_message_data cr handle (take len (rc_buffer r)) s of
                            (Inl e, s) \<Rightarrow> (Inl e, (r, s))
                          | (Inr _, s) \<Rightarrow>
                              receive cr handle []
                                (\<lparr>rc_buffer = drop len (rc_buffer r), rc_magic_read = False, rc_len = None\<rparr>, s))
                    else (Inr (), (r, s)))))"
  by pat_completeness auto
termination
proof (relation "measure (\<lambda>(cr, handle, data, r, s).
    length (rc_buffer r) + length data + (if rc_magic_read r then 4 else 0) + (if rc_len r = None then 0 else 4))")
  fix cr :: crypto and handle :: "message_header \<Rightarrow> message \<Rightarrow> ('s, unit) action" and data r s x r1 u r2 y r3 len z s1 v
  assume 1: "(x, r1) = read_magic (r\<lparr>rc_buffer := rc_buffer r @ data\<rparr>)" and 2: "(y, r3) = read_len r1"
    and y: "y = Inr v" and len: "rc_len r3 = Some len" "len \<le> length (rc_buffer r3)"
  note m = read_magic_measure [OF 1 [symmetric]] and l = read_len_measure [OF 2 [symmetric, unfolded y]]
  show "((cr, handle, [], \<lparr>rc_buffer = drop len (rc_buffer r3), rc_magic_read = False, rc_len = None\<rparr>, s1),
      cr, handle, data, r, s) \<in> measure (\<lambda>(cr, handle, data, r, s).
    length (rc_buffer r) + length data + (if rc_magic_read r then 4 else 0) + (if rc_len r = None then 0 else 4))"
    using m l len by (auto split: if_splits)
qed simp

declare receive.simps [simp del]

section \<open>Cutting the stream elsewhere makes no difference\<close>

text \<open>The length is only known once the magic has been read; this holds at the start and is kept.\<close>

definition receiver_ok :: "receiver \<Rightarrow> bool" where
  "receiver_ok r \<longleftrightarrow> (rc_len r \<noteq> None \<longrightarrow> rc_magic_read r)"

lemma empty_receiver_ok [simp]: "receiver_ok empty_receiver"
  by (simp add: receiver_ok_def empty_receiver_def)

definition buffer_more :: "receiver \<Rightarrow> bytes \<Rightarrow> receiver" where
  "buffer_more r b = r\<lparr>rc_buffer := rc_buffer r @ b\<rparr>"

lemma buffer_more_simps [simp]:
  "rc_buffer (buffer_more r b) = rc_buffer r @ b" "rc_magic_read (buffer_more r b) = rc_magic_read r"
  "rc_len (buffer_more r b) = rc_len r" "buffer_more (buffer_more r a) b = buffer_more r (a @ b)"
  "buffer_more r [] = r" "receiver_ok (buffer_more r b) = receiver_ok r"
  by (simp_all add: buffer_more_def receiver_ok_def)

text \<open>The rest of \<open>receive\<close> after the magic, and after the length.\<close>

definition after_len ::
  "crypto \<Rightarrow> (message_header \<Rightarrow> message \<Rightarrow> ('s, unit) action) \<Rightarrow> receiver \<Rightarrow> 's \<Rightarrow> unit result \<times> receiver \<times> 's" where
  "after_len cr handle r s =
     (case rc_len r of
        None \<Rightarrow> (Inr (), (r, s))
      | Some len \<Rightarrow>
          if len \<le> length (rc_buffer r)
          then (case handle_message_data cr handle (take len (rc_buffer r)) s of
                  (Inl e, s) \<Rightarrow> (Inl e, (r, s))
                | (Inr _, s) \<Rightarrow>
                    receive cr handle []
                      (\<lparr>rc_buffer = drop len (rc_buffer r), rc_magic_read = False, rc_len = None\<rparr>, s))
          else (Inr (), (r, s)))"

definition after_magic ::
  "crypto \<Rightarrow> (message_header \<Rightarrow> message \<Rightarrow> ('s, unit) action) \<Rightarrow> receiver \<Rightarrow> 's \<Rightarrow> unit result \<times> receiver \<times> 's" where
  "after_magic cr handle r s =
     (case read_len r of (Inl e, r) \<Rightarrow> (Inl e, (r, s)) | (Inr _, r) \<Rightarrow> after_len cr handle r s)"

lemma receive_unfold:
  "receive cr handle data (r, s) =
     (case read_magic (buffer_more r data) of
        (Inl e, r) \<Rightarrow> (Inl e, (r, s)) | (Inr _, r) \<Rightarrow> after_magic cr handle r s)"
  unfolding receive.simps [of cr handle data] after_magic_def after_len_def buffer_more_def ..

lemma read_magic_more:
  "rc_magic_read r \<or> 4 \<le> length (rc_buffer r) \<Longrightarrow>
     read_magic (buffer_more r b) = (fst (read_magic r), buffer_more (snd (read_magic r)) b)"
  by (auto simp: read_magic_def buffer_more_def)

lemma read_len_more:
  "rc_len r \<noteq> None \<or> 4 \<le> length (rc_buffer r) \<Longrightarrow>
     read_len (buffer_more r b) = (fst (read_len r), buffer_more (snd (read_len r)) b)"
  by (auto simp: read_len_def buffer_more_def Let_def)

text \<open>What is left to do when the stream goes on with \<open>b\<close> after the outcome \<open>out\<close>.\<close>

fun go_on ::
  "crypto \<Rightarrow> (message_header \<Rightarrow> message \<Rightarrow> ('s, unit) action) \<Rightarrow> bytes \<Rightarrow> unit result \<times> receiver \<times> 's \<Rightarrow>
   unit result \<times> receiver \<times> 's" where
  "go_on cr handle b (Inl e, (r, s)) = (Inl e, (buffer_more r b, s))"
| "go_on cr handle b (Inr u, (r, s)) = receive cr handle b (r, s)"

text \<open>The receiver that the recursion goes on with after a message of \<open>n\<close> bytes.\<close>

abbreviation (input) next_receiver :: "nat \<Rightarrow> receiver \<Rightarrow> receiver" where
  "next_receiver n r \<equiv> \<lparr>rc_buffer = drop n (rc_buffer r), rc_magic_read = False, rc_len = None\<rparr>"

lemma after_len_more:
  assumes magic: "rc_magic_read r" and n: "rc_len r = Some n"
    and IH: "\<And>s1. n \<le> length (rc_buffer r) \<Longrightarrow>
      handle_message_data cr handle (take n (rc_buffer r)) s = (Inr (), s1) \<Longrightarrow>
      receive cr handle b (next_receiver n r, s1) = go_on cr handle b (receive cr handle [] (next_receiver n r, s1))"
  shows "after_len cr handle (buffer_more r b) s = go_on cr handle b (after_len cr handle r s)"
proof (cases "n \<le> length (rc_buffer r)")
  case False
  then show ?thesis
    by (simp add: after_len_def n magic receive_unfold [of _ _ b] after_magic_def read_magic_def read_len_def)
next
  case True
  obtain z s1 where h: "handle_message_data cr handle (take n (rc_buffer r)) s = (z, s1)" by fastforce
  show ?thesis
  proof (cases z)
    case (Inl e)
    with h n True show ?thesis by (simp add: after_len_def)
  next
    case (Inr w)
    with h have "handle_message_data cr handle (take n (rc_buffer r)) s = (Inr (), s1)" by simp
    note IH [OF True this]
    moreover have "receive cr handle b (next_receiver n r, s1) =
        receive cr handle [] (buffer_more (next_receiver n r) b, s1)" by (simp add: receive_unfold)
    ultimately show ?thesis using h n True Inr by (simp add: after_len_def buffer_more_def)
  qed
qed

lemma after_magic_more:
  assumes magic: "rc_magic_read r"
    and IH: "\<And>r2 n s1. read_len r = (Inr (), r2) \<Longrightarrow> rc_len r2 = Some n \<Longrightarrow> n \<le> length (rc_buffer r2) \<Longrightarrow>
      handle_message_data cr handle (take n (rc_buffer r2)) s = (Inr (), s1) \<Longrightarrow>
      receive cr handle b (next_receiver n r2, s1) = go_on cr handle b (receive cr handle [] (next_receiver n r2, s1))"
  shows "after_magic cr handle (buffer_more r b) s = go_on cr handle b (after_magic cr handle r s)"
proof (cases "rc_len r \<noteq> None \<or> 4 \<le> length (rc_buffer r)")
  case False
  then have "after_magic cr handle r s = (Inr (), (r, s))"
    by (auto simp: after_magic_def after_len_def read_len_def)
  then show ?thesis using magic by (simp add: receive_unfold [of _ _ b] read_magic_def)
next
  case True
  obtain y r2 where l: "read_len r = (y, r2)" by fastforce
  note more = read_len_more [OF True, of b, unfolded l fst_conv snd_conv]
  show ?thesis
  proof (cases y)
    case (Inl e)
    with more l show ?thesis by (simp add: after_magic_def)
  next
    case (Inr v)
    then obtain n where n: "rc_len r2 = Some n" "rc_magic_read r2"
      using l True magic by (auto simp: read_len_def Let_def split: if_splits)
    have "after_len cr handle (buffer_more r2 b) s = go_on cr handle b (after_len cr handle r2 s)"
      using l Inr by (intro after_len_more [OF n(2,1)] IH) (simp_all add: n)
    then show ?thesis using more l Inr by (simp add: after_magic_def)
  qed
qed

lemma receive_append:
  "receiver_ok r \<Longrightarrow> receive cr handle (data @ b) (r, s) = go_on cr handle b (receive cr handle data (r, s))"
proof (induction cr handle data "(r, s)" arbitrary: r s rule: receive.induct)
  case (1 cr handle data r s)
  let ?r = "buffer_more r data"
  obtain x r1 where m: "read_magic ?r = (x, r1)" by fastforce
  show ?case
  proof (cases "rc_magic_read ?r \<or> 4 \<le> length (rc_buffer ?r)")
    case False
    with 1(2) have "read_magic ?r = (Inr (), ?r)" "read_len ?r = (Inr (), ?r)" "rc_len ?r = None"
      by (auto simp: read_magic_def read_len_def receiver_ok_def)
    then have "receive cr handle data (r, s) = (Inr (), (?r, s))"
      by (simp add: receive_unfold after_magic_def after_len_def)
    then show ?thesis by (simp add: receive_unfold)
  next
    case True
    note more = read_magic_more [OF True, of b, unfolded m fst_conv snd_conv]
    show ?thesis
    proof (cases x)
      case (Inl e)
      with more show ?thesis by (simp add: receive_unfold m)
    next
      case (Inr u)
      then have magic: "rc_magic_read r1" using m True by (auto simp: read_magic_def split: if_splits)
      have "after_magic cr handle (buffer_more r1 b) s = go_on cr handle b (after_magic cr handle r1 s)"
      proof (rule after_magic_more [OF magic])
        fix r2 n s1 assume "read_len r1 = (Inr (), r2)" "rc_len r2 = Some n" "n \<le> length (rc_buffer r2)"
          "handle_message_data cr handle (take n (rc_buffer r2)) s = (Inr (), s1)"
        then show "receive cr handle b (next_receiver n r2, s1) =
            go_on cr handle b (receive cr handle [] (next_receiver n r2, s1))"
          using 1(1) [of "Inr ()" r1 "()" "Inr ()" r2 "()" n "Inr ()" s1 "()"] m Inr
          by (simp add: buffer_more_def receiver_ok_def)
      qed
      with more m Inr show ?thesis by (simp add: receive_unfold)
    qed
  qed
qed

lemma receive_ok: "receiver_ok r \<Longrightarrow> receive cr handle data (r, s) = (Inr u, (r', s')) \<Longrightarrow> receiver_ok r'"
proof (induction cr handle data "(r, s)" arbitrary: r s rule: receive.induct)
  case (1 cr handle data r s)
  obtain x r1 where m: "read_magic (buffer_more r data) = (x, r1)" by fastforce
  with 1(3) have x: "x = Inr ()" by (cases x) (simp_all add: receive_unfold)
  obtain y r2 where l: "read_len r1 = (y, r2)" by fastforce
  with 1(3) m x have y: "y = Inr ()" by (cases y) (simp_all add: receive_unfold after_magic_def)
  have ok1: "receiver_ok r1" "rc_magic_read r1 \<or> length (rc_buffer r1) < 4"
    using 1(2) m x by (auto simp: read_magic_def receiver_ok_def split: if_splits)
  then have ok: "receiver_ok r2"
    using l y by (auto simp: read_len_def receiver_ok_def Let_def split: if_splits)
  have r: "after_len cr handle r2 s = (Inr u, (r', s'))"
    using 1(3) m l x y by (simp add: receive_unfold after_magic_def)
  show ?case
  proof (cases "rc_len r2 = None \<or> length (rc_buffer r2) < the (rc_len r2)")
    case True
    with r ok show ?thesis by (auto simp: after_len_def split: option.splits)
  next
    case False
    then obtain n where n: "rc_len r2 = Some n" "n \<le> length (rc_buffer r2)" by auto
    obtain z s1 where h: "handle_message_data cr handle (take n (rc_buffer r2)) s = (z, s1)" by fastforce
    with r n have z: "z = Inr ()" by (cases z) (simp_all add: after_len_def)
    have "receive cr handle [] (next_receiver n r2, s1) = (Inr u, (r', s'))"
      using r n h z by (simp add: after_len_def)
    then show ?thesis
      using 1(1) [of "Inr ()" r1 "()" "Inr ()" r2 "()" n "Inr ()" s1 "()"] m l n h x y z
      by (simp add: buffer_more_def receiver_ok_def)
  qed
qed

text \<open>What the handling of every message keeps, the handling of every piece of the stream keeps.\<close>

lemma handle_message_data_keeps:
  "(\<And>header message. keeps P (handle header message)) \<Longrightarrow> keeps P (handle_message_data cr handle data)"
  by (auto simp: keeps_iff handle_message_data_def split: sum.split)

lemma receive_keeps:
  "(\<And>header message. keeps P (handle header message)) \<Longrightarrow> P s \<Longrightarrow>
     P (snd (snd (receive cr handle data (r, s))))"
proof (induction cr handle data "(r, s)" arbitrary: r s rule: receive.induct)
  case (1 cr handle data r s)
  obtain x r1 where m: "read_magic (buffer_more r data) = (x, r1)" by fastforce
  obtain y r2 where l: "read_len r1 = (y, r2)" by fastforce
  show ?case
  proof (cases "x = Inr () \<and> y = Inr () \<and> rc_len r2 \<noteq> None \<and> the (rc_len r2) \<le> length (rc_buffer r2)")
    case False
    then show ?thesis
      using 1(3) m l by (auto simp: receive_unfold after_magic_def after_len_def split: sum.split option.split)
  next
    case True
    then obtain n where n: "rc_len r2 = Some n" "n \<le> length (rc_buffer r2)" by auto
    obtain z s1 where h: "handle_message_data cr handle (take n (rc_buffer r2)) s = (z, s1)" by fastforce
    have s1: "P s1" using keepsD [OF handle_message_data_keeps [OF 1(2)] 1(3) h] .
    have out: "receive cr handle data (r, s) =
        (case z of Inl e \<Rightarrow> (Inl e, (r2, s1)) | Inr _ \<Rightarrow> receive cr handle [] (next_receiver n r2, s1))"
      using m l True n h by (simp add: receive_unfold after_magic_def after_len_def split: sum.split)
    show ?thesis
    proof (cases z)
      case (Inr u)
      then show ?thesis
        using 1(1) [of "Inr ()" r1 "()" "Inr ()" r2 "()" n "Inr ()" s1 "()"] m l n h True s1 1(2)
        by (simp add: out buffer_more_def)
    qed (simp add: out s1)
  qed
qed

text \<open>The same result, the same state of the peer, and the same receiver unless an exception ended it.\<close>

definition same_outcome :: "unit result \<times> receiver \<times> 's \<Rightarrow> unit result \<times> receiver \<times> 's \<Rightarrow> bool" where
  "same_outcome x y \<longleftrightarrow> fst x = fst y \<and> snd (snd x) = snd (snd y) \<and> (fst x = Inr () \<longrightarrow> x = y)"

lemma receive_chunks:
  assumes "receiver_ok r" and "receive cr handle [] (r, s) = (Inr (), (r, s))"
  shows "same_outcome (aforeach (receive cr handle) chunks (r, s)) (receive cr handle (concat chunks) (r, s))"
  using assms
proof (induction chunks arbitrary: r s)
  case Nil
  then show ?case by (simp add: same_outcome_def action_apply)
next
  case (Cons c cs)
  note app = receive_append [OF Cons.prems(1), of cr handle c "concat cs" s]
  obtain x r1 s1 where c: "receive cr handle c (r, s) = (x, (r1, s1))" by (metis prod.exhaust)
  show ?case
  proof (cases x)
    case (Inl e)
    with c app show ?thesis by (simp add: abind_Inl same_outcome_def)
  next
    case (Inr u)
    have "receive cr handle (c @ []) (r, s) = go_on cr handle [] (receive cr handle c (r, s))"
      by (rule receive_append [OF Cons.prems(1)])
    then have "receive cr handle [] (r1, s1) = (Inr (), (r1, s1))" using c Inr by simp
    moreover have "receiver_ok r1" using c Inr by (auto intro: receive_ok [OF Cons.prems(1)])
    ultimately show ?thesis using Cons.IH [of r1 s1] c Inr app by (simp add: abind_Inr)
  qed
qed

section \<open>Frames\<close>

text \<open>What \<open>send_message\<close> puts into the backlog.\<close>

definition frame :: "message_header \<Rightarrow> message \<Rightarrow> bytes result" where
  "frame header message =
     rbind (stream_serialize_message_header header) (\<lambda>hs.
     rbind (stream_serialize_message message) (\<lambda>ms.
     rbind (pack_uint 4 (int (length (hs @ ms)))) (\<lambda>len.
     Inr (MAGIC @ len @ hs @ ms))))"

lemma length_MAGIC [simp]: "length MAGIC = 4"
  by (simp add: MAGIC_def)

lemma receive_empty: "receive cr handle [] (empty_receiver, s) = (Inr (), (empty_receiver, s))"
  by (simp add: receive_unfold after_magic_def after_len_def read_magic_def read_len_def empty_receiver_def)

lemma receive_frame:
  assumes wf: "message_header_wf h" "message_wf m" and fr: "frame h m = Inr bs"
    and size: "length bs \<le> nat MAX_MESSAGE_SIZE + 8"
  shows "\<exists>r. receive cr handle (bs @ rest) (empty_receiver, s) =
    (case handle h (message_canon cr m) s of
       (Inl e, s') \<Rightarrow> (Inl e, (r, s')) | (Inr _, s') \<Rightarrow> receive cr handle rest (empty_receiver, s'))"
proof -
  obtain hs ms where hs: "stream_serialize_message_header h = Inr hs" and ms: "stream_serialize_message m = Inr ms"
    and bs: "bs = MAGIC @ be_bytes 4 (int (length (hs @ ms))) @ hs @ ms" and len: "int (length (hs @ ms)) < 256 ^ 4"
    using fr by (auto simp: frame_def result_simps simp del: be_bytes.simps)
  let ?n = "length (hs @ ms)"
  have n: "int ?n \<le> MAX_MESSAGE_SIZE" using size by (simp add: bs MAX_MESSAGE_SIZE_def)
  let ?r = "\<lparr>rc_buffer = hs @ ms @ rest, rc_magic_read = True, rc_len = Some ?n\<rparr>"
  have "read_magic (buffer_more empty_receiver (bs @ rest)) =
      (Inr (), \<lparr>rc_buffer = be_bytes 4 (int ?n) @ hs @ ms @ rest, rc_magic_read = True, rc_len = None\<rparr>)"
    by (simp add: read_magic_def buffer_more_def empty_receiver_def bs del: be_bytes.simps)
  moreover have "be_value (be_bytes 4 (int ?n)) = int ?n" using len by (intro be_value_be_bytes) simp_all
  then have "read_len \<lparr>rc_buffer = be_bytes 4 (int ?n) @ hs @ ms @ rest, rc_magic_read = True, rc_len = None\<rparr> =
      (Inr (), ?r)"
    using n by (simp add: read_len_def Let_def del: be_bytes.simps)
  ultimately have "receive cr handle (bs @ rest) (empty_receiver, s) = after_len cr handle ?r s"
    by (simp add: receive_unfold after_magic_def)
  moreover have "handle_message_data cr handle (take ?n (rc_buffer ?r)) s = handle h (message_canon cr m) s"
    using message_header_wire.par_ser [OF wf(1) hs, of ms] message_wire.par_ser [OF wf(2) ms, of cr "[]"]
    by (simp add: handle_message_data_def)
  moreover have "receive cr handle [] (next_receiver ?n ?r, s') = receive cr handle rest (empty_receiver, s')" for s'
    by (simp add: receive_unfold [of _ _ rest] receive_unfold [of _ _ "[]"] empty_receiver_def buffer_more_def)
  ultimately show ?thesis by (auto simp: after_len_def split: prod.split sum.split)
qed

lemma receive_frames:
  assumes "\<forall>(h, m)\<in>set msgs. message_header_wf h \<and> message_wf m"
    and "rmap (\<lambda>(h, m). frame h m) msgs = Inr fs" and "\<forall>f\<in>set fs. length f \<le> nat MAX_MESSAGE_SIZE + 8"
  shows "\<exists>r. receive cr handle (concat fs) (empty_receiver, s) =
    (case aforeach (\<lambda>(h, m). handle h (message_canon cr m)) msgs s of
       (Inl e, s') \<Rightarrow> (Inl e, (r, s')) | (Inr u, s') \<Rightarrow> (Inr u, (empty_receiver, s')))"
  using assms
proof (induction msgs arbitrary: fs s)
  case Nil
  then show ?case by (simp add: receive_empty action_apply)
next
  case (Cons x msgs)
  obtain h m where x: "x = (h, m)" by fastforce
  obtain f gs where f: "frame h m = Inr f" and gs: "rmap (\<lambda>(h, m). frame h m) msgs = Inr gs" and fs: "fs = f # gs"
    using Cons.prems(2) by (auto simp: x result_simps)
  have "message_header_wf h" "message_wf m" "length f \<le> nat MAX_MESSAGE_SIZE + 8"
    using Cons.prems(1,3) by (auto simp: x fs)
  from receive_frame [OF this(1,2) f this(3), of cr handle "concat gs" s] obtain r where
    r: "receive cr handle (concat fs) (empty_receiver, s) =
      (case handle h (message_canon cr m) s of
         (Inl e, s') \<Rightarrow> (Inl e, (r, s')) | (Inr _, s') \<Rightarrow> receive cr handle (concat gs) (empty_receiver, s'))"
    by (auto simp: fs)
  obtain y s1 where y: "handle h (message_canon cr m) s = (y, s1)" by fastforce
  show ?case
  proof (cases y)
    case (Inl e)
    then show ?thesis using r y by (auto simp: x abind_Inl)
  next
    case (Inr u)
    then show ?thesis
      using r y Cons.IH [OF _ gs, of s1] Cons.prems(1,3) by (auto simp: x fs abind_Inr)
  qed
qed

section \<open>Properties\<close>

text \<open>
  C7: it does not matter how the network cuts a byte stream into pieces: receiving the pieces one
  after another gives the same result (return, or the same exception) and the same effects on the
  peer as receiving all the bytes at once.
\<close>

theorem segmentation_irrelevant:
  fixes handle :: "message_header \<Rightarrow> message \<Rightarrow> ('s, unit) action"
  shows "same_outcome (aforeach (receive cr handle) chunks (empty_receiver, s))
     (receive cr handle (concat chunks) (empty_receiver, s))"
  by (rule receive_chunks [OF empty_receiver_ok receive_empty])

text \<open>
  C31: well-formed messages, each with its header within the size limit, that are framed by one peer and sent as one
  byte stream are handled by the receiving peer one by one, in the order sent and as they were sent (caches
  filled), until one of them raises; if none does, nothing is left in the receiver.
\<close>

theorem framed_messages_arrive:
  fixes handle :: "message_header \<Rightarrow> message \<Rightarrow> ('s, unit) action"
  assumes "\<forall>(h, m)\<in>set msgs. message_header_wf h \<and> message_wf m"
    and "rmap (\<lambda>(h, m). frame h m) msgs = Inr fs" and "\<forall>f\<in>set fs. length f \<le> nat MAX_MESSAGE_SIZE + 8"
    and "concat chunks = concat fs"
    and "aforeach (\<lambda>(h, m). handle h (message_canon cr m)) msgs s = (res, s')"
  shows "\<exists>r. aforeach (receive cr handle) chunks (empty_receiver, s) = (res, (r, s')) \<and>
    (res = Inr () \<longrightarrow> r = empty_receiver)"
proof -
  have "same_outcome (aforeach (receive cr handle) chunks (empty_receiver, s))
     (receive cr handle (concat chunks) (empty_receiver, s))"
    by (rule receive_chunks [OF empty_receiver_ok receive_empty])
  moreover obtain r where "receive cr handle (concat chunks) (empty_receiver, s) =
      (case res of Inl e \<Rightarrow> (Inl e, (r, s')) | Inr u \<Rightarrow> (Inr u, (empty_receiver, s')))"
    using receive_frames [OF assms(1-3), of cr handle s] assms(4,5) by auto
  ultimately show ?thesis
    by (cases res; cases "aforeach (receive cr handle) chunks (empty_receiver, s)") (auto simp: same_outcome_def)
qed

theorem framed_messages_arrive_witness:
  "\<exists>f. frame \<lparr>mh_timestamp = 1, mh_id = 2, mh_in_response_to = 0, mh_context = 9\<rparr> GetPeersMessage = Inr f \<and>
     (\<exists>r. aforeach (receive toy_crypto (\<lambda>h m. amod (\<lambda>s. s @ [(h, m)]))) [take 3 f, drop 3 f] (empty_receiver, []) =
       (Inr (), (r, [(\<lparr>mh_timestamp = 1, mh_id = 2, mh_in_response_to = 0, mh_context = 9\<rparr>, GetPeersMessage)])))"
proof -
  let ?h = "\<lparr>mh_timestamp = 1, mh_id = 2, mh_in_response_to = 0, mh_context = 9\<rparr>"
  let ?handle = "\<lambda>h m. amod (\<lambda>s. s @ [(h, m)])"
  have ser: "stream_serialize_message_header ?h = Inr (be_bytes 1 0 @ be_bytes 4 1 @ be_bytes 4 2 @ be_bytes 4 0 @
      be_bytes 8 9 @ replicate 32 0)"
    by (simp add: stream_serialize_message_header_def pack_uint_def del: be_bytes.simps pack_version)
  then obtain f where f: "frame ?h GetPeersMessage = Inr f" and len: "length f \<le> 68"
    by (auto simp: frame_def stream_serialize_get_peers_def pack_uint_def message_types)
  have "\<exists>r. aforeach (receive toy_crypto ?handle) [take 3 f, drop 3 f] (empty_receiver, []) =
      (Inr (), (r, [(?h, GetPeersMessage)])) \<and> ((Inr () :: unit result) = Inr () \<longrightarrow> r = empty_receiver)"
  proof (rule framed_messages_arrive [where cr = toy_crypto and handle = ?handle and
        msgs = "[(?h, GetPeersMessage)]" and fs = "[f]" and res = "Inr ()"])
    show "rmap (\<lambda>(h, m). frame h m) [(?h, GetPeersMessage)] = Inr [f]" using f by simp
    show "aforeach (\<lambda>(h, m). ?handle h (message_canon toy_crypto m)) [(?h, GetPeersMessage)] [] =
        (Inr (), [(?h, GetPeersMessage)])" by (simp add: abind_apply action_apply)
  qed (use len in \<open>simp_all add: message_header_wf_def MAX_MESSAGE_SIZE_def\<close>)
  with f show ?thesis by blast
qed

end
