(* ===== verification/Blockstore.thy ===== *)
theory Blockstore
  imports Genesis Actions
begin

text \<open>
  Model of \<open>skepticoin/blockstore.py\<close>: the tables that blocks are kept in, writing and reading them, and
  of \<open>read_chain_from_disk\<close> in \<open>scripts/utils.py\<close>. The properties of the store are
  in \<open>Stored_Blocks\<close>.

  SQLite is not part of the repository; what the code relies on is modelled as SQLite documents it: a
  table is a list of rows in the order of their rowids; \<open>insert or ignore\<close> drops a row whose primary key
  is there, and raises \<open>IntegrityError\<close> on a violated foreign key (a key with a null is not checked);
  an integer that does not fit in 64 bits raises \<open>OverflowError\<close>; an error leaves the transaction open,
  with the rows inserted so far; \<open>BEGIN\<close> inside a transaction raises \<open>OperationalError\<close>. The order in
  which \<open>order by height\<close> returns rows of one height is not specified and is the argument \<open>order\<close>.
\<close>

section \<open>Tables\<close>

record chain_row =
  cw_block_hash :: bytes
  cw_version :: int
  cw_height :: int
  cw_previous_block_hash :: "bytes option"
  cw_merkle_root_hash :: bytes
  cw_timestamp :: int
  cw_target :: bytes
  cw_nonce :: int
  cw_pow_summary_hash :: bytes
  cw_pow_chain_sample :: bytes
  cw_pow_block_hash :: bytes

record locator_row =
  lw_transaction_hash :: bytes
  lw_block_hash :: bytes

record input_row =
  iw_transaction_hash :: bytes
  iw_seq :: nat
  iw_output_reference_hash :: "bytes option"
  iw_output_reference_index :: int
  iw_signature :: "bytes option"

record output_row =
  ow_transaction_hash :: bytes
  ow_seq :: nat
  ow_value :: int
  ow_public_key :: bytes

record tables =
  tb_chain :: "chain_row list"
  tb_transaction_locator :: "locator_row list"
  tb_transaction_inputs :: "input_row list"
  tb_transaction_outputs :: "output_row list"

text \<open>\<open>st_tables\<close>: what the connection sees. \<open>st_committed\<close>: what is on the disk.\<close>

record block_store =
  st_tables :: tables
  st_committed :: tables
  st_in_transaction :: bool
  st_write_buffer :: "block list"

definition empty_tables :: tables where
  "empty_tables = \<lparr>tb_chain = [], tb_transaction_locator = [], tb_transaction_inputs = [], tb_transaction_outputs = []\<rparr>"

definition nullify_zeros :: "bytes \<Rightarrow> bytes option" where
  "nullify_zeros b = (if b \<noteq> zero_hash then Some b else None)"

definition zeroify_nulls :: "bytes option \<Rightarrow> bytes" where
  "zeroify_nulls v = (case v of None \<Rightarrow> zero_hash | Some b \<Rightarrow> if b = [] then zero_hash else b)"

section \<open>SQLite\<close>

definition IntegrityError :: exn where
  "IntegrityError = PyException ''sqlite3.IntegrityError''"

definition OperationalError :: exn where
  "OperationalError = PyException ''sqlite3.OperationalError''"

definition insert_or_ignore ::
  "('r \<Rightarrow> 'k) \<Rightarrow> ('r \<Rightarrow> int list) \<Rightarrow> ('r \<Rightarrow> bool) \<Rightarrow> 'r \<Rightarrow> 'r list \<Rightarrow> 'r list result" where
  "insert_or_ignore primary_key integers foreign_key_ok row rows =
     rbind (raise_if (\<exists>i\<in>set (integers row). i < - (2 ^ 63) \<or> 2 ^ 63 \<le> i) OverflowError) (\<lambda>_.
     if primary_key row \<in> set (map primary_key rows) then Inr rows
     else if foreign_key_ok row then Inr (rows @ [row])
     else Inl IntegrityError)"

definition insert_chain :: "chain_row \<Rightarrow> tables \<Rightarrow> tables result" where
  "insert_chain row tb =
     rbind (insert_or_ignore cw_block_hash (\<lambda>r. [cw_version r, cw_height r, cw_timestamp r, cw_nonce r])
              (\<lambda>r. case cw_previous_block_hash r of None \<Rightarrow> True
                   | Some h \<Rightarrow> h \<in> set (map cw_block_hash (tb_chain tb @ [r])))
              row (tb_chain tb))
       (\<lambda>rows. Inr (tb\<lparr>tb_chain := rows\<rparr>))"

definition insert_transaction_locator :: "locator_row \<Rightarrow> tables \<Rightarrow> tables result" where
  "insert_transaction_locator row tb =
     rbind (insert_or_ignore lw_transaction_hash (\<lambda>_. [])
              (\<lambda>r. lw_block_hash r \<in> set (map cw_block_hash (tb_chain tb)))
              row (tb_transaction_locator tb))
       (\<lambda>rows. Inr (tb\<lparr>tb_transaction_locator := rows\<rparr>))"

definition insert_transaction_output :: "output_row \<Rightarrow> tables \<Rightarrow> tables result" where
  "insert_transaction_output row tb =
     rbind (insert_or_ignore (\<lambda>r. (ow_transaction_hash r, ow_seq r)) (\<lambda>r. [ow_value r])
              (\<lambda>r. ow_transaction_hash r \<in> set (map lw_transaction_hash (tb_transaction_locator tb)))
              row (tb_transaction_outputs tb))
       (\<lambda>rows. Inr (tb\<lparr>tb_transaction_outputs := rows\<rparr>))"

definition insert_transaction_input :: "input_row \<Rightarrow> tables \<Rightarrow> tables result" where
  "insert_transaction_input row tb =
     rbind (insert_or_ignore (\<lambda>r. (iw_transaction_hash r, iw_seq r)) (\<lambda>r. [iw_output_reference_index r])
              (\<lambda>r. iw_transaction_hash r \<in> set (map lw_transaction_hash (tb_transaction_locator tb)) \<and>
                 (case iw_output_reference_hash r of None \<Rightarrow> True
                  | Some h \<Rightarrow> (h, iw_output_reference_index r) \<in>
                      set (map (\<lambda>p. (ow_transaction_hash p, int (ow_seq p))) (tb_transaction_outputs tb))))
              row (tb_transaction_inputs tb))
       (\<lambda>rows. Inr (tb\<lparr>tb_transaction_inputs := rows\<rparr>))"

definition executemany :: "('r \<Rightarrow> tables \<Rightarrow> tables result) \<Rightarrow> 'r list \<Rightarrow> (block_store, unit) action" where
  "executemany statement rows =
     aforeach (\<lambda>row.
       abind (aget st_tables) (\<lambda>tb.
       abind (alift (statement row tb)) (\<lambda>tb.
       amod (\<lambda>st. st\<lparr>st_tables := tb\<rparr>)))) rows"

definition begin_transaction :: "(block_store, unit) action" where
  "begin_transaction =
     abind (aget st_in_transaction) (\<lambda>open.
     if open then araise OperationalError else amod (\<lambda>st. st\<lparr>st_in_transaction := True\<rparr>))"

definition commit :: "(block_store, unit) action" where
  "commit = amod (\<lambda>st. st\<lparr>st_committed := st_tables st, st_in_transaction := False\<rparr>)"

section \<open>Writing\<close>

definition transaction_key :: "crypto \<Rightarrow> transaction \<Rightarrow> bytes result" where
  "transaction_key cr t = rbind (stream_serialize_transaction t) (\<lambda>bs. Inr (sha256d cr bs))"

definition input_param :: "bytes \<Rightarrow> nat \<times> tx_input \<Rightarrow> input_row result" where
  "input_param txid = (\<lambda>(seq, input).
     rbind (case inp_signature input of
              None \<Rightarrow> Inr None
            | Some s \<Rightarrow> rbind (stream_serialize_signature s) (\<lambda>b. Inr (Some b))) (\<lambda>sig.
     Inr \<lparr>iw_transaction_hash = txid, iw_seq = seq,
          iw_output_reference_hash = nullify_zeros (ref_hash (inp_output_reference input)),
          iw_output_reference_index = ref_index (inp_output_reference input), iw_signature = sig\<rparr>))"

definition output_param :: "bytes \<Rightarrow> nat \<times> tx_output \<Rightarrow> output_row result" where
  "output_param txid = (\<lambda>(seq, p).
     rbind (stream_serialize_public_key (out_public_key p)) (\<lambda>k.
     Inr \<lparr>ow_transaction_hash = txid, ow_seq = seq, ow_value = out_value p, ow_public_key = k\<rparr>))"

definition block_param :: "bytes \<Rightarrow> block \<Rightarrow> chain_row" where
  "block_param hash b =
     (let s = block_summary_of b; e = hd_pow_evidence (blk_header b) in
      \<lparr>cw_block_hash = hash, cw_version = 0, cw_height = bs_height s,
       cw_previous_block_hash = nullify_zeros (bs_previous_block_hash s),
       cw_merkle_root_hash = bs_merkle_root_hash s, cw_timestamp = bs_timestamp s, cw_target = bs_target s,
       cw_nonce = bs_nonce s, cw_pow_summary_hash = pe_summary_hash e,
       cw_pow_chain_sample = pe_chain_sample e, cw_pow_block_hash = pe_block_hash e\<rparr>)"

text \<open>The rows of a transaction of the block \<open>hash\<close>, and those of a block.\<close>

definition transaction_params ::
  "crypto \<Rightarrow> bytes \<Rightarrow> transaction \<Rightarrow> (locator_row \<times> input_row list \<times> output_row list) result" where
  "transaction_params cr hash t =
     rbind (transaction_key cr t) (\<lambda>txid.
     rbind (rmap (input_param txid) (enumerate 0 (tx_inputs t))) (\<lambda>ins.
     rbind (rmap (output_param txid) (enumerate 0 (tx_outputs t))) (\<lambda>outs.
     Inr (\<lparr>lw_transaction_hash = txid, lw_block_hash = hash\<rparr>, ins, outs))))"

definition block_params ::
  "crypto \<Rightarrow> block \<Rightarrow> (chain_row \<times> (locator_row \<times> input_row list \<times> output_row list) list) result" where
  "block_params cr b =
     rbind (block_hash cr b) (\<lambda>hash.
     rbind (rmap (transaction_params cr hash) (blk_transactions b)) (\<lambda>ts.
     Inr (block_param hash b, ts)))"

definition write_blocks_to_disk :: "crypto \<Rightarrow> block list \<Rightarrow> (block_store, unit) action" where
  "write_blocks_to_disk cr blocks =
     abind (alift (rmap (block_params cr) blocks)) (\<lambda>params.
     let blocks_param = map fst params; transactions = concat (map snd params) in
     athen begin_transaction
     (athen (executemany insert_chain blocks_param)
     (athen (executemany insert_transaction_locator (map fst transactions))
     (athen (executemany insert_transaction_output (concat (map (\<lambda>(_, _, outs). outs) transactions)))
     (athen (executemany insert_transaction_input (concat (map (\<lambda>(_, ins, _). ins) transactions)))
     commit)))))"

definition add_block_to_buffer :: "block \<Rightarrow> (block_store, unit) action" where
  "add_block_to_buffer b = amod (\<lambda>st. st\<lparr>st_write_buffer := st_write_buffer st @ [b]\<rparr>)"

definition clear_write_buffer :: "(block_store, unit) action" where
  "clear_write_buffer = amod (\<lambda>st. st\<lparr>st_write_buffer := []\<rparr>)"

definition flush_blocks_to_disk :: "crypto \<Rightarrow> (block_store, unit) action" where
  "flush_blocks_to_disk cr =
     abind (aget st_write_buffer) (\<lambda>write_buffer.
     awhen (write_buffer \<noteq> []) (athen (write_blocks_to_disk cr write_buffer) clear_write_buffer))"

definition empty_store :: block_store where
  "empty_store = \<lparr>st_tables = empty_tables, st_committed = empty_tables, st_in_transaction = False, st_write_buffer = []\<rparr>"

text \<open>\<open>__init__\<close>: a store that is new gets the genesis block; \<open>existing\<close> are the tables of one that is not.\<close>

definition open_block_store :: "crypto \<Rightarrow> tables option \<Rightarrow> block_store result" where
  "open_block_store cr existing =
     (case existing of
        Some tb \<Rightarrow> Inr \<lparr>st_tables = tb, st_committed = tb, st_in_transaction = False, st_write_buffer = []\<rparr>
      | None \<Rightarrow>
          rbind genesis_block_data (\<lambda>data.
          rbind (deserialize_block cr data) (\<lambda>genesis.
          let (r, st) = write_blocks_to_disk cr [genesis] empty_store in
          rbind r (\<lambda>_. Inr st))))"

section \<open>Reading\<close>

record transaction_builder =
  bd_block_hash :: bytes
  bd_inputs :: "(nat \<times> tx_input) list"
  bd_outputs :: "(nat \<times> tx_output) list"

definition load_transaction_builders :: "tables \<Rightarrow> (bytes \<times> transaction_builder) list" where
  "load_transaction_builders tb =
     fold (\<lambda>row m. AList.update (lw_transaction_hash row)
         \<lparr>bd_block_hash = lw_block_hash row, bd_inputs = [], bd_outputs = []\<rparr> m)
       (tb_transaction_locator tb) []"

definition load_input :: "(bytes \<times> transaction_builder) list \<Rightarrow> input_row \<Rightarrow> (bytes \<times> transaction_builder) list result" where
  "load_input builders row =
     rbind (mk_output_reference (zeroify_nulls (iw_output_reference_hash row)) (iw_output_reference_index row)) (\<lambda>r.
     rbind (case iw_signature row of
              None \<Rightarrow> Inr None
            | Some s \<Rightarrow> if s = [] then Inr None
                        else rbind (stream_deserialize_signature s) (\<lambda>(sig, _). Inr (Some sig))) (\<lambda>sig.
     rbind (lookup_key (map_of builders) (iw_transaction_hash row)) (\<lambda>builder.
     Inr (AList.update (iw_transaction_hash row)
       (builder\<lparr>bd_inputs := AList.update (iw_seq row) \<lparr>inp_output_reference = r, inp_signature = sig\<rparr> (bd_inputs builder)\<rparr>)
       builders))))"

definition load_inputs :: "tables \<Rightarrow> (bytes \<times> transaction_builder) list \<Rightarrow> (bytes \<times> transaction_builder) list result" where
  "load_inputs tb builders = rfold load_input builders (tb_transaction_inputs tb)"

definition load_output :: "(bytes \<times> transaction_builder) list \<Rightarrow> output_row \<Rightarrow> (bytes \<times> transaction_builder) list result" where
  "load_output builders row =
     rbind (stream_deserialize_public_key (ow_public_key row)) (\<lambda>(k, _).
     rbind (lookup_key (map_of builders) (ow_transaction_hash row)) (\<lambda>builder.
     Inr (AList.update (ow_transaction_hash row)
       (builder\<lparr>bd_outputs := AList.update (ow_seq row) \<lparr>out_value = ow_value row, out_public_key = k\<rparr> (bd_outputs builder)\<rparr>)
       builders)))"

definition load_outputs :: "tables \<Rightarrow> (bytes \<times> transaction_builder) list \<Rightarrow> (bytes \<times> transaction_builder) list result" where
  "load_outputs tb builders = rfold load_output builders (tb_transaction_outputs tb)"

text \<open>\<open>itertools.groupby\<close> groups consecutive elements; in the dict a later group of a key replaces the earlier.\<close>

fun groupby :: "('a \<Rightarrow> 'k) \<Rightarrow> 'a list \<Rightarrow> ('k \<times> 'a list) list" where
  "groupby key [] = []"
| "groupby key (x # xs) =
     (case groupby key xs of
        (k, ys) # groups \<Rightarrow> if key x = k then (k, x # ys) # groups else (key x, [x]) # (k, ys) # groups
      | [] \<Rightarrow> [(key x, [x])])"

definition block_builders ::
  "(bytes \<times> transaction_builder) list \<Rightarrow> (bytes \<times> (bytes \<times> transaction_builder) list) list" where
  "block_builders builders =
     fold (\<lambda>(bid, builder_tuples) m. AList.update bid builder_tuples m)
       (groupby (\<lambda>(_, builder). bd_block_hash builder) builders) []"

definition built_transaction :: "bytes \<times> transaction_builder \<Rightarrow> transaction" where
  "built_transaction = (\<lambda>(txid, builder).
     \<lparr>tx_inputs = map snd (sort_key fst (bd_inputs builder)), tx_outputs = map snd (sort_key fst (bd_outputs builder)),
      tx_cached_hash = Some txid\<rparr>)"

definition built_block :: "chain_row \<Rightarrow> (bytes \<times> transaction_builder) list \<Rightarrow> block" where
  "built_block row builder_tuples =
     \<lparr>blk_header = \<lparr>hd_summary = \<lparr>bs_height = cw_height row,
         bs_previous_block_hash = zeroify_nulls (cw_previous_block_hash row),
         bs_merkle_root_hash = cw_merkle_root_hash row, bs_timestamp = cw_timestamp row,
         bs_target = cw_target row, bs_nonce = cw_nonce row\<rparr>,
       hd_pow_evidence = \<lparr>pe_summary_hash = cw_pow_summary_hash row, pe_chain_sample = cw_pow_chain_sample row,
         pe_block_hash = cw_pow_block_hash row\<rparr>\<rparr>,
      blk_transactions = map built_transaction builder_tuples, blk_cached_hash = Some (cw_block_hash row)\<rparr>"

definition read_blocks_from_disk :: "(chain_row list \<Rightarrow> chain_row list) \<Rightarrow> tables \<Rightarrow> block list result" where
  "read_blocks_from_disk order tb =
     rbind (load_inputs tb (load_transaction_builders tb)) (\<lambda>builders.
     rbind (load_outputs tb builders) (\<lambda>builders.
     Inr (concat (map (\<lambda>row.
         case map_of (block_builders builders) (cw_block_hash row) of
           None \<Rightarrow> []
         | Some builder_tuples \<Rightarrow> [built_block row builder_tuples])
       (order (tb_chain tb))))))"

text \<open>\<open>scripts/utils.py\<close>: a block that cannot be added is skipped.\<close>

definition read_chain_from_disk :: "crypto \<Rightarrow> (chain_row list \<Rightarrow> chain_row list) \<Rightarrow> tables \<Rightarrow> coinstate result" where
  "read_chain_from_disk cr order tb =
     rbind (read_blocks_from_disk order tb) (\<lambda>blocks.
     Inr (foldl (\<lambda>cs b. case add_block_no_validation cr cs b of Inl _ \<Rightarrow> cs | Inr cs' \<Rightarrow> cs') empty_coinstate blocks))"

end
