(* ===== verification/Network.thy ===== *)
theory Network
  imports Chain_Sync Message_Receiver Blockstore
begin

text \<open>
  The state of a node and the operations on its connections: model of \<open>RemotePeer\<close>,
  \<open>DisconnectedRemotePeer\<close>, \<open>ConnectedRemotePeer\<close> (sending) and \<open>load_peers_from_list\<close> in
  \<open>skepticoin/networking/remote_peer.py\<close>, of \<open>NetworkManager\<close> and \<open>ChainManager.step\<close> in
  \<open>skepticoin/networking/manager.py\<close>, and of \<open>LocalPeer.disconnect\<close> and
  \<open>LocalPeer.start_outgoing_connection\<close> in \<open>skepticoin/networking/local_peer.py\<close>.

  A connected peer is an object shared by the dictionary of connections, the selector and the list of
  peers that blocks are fetched from; it is a number here and \<open>nd_peers\<close> is the store. Its socket has
  the same number: it is open while it is registered with the selector, and \<open>nd_out\<close> is what it has
  sent. The clock and the random numbers are sequences that are read one by one. Logging is left out.
\<close>

section \<open>State\<close>

datatype direction = INCOMING | OUTGOING

type_synonym peer_key = "string \<times> int \<times> direction"

record disconnected_peer =
  dp_host :: string
  dp_port :: int
  dp_direction :: direction
  dp_last_connection_attempt :: "int option"
  dp_ban_score :: int

record inventory_message_state =
  im_header :: message_header
  im_items :: "inventory_item list"
  im_actually_used :: bool

record connected_peer =
  cp_host :: string
  cp_port :: int
  cp_direction :: direction
  cp_last_connection_attempt :: "int option"
  cp_ban_score :: int
  cp_receiver :: receiver
  cp_send_backlog :: "bytes list"
  cp_send_buffer :: bytes
  cp_hello_sent :: bool
  cp_hello_received :: bool
  cp_waiting_for_inventory :: bool
  cp_last_empty_inventory_response_at :: int
  cp_inventory_messages :: "inventory_message_state list"
  cp_next_msg_id :: int
  cp_last_get_peers_sent_at :: "int option"
  cp_waiting_for_peers :: bool

text \<open>
  \<open>nd_selector\<close>: the registered sockets, with whether writing is asked for too. \<open>nd_store\<close>:
  the instance of \<open>DefaultBlockStore\<close>.  \<open>nd_peers_file\<close>: the rows of \<open>peers.json\<close> (without their dates), if the file can be read.
\<close>

record node =
  nd_port :: "int option"
  nd_nonce :: int
  nd_version :: bytes
  nd_running :: bool
  nd_my_addresses :: "(string \<times> int) list"
  nd_connected :: "(peer_key \<times> nat) list"
  nd_disconnected :: "(peer_key \<times> disconnected_peer) list"
  nd_peers :: "nat \<Rightarrow> connected_peer"
  nd_next_peer :: nat
  nd_selector :: "(nat \<times> bool) list"
  nd_out :: "nat \<Rightarrow> bytes"
  nd_listening :: bool
  nd_max_selector_map_size :: nat
  nd_chain :: chain_manager
  nd_store :: block_store
  nd_peers_file :: "peer_key list option"
  nd_time :: "nat \<Rightarrow> int"
  nd_random :: "nat \<Rightarrow> nat"
  nd_ticks :: nat

text \<open>
  A new local peer with its managers; the block store and the peers file are what they are. The nonce
  is random, the largest number of sockets depends on the platform, and the objects that do not exist
  yet are given arbitrarily by the store \<open>peers\<close>.
\<close>

definition new_node ::
  "int \<Rightarrow> bytes \<Rightarrow> nat \<Rightarrow> chain_manager \<Rightarrow> block_store \<Rightarrow> peer_key list option \<Rightarrow> (peer_key \<times> disconnected_peer) list \<Rightarrow>
   (nat \<Rightarrow> connected_peer) \<Rightarrow> (nat \<Rightarrow> int) \<Rightarrow> (nat \<Rightarrow> nat) \<Rightarrow> node" where
  "new_node nonce version max_selector_map_size cm store peers_file disconnected peers clock random =
     \<lparr>nd_port = None, nd_nonce = nonce, nd_version = version, nd_running = False, nd_my_addresses = [],
      nd_connected = [], nd_disconnected = disconnected, nd_peers = peers, nd_next_peer = 0,
      nd_selector = [], nd_out = (\<lambda>_. []), nd_listening = False,
      nd_max_selector_map_size = max_selector_map_size, nd_chain = cm, nd_store = store,
      nd_peers_file = peers_file, nd_time = clock, nd_random = random, nd_ticks = 0\<rparr>"

text \<open>\<open>int(time())\<close> and \<open>random\<close>, each call the next of its sequence.\<close>

definition get_time :: "(node, int) action" where
  "get_time n = (Inr (nd_time n (nd_ticks n)), n\<lparr>nd_ticks := Suc (nd_ticks n)\<rparr>)"

definition randrange :: "nat \<Rightarrow> (node, int) action" where
  "randrange k n = (Inr (int (nd_random n (nd_ticks n) mod k)), n\<lparr>nd_ticks := Suc (nd_ticks n)\<rparr>)"

definition the_peer :: "nat \<Rightarrow> (node, connected_peer) action" where
  "the_peer p = aget (\<lambda>n. nd_peers n p)"

definition set_peer :: "nat \<Rightarrow> (connected_peer \<Rightarrow> connected_peer) \<Rightarrow> (node, unit) action" where
  "set_peer p f = amod (\<lambda>n. n\<lparr>nd_peers := (nd_peers n)(p := f (nd_peers n p))\<rparr>)"

text \<open>An action of the chain manager, run in the node.\<close>

definition on_chain :: "(chain_manager, 'a) action \<Rightarrow> (node, 'a) action" where
  "on_chain m n = (let (r, cm) = m (nd_chain n) in (r, n\<lparr>nd_chain := cm\<rparr>))"

definition connected_key :: "connected_peer \<Rightarrow> peer_key" where
  "connected_key c = (cp_host c, cp_port c, cp_direction c)"

definition disconnected_key :: "disconnected_peer \<Rightarrow> peer_key" where
  "disconnected_key d = (dp_host d, dp_port d, dp_direction d)"

section \<open>Peers\<close>

definition mk_disconnected_peer :: "string \<Rightarrow> int \<Rightarrow> direction \<Rightarrow> int option \<Rightarrow> int \<Rightarrow> disconnected_peer" where
  "mk_disconnected_peer host port direction last_connection_attempt ban_score =
     \<lparr>dp_host = host, dp_port = port, dp_direction = direction,
      dp_last_connection_attempt = last_connection_attempt, dp_ban_score = ban_score\<rparr>"

definition mk_connected_peer :: "string \<Rightarrow> int \<Rightarrow> direction \<Rightarrow> int option \<Rightarrow> int \<Rightarrow> connected_peer" where
  "mk_connected_peer host port direction last_connection_attempt ban_score =
     \<lparr>cp_host = host, cp_port = port, cp_direction = direction,
      cp_last_connection_attempt = last_connection_attempt, cp_ban_score = ban_score,
      cp_receiver = empty_receiver, cp_send_backlog = [], cp_send_buffer = [],
      cp_hello_sent = False, cp_hello_received = False, cp_waiting_for_inventory = False,
      cp_last_empty_inventory_response_at = 0, cp_inventory_messages = [], cp_next_msg_id = 0,
      cp_last_get_peers_sent_at = None, cp_waiting_for_peers = False\<rparr>"

definition load_peers_from_list :: "peer_key list \<Rightarrow> (peer_key \<times> disconnected_peer) list" where
  "load_peers_from_list lst =
     fold (\<lambda>(host, port, direction) m.
       AList.update (host, port, direction) (mk_disconnected_peer host port direction None 0) m) lst []"

definition is_time_to_connect :: "disconnected_peer \<Rightarrow> int \<Rightarrow> bool" where
  "is_time_to_connect d current_time =
     (if dp_ban_score d > MAX_CONNECTION_ATTEMPTS then False
      else let time_between = min (TIME_TO_SECOND_CONNECTION_ATTEMPT * 2 ^ nat (dp_ban_score d))
                                  MAX_TIME_BETWEEN_CONNECTION_ATTEMPTS in
           (case dp_last_connection_attempt d of
              None \<Rightarrow> True
            | Some t \<Rightarrow> current_time - t \<ge> time_between))"

definition as_connected :: "disconnected_peer \<Rightarrow> connected_peer" where
  "as_connected d = mk_connected_peer (dp_host d) (dp_port d) (dp_direction d)
     (dp_last_connection_attempt d) (dp_ban_score d)"

definition as_disconnected :: "connected_peer \<Rightarrow> disconnected_peer" where
  "as_disconnected c = mk_disconnected_peer (cp_host c) (cp_port c) (cp_direction c)
     (cp_last_connection_attempt c) (cp_ban_score c)"

section \<open>Sending\<close>

text \<open>
  \<open>selector.modify\<close> raises \<open>ValueError\<close> for a socket that was closed; \<open>start_sending\<close> catches it.
\<close>

definition selector_modify :: "nat \<Rightarrow> bool \<Rightarrow> (node, unit) action" where
  "selector_modify p writing =
     abind (aget nd_selector) (\<lambda>sel.
     if map_of sel p = None then araise (ValueError ''Invalid file descriptor: -1'')
     else amod (\<lambda>n. n\<lparr>nd_selector := AList.update p writing sel\<rparr>))"

definition start_sending :: "nat \<Rightarrow> (node, unit) action" where
  "start_sending p =
     acatch (selector_modify p True) (\<lambda>e. case e of ValueError _ \<Rightarrow> aret () | _ \<Rightarrow> araise e)"

definition stop_sending :: "nat \<Rightarrow> (node, unit) action" where
  "stop_sending p = selector_modify p False"

definition get_msg_id :: "nat \<Rightarrow> (node, int) action" where
  "get_msg_id p =
     athen (set_peer p (\<lambda>c. c\<lparr>cp_next_msg_id := cp_next_msg_id c + 1\<rparr>))
     (aget (\<lambda>n. cp_next_msg_id (nd_peers n p)))"

definition new_context :: "(node, int) action" where
  "new_context = randrange (2 ^ 64)"

definition next_header :: "nat \<Rightarrow> message_header option \<Rightarrow> (node, message_header) action" where
  "next_header p prev_header =
     abind (case prev_header of
              None \<Rightarrow> abind new_context (\<lambda>context. aret (0, context))
            | Some h \<Rightarrow> aret (mh_id h, mh_context h)) (\<lambda>(in_response_to, context).
     abind get_time (\<lambda>timestamp.
     abind (get_msg_id p) (\<lambda>id.
     aret \<lparr>mh_timestamp = timestamp, mh_id = id, mh_in_response_to = in_response_to, mh_context = context\<rparr>)))"

text \<open>\<open>if len(self.send_buffer) == 0\<close>: start with the first of the backlog.\<close>

definition fill_send_buffer :: "nat \<Rightarrow> (node, unit) action" where
  "fill_send_buffer p =
     abind (the_peer p) (\<lambda>c.
     awhen (cp_send_buffer c = [])
       (athen (set_peer p (\<lambda>c. c\<lparr>cp_send_buffer := hd (cp_send_backlog c),
                                   cp_send_backlog := tl (cp_send_backlog c)\<rparr>))
              (start_sending p)))"

definition send_message :: "nat \<Rightarrow> message \<Rightarrow> message_header option \<Rightarrow> (node, unit) action" where
  "send_message p message prev_header =
     abind (next_header p prev_header) (\<lambda>header.
     abind (alift (frame header message)) (\<lambda>data.
     athen (set_peer p (\<lambda>c. c\<lparr>cp_send_backlog := cp_send_backlog c @ [data]\<rparr>))
     (fill_send_buffer p)))"

text \<open>
  \<open>handle_can_send\<close>, which calls itself while the socket takes whole buffers. What the calls of
  \<open>sock.send\<close> return is the argument \<open>sends\<close>; when there is no more the socket would block, an
  \<open>OSError\<close>.
\<close>

fun handle_can_send :: "nat \<Rightarrow> nat list \<Rightarrow> (node, unit) action" where
  "handle_can_send p [] = araise OSError"
| "handle_can_send p (sent # sends) =
     abind (the_peer p) (\<lambda>c.
     athen (amod (\<lambda>n. n\<lparr>nd_out := (nd_out n)(p := nd_out n p @ take sent (cp_send_buffer c))\<rparr>))
     (athen (set_peer p (\<lambda>c. c\<lparr>cp_send_buffer := drop sent (cp_send_buffer c)\<rparr>))
     (abind (the_peer p) (\<lambda>c.
     awhen (cp_send_buffer c = [])
       (if cp_send_backlog c = [] then stop_sending p
        else athen (set_peer p (\<lambda>c. c\<lparr>cp_send_buffer := hd (cp_send_backlog c),
                                        cp_send_backlog := tl (cp_send_backlog c)\<rparr>))
                   (handle_can_send p sends))))))"

section \<open>NetworkManager and LocalPeer: connections\<close>

definition sanity_check :: "(node, unit) action" where
  "sanity_check =
     abind (aget (\<lambda>n. (nd_connected n, nd_disconnected n))) (\<lambda>(connected, disconnected).
     awhen (\<exists>key\<in>set (map fst connected). key \<in> set (map fst disconnected))
       (araise (PyException ''this shouldn't happen'')))"

definition handle_peer_disconnected :: "nat \<Rightarrow> (node, unit) action" where
  "handle_peer_disconnected p =
     abind (the_peer p) (\<lambda>c.
     let key = connected_key c in
     athen sanity_check
     (abind (aget nd_connected) (\<lambda>connected.
     athen (if map_of connected key = None then araise KeyError
            else amod (\<lambda>n. n\<lparr>nd_connected := AList.delete key (nd_connected n)\<rparr>))
     (athen (awhen (cp_direction c = OUTGOING)
        (athen (awhen (\<not> cp_hello_received c)
                  (set_peer p (\<lambda>c. c\<lparr>cp_ban_score := cp_ban_score c + 1\<rparr>)))
        (amod (\<lambda>n. n\<lparr>nd_disconnected :=
           AList.update key (as_disconnected (nd_peers n p)) (nd_disconnected n)\<rparr>))))
     sanity_check))))"

text \<open>Unregistering a closed socket raises \<open>ValueError\<close>; every exception ends the disconnecting quietly.\<close>

definition selector_unregister :: "nat \<Rightarrow> (node, unit) action" where
  "selector_unregister p =
     abind (aget nd_selector) (\<lambda>sel.
     if map_of sel p = None then araise (ValueError ''Invalid file object'')
     else amod (\<lambda>n. n\<lparr>nd_selector := AList.delete p sel\<rparr>))"

definition disconnect :: "nat \<Rightarrow> (node, unit) action" where
  "disconnect p = acatch (athen (selector_unregister p) (handle_peer_disconnected p)) (\<lambda>_. aret ())"

definition handle_peer_connected :: "nat \<Rightarrow> (node, unit) action" where
  "handle_peer_connected p =
     abind (the_peer p) (\<lambda>c.
     let key = connected_key c in
     abind (aget nd_connected) (\<lambda>connected.
     athen (case map_of connected key of None \<Rightarrow> aret () | Some q \<Rightarrow> disconnect q)
     (athen sanity_check
     (athen (amod (\<lambda>n. n\<lparr>nd_connected := AList.update key p (nd_connected n)\<rparr>))
     (athen (amod (\<lambda>n. n\<lparr>nd_disconnected := AList.delete key (nd_disconnected n)\<rparr>))
     sanity_check)))))"

text \<open>A new object and its socket, registered with the selector for reading.\<close>

definition register_peer :: "connected_peer \<Rightarrow> (node, nat) action" where
  "register_peer c =
     abind (aget nd_next_peer) (\<lambda>p.
     athen (amod (\<lambda>n. n\<lparr>nd_next_peer := Suc p, nd_peers := (nd_peers n)(p := c),
                         nd_out := (nd_out n)(p := []), nd_selector := nd_selector n @ [(p, False)]\<rparr>))
     (aret p))"

definition start_outgoing_connection :: "disconnected_peer \<Rightarrow> (node, unit) action" where
  "start_outgoing_connection d =
     abind (aget id) (\<lambda>n.
     if length (nd_selector n) + (if nd_listening n then 1 else 0) \<ge> nd_max_selector_map_size n then aret ()
     else abind (register_peer (as_connected d)) handle_peer_connected)"

definition get_active_peers :: "node \<Rightarrow> nat list" where
  "get_active_peers n =
     filter (\<lambda>p. cp_hello_sent (nd_peers n p) \<and> cp_hello_received (nd_peers n p)) (map snd (nd_connected n))"

definition broadcast_message :: "message \<Rightarrow> (node, unit) action" where
  "broadcast_message message =
     abind (aget get_active_peers) (aforeach (\<lambda>p.
       acatch (send_message p message None)
         (\<lambda>e. case e of ValueError _ \<Rightarrow> aret () | KeyError \<Rightarrow> aret () | OSError \<Rightarrow> aret () | _ \<Rightarrow> araise e)))"

definition broadcast_block :: "crypto \<Rightarrow> block \<Rightarrow> (node, unit) action" where
  "broadcast_block cr b = athen (alift (block_hash cr b)) (broadcast_message (DataMessage DATA_BLOCK (BlockData b)))"

definition broadcast_transaction :: "transaction \<Rightarrow> (node, unit) action" where
  "broadcast_transaction t = broadcast_message (DataMessage DATA_TRANSACTION (TransactionData t))"

section \<open>IPv4 addresses inside IPv6 ones\<close>

text \<open>
  \<open>IPv6Address("::FFFF:" + host)\<close> for a host in dotted decimal notation, which is what
  \<open>getpeername\<close> and \<open>ipv4_mapped.exploded\<close> give. Any other text is taken to be rejected with a
  \<open>ValueError\<close>, as host names are (the class would also read hexadecimal groups there).
\<close>

definition digit_value :: "char \<Rightarrow> nat option" where
  "digit_value c = (let n = of_char c :: nat in if 48 \<le> n \<and> n \<le> 57 then Some (n - 48) else None)"

fun split_dots :: "string \<Rightarrow> string list" where
  "split_dots [] = [[]]"
| "split_dots (c # s) =
     (if c = CHR ''.'' then [] # split_dots s
      else case split_dots s of w # ws \<Rightarrow> (c # w) # ws | [] \<Rightarrow> [[c]])"

definition octet_value :: "string \<Rightarrow> nat option" where
  "octet_value s =
     (if s \<noteq> [] \<and> length s \<le> 3 \<and> (\<forall>c\<in>set s. digit_value c \<noteq> None) \<and> (1 < length s \<longrightarrow> hd s \<noteq> CHR ''0'')
      then let v = foldl (\<lambda>v c. 10 * v + the (digit_value c)) 0 s in if v \<le> 255 then Some v else None
      else None)"

definition ipv4_of_string :: "string \<Rightarrow> bytes option" where
  "ipv4_of_string s =
     (case map octet_value (split_dots s) of
        [Some a, Some b, Some c, Some d] \<Rightarrow> Some (map word_of_nat [a, b, c, d])
      | _ \<Rightarrow> None)"

definition mapped_ipv6 :: "string \<Rightarrow> ipv6_address result" where
  "mapped_ipv6 host =
     (case ipv4_of_string host of
        None \<Rightarrow> Inl (ValueError ''not an IPv4 address'')
      | Some b \<Rightarrow> Inr (replicate 10 0 @ [0xff, 0xff] @ b))"

fun decimal_digits :: "nat \<Rightarrow> string" where
  "decimal_digits n =
     (if n < 10 then [char_of (48 + n)] else decimal_digits (n div 10) @ [char_of (48 + n mod 10)])"

definition dotted :: "bytes \<Rightarrow> string" where
  "dotted b = concat (map (\<lambda>(i, x). (if i = 0 then [] else ''.'') @ decimal_digits (unat x)) (enumerate 0 b))"

text \<open>\<open>ip_address.ipv4_mapped\<close> and \<open>exploded\<close>\<close>

definition ipv4_mapped_exploded :: "ipv6_address \<Rightarrow> string option" where
  "ipv4_mapped_exploded a =
     (if take 12 a = replicate 10 0 @ [0xff, 0xff] then Some (dotted (drop 12 a)) else None)"

section \<open>Steps\<close>

text \<open>\<open>ConnectedRemotePeer.step\<close>\<close>

definition send_hello :: "nat \<Rightarrow> (node, unit) action" where
  "send_hello p =
     abind (aget id) (\<lambda>n.
     let c = nd_peers n p in
     abind (alift (mapped_ipv6 (cp_host c))) (\<lambda>ipv4_mapped.
     let my_port = (case nd_port n of None \<Rightarrow> 0 | Some port \<Rightarrow> port);
         hello = HelloMessage
           \<lparr>hm_supported_versions = [SupportedVersion 0], hm_your_ip_address = ipv4_mapped,
            hm_your_port = cp_port c, hm_my_ip_address = replicate 16 0, hm_my_port = my_port,
            hm_nonce = nd_nonce n,
            hm_user_agent = [0x73, 0x61, 0x73, 0x68, 0x69, 0x6D, 0x69, 0x20] @ nd_version n\<rparr> in
     athen (set_peer p (\<lambda>c. c\<lparr>cp_hello_sent := True\<rparr>))
     (send_message p hello None)))"

definition peer_step :: "nat \<Rightarrow> int \<Rightarrow> (node, unit) action" where
  "peer_step p current_time =
     abind (the_peer p) (\<lambda>c.
     athen (awhen (\<not> cp_hello_sent c) (send_hello p))
     (abind (the_peer p) (\<lambda>c.
     awhen (cp_hello_received c \<and>
         (case cp_last_get_peers_sent_at c of None \<Rightarrow> True | Some t \<Rightarrow> current_time > t + GET_PEERS_INTERVAL) \<and>
         \<not> cp_waiting_for_peers c)
       (athen (send_message p GetPeersMessage None)
        (set_peer p (\<lambda>c. c\<lparr>cp_waiting_for_peers := True, cp_last_get_peers_sent_at := Some current_time\<rparr>))))))"

text \<open>\<open>NetworkManager.step\<close>; the object whose attribute is set is the one in the dictionary.\<close>

definition connect_if_due :: "int \<Rightarrow> disconnected_peer \<Rightarrow> (node, unit) action" where
  "connect_if_due current_time d =
     abind (aget nd_my_addresses) (\<lambda>my_addresses.
     awhen (dp_direction d = OUTGOING \<and> (dp_host d, dp_port d) \<notin> set my_addresses \<and>
         is_time_to_connect d current_time)
       (let d' = d\<lparr>dp_last_connection_attempt := Some current_time\<rparr> in
        athen (amod (\<lambda>n. if map_of (nd_disconnected n) (disconnected_key d) = None then n
                 else n\<lparr>nd_disconnected := AList.update (disconnected_key d) d' (nd_disconnected n)\<rparr>))
        (start_outgoing_connection d')))"

definition network_manager_step :: "int \<Rightarrow> (node, unit) action" where
  "network_manager_step current_time =
     athen sanity_check
     (athen (abind (aget (\<lambda>n. map snd (nd_disconnected n))) (aforeach (connect_if_due current_time)))
     (abind (aget (\<lambda>n. map snd (nd_connected n))) (aforeach (\<lambda>p. peer_step p current_time))))"

text \<open>\<open>ChainManager.step\<close>\<close>

definition inventory_batch_handled :: "connected_peer \<Rightarrow> bool" where
  "inventory_batch_handled c \<longleftrightarrow> \<not> cp_waiting_for_inventory c \<and> cp_inventory_messages c = []"

definition drop_finished_fetches :: "int \<Rightarrow> (node, unit) action" where
  "drop_finished_fetches current_time =
     amod (\<lambda>n. n\<lparr>nd_chain := (nd_chain n)\<lparr>cm_actively_fetching_blocks_from_peers :=
       filter (\<lambda>(timeout_at, p). current_time < timeout_at \<and> \<not> inventory_batch_handled (nd_peers n p))
         (cm_actively_fetching_blocks_from_peers (nd_chain n))\<rparr>\<rparr>)"

definition fetch_blocks_from :: "crypto \<Rightarrow> int \<Rightarrow> nat list \<Rightarrow> (node, unit) action" where
  "fetch_blocks_from cr current_time ibd_candidates =
     abind (aget nd_chain) (\<lambda>cm.
     abind (alift (get_get_blocks_message cr (cm_coinstate cm))) (\<lambda>get_blocks_message.
     abind (randrange (length ibd_candidates)) (\<lambda>i.
     let remote_peer = ibd_candidates ! nat i in
     athen (set_peer remote_peer (\<lambda>c. c\<lparr>cp_waiting_for_inventory := True\<rparr>))
     (athen (amod (\<lambda>n. n\<lparr>nd_chain := (nd_chain n)\<lparr>cm_actively_fetching_blocks_from_peers :=
        cm_actively_fetching_blocks_from_peers (nd_chain n) @ [(current_time + IBD_PEER_TIMEOUT, remote_peer)]\<rparr>\<rparr>))
     (send_message remote_peer get_blocks_message None)))))"

definition chain_manager_step :: "crypto \<Rightarrow> int \<Rightarrow> (node, unit) action" where
  "chain_manager_step cr current_time =
     abind (aget nd_chain) (\<lambda>cm.
     abind (alift (should_actively_fetch_blocks cm current_time)) (\<lambda>fetch.
     awhen fetch
       (abind (aget (\<lambda>n. filter (\<lambda>p. current_time >
            cp_last_empty_inventory_response_at (nd_peers n p) + EMPTY_INVENTORY_BACKOFF) (get_active_peers n)))
         (\<lambda>ibd_candidates.
        awhen (ibd_candidates \<noteq> [])
          (athen (drop_finished_fetches current_time)
          (abind (aget nd_chain) (\<lambda>cm.
           awhen (int (length (cm_actively_fetching_blocks_from_peers cm)) \<le> MAX_IBD_PEERS)
             (fetch_blocks_from cr current_time ibd_candidates))))))))"

end
