(* ===== verification/Remote_Peer.thy ===== *)
theory Remote_Peer
  imports Network
begin

text \<open>
  Model of the message handlers of \<open>ConnectedRemotePeer\<close> (\<open>skepticoin/networking/remote_peer.py\<close>), each
  an action on the node for a peer \<open>p\<close>, of the parts of \<open>DiskInterface\<close> they call
  (\<open>skepticoin/networking/disk_interface.py\<close>), and of \<open>LocalPeer\<close>'s event handling
  (\<open>skepticoin/networking/local_peer.py\<close>).
\<close>

section \<open>DiskInterface\<close>

text \<open>\<open>write_peers\<close>: the peer's row first, at most 100 rows; a file that cannot be read counts as empty.\<close>

definition PEERS_JSON_MAX_LEN :: nat where
  "PEERS_JSON_MAX_LEN = 100"

definition write_peers :: "nat \<Rightarrow> (node, unit) action" where
  "write_peers p =
     amod (\<lambda>n.
       let key = connected_key (nd_peers n p);
           db = (case nd_peers_file n of None \<Rightarrow> [] | Some rows \<Rightarrow> rows);
           keep = key # filter (\<lambda>row. row \<noteq> key) db in
       n\<lparr>nd_peers_file := Some (take PEERS_JSON_MAX_LEN keep)\<rparr>)"

definition on_store :: "(block_store, 'a) action \<Rightarrow> (node, 'a) action" where
  "on_store m n = (let (r, st) = m (nd_store n) in (r, n\<lparr>nd_store := st\<rparr>))"

definition save_block :: "block \<Rightarrow> (node, unit) action" where
  "save_block b = on_store (add_block_to_buffer b)"

definition flush_blocks :: "crypto \<Rightarrow> (node, unit) action" where
  "flush_blocks cr = on_store (flush_blocks_to_disk cr)"

section \<open>Hello\<close>

definition add_disconnected_if_new :: "string \<Rightarrow> int \<Rightarrow> (node, unit) action" where
  "add_disconnected_if_new host port =
     (let key = (host, port, OUTGOING) in
      athen sanity_check
      (athen (amod (\<lambda>n. if map_of (nd_disconnected n) key \<noteq> None \<or> map_of (nd_connected n) key \<noteq> None then n
                else n\<lparr>nd_disconnected :=
                  AList.update key (mk_disconnected_peer host port OUTGOING None 0) (nd_disconnected n)\<rparr>))
      sanity_check))"

definition handle_hello_message_received :: "nat \<Rightarrow> hello_message \<Rightarrow> (node, unit) action" where
  "handle_hello_message_received p message =
     athen (set_peer p (\<lambda>c. c\<lparr>cp_hello_received := True, cp_ban_score := 0\<rparr>))
     (abind (the_peer p) (\<lambda>c.
     athen (awhen (cp_direction c = INCOMING) (add_disconnected_if_new (cp_host c) (hm_my_port message)))
     (athen (awhen (cp_direction c = OUTGOING) (write_peers p))
     (abind (aget nd_nonce) (\<lambda>nonce.
     awhen (cp_direction c = OUTGOING \<and> hm_nonce message = nonce)
       (athen (amod (\<lambda>n. n\<lparr>nd_my_addresses := nd_my_addresses n @ [(cp_host c, cp_port c)]\<rparr>))
              (disconnect p)))))))"

section \<open>Inventories\<close>

definition handle_get_blocks_message_received :: "crypto \<Rightarrow> nat \<Rightarrow> message_header \<Rightarrow> bytes list \<Rightarrow> (node, unit) action" where
  "handle_get_blocks_message_received cr p header potential_start_hashes =
     abind (aget (\<lambda>n. cm_coinstate (nd_chain n))) (\<lambda>cs.
     abind (alift (get_blocks_reply cr cs potential_start_hashes)) (\<lambda>items.
     send_message p (InventoryMessage items) (Some header)))"

text \<open>The inventory messages are updated in place, by position.\<close>

definition set_inventory :: "nat \<Rightarrow> nat \<Rightarrow> (inventory_message_state \<Rightarrow> inventory_message_state) \<Rightarrow> (node, unit) action" where
  "set_inventory p i f = set_peer p (\<lambda>c. c\<lparr>cp_inventory_messages :=
     (cp_inventory_messages c)[i := f (cp_inventory_messages c ! i)]\<rparr>)"

definition request_item :: "coinstate \<Rightarrow> nat \<Rightarrow> nat \<Rightarrow> nat \<Rightarrow> (node, unit) action" where
  "request_item cs p i j =
     abind (the_peer p) (\<lambda>c.
     let msg_state = cp_inventory_messages c ! i; item = im_items msg_state ! j in
     awhen (\<not> ii_block_requested item \<and> cs_block_by_hash cs (ii_hash item) = None)
       (athen (set_inventory p i (\<lambda>m. m\<lparr>im_items := (im_items m)[j := item\<lparr>ii_block_requested := True\<rparr>]\<rparr>))
              (send_message p (GetDataMessage DATA_BLOCK (ii_hash item)) (Some (im_header msg_state)))))"

definition check_inventory_messages :: "nat \<Rightarrow> (node, unit) action" where
  "check_inventory_messages p =
     abind (aget (\<lambda>n. cm_coinstate (nd_chain n))) (\<lambda>cs.
     abind (the_peer p) (\<lambda>c.
     aforeach (\<lambda>i.
       abind (the_peer p) (\<lambda>c.
       let msg_state = cp_inventory_messages c ! i in
       awhen (\<not> im_actually_used msg_state)
         (athen (set_inventory p i (\<lambda>m. m\<lparr>im_actually_used := True\<rparr>))
         (aforeach (request_item cs p i) [0..<length (im_items msg_state)]))))
       [0..<length (cp_inventory_messages c)]))"

definition handle_inventory_message_received :: "nat \<Rightarrow> message_header \<Rightarrow> inventory_item list \<Rightarrow> (node, unit) action" where
  "handle_inventory_message_received p header items =
     (if int (length items) > GET_BLOCKS_INVENTORY_SIZE then araise (PyException ''Inventory msg too big'')
      else if items = [] then
        abind get_time (\<lambda>t.
        set_peer p (\<lambda>c. c\<lparr>cp_last_empty_inventory_response_at := t, cp_waiting_for_inventory := False\<rparr>))
      else
        athen (set_peer p (\<lambda>c. c\<lparr>cp_inventory_messages := cp_inventory_messages c @
          [\<lparr>im_header = header, im_items = items, im_actually_used = False\<rparr>]\<rparr>))
        (athen (check_inventory_messages p)
        (send_message p (GetBlocksMessage [ii_hash (last items)] zero_hash) (Some header))))"

text \<open>\<open>remove_from_inventory\<close>: the first item with the hash of each message, up to a message left empty.\<close>

fun remove_first_item :: "bytes \<Rightarrow> inventory_item list \<Rightarrow> inventory_item list" where
  "remove_first_item hash [] = []"
| "remove_first_item hash (item # items) =
     (if ii_hash item = hash then items else item # remove_first_item hash items)"

fun remove_from_messages :: "bytes \<Rightarrow> inventory_message_state list \<Rightarrow> inventory_message_state list" where
  "remove_from_messages hash [] = []"
| "remove_from_messages hash (msg_state # msg_states) =
     (let msg_state = msg_state\<lparr>im_items := remove_first_item hash (im_items msg_state)\<rparr> in
      if im_items msg_state = [] then msg_states
      else msg_state # remove_from_messages hash msg_states)"

definition remove_from_inventory :: "nat \<Rightarrow> bytes \<Rightarrow> (node, unit) action" where
  "remove_from_inventory p hash =
     set_peer p (\<lambda>c. c\<lparr>cp_inventory_messages := remove_from_messages hash (cp_inventory_messages c)\<rparr>)"

definition handle_get_data_message_received :: "nat \<Rightarrow> message_header \<Rightarrow> bytes \<Rightarrow> bytes \<Rightarrow> (node, unit) action" where
  "handle_get_data_message_received p header data_type hash =
     (if data_type \<noteq> DATA_BLOCK then araise NotImplementedError
      else abind (aget (\<lambda>n. cm_coinstate (nd_chain n))) (\<lambda>cs.
           case cs_block_by_hash cs hash of
             None \<Rightarrow> aret ()
           | Some b \<Rightarrow> send_message p (DataMessage DATA_BLOCK (BlockData b)) (Some header)))"

section \<open>Blocks and transactions\<close>

text \<open>The \<open>except Exception\<close> around \<open>validate_block_in_coinstate\<close>: back to the last valid state.\<close>

definition reject_block :: "crypto \<Rightarrow> (node, unit) action" where
  "reject_block cr =
     abind (aget (\<lambda>n. cm_last_known_valid_coinstate (nd_chain n))) (\<lambda>last_known_valid_coinstate.
     athen (case last_known_valid_coinstate of None \<Rightarrow> aret () | Some cs \<Rightarrow> on_chain (set_coinstate cr cs True))
     (on_store clear_write_buffer))"

definition broadcast_if_head :: "crypto \<Rightarrow> message_header \<Rightarrow> block \<Rightarrow> coinstate \<Rightarrow> (node, unit) action" where
  "broadcast_if_head cr header b coinstate_changed =
     abind (alift (cs_head coinstate_changed)) (\<lambda>head.
     awhen (block_eq b head \<and> mh_in_response_to header = 0) (broadcast_block cr b))"

definition accept_block :: "crypto \<Rightarrow> message_header \<Rightarrow> block \<Rightarrow> coinstate \<Rightarrow> (node, unit) action" where
  "accept_block cr header b coinstate_prior =
     athen (save_block b)
     (abind (alift (add_block_no_validation cr coinstate_prior b)) (\<lambda>coinstate_changed.
     if mh_in_response_to header = 0 \<or> block_height b mod IBD_VALIDATION_SKIP = 0
     then (case validate_block_in_coinstate cr b coinstate_prior of
             Inl e \<Rightarrow> reject_block cr
           | Inr _ \<Rightarrow>
               athen (on_chain (set_coinstate cr coinstate_changed True))
               (athen (flush_blocks cr) (broadcast_if_head cr header b coinstate_changed)))
     else athen (on_chain (set_coinstate cr coinstate_changed False))
                (broadcast_if_head cr header b coinstate_changed)))"

definition handle_block_received :: "crypto \<Rightarrow> nat \<Rightarrow> message_header \<Rightarrow> block \<Rightarrow> (node, unit) action" where
  "handle_block_received cr p header b =
     abind (aget (\<lambda>n. cm_coinstate (nd_chain n))) (\<lambda>coinstate_prior.
     abind (alift (block_hash cr b)) (\<lambda>hash.
     athen (remove_from_inventory p hash)
     (if cs_block_by_hash coinstate_prior hash \<noteq> None then aret ()
      else if cs_block_by_hash coinstate_prior (block_previous_block_hash b) = None
      then athen (alift (cs_head coinstate_prior)) (aret ())
      else abind get_time (\<lambda>now.
           case validate_block_by_itself cr b now of
             Inl e \<Rightarrow> athen (alift (cs_head coinstate_prior)) (aret ())
           | Inr _ \<Rightarrow> accept_block cr header b coinstate_prior))))"

definition handle_transaction_received :: "crypto \<Rightarrow> transaction \<Rightarrow> (node, unit) action" where
  "handle_transaction_received cr t =
     abind (aget (\<lambda>n. cm_transaction_pool (nd_chain n))) (\<lambda>transaction_pool.
     if \<exists>t'\<in>set transaction_pool. transaction_eq t' t then aret ()
     else abind (on_chain (add_transaction_to_pool cr t)) (\<lambda>added.
          awhen added (broadcast_transaction t)))"

text \<open>The object in a message that was read is of the class its type says.\<close>

definition handle_data_message_received :: "crypto \<Rightarrow> nat \<Rightarrow> message_header \<Rightarrow> bytes \<Rightarrow> data_object \<Rightarrow> (node, unit) action" where
  "handle_data_message_received cr p header data_type d =
     (if data_type = DATA_BLOCK
      then (case d of BlockData b \<Rightarrow> handle_block_received cr p header b | _ \<Rightarrow> araise AttributeError)
      else if data_type = DATA_TRANSACTION
      then (case d of TransactionData t \<Rightarrow> handle_transaction_received cr t | _ \<Rightarrow> araise AttributeError)
      else araise NotImplementedError)"

section \<open>Peers\<close>

definition announce_connected :: "nat \<Rightarrow> (node, announced_peer list) action" where
  "announce_connected p =
     abind (the_peer p) (\<lambda>c.
     if cp_direction c = OUTGOING \<and> cp_ban_score c < MAX_CONNECTION_ATTEMPTS
     then abind get_time (\<lambda>t.
          abind (alift (mapped_ipv6 (cp_host c))) (\<lambda>a.
          aret [\<lparr>ap_last_seen_at = t, ap_ip_address = a, ap_port = cp_port c\<rparr>]))
     else aret [])"

definition announce_disconnected :: "disconnected_peer \<Rightarrow> (node, announced_peer list) action" where
  "announce_disconnected d =
     (if dp_direction d = OUTGOING \<and> dp_ban_score d < MAX_CONNECTION_ATTEMPTS
      then abind (alift (mapped_ipv6 (dp_host d))) (\<lambda>a.
           aret [\<lparr>ap_last_seen_at = 0, ap_ip_address = a, ap_port = dp_port d\<rparr>])
      else aret [])"

fun acollect :: "('a \<Rightarrow> ('s, 'b list) action) \<Rightarrow> 'a list \<Rightarrow> ('s, 'b list) action" where
  "acollect f [] = aret []"
| "acollect f (x # xs) = abind (f x) (\<lambda>ys. abind (acollect f xs) (\<lambda>zs. aret (ys @ zs)))"

definition handle_get_peers_message_received :: "nat \<Rightarrow> message_header \<Rightarrow> (node, unit) action" where
  "handle_get_peers_message_received p header =
     abind (aget (\<lambda>n. map snd (nd_connected n))) (\<lambda>connected.
     abind (acollect announce_connected connected) (\<lambda>peers1.
     abind (aget (\<lambda>n. map snd (nd_disconnected n))) (\<lambda>disconnected.
     abind (acollect announce_disconnected disconnected) (\<lambda>peers2.
     send_message p (PeersMessage (take 1000 (peers1 @ peers2))) (Some header)))))"

definition handle_peers_message_received :: "nat \<Rightarrow> announced_peer list \<Rightarrow> (node, unit) action" where
  "handle_peers_message_received p peers =
     athen (set_peer p (\<lambda>c. c\<lparr>cp_waiting_for_peers := False\<rparr>))
     (aforeach (\<lambda>a.
       case ipv4_mapped_exploded (ap_ip_address a) of
         None \<Rightarrow> aret ()
       | Some host \<Rightarrow> add_disconnected_if_new host (ap_port a)) peers)"

section \<open>Dispatch\<close>

definition handle_message_received :: "crypto \<Rightarrow> nat \<Rightarrow> message_header \<Rightarrow> message \<Rightarrow> (node, unit) action" where
  "handle_message_received cr p header message =
     (case message of
        HelloMessage m \<Rightarrow> handle_hello_message_received p m
      | _ \<Rightarrow>
        abind (the_peer p) (\<lambda>c.
        if \<not> cp_hello_received c then araise (PyException ''First message must be Hello'')
        else case message of
            GetBlocksMessage hashes stop_hash \<Rightarrow> handle_get_blocks_message_received cr p header hashes
          | InventoryMessage items \<Rightarrow> handle_inventory_message_received p header items
          | GetDataMessage data_type hash \<Rightarrow> handle_get_data_message_received p header data_type hash
          | DataMessage data_type d \<Rightarrow> handle_data_message_received cr p header data_type d
          | GetPeersMessage \<Rightarrow> handle_get_peers_message_received p header
          | PeersMessage peers \<Rightarrow> handle_peers_message_received p peers
          | _ \<Rightarrow> araise NotImplementedError))"

text \<open>The receiver belongs to the peer; the handlers do not touch it.\<close>

definition handle_receive_data :: "crypto \<Rightarrow> nat \<Rightarrow> bytes \<Rightarrow> (node, unit) action" where
  "handle_receive_data cr p data n =
     (let (res, r, n) = receive cr (handle_message_received cr p) data (cp_receiver (nd_peers n p), n) in
      (res, n\<lparr>nd_peers := (nd_peers n)(p := (nd_peers n p)\<lparr>cp_receiver := r\<rparr>)\<rparr>))"

section \<open>LocalPeer: events\<close>

text \<open>
  \<open>start_listening\<close>; whether binding the socket succeeds is the argument \<open>bound\<close> (every exception is
  caught there). \<open>handle_incoming_connection\<close>: what \<open>getpeername\<close> gives, an error number or an address.
\<close>

definition start_listening :: "int \<Rightarrow> bool \<Rightarrow> (node, unit) action" where
  "start_listening port bound =
     athen (amod (\<lambda>n. n\<lparr>nd_port := Some port\<rparr>))
     (awhen bound (amod (\<lambda>n. n\<lparr>nd_listening := True\<rparr>)))"

definition handle_incoming_connection :: "int + (string \<times> int) \<Rightarrow> (node, unit) action" where
  "handle_incoming_connection getpeername =
     (case getpeername of
        Inl errno \<Rightarrow> if errno = 107 then aret () else araise OSError
      | Inr (remote_host, remote_port) \<Rightarrow>
          abind (register_peer (mk_connected_peer remote_host remote_port INCOMING None 0)) handle_peer_connected)"

text \<open>
  What the socket does in an event of the selector: \<open>recv\<close> gives bytes (none when the peer closed the
  connection) or raises an \<open>OSError\<close>, if there is something to read; \<open>send\<close> takes bytes, if asked for.
\<close>

record socket_event =
  se_read :: "bytes result option"
  se_write :: "nat list option"

definition handle_remote_peer_selector_event :: "crypto \<Rightarrow> nat \<Rightarrow> socket_event \<Rightarrow> (node, unit) action" where
  "handle_remote_peer_selector_event cr p ev =
     acatch
       (athen (case se_read ev of
                 None \<Rightarrow> aret ()
               | Some recv \<Rightarrow>
                   abind (alift recv) (\<lambda>recv_data.
                   if recv_data \<noteq> [] then handle_receive_data cr p recv_data else disconnect p))
              (case se_write ev of None \<Rightarrow> aret () | Some sends \<Rightarrow> handle_can_send p sends))
       (\<lambda>e. disconnect p)"

definition step_managers :: "crypto \<Rightarrow> int \<Rightarrow> (node, unit) action" where
  "step_managers cr current_time =
     abind (aget nd_running) (\<lambda>running.
     athen (awhen running (network_manager_step current_time))
     (abind (aget nd_running) (\<lambda>running.
     awhen running (chain_manager_step cr current_time))))"

text \<open>
  The loop of \<open>run\<close> as events: the managers' step, an event of the listening socket, an event of a
  peer's socket, and \<open>stop\<close>. An exception that reaches \<open>run\<close> ends the loop.
\<close>

datatype node_event =
    StepManagers int
  | IncomingConnection "int + (string \<times> int)"
  | PeerEvent nat socket_event
  | Stop

definition leave_run_loop :: "(node, unit) action" where
  "leave_run_loop = amod (\<lambda>n. n\<lparr>nd_running := False, nd_selector := [], nd_listening := False\<rparr>)"

fun event_action :: "crypto \<Rightarrow> node_event \<Rightarrow> (node, unit) action" where
  "event_action cr (StepManagers current_time) = step_managers cr current_time"
| "event_action cr (IncomingConnection getpeername) = handle_incoming_connection getpeername"
| "event_action cr (PeerEvent p ev) = handle_remote_peer_selector_event cr p ev"
| "event_action cr Stop = leave_run_loop"

definition handle_event :: "crypto \<Rightarrow> node_event \<Rightarrow> (node, unit) action" where
  "handle_event cr ev =
     abind (aget nd_running) (\<lambda>running. awhen running (acatch (event_action cr ev) (\<lambda>e. leave_run_loop)))"

end
