(* ===== verification/Network_Invariant.thy ===== *)
theory Network_Invariant
  imports Remote_Peer
begin

text \<open>
  The invariant of the connections of a node: no peer is connected and disconnected at once (so that
  \<open>_sanity_check\<close>, which the code runs around every change, never fails), the keys of the two
  dictionaries are those of their peers, and the connected peers are exactly those registered with the
  selector. It holds in every state a node can reach, whatever its peers send, in whatever pieces.
\<close>

section \<open>Actions that leave the connections alone\<close>

definition net_view where
  "net_view n = (nd_connected n, nd_disconnected n, map fst (nd_selector n), nd_next_peer n,
     \<lambda>p. connected_key (nd_peers n p))"

abbreviation quiet :: "(node, 'a) action \<Rightarrow> bool" where
  "quiet \<equiv> preserves net_view"

lemma quiet_environment [preserves_intros]:
  "quiet get_time" "quiet (randrange k)" "quiet (the_peer p)" "quiet (on_chain m)" "quiet (on_store st)"
  by (auto simp: preserves_iff get_time_def randrange_def the_peer_def on_chain_def on_store_def net_view_def action_apply
      split: prod.split)

lemma quiet_set_peer [preserves_intros]: "(\<And>c. connected_key (f c) = connected_key c) \<Longrightarrow> quiet (set_peer p f)"
  by (auto simp: preserves_iff set_peer_def net_view_def action_apply)

lemma map_fst_update: "map_of xs k \<noteq> None \<Longrightarrow> map fst (AList.update k v xs) = map fst xs"
  by (induction xs) auto

lemma quiet_selector_modify [preserves_intros]: "quiet (selector_modify p w)"
  by (auto simp: preserves_iff selector_modify_def net_view_def action_apply abind_def map_fst_update)

lemma key_simps [simp]:
  "connected_key (c\<lparr>cp_ban_score := x1\<rparr>) = connected_key c"
  "connected_key (c\<lparr>cp_receiver := x2\<rparr>) = connected_key c"
  "connected_key (c\<lparr>cp_send_backlog := x3\<rparr>) = connected_key c"
  "connected_key (c\<lparr>cp_send_buffer := x4\<rparr>) = connected_key c"
  "connected_key (c\<lparr>cp_hello_sent := x5\<rparr>) = connected_key c"
  "connected_key (c\<lparr>cp_hello_received := x6\<rparr>) = connected_key c"
  "connected_key (c\<lparr>cp_waiting_for_inventory := x7\<rparr>) = connected_key c"
  "connected_key (c\<lparr>cp_last_empty_inventory_response_at := x8\<rparr>) = connected_key c"
  "connected_key (c\<lparr>cp_inventory_messages := x9\<rparr>) = connected_key c"
  "connected_key (c\<lparr>cp_next_msg_id := x10\<rparr>) = connected_key c"
  "connected_key (c\<lparr>cp_last_get_peers_sent_at := x11\<rparr>) = connected_key c"
  "connected_key (c\<lparr>cp_waiting_for_peers := x12\<rparr>) = connected_key c"
  by (simp_all add: connected_key_def)

lemma quiet_send_message [preserves_intros]: "quiet (send_message p message prev_header)"
  unfolding send_message_def next_header_def new_context_def get_msg_id_def fill_send_buffer_def start_sending_def
  by (intro preserves_intros) simp_all

lemma quiet_handle_can_send [preserves_intros]: "quiet (handle_can_send p sends)"
proof (induction sends)
  case (Cons sent sends)
  show ?case
    unfolding handle_can_send.simps stop_sending_def by (intro preserves_intros Cons.IH; simp add: net_view_def)
qed (simp add: preserves_basic)

lemma quiet_broadcast [preserves_intros]: "quiet (broadcast_message message)" "quiet (broadcast_block cr b)"
  "quiet (broadcast_transaction t)"
  unfolding broadcast_block_def broadcast_transaction_def broadcast_message_def by (intro preserves_intros)+

lemma quiet_steps [preserves_intros]: "quiet (peer_step p t)" "quiet (chain_manager_step cr t)"
  unfolding peer_step_def send_hello_def chain_manager_step_def drop_finished_fetches_def fetch_blocks_from_def
  by (intro preserves_intros; simp add: net_view_def)+

lemma quiet_inventory [preserves_intros]:
  "quiet (handle_get_blocks_message_received cr p header hashes)"
  "quiet (handle_inventory_message_received p header items)"
  "quiet (handle_get_data_message_received p header data_type hash)"
  unfolding handle_get_blocks_message_received_def handle_inventory_message_received_def
    handle_get_data_message_received_def check_inventory_messages_def request_item_def set_inventory_def
  by (intro preserves_intros; simp)+

lemma preserves_acollect [preserves_intros]: "(\<And>x. preserves v (f x)) \<Longrightarrow> preserves v (acollect f xs)"
  by (induction xs) (auto intro!: preserves_intros)

lemma quiet_get_peers [preserves_intros]: "quiet (handle_get_peers_message_received p header)"
  unfolding handle_get_peers_message_received_def announce_connected_def announce_disconnected_def
  by (intro preserves_intros)

lemma quiet_data [preserves_intros]: "quiet (handle_data_message_received cr p header data_type d)"
proof -
  have "quiet (handle_block_received cr p header b)" for b
    unfolding handle_block_received_def remove_from_inventory_def accept_block_def reject_block_def
      save_block_def flush_blocks_def broadcast_if_head_def
    by (intro preserves_intros; simp add: net_view_def)
  moreover have "quiet (handle_transaction_received cr t)" for t
    unfolding handle_transaction_received_def by (intro preserves_intros)
  ultimately show ?thesis
    unfolding handle_data_message_received_def by (cases d) (auto intro!: preserves_intros)
qed

section \<open>The invariant\<close>

text \<open>\<open>q\<close>, if given, is a peer that is registered but not yet entered as connected.\<close>

definition net_ok :: "nat option \<Rightarrow> node \<Rightarrow> bool" where
  "net_ok q n \<longleftrightarrow>
     distinct (map fst (nd_connected n)) \<and> distinct (map snd (nd_connected n)) \<and>
     distinct (map fst (nd_disconnected n)) \<and>
     set (map fst (nd_connected n)) \<inter> set (map fst (nd_disconnected n)) = {} \<and>
     (\<forall>(k, p)\<in>set (nd_connected n). k = connected_key (nd_peers n p)) \<and>
     (\<forall>(k, d)\<in>set (nd_disconnected n). k = disconnected_key d) \<and>
     distinct (map fst (nd_selector n)) \<and>
     set (map fst (nd_selector n)) = set (map snd (nd_connected n)) \<union> set_option q \<and>
     (\<forall>p\<in>set (map fst (nd_selector n)). p < nd_next_peer n) \<and>
     set_option q \<inter> set (map snd (nd_connected n)) = {}"

lemma net_ok_view: "net_view n = net_view n' \<Longrightarrow> net_ok q n = net_ok q n'"
  by (simp add: net_ok_def net_view_def fun_eq_iff)

lemma quiet_net_ok: "quiet m \<Longrightarrow> keeps (net_ok q) m"
  unfolding preserves_iff keeps_iff using net_ok_view by blast

lemma sanity_check_disjoint:
  assumes "set (map fst (nd_connected n)) \<inter> set (map fst (nd_disconnected n)) = {}"
  shows "sanity_check n = (Inr (), n)" "abind sanity_check f n = f () n"
proof -
  have "\<not> (\<exists>key\<in>set (map fst (nd_connected n)). key \<in> set (map fst (nd_disconnected n)))" using assms by blast
  then show "sanity_check n = (Inr (), n)" unfolding sanity_check_def abind_apply by (simp add: action_apply del: set_map)
  then show "abind sanity_check f n = f () n" by (rule abind_Inr)
qed

lemma sanity_check_passes: "net_ok q n \<Longrightarrow> sanity_check n = (Inr (), n)"
  by (rule sanity_check_disjoint) (simp add: net_ok_def)

lemma keeps_sanity_check: "keeps (net_ok q) sanity_check"
  unfolding keeps_iff by (simp add: sanity_check_passes)

section \<open>Connecting and disconnecting\<close>

lemma set_map_delete: "set (map fst (AList.delete k xs)) = set (map fst xs) - {k}"
  by (induction xs) auto

lemma distinct_delete: "distinct (map f xs) \<Longrightarrow> distinct (map f (AList.delete k xs))"
  by (induction xs) (auto simp: AList.delete_eq)

lemma delete_snd:
  assumes "distinct (map fst xs)" and "distinct (map snd xs)" and kp: "(k, p) \<in> set xs"
  shows "set (map snd (AList.delete k xs)) = set (map snd xs) - {p}"
proof -
  have "fst x \<noteq> k \<longleftrightarrow> snd x \<noteq> p" if "x \<in> set xs" for x
    using assms that by (metis distinct_map fst_conv inj_on_eq_iff snd_conv)
  then have "AList.delete k xs = filter (\<lambda>x. snd x \<noteq> p) xs"
    unfolding AList.delete_eq by (intro filter_cong) (auto simp: case_prod_unfold eq_commute [of k])
  then show ?thesis by auto
qed

text \<open>Disconnecting a connected peer: it leaves the selector and the connections.\<close>

lemma handle_peer_disconnected_eq:
  assumes "(k, p) \<in> set (nd_connected n)" and "k = connected_key (nd_peers n p)" and "distinct (map fst (nd_connected n))"
    and "set (map fst (nd_connected n)) \<inter> set (map fst (nd_disconnected n)) = {}"
  shows "\<exists>c. connected_key c = connected_key (nd_peers n p) \<and> handle_peer_disconnected p n = (Inr (), n
    \<lparr>nd_connected := AList.delete k (nd_connected n),
     nd_peers := (nd_peers n)(p := c),
     nd_disconnected := (if cp_direction (nd_peers n p) = OUTGOING
       then AList.update k (as_disconnected c) (nd_disconnected n) else nd_disconnected n)\<rparr>)"
proof -
  let ?c = "nd_peers n p"
  let ?d = "?c\<lparr>cp_ban_score := cp_ban_score ?c + 1\<rparr>"
  have lookup: "map_of (nd_connected n) k \<noteq> None" using weak_map_of_SomeI [OF assms(1)] by auto
  have disjoint: "set (map fst (AList.delete k (nd_connected n))) \<inter> set (map fst (nd_disconnected n)) = {}"
      "set (map fst (AList.delete k (nd_connected n))) \<inter> set (map fst (AList.update k d (nd_disconnected n))) = {}" for d
    using assms(4) by (auto simp: set_map_delete update_keys simp del: set_map)
  note eval = handle_peer_disconnected_def the_peer_def set_peer_def abind_apply abind_assoc Let_def
    sanity_check_disjoint [OF assms(4)] assms(2) [symmetric] lookup
  show ?thesis
  proof (cases "cp_direction ?c = OUTGOING")
    case False
    then have "handle_peer_disconnected p n = (Inr (), n\<lparr>nd_connected := AList.delete k (nd_connected n)\<rparr>)"
      by (simp add: eval sanity_check_disjoint disjoint del: set_map)
    then show ?thesis using False by (intro exI [of _ ?c]) simp
  next
    case True
    then have "handle_peer_disconnected p n = (Inr (), n
      \<lparr>nd_connected := AList.delete k (nd_connected n),
       nd_peers := (nd_peers n)(p := if cp_hello_received ?c then ?c else ?d),
       nd_disconnected := AList.update k (as_disconnected (if cp_hello_received ?c then ?c else ?d)) (nd_disconnected n)\<rparr>)"
      by (cases "cp_hello_received ?c") (simp_all add: eval sanity_check_disjoint disjoint del: set_map)
    then show ?thesis using True by (intro exI [of _ "if cp_hello_received ?c then ?c else ?d"]) simp
  qed
qed

lemma keys_of_conversions [simp]:
  "disconnected_key (as_disconnected c) = connected_key c" "connected_key (as_connected d) = disconnected_key d"
  "disconnected_key (d\<lparr>dp_last_connection_attempt := t\<rparr>) = disconnected_key d"
  "connected_key (mk_connected_peer host port dir t b) = (host, port, dir)"
  "disconnected_key (mk_disconnected_peer host port dir t b) = (host, port, dir)"
  by (simp_all add: disconnected_key_def connected_key_def as_connected_def as_disconnected_def
      mk_connected_peer_def mk_disconnected_peer_def)

lemma set_delete_subset: "set (AList.delete k xs) \<subseteq> set xs"
  by (auto simp: AList.delete_eq)

lemma set_update: "x \<in> set (AList.update k v xs) \<Longrightarrow> x \<in> set xs \<or> x = (k, v)"
  by (induction xs) (auto split: if_splits)

lemma net_ok_disconnected_update:
  assumes "net_ok q n" and "disconnected_key d = k" and "k \<notin> set (map fst (nd_connected n))"
  shows "net_ok q (n\<lparr>nd_disconnected := AList.update k d (nd_disconnected n)\<rparr>)"
  using assms by (auto simp: net_ok_def distinct_update update_keys simp del: set_map dest!: set_update)

lemma net_ok_disconnected_delete:
  "net_ok q n \<Longrightarrow> net_ok q (n\<lparr>nd_disconnected := AList.delete k (nd_disconnected n)\<rparr>)"
  using set_delete_subset [of k "nd_disconnected n"]
  by (auto simp: net_ok_def distinct_delete set_map_delete simp del: set_map)

lemma net_ok_close:
  assumes "net_ok q n" and "(k, p) \<in> set (nd_connected n)"
  shows "net_ok q (n\<lparr>nd_selector := AList.delete p (nd_selector n), nd_connected := AList.delete k (nd_connected n)\<rparr>)"
proof -
  have snd: "set (map snd (AList.delete k (nd_connected n))) = set (map snd (nd_connected n)) - {p}"
    using assms by (intro delete_snd) (simp_all add: net_ok_def)
  have "p \<in> set (map snd (nd_connected n))" using imageI [OF assms(2), of snd] by simp
  then have p: "p \<notin> set_option q" using assms(1) unfolding net_ok_def by blast
  have "set (map fst (nd_selector n)) = set (map snd (nd_connected n)) \<union> set_option q"
    using assms(1) by (simp add: net_ok_def)
  then have sel: "set (map fst (AList.delete p (nd_selector n))) = (set (map snd (nd_connected n)) - {p}) \<union> set_option q"
    using p unfolding set_map_delete by auto
  let ?n = "n\<lparr>nd_selector := AList.delete p (nd_selector n), nd_connected := AList.delete k (nd_connected n)\<rparr>"
  have "set (map fst (nd_connected ?n)) \<inter> set (map fst (nd_disconnected ?n)) = {}"
    using assms unfolding net_ok_def by (simp add: set_map_delete del: set_map) blast
  moreover have "\<forall>(k, p)\<in>set (nd_connected ?n). k = connected_key (nd_peers ?n p)"
    using assms set_delete_subset [of k "nd_connected n"] unfolding net_ok_def by auto
  moreover have "\<forall>p\<in>set (map fst (nd_selector ?n)). p < nd_next_peer ?n"
    using assms unfolding net_ok_def by (simp add: set_map_delete del: set_map)
  moreover have "set_option q \<inter> set (map snd (nd_connected ?n)) = {}"
    using assms snd unfolding net_ok_def by (simp del: set_map) blast
  ultimately show ?thesis
    using assms sel snd unfolding net_ok_def by (simp add: distinct_delete del: set_map)
qed

lemma disconnect_ok:
  assumes ok: "net_ok q n" and q: "q \<noteq> Some p"
  obtains n' where "disconnect p n = (Inr (), n')" and "net_ok q n'" and "nd_next_peer n' = nd_next_peer n"
    and "\<And>r. connected_key (nd_peers n' r) = connected_key (nd_peers n r)"
    and "p \<notin> set (map snd (nd_connected n'))"
    and "\<And>k. (k, p) \<in> set (nd_connected n) \<Longrightarrow> k \<notin> set (map fst (nd_connected n'))"
proof (cases "p \<in> set (map snd (nd_connected n))")
  case False
  then have "map_of (nd_selector n) p = None" using ok q
    by (cases q) (auto simp: net_ok_def map_of_eq_None_iff simp flip: set_map)
  then have "disconnect p n = (Inr (), n)"
    by (simp add: disconnect_def selector_unregister_def abind_apply acatch_def abind_assoc action_apply)
  moreover have "(k, p) \<notin> set (nd_connected n)" for k using False by force
  ultimately show ?thesis using False ok by (intro that) auto
next
  case True
  then obtain k where kp: "(k, p) \<in> set (nd_connected n)" by auto
  let ?n1 = "n\<lparr>nd_selector := AList.delete p (nd_selector n)\<rparr>"
  have key: "k = connected_key (nd_peers n p)" using ok kp by (auto simp: net_ok_def)
  have "map_of (nd_selector n) p \<noteq> None"
    using ok True by (simp add: net_ok_def map_of_eq_None_iff flip: set_map)
  then obtain w where reg: "map_of (nd_selector n) p = Some w" by blast
  have "\<exists>c. connected_key c = connected_key (nd_peers ?n1 p) \<and> handle_peer_disconnected p ?n1 = (Inr (), ?n1
    \<lparr>nd_connected := AList.delete k (nd_connected ?n1),
     nd_peers := (nd_peers ?n1)(p := c),
     nd_disconnected := (if cp_direction (nd_peers ?n1 p) = OUTGOING
       then AList.update k (as_disconnected c) (nd_disconnected ?n1) else nd_disconnected ?n1)\<rparr>)"
    by (rule handle_peer_disconnected_eq) (use ok kp key in \<open>simp_all add: net_ok_def\<close>)
  then obtain c where c: "connected_key c = k" and hd: "handle_peer_disconnected p ?n1 = (Inr (), ?n1
    \<lparr>nd_connected := AList.delete k (nd_connected n),
     nd_peers := (nd_peers n)(p := c),
     nd_disconnected := (if cp_direction (nd_peers n p) = OUTGOING
       then AList.update k (as_disconnected c) (nd_disconnected n) else nd_disconnected n)\<rparr>)" (is "_ = (_, ?n2)")
    by (auto simp: key)
  let ?n3 = "n\<lparr>nd_selector := AList.delete p (nd_selector n), nd_connected := AList.delete k (nd_connected n),
    nd_peers := (nd_peers n)(p := c)\<rparr>"
  have k_gone: "k \<notin> set (map fst (AList.delete k (nd_connected n)))" by (simp add: set_map_delete del: set_map)
  have "net_ok q (n\<lparr>nd_selector := AList.delete p (nd_selector n), nd_connected := AList.delete k (nd_connected n)\<rparr>)"
    by (rule net_ok_close [OF ok kp])
  then have n3: "net_ok q ?n3" using c key by (subst (asm) net_ok_view [where n' = ?n3]) (auto simp: net_view_def)
  have "net_ok q (?n3\<lparr>nd_disconnected := AList.update k (as_disconnected c) (nd_disconnected ?n3)\<rparr>)"
    by (rule net_ok_disconnected_update [OF n3]) (use c k_gone in simp_all)
  with n3 have n2: "net_ok q ?n2" by (cases "cp_direction (nd_peers n p) = OUTGOING") simp_all
  show ?thesis
  proof (rule that [OF _ n2])
    show "disconnect p n = (Inr (), ?n2)"
      using reg by (simp add: disconnect_def selector_unregister_def abind_apply acatch_def abind_assoc action_apply hd)
    have "set (map snd (AList.delete k (nd_connected n))) = set (map snd (nd_connected n)) - {p}"
      using ok kp by (intro delete_snd) (simp_all add: net_ok_def)
    then show "p \<notin> set (map snd (nd_connected ?n2))" by simp
    have "k' = k" if "(k', p) \<in> set (nd_connected n)" for k'
      using ok that key by (auto simp: net_ok_def)
    then show "k' \<notin> set (map fst (nd_connected ?n2))" if "(k', p) \<in> set (nd_connected n)" for k'
      using that k_gone by simp
  qed (use c key in simp_all)
qed

lemma update_new: "k \<notin> set (map fst xs) \<Longrightarrow> AList.update k v xs = xs @ [(k, v)]"
  by (induction xs) auto

lemma net_ok_enter:
  assumes ok: "net_ok (Some p) n" and new: "connected_key (nd_peers n p) \<notin> set (map fst (nd_connected n))"
  defines "k \<equiv> connected_key (nd_peers n p)"
  shows "net_ok None (n\<lparr>nd_connected := AList.update k p (nd_connected n),
     nd_disconnected := AList.delete k (nd_disconnected n)\<rparr>)" (is "net_ok None ?n")
proof -
  have conn: "nd_connected ?n = nd_connected n @ [(k, p)]" using new by (simp add: k_def update_new)
  have "set (map fst (nd_connected ?n)) \<inter> set (map fst (nd_disconnected ?n)) = {}"
    using ok unfolding conn net_ok_def by (simp add: set_map_delete del: set_map) auto
  moreover have "\<forall>(k, d)\<in>set (nd_disconnected ?n). k = disconnected_key d"
    using ok set_delete_subset [of k "nd_disconnected n"] unfolding net_ok_def by auto
  moreover have "distinct (map snd (nd_connected ?n))" using ok unfolding conn net_ok_def by simp
  moreover have "set (map fst (nd_selector ?n)) = set (map snd (nd_connected ?n))"
    using ok unfolding conn net_ok_def by simp
  ultimately show ?thesis
    using ok new unfolding net_ok_def by (simp add: conn distinct_delete del: set_map) (simp add: k_def)
qed

lemma handle_peer_connected_ok:
  assumes ok: "net_ok (Some p) n"
  obtains n' where "handle_peer_connected p n = (Inr (), n')" and "net_ok None n'"
proof -
  let ?k = "connected_key (nd_peers n p)"
  obtain n1 where n1: "(case map_of (nd_connected n) ?k of None \<Rightarrow> aret () | Some q \<Rightarrow> disconnect q) n = (Inr (), n1)"
    and ok1: "net_ok (Some p) n1" and new: "?k \<notin> set (map fst (nd_connected n1))"
    and key: "connected_key (nd_peers n1 p) = ?k"
  proof (cases "map_of (nd_connected n) ?k")
    case None
    moreover have "?k \<notin> set (map fst (nd_connected n))" using None by (simp add: map_of_eq_None_iff)
    ultimately show ?thesis using ok by (intro that [of n]) (simp_all add: action_apply)
  next
    case (Some q)
    then have q: "(?k, q) \<in> set (nd_connected n)" by (rule map_of_SomeD)
    then have "q \<in> set (map snd (nd_connected n))" by force
    with ok have "Some p \<noteq> Some q" unfolding net_ok_def by (metis disjoint_iff option.set_intros)
    from disconnect_ok [OF ok this] obtain n' where n': "disconnect q n = (Inr (), n')" "net_ok (Some p) n'"
      "connected_key (nd_peers n' p) = ?k"
      "\<And>k. (k, q) \<in> set (nd_connected n) \<Longrightarrow> k \<notin> set (map fst (nd_connected n'))" by metis
    show ?thesis
    proof (rule that [of n'])
      show "(case map_of (nd_connected n) ?k of None \<Rightarrow> aret () | Some q \<Rightarrow> disconnect q) n = (Inr (), n')"
        by (simp add: Some n'(1))
      show "?k \<notin> set (map fst (nd_connected n'))" by (rule n'(4) [OF q])
    qed (rule n')+
  qed
  let ?n2 = "n1\<lparr>nd_connected := AList.update ?k p (nd_connected n1),
     nd_disconnected := AList.delete ?k (nd_disconnected n1)\<rparr>"
  have ok2: "net_ok None ?n2" using net_ok_enter [OF ok1] new unfolding key by blast
  have sanity1: "abind sanity_check f n1 = f () n1" for f :: "unit \<Rightarrow> (node, unit) action"
    by (rule abind_Inr) (rule sanity_check_passes [OF ok1])
  have "handle_peer_connected p n = (Inr (), ?n2)"
    unfolding handle_peer_connected_def the_peer_def abind_apply Let_def
    by (subst abind_Inr [where m = "case map_of (nd_connected n) ?k of None \<Rightarrow> aret () | Some q \<Rightarrow> disconnect q", OF n1])
      (simp add: sanity1 abind_apply sanity_check_passes [OF ok2])
  then show ?thesis using ok2 by (rule that)
qed

lemma net_ok_next: "net_ok q n \<Longrightarrow> p \<in> set (map snd (nd_connected n)) \<Longrightarrow> p < nd_next_peer n"
  unfolding net_ok_def by blast

lemma net_ok_register:
  assumes "net_ok None n" and "p = nd_next_peer n"
  shows "net_ok (Some p) (n\<lparr>nd_next_peer := Suc p, nd_peers := (nd_peers n)(p := c),
    nd_out := (nd_out n)(p := []), nd_selector := nd_selector n @ [(p, False)]\<rparr>)"
proof -
  have fresh: "p \<notin> set (map snd (nd_connected n))" using net_ok_next [OF assms(1), of p] assms(2) by blast
  moreover have "k = connected_key (((nd_peers n)(p := c)) r)" if "(k, r) \<in> set (nd_connected n)" for k r
  proof -
    have "r \<in> set (map snd (nd_connected n))" using that by force
    with fresh have "r \<noteq> p" by blast
    then show ?thesis using assms(1) that by (auto simp: net_ok_def)
  qed
  moreover have "set (map fst (nd_selector n)) = set (map snd (nd_connected n))" using assms by (simp add: net_ok_def)
  moreover have "\<forall>r\<in>set (map snd (nd_connected n)). r < Suc p"
    using net_ok_next [OF assms(1)] assms(2) by (blast intro: less_SucI)
  ultimately show ?thesis
    using assms unfolding net_ok_def by (simp del: set_map fun_upd_apply) blast
qed

lemma connect_new_peer_ok:
  assumes "net_ok None n"
  obtains n' where "abind (register_peer c) handle_peer_connected n = (Inr (), n')" and "net_ok None n'"
  using handle_peer_connected_ok [OF net_ok_register [OF assms refl, of c]]
  by (auto simp: register_peer_def abind_apply abind_assoc)

lemma keeps_start_outgoing_connection: "keeps (net_ok None) (start_outgoing_connection d)"
proof -
  have "net_ok None (snd (abind (register_peer c) handle_peer_connected n))" if "net_ok None n" for c n
    using connect_new_peer_ok [OF that, of c] by (metis snd_conv)
  then show ?thesis by (auto simp: keeps_iff start_outgoing_connection_def abind_apply action_apply)
qed

lemma keeps_add_disconnected_if_new: "keeps (net_ok None) (add_disconnected_if_new host port)"
proof -
  have "net_ok None (n\<lparr>nd_disconnected :=
      AList.update (host, port, OUTGOING) (mk_disconnected_peer host port OUTGOING None 0) (nd_disconnected n)\<rparr>)"
    if "net_ok None n" "map_of (nd_connected n) (host, port, OUTGOING) = None" for n
    using that by (intro net_ok_disconnected_update) (simp_all add: map_of_eq_None_iff)
  then show ?thesis
    unfolding add_disconnected_if_new_def Let_def by (intro keeps_intros keeps_sanity_check) simp
qed

lemma keeps_disconnect: "keeps (net_ok None) (disconnect p)"
  unfolding keeps_iff by (metis disconnect_ok option.distinct(1) snd_conv)

lemma keeps_connect_if_due: "keeps (net_ok None) (connect_if_due current_time d)"
proof -
  have "net_ok None (n\<lparr>nd_disconnected := AList.update (disconnected_key d) (d\<lparr>dp_last_connection_attempt := t\<rparr>) (nd_disconnected n)\<rparr>)"
    if "net_ok None n" "map_of (nd_disconnected n) (disconnected_key d) \<noteq> None" for n t
  proof (rule net_ok_disconnected_update [OF that(1)])
    have "disconnected_key d \<in> set (map fst (nd_disconnected n))" using that(2) by (simp add: map_of_eq_None_iff)
    then show "disconnected_key d \<notin> set (map fst (nd_connected n))" using that(1) unfolding net_ok_def by blast
  qed simp
  then show ?thesis
    unfolding connect_if_due_def Let_def
    by (intro keeps_intros keeps_start_outgoing_connection) auto
qed

lemma keeps_network_manager_step: "keeps (net_ok None) (network_manager_step current_time)"
  unfolding network_manager_step_def
  by (intro keeps_intros keeps_sanity_check keeps_connect_if_due quiet_net_ok quiet_steps)

lemma keeps_handle_hello: "keeps (net_ok None) (handle_hello_message_received p message)"
  unfolding handle_hello_message_received_def write_peers_def Let_def
  by (intro keeps_basic keeps_abind keeps_awhen keeps_add_disconnected_if_new keeps_disconnect
      quiet_net_ok [OF quiet_set_peer] quiet_net_ok [OF quiet_environment(3)] quiet_net_ok [OF preserves_amod])
    (simp_all add: net_view_def)

section \<open>Messages and events\<close>

lemma keeps_handle_peers: "keeps (net_ok None) (handle_peers_message_received p peers)"
  unfolding handle_peers_message_received_def
  by (intro keeps_basic keeps_abind keeps_aforeach keeps_cases keeps_add_disconnected_if_new
      quiet_net_ok [OF quiet_set_peer]) simp_all

lemma keeps_handle_message_received: "keeps (net_ok None) (handle_message_received cr p header message)"
proof (cases message)
  case (HelloMessage m)
  then show ?thesis by (simp add: handle_message_received_def keeps_handle_hello)
qed (auto simp: handle_message_received_def intro!: keeps_basic keeps_abind keeps_if keeps_handle_peers
    quiet_net_ok [OF quiet_environment(3)] quiet_net_ok [OF quiet_inventory(1)]
    quiet_net_ok [OF quiet_inventory(2)] quiet_net_ok [OF quiet_inventory(3)]
    quiet_net_ok [OF quiet_data] quiet_net_ok [OF quiet_get_peers])

lemma keeps_handle_receive_data: "keeps (net_ok None) (handle_receive_data cr p data)"
proof -
  have "net_ok None (snd (handle_receive_data cr p data n))" if "net_ok None n" for n
  proof -
    let ?out = "receive cr (handle_message_received cr p) data (cp_receiver (nd_peers n p), n)"
    have "net_ok None (snd (snd ?out))"
      by (rule receive_keeps [OF keeps_handle_message_received that])
    then show ?thesis
      by (subst net_ok_view [where n' = "snd (snd ?out)"])
        (auto simp: handle_receive_data_def net_view_def connected_key_def split: prod.split)
  qed
  then show ?thesis by (simp add: keeps_iff)
qed

lemma keeps_handle_incoming_connection: "keeps (net_ok None) (handle_incoming_connection getpeername)"
proof -
  have "keeps (net_ok None) (abind (register_peer c) handle_peer_connected)" for c
    unfolding keeps_iff by (metis connect_new_peer_ok snd_conv)
  then show ?thesis
    unfolding handle_incoming_connection_def by (intro keeps_cases keeps_if keeps_basic)
qed

lemma keeps_peer_event: "keeps (net_ok None) (handle_remote_peer_selector_event cr p ev)"
  unfolding handle_remote_peer_selector_event_def
  by (intro keeps_acatch keeps_abind keeps_cases keeps_if keeps_basic keeps_handle_receive_data keeps_disconnect
      quiet_net_ok [OF quiet_handle_can_send])

lemma keeps_step_managers: "keeps (net_ok None) (step_managers cr current_time)"
  unfolding step_managers_def
  by (intro keeps_basic keeps_abind keeps_awhen keeps_network_manager_step quiet_net_ok [OF quiet_steps(2)])

text \<open>Every event returns: an exception leaves the loop, and a node that has left it does nothing.\<close>

lemma handle_event_returns: "fst (handle_event cr ev n) = Inr ()"
  by (simp add: handle_event_def leave_run_loop_def awhen_def acatch_def abind_apply action_apply
      split: prod.split sum.split)

definition node_ok :: "node \<Rightarrow> bool" where
  "node_ok n \<longleftrightarrow> (nd_running n \<longrightarrow> net_ok None n)"

lemma keeps_handle_event: "keeps node_ok (handle_event cr ev)"
proof -
  have leave: "node_ok (snd (leave_run_loop n))" for n
    by (simp add: node_ok_def leave_run_loop_def action_apply)
  have act: "node_ok (snd (event_action cr ev n))" if "net_ok None n" for n
  proof (cases ev)
    case (StepManagers current_time)
    then show ?thesis using keeps_step_managers [unfolded keeps_iff] that by (simp add: node_ok_def)
  next
    case (IncomingConnection getpeername)
    then show ?thesis using keeps_handle_incoming_connection [unfolded keeps_iff] that by (simp add: node_ok_def)
  next
    case (PeerEvent p e)
    then show ?thesis using keeps_peer_event [unfolded keeps_iff] that by (simp add: node_ok_def)
  next
    case Stop
    then show ?thesis by (simp add: leave)
  qed
  have "node_ok (snd (handle_event cr ev n))" if "node_ok n" for n
  proof (cases "nd_running n")
    case False
    then show ?thesis using that by (simp add: handle_event_def abind_apply action_apply)
  next
    case True
    with that act [of n] leave show ?thesis
      by (auto simp: handle_event_def node_ok_def abind_apply acatch_def split: prod.split sum.split)
  qed
  then show ?thesis by (simp add: keeps_iff)
qed

section \<open>The node as a state machine\<close>

definition node_step :: "crypto \<Rightarrow> node \<Rightarrow> node_event \<Rightarrow> node result" where
  "node_step cr n ev = (let (r, n') = handle_event cr ev n in rbind r (\<lambda>_. Inr n'))"

lemma load_peers_ok:
  "distinct (map fst (load_peers_from_list rows))"
  "(k, d) \<in> set (load_peers_from_list rows) \<Longrightarrow> k = disconnected_key d"
proof -
  let ?f = "\<lambda>(host, port, direction) m.
    AList.update (host, port, direction) (mk_disconnected_peer host port direction None 0) m"
  have "distinct (map fst (fold ?f rows m)) \<and> (\<forall>(k, d)\<in>set (fold ?f rows m). k = disconnected_key d)"
    if "distinct (map fst m)" "\<forall>(k, d)\<in>set m. k = disconnected_key d" for m
    using that
  proof (induction rows arbitrary: m)
    case (Cons row rows)
    show ?case
      unfolding fold_Cons comp_apply
      by (rule Cons.IH) (use Cons.prems in \<open>auto simp: distinct_update dest!: set_update split: prod.split\<close>)
  qed simp
  from this [of "[]"] show "distinct (map fst (load_peers_from_list rows))"
    "(k, d) \<in> set (load_peers_from_list rows) \<Longrightarrow> k = disconnected_key d"
    unfolding load_peers_from_list_def by auto
qed

text \<open>The node when \<open>run\<close> enters its loop.\<close>

definition initial_node ::
  "int \<Rightarrow> bytes \<Rightarrow> nat \<Rightarrow> chain_manager \<Rightarrow> block_store \<Rightarrow> peer_key list option \<Rightarrow> peer_key list \<Rightarrow>
   (nat \<Rightarrow> connected_peer) \<Rightarrow> (nat \<Rightarrow> int) \<Rightarrow> (nat \<Rightarrow> nat) \<Rightarrow> node" where
  "initial_node nonce version sz cm store peers_file rows peers clock random =
     (new_node nonce version sz cm store peers_file (load_peers_from_list rows) peers clock random)\<lparr>nd_running := True\<rparr>"

interpretation node_machine: invariant_of "\<lambda>_ _. True" "node_step cr"
  "initial_node nonce version sz cm store peers_file rows peers clock random" node_ok
  for cr nonce version sz cm store peers_file rows peers clock random
proof unfold_locales
  show "node_ok (initial_node nonce version sz cm store peers_file rows peers clock random)"
    using load_peers_ok by (auto simp: node_ok_def net_ok_def initial_node_def new_node_def)
  fix n e n' assume "node_ok n" and "node_step cr n e = Inr n'"
  then show "node_ok n'"
    using keeps_handle_event [unfolded keeps_iff, rule_format, of n cr e]
    by (auto simp: node_step_def rbind_eq_Inr split: prod.splits)
qed

lemma node_step_eq: "node_step cr n ev = Inr (snd (handle_event cr ev n))"
  using handle_event_returns [of cr ev n] by (cases "handle_event cr ev n") (simp add: node_step_def)

abbreviation node_reachable :: "crypto \<Rightarrow> node \<Rightarrow> node \<Rightarrow> bool" where
  "node_reachable cr \<equiv> reachable (\<lambda>_ _. True) (node_step cr)"

text \<open>An example: a node that knows one address, on which two connections from the same address come in.\<close>

definition sample_node :: node where
  "sample_node = initial_node 7 [] 64 (new_chain_manager empty_coinstate 0) empty_store None [(''10.0.0.1'', 2412, OUTGOING)]
     (\<lambda>_. mk_connected_peer [] 0 INCOMING None 0) (\<lambda>_. 0) (\<lambda>_. 0)"

definition sample_run :: node where
  "sample_run = (let ev = IncomingConnection (Inr (''10.0.0.2'', 5000)) in
     snd (handle_event toy_crypto ev (snd (handle_event toy_crypto ev sample_node))))"

lemma sample_run_reachable: "node_reachable toy_crypto sample_node sample_run"
  unfolding sample_run_def Let_def
  by (rule reachable.step [OF reachable.step [OF reachable.init]]) (rule TrueI node_step_eq)+

lemma sample_run_simps:
  "nd_running sample_run" "nd_connected sample_run = [((''10.0.0.2'', 5000, INCOMING), 1)]"
  "map fst (nd_selector sample_run) = [1]"
  "map fst (nd_disconnected sample_run) = [(''10.0.0.1'', 2412, OUTGOING)]"
  by code_simp+

section \<open>Properties\<close>

text \<open>
  C8: whatever events a node has handled, in whatever order, as long as it runs, no address is both
  connected and disconnected (the sanity check around every change passes), each address and each peer
  is connected at most once, and the connected peers are exactly those registered with the selector.
\<close>

theorem connections_stay_consistent:
  assumes "node_reachable cr (initial_node nonce version sz cm store peers_file rows peers clock random) n"
    and "nd_running n"
  shows "set (map fst (nd_connected n)) \<inter> set (map fst (nd_disconnected n)) = {} \<and>
    sanity_check n = (Inr (), n) \<and>
    distinct (map fst (nd_connected n)) \<and> distinct (map snd (nd_connected n)) \<and>
    set (map fst (nd_selector n)) = set (map snd (nd_connected n))"
proof -
  have "net_ok None n" using node_machine.reachable_inv [OF assms(1)] assms(2) by (simp add: node_ok_def)
  from sanity_check_passes [OF this] this show ?thesis by (simp add: net_ok_def)
qed

theorem connections_stay_consistent_witness:
  "nd_connected sample_run = [((''10.0.0.2'', 5000, INCOMING), 1)] \<and> sanity_check sample_run = (Inr (), sample_run)"
  using connections_stay_consistent [OF sample_run_reachable [unfolded sample_node_def]] sample_run_simps by blast

end
