(* ===== verification/Stored_Blocks.thy ===== *)
theory Stored_Blocks
  imports Blockstore "HOL-Library.Multiset"
begin

text \<open>
  What the block store keeps. \<open>tables_of\<close> is the abstraction: the tables that hold a list of blocks;
  writing appends to that list, and reading gives it back, each block as it is read from its own bytes.
  The locales \<open>sql_table\<close> (the contract of a table) and \<open>row_loader\<close> (a loop that gives rows to
  builders) carry the proofs. Shown too: when writing succeeds, and what is left when it does not.
\<close>

section \<open>The contract of a table\<close>

text \<open>
  The contract of a table: inserting a row whose key is new appends it, any other row is ignored.
\<close>

locale sql_table =
  fixes ins :: "'r \<Rightarrow> tables \<Rightarrow> tables result" and rows :: "tables \<Rightarrow> 'r list"
    and upd :: "'r list \<Rightarrow> tables \<Rightarrow> tables" and key :: "'r \<Rightarrow> 'k"
  assumes ins_fresh: "ins r tb = Inr tb' \<Longrightarrow> key r \<notin> key ` set (rows tb) \<Longrightarrow> tb' = upd (rows tb @ [r]) tb"
    and ins_known: "ins r tb = Inr tb' \<Longrightarrow> key r \<in> key ` set (rows tb) \<Longrightarrow> tb' = tb"
    and rows_upd: "rows (upd rs tb) = rs" and upd_upd: "upd rs (upd rs' tb) = upd rs tb"
    and upd_rows: "upd (rows tb) tb = tb"
begin

lemma inserted_fresh:
  "rfold (\<lambda>tb r. ins r tb) tb rs = Inr tb' \<Longrightarrow> distinct (map key (rows tb @ rs)) \<Longrightarrow> tb' = upd (rows tb @ rs) tb"
proof (induction rs arbitrary: tb)
  case (Cons r rs)
  then obtain tb1 where tb1: "ins r tb = Inr tb1" "rfold (\<lambda>tb r. ins r tb) tb1 rs = Inr tb'"
    by (auto simp: rbind_eq_Inr)
  then have "tb1 = upd (rows tb @ [r]) tb" using Cons.prems(2) by (intro ins_fresh) auto
  with Cons.IH [OF tb1(2)] Cons.prems(2) show ?case by (simp add: rows_upd upd_upd)
qed (simp add: upd_rows)

lemma inserted_keys:
  "rfold (\<lambda>tb r. ins r tb) tb rs = Inr tb' \<Longrightarrow> key ` set (rows tb') = key ` set (rows tb) \<union> key ` set rs"
proof (induction rs arbitrary: tb)
  case (Cons r rs)
  then obtain tb1 where tb1: "ins r tb = Inr tb1" "rfold (\<lambda>tb r. ins r tb) tb1 rs = Inr tb'"
    by (auto simp: rbind_eq_Inr)
  have "key ` set (rows tb1) = insert (key r) (key ` set (rows tb))"
  proof (cases "key r \<in> key ` set (rows tb)")
    case True
    with ins_known [OF tb1(1)] show ?thesis by auto
  next
    case False
    with ins_fresh [OF tb1(1)] show ?thesis by (simp add: rows_upd)
  qed
  with Cons.IH [OF tb1(2)] show ?case by simp
qed simp

end

lemma insert_or_ignore_eq_Inr:
  "insert_or_ignore k ints ok r rs = Inr rs' \<longleftrightarrow> (\<forall>i\<in>set (ints r). - (2 ^ 63) \<le> i \<and> i < 2 ^ 63) \<and>
     (if k r \<in> k ` set rs then rs' = rs else ok r \<and> rs' = rs @ [r])"
  by (auto simp: insert_or_ignore_def result_simps not_le not_less split: if_splits)

interpretation chain_table: sql_table insert_chain tb_chain "\<lambda>rs tb. tb\<lparr>tb_chain := rs\<rparr>" cw_block_hash
  by unfold_locales (auto simp: insert_chain_def rbind_eq_Inr insert_or_ignore_eq_Inr)

interpretation locator_table: sql_table insert_transaction_locator tb_transaction_locator
  "\<lambda>rs tb. tb\<lparr>tb_transaction_locator := rs\<rparr>" lw_transaction_hash
  by unfold_locales (auto simp: insert_transaction_locator_def rbind_eq_Inr insert_or_ignore_eq_Inr)

interpretation output_table: sql_table insert_transaction_output tb_transaction_outputs
  "\<lambda>rs tb. tb\<lparr>tb_transaction_outputs := rs\<rparr>" "\<lambda>r. (ow_transaction_hash r, ow_seq r)"
  by unfold_locales (auto simp: insert_transaction_output_def rbind_eq_Inr insert_or_ignore_eq_Inr)

interpretation input_table: sql_table insert_transaction_input tb_transaction_inputs
  "\<lambda>rs tb. tb\<lparr>tb_transaction_inputs := rs\<rparr>" "\<lambda>r. (iw_transaction_hash r, iw_seq r)"
  by unfold_locales (auto simp: insert_transaction_input_def rbind_eq_Inr insert_or_ignore_eq_Inr)

section \<open>Flushing\<close>

text \<open>The rows of several blocks, inserted one table after the other.\<close>

definition insert_params ::
  "(chain_row \<times> (locator_row \<times> input_row list \<times> output_row list) list) list \<Rightarrow> tables \<Rightarrow> tables result" where
  "insert_params params tb =
     (let transactions = concat (map snd params) in
      rbind (rfold (\<lambda>tb r. insert_chain r tb) tb (map fst params)) (\<lambda>tb.
      rbind (rfold (\<lambda>tb r. insert_transaction_locator r tb) tb (map fst transactions)) (\<lambda>tb.
      rbind (rfold (\<lambda>tb r. insert_transaction_output r tb) tb (concat (map (\<lambda>(_, _, outs). outs) transactions))) (\<lambda>tb.
      rfold (\<lambda>tb r. insert_transaction_input r tb) tb (concat (map (\<lambda>(_, ins, _). ins) transactions))))))"

text \<open>An action does to the tables what a function says; when that raises, some tables are left.\<close>

definition inserts :: "(block_store, unit) action \<Rightarrow> (tables \<Rightarrow> tables result) \<Rightarrow> bool" where
  "inserts m f \<longleftrightarrow> (\<forall>st. case f (st_tables st) of
     Inr tb \<Rightarrow> m st = (Inr (), st\<lparr>st_tables := tb\<rparr>) | Inl e \<Rightarrow> \<exists>tb. m st = (Inl e, st\<lparr>st_tables := tb\<rparr>))"

lemma inserts_Inr: "inserts m f \<Longrightarrow> f (st_tables st) = Inr tb \<Longrightarrow> m st = (Inr (), st\<lparr>st_tables := tb\<rparr>)"
  and inserts_Inl: "inserts m f \<Longrightarrow> f (st_tables st) = Inl e \<Longrightarrow> \<exists>tb. m st = (Inl e, st\<lparr>st_tables := tb\<rparr>)"
  by (auto simp: inserts_def dest: spec [of _ st])

lemma insertsI:
  "(\<And>st tb. f (st_tables st) = Inr tb \<Longrightarrow> m st = (Inr (), st\<lparr>st_tables := tb\<rparr>)) \<Longrightarrow>
   (\<And>st e. f (st_tables st) = Inl e \<Longrightarrow> \<exists>tb. m st = (Inl e, st\<lparr>st_tables := tb\<rparr>)) \<Longrightarrow> inserts m f"
  by (auto simp: inserts_def split: sum.split)

lemma inserts_athen:
  assumes m: "inserts m f" and n: "inserts n g"
  shows "inserts (athen m n) (\<lambda>tb. rbind (f tb) g)"
proof (rule insertsI)
  fix st :: block_store and tb assume "rbind (f (st_tables st)) g = Inr tb"
  then obtain tb1 where tb1: "f (st_tables st) = Inr tb1" "g tb1 = Inr tb" by (auto simp: rbind_eq_Inr)
  with inserts_Inr [OF n, of "st\<lparr>st_tables := tb1\<rparr>"] show "athen m n st = (Inr (), st\<lparr>st_tables := tb\<rparr>)"
    using inserts_Inr [OF m tb1(1)] by (simp add: abind_def)
next
  fix st :: block_store and e assume "rbind (f (st_tables st)) g = Inl e"
  then consider "f (st_tables st) = Inl e" | tb1 where "f (st_tables st) = Inr tb1" "g tb1 = Inl e"
    by (auto simp: rbind_eq_Inl)
  then show "\<exists>tb. athen m n st = (Inl e, st\<lparr>st_tables := tb\<rparr>)"
  proof cases
    case 1
    with inserts_Inl [OF m 1] show ?thesis by (auto simp: abind_Inl)
  next
    case 2
    with inserts_Inl [OF n, of "st\<lparr>st_tables := tb1\<rparr>"] show ?thesis
      using inserts_Inr [OF m 2(1)] by (simp add: abind_def)
  qed
qed

lemma same_tables: "\<exists>tb. st = st\<lparr>st_tables := tb\<rparr>"
  by (rule exI [of _ "st_tables st"]) simp

lemma inserts_executemany: "inserts (executemany f rs) (\<lambda>tb. rfold (\<lambda>tb r. f r tb) tb rs)"
proof (induction rs)
  case (Cons r rs)
  have "inserts (abind (aget st_tables) (\<lambda>tb. abind (alift (f r tb)) (\<lambda>tb. amod (\<lambda>st. st\<lparr>st_tables := tb\<rparr>)))) (f r)"
    by (auto simp: inserts_def abind_def action_apply same_tables split: sum.split)
  from inserts_athen [OF this Cons.IH] show ?case by (simp add: executemany_def)
qed (simp add: executemany_def inserts_def action_apply)

text \<open>Writing inserts every row and commits, or raises and leaves the transaction open.\<close>

lemma write_blocks_cases:
  assumes "rmap (block_params cr) blocks = Inr ps" and "\<not> st_in_transaction st"
  obtains (written) tb where "insert_params ps (st_tables st) = Inr tb"
      "write_blocks_to_disk cr blocks st = (Inr (), st\<lparr>st_tables := tb, st_committed := tb, st_in_transaction := False\<rparr>)"
    | (raised) e tb where "insert_params ps (st_tables st) = Inl e"
      "write_blocks_to_disk cr blocks st = (Inl e, st\<lparr>st_tables := tb, st_in_transaction := True\<rparr>)"
proof -
  define txs where "txs = concat (map snd ps)"
  define m where "m = athen (executemany insert_chain (map fst ps))
     (athen (executemany insert_transaction_locator (map fst txs))
     (athen (executemany insert_transaction_output (concat (map (\<lambda>(_, _, outs). outs) txs)))
            (executemany insert_transaction_input (concat (map (\<lambda>(_, ins, _). ins) txs)))))"
  have m: "inserts m (insert_params ps)"
    unfolding m_def insert_params_def Let_def txs_def [symmetric] by (intro inserts_athen inserts_executemany)
  let ?st = "st\<lparr>st_in_transaction := True\<rparr>"
  have w: "write_blocks_to_disk cr blocks st = athen m commit ?st"
    using assms by (simp add: write_blocks_to_disk_def begin_transaction_def abind_def action_apply Let_def
        abind_assoc m_def txs_def)
  show thesis
  proof (cases "insert_params ps (st_tables st)")
    case (Inl e)
    with inserts_Inl [OF m, of ?st] obtain tb where "m ?st = (Inl e, ?st\<lparr>st_tables := tb\<rparr>)" by auto
    with Inl show thesis by (intro raised [of e tb]) (simp_all add: w abind_Inl)
  next
    case (Inr tb)
    with inserts_Inr [OF m, of ?st] show thesis
      by (intro written) (simp_all add: w abind_Inr commit_def action_apply)
  qed
qed

section \<open>The rows of blocks\<close>

text \<open>
  The rows as functions of the blocks. A block whose cached hash is not wrong has the rows of its
  \<open>block_canon\<close>, the block as it is read from bytes.
\<close>

definition header_key :: "crypto \<Rightarrow> block \<Rightarrow> bytes" where
  "header_key cr b = sha256d cr (projr (stream_serialize_block_header (blk_header b)))"

definition tx_key :: "crypto \<Rightarrow> transaction \<Rightarrow> bytes" where
  "tx_key cr t = sha256d cr (projr (stream_serialize_transaction t))"

definition input_row_of :: "bytes \<Rightarrow> nat \<times> tx_input \<Rightarrow> input_row" where
  "input_row_of h = (\<lambda>(n, i). \<lparr>iw_transaction_hash = h, iw_seq = n,
     iw_output_reference_hash = nullify_zeros (ref_hash (inp_output_reference i)),
     iw_output_reference_index = ref_index (inp_output_reference i),
     iw_signature = map_option (\<lambda>s. projr (stream_serialize_signature s)) (inp_signature i)\<rparr>)"

definition output_row_of :: "bytes \<Rightarrow> nat \<times> tx_output \<Rightarrow> output_row" where
  "output_row_of h = (\<lambda>(n, p). \<lparr>ow_transaction_hash = h, ow_seq = n, ow_value = out_value p,
     ow_public_key = projr (stream_serialize_public_key (out_public_key p))\<rparr>)"

definition input_rows :: "crypto \<Rightarrow> transaction \<Rightarrow> input_row list" where
  "input_rows cr t = map (input_row_of (tx_key cr t)) (enumerate 0 (tx_inputs t))"

definition output_rows :: "crypto \<Rightarrow> transaction \<Rightarrow> output_row list" where
  "output_rows cr t = map (output_row_of (tx_key cr t)) (enumerate 0 (tx_outputs t))"

definition locator_rows :: "crypto \<Rightarrow> block \<Rightarrow> locator_row list" where
  "locator_rows cr b = map (\<lambda>t. \<lparr>lw_transaction_hash = tx_key cr t, lw_block_hash = header_key cr b\<rparr>) (blk_transactions b)"

abbreviation all_transactions :: "block list \<Rightarrow> transaction list" where
  "all_transactions bs \<equiv> concat (map blk_transactions bs)"

definition tables_of :: "crypto \<Rightarrow> block list \<Rightarrow> tables" where
  "tables_of cr bs =
     \<lparr>tb_chain = map (\<lambda>b. block_param (header_key cr b) b) bs,
      tb_transaction_locator = concat (map (locator_rows cr) bs),
      tb_transaction_inputs = concat (map (input_rows cr) (all_transactions bs)),
      tb_transaction_outputs = concat (map (output_rows cr) (all_transactions bs))\<rparr>"

text \<open>What the store needs of blocks to be able to tell them and their transactions apart.\<close>

definition storable :: "crypto \<Rightarrow> block list \<Rightarrow> bool" where
  "storable cr bs \<longleftrightarrow>
     (\<forall>b\<in>set bs. block_wf b \<and> block_hash cr b = block_header_hash cr (blk_header b) \<and> blk_transactions b \<noteq> []) \<and>
     distinct (map (header_key cr) bs) \<and> distinct (map (tx_key cr) (all_transactions bs))"

definition block_params_of ::
  "crypto \<Rightarrow> block \<Rightarrow> chain_row \<times> (locator_row \<times> input_row list \<times> output_row list) list" where
  "block_params_of cr b = (block_param (header_key cr b) b,
     map (\<lambda>t. (\<lparr>lw_transaction_hash = tx_key cr t, lw_block_hash = header_key cr b\<rparr>, input_rows cr t, output_rows cr t))
       (blk_transactions b))"

lemma rmap_map: "(\<And>x. x \<in> set xs \<Longrightarrow> f x = Inr (g x)) \<Longrightarrow> rmap f xs = Inr (map g xs)"
  by (induction xs) auto

lemma rmap_member: "rmap f xs = Inr ys \<Longrightarrow> x \<in> set xs \<Longrightarrow> \<exists>y\<in>set ys. f x = Inr y"
  by (induction xs arbitrary: ys) (auto simp: rbind_eq_Inr)

lemma projr_eq: "\<exists>x. r = Inr x \<Longrightarrow> r = Inr (projr r)"
  by auto

lemma input_param_wf: "input_wf i \<Longrightarrow> input_param h (n, i) = Inr (input_row_of h (n, i))"
  using projr_eq [OF sig_wire.ser_returns]
  by (auto simp: input_param_def input_row_of_def input_wf_def rbind_eq_Inr intro!: exI)

lemma output_param_wf: "output_wf p \<Longrightarrow> output_param h (n, p) = Inr (output_row_of h (n, p))"
  using projr_eq [OF pk_wire.ser_returns] by (auto simp: output_param_def output_row_of_def output_wf_def rbind_eq_Inr)

lemma enumerate_snd: "x \<in> set (enumerate n xs) \<Longrightarrow> snd x \<in> set xs"
  by (induction xs arbitrary: n) auto

lemma transaction_params_wf:
  assumes "transaction_wf t"
  shows "transaction_params cr h t =
    Inr (\<lparr>lw_transaction_hash = tx_key cr t, lw_block_hash = h\<rparr>, input_rows cr t, output_rows cr t)"
proof -
  have "transaction_key cr t = Inr (tx_key cr t)"
    using tx_wire.ser_returns [OF assms] by (auto simp: transaction_key_def tx_key_def)
  moreover have "rmap (input_param (tx_key cr t)) (enumerate 0 (tx_inputs t)) = Inr (input_rows cr t)"
    unfolding input_rows_def
    by (rule rmap_map) (use assms in \<open>auto simp: transaction_wf_def dest!: enumerate_snd intro!: input_param_wf\<close>)
  moreover have "rmap (output_param (tx_key cr t)) (enumerate 0 (tx_outputs t)) = Inr (output_rows cr t)"
    unfolding output_rows_def
    by (rule rmap_map) (use assms in \<open>auto simp: transaction_wf_def dest!: enumerate_snd intro!: output_param_wf\<close>)
  ultimately show ?thesis by (simp add: transaction_params_def)
qed

lemma block_params_wf:
  assumes "block_wf b" and "block_hash cr b = block_header_hash cr (blk_header b)"
  shows "block_params cr b = Inr (block_params_of cr b)"
proof -
  have "block_hash cr b = Inr (header_key cr b)"
    using assms header_wire.ser_returns [of "blk_header b"]
    by (auto simp: block_header_hash_def header_key_def block_wf_def)
  moreover have "rmap (transaction_params cr (header_key cr b)) (blk_transactions b) = Inr (snd (block_params_of cr b))"
    unfolding block_params_of_def snd_conv
    by (rule rmap_map) (use assms in \<open>auto simp: block_wf_def intro: transaction_params_wf\<close>)
  ultimately show ?thesis by (simp add: block_params_def block_params_of_def)
qed

text \<open>New keys: the rows are appended.\<close>

lemma distinct_numbered:
  "distinct (map key ts) \<Longrightarrow> distinct (concat (map (\<lambda>t. map (\<lambda>nx. (key t, fst nx)) (enumerate 0 (f t))) ts))"
proof (induction ts)
  case (Cons t ts)
  have "distinct (map (\<lambda>nx. (key t, fst nx)) (enumerate 0 (f t)))"
  proof -
    have "map (\<lambda>nx. (key t, fst nx)) (enumerate 0 (f t)) = map (Pair (key t)) (map fst (enumerate 0 (f t)))"
      by (simp add: o_def del: map_fst_enumerate)
    also have "distinct \<dots>" unfolding map_fst_enumerate by (simp add: distinct_map inj_on_def)
    finally show ?thesis .
  qed
  with Cons show ?case by auto
qed simp

lemma distinct_input_keys: "distinct (map (tx_key cr) ts) \<Longrightarrow>
    distinct (map (\<lambda>r. (iw_transaction_hash r, iw_seq r)) (concat (map (input_rows cr) ts)))"
  using distinct_numbered [of "tx_key cr" ts tx_inputs]
  by (simp add: map_concat input_rows_def input_row_of_def o_def split_beta)

lemma distinct_output_keys: "distinct (map (tx_key cr) ts) \<Longrightarrow>
    distinct (map (\<lambda>r. (ow_transaction_hash r, ow_seq r)) (concat (map (output_rows cr) ts)))"
  using distinct_numbered [of "tx_key cr" ts tx_outputs]
  by (simp add: map_concat output_rows_def output_row_of_def o_def split_beta)

lemma tables_of_append: "tables_of cr (bs @ cs) =
    \<lparr>tb_chain = tb_chain (tables_of cr bs) @ tb_chain (tables_of cr cs),
     tb_transaction_locator = tb_transaction_locator (tables_of cr bs) @ tb_transaction_locator (tables_of cr cs),
     tb_transaction_inputs = tb_transaction_inputs (tables_of cr bs) @ tb_transaction_inputs (tables_of cr cs),
     tb_transaction_outputs = tb_transaction_outputs (tables_of cr bs) @ tb_transaction_outputs (tables_of cr cs)\<rparr>"
  by (simp add: tables_of_def)

lemma tables_of_rows:
  "tb_transaction_inputs (tables_of cr bs) = concat (map (input_rows cr) (all_transactions bs))"
  "tb_transaction_outputs (tables_of cr bs) = concat (map (output_rows cr) (all_transactions bs))"
  by (simp_all add: tables_of_def)

lemma stored_keys:
  "map cw_block_hash (tb_chain (tables_of cr bs)) = map (header_key cr) bs"
  "map lw_transaction_hash (tb_transaction_locator (tables_of cr bs)) = map (tx_key cr) (all_transactions bs)"
  by (simp_all add: tables_of_def block_param_def locator_rows_def map_concat o_def Let_def)

lemma distinct_rows:
  assumes "storable cr bs"
  shows "distinct (map cw_block_hash (tb_chain (tables_of cr bs)))"
    "distinct (map lw_transaction_hash (tb_transaction_locator (tables_of cr bs)))"
    "distinct (map (\<lambda>r. (ow_transaction_hash r, ow_seq r)) (tb_transaction_outputs (tables_of cr bs)))"
    "distinct (map (\<lambda>r. (iw_transaction_hash r, iw_seq r)) (tb_transaction_inputs (tables_of cr bs)))"
  using assms distinct_input_keys [of cr "all_transactions bs"] distinct_output_keys [of cr "all_transactions bs"]
  by (simp_all add: storable_def stored_keys tables_of_rows)

lemma insert_params_rows:
  "map fst (map (block_params_of cr) cs) = tb_chain (tables_of cr cs)"
  "map fst (concat (map snd (map (block_params_of cr) cs))) = tb_transaction_locator (tables_of cr cs)"
  "concat (map (\<lambda>(_, _, outs). outs) (concat (map snd (map (block_params_of cr) cs)))) = tb_transaction_outputs (tables_of cr cs)"
  "concat (map (\<lambda>(_, ins, _). ins) (concat (map snd (map (block_params_of cr) cs)))) = tb_transaction_inputs (tables_of cr cs)"
  by (induction cs) (simp_all add: tables_of_def block_params_of_def locator_rows_def o_def)

lemma insert_params_appends:
  assumes "insert_params (map (block_params_of cr) cs) (tables_of cr bs) = Inr tb" and s: "storable cr (bs @ cs)"
  shows "tb = tables_of cr (bs @ cs)"
proof -
  let ?t = "tables_of cr bs" and ?c = "tables_of cr cs" and ?b = "tables_of cr (bs @ cs)"
  note d = distinct_rows [OF s]
  obtain tb1 tb2 tb3 where 
    1: "rfold (\<lambda>tb r. insert_chain r tb) ?t (tb_chain ?c) = Inr tb1" and
    2: "rfold (\<lambda>tb r. insert_transaction_locator r tb) tb1 (tb_transaction_locator ?c) = Inr tb2" and
    3: "rfold (\<lambda>tb r. insert_transaction_output r tb) tb2 (tb_transaction_outputs ?c) = Inr tb3" and
    4: "rfold (\<lambda>tb r. insert_transaction_input r tb) tb3 (tb_transaction_inputs ?c) = Inr tb"
    using assms(1) by (auto simp: insert_params_def rbind_eq_Inr Let_def insert_params_rows simp del: map_map)
  have 1: "tb1 = ?t\<lparr>tb_chain := tb_chain ?b\<rparr>"
    using chain_table.inserted_fresh [OF 1] d(1) by (simp add: tables_of_append)
  have 2: "tb2 = tb1\<lparr>tb_transaction_locator := tb_transaction_locator ?b\<rparr>"
    using locator_table.inserted_fresh [OF 2] d(2) by (simp add: 1 tables_of_append)
  have 3: "tb3 = tb2\<lparr>tb_transaction_outputs := tb_transaction_outputs ?b\<rparr>"
    using output_table.inserted_fresh [OF 3] d(3) by (simp add: 1 2 tables_of_append)
  have 4: "tb = tb3\<lparr>tb_transaction_inputs := tb_transaction_inputs ?b\<rparr>"
    using input_table.inserted_fresh [OF 4] d(4) by (simp add: 1 2 3 tables_of_append)
  show ?thesis by (simp add: 1 2 3 4)
qed

section \<open>Reading the rows of blocks\<close>

lemma update_fresh: "k \<notin> fst ` set m \<Longrightarrow> AList.update k v m = m @ [(k, v)]"
  by (induction m) auto

lemma fold_update_fresh:
  "distinct (map fst (m @ kvs)) \<Longrightarrow> fold (\<lambda>(k, v). AList.update k v) kvs m = m @ kvs"
proof (induction kvs arbitrary: m)
  case (Cons kv kvs)
  then show ?case by (cases kv) (simp add: update_fresh)
qed simp

lemma update_image:
  "distinct ks \<Longrightarrow> k \<in> set ks \<Longrightarrow> AList.update k v (map (\<lambda>k. (k, B k)) ks) = map (\<lambda>k'. (k', if k' = k then v else B k')) ks"
  by (induction ks) (auto intro: map_cong)

text \<open>A loop that puts the values of rows into builders: each builder gets those of its own rows.\<close>

locale row_loader =
  fixes load :: "(bytes \<times> 'b) list \<Rightarrow> 'r \<Rightarrow> (bytes \<times> 'b) list result" and decode :: "'r \<Rightarrow> 'v result"
    and key :: "'r \<Rightarrow> bytes" and seqn :: "'r \<Rightarrow> nat"
    and get :: "'b \<Rightarrow> (nat \<times> 'v) list" and put :: "(nat \<times> 'v) list \<Rightarrow> 'b \<Rightarrow> 'b"
  assumes load_eq: "load m r = rbind (decode r) (\<lambda>x. rbind (lookup_key (map_of m) (key r)) (\<lambda>b.
      Inr (AList.update (key r) (put (AList.update (seqn r) x (get b)) b) m)))"
    and get_put: "get (put x b) = x" and put_put: "put x (put y b) = put x b" and put_get: "put (get b) b = b"
begin

lemma loaded:
  assumes "distinct ks" and "\<And>r. r \<in> set rs \<Longrightarrow> key r \<in> set ks \<and> decode r = Inr (val r)"
  shows "rfold load (map (\<lambda>k. (k, B k)) ks) rs = Inr (map (\<lambda>k. (k,
    put (fold (\<lambda>r. AList.update (seqn r) (val r)) (filter (\<lambda>r. key r = k) rs) (get (B k))) (B k))) ks)"
  using assms(2)
proof (induction rs arbitrary: B)
  case (Cons r rs)
  let ?B = "\<lambda>k. if k = key r then put (AList.update (seqn r) (val r) (get (B (key r)))) (B (key r)) else B k"
  from Cons.prems [of r] have "map_of (map (\<lambda>k. (k, B k)) ks) (key r) = Some (B (key r))"
    by (simp add: map_of_map_restrict)
  with Cons.prems [of r] assms(1) have "load (map (\<lambda>k. (k, B k)) ks) r = Inr (map (\<lambda>k. (k, ?B k)) ks)"
    by (simp add: load_eq lookup_key_Some update_image)
  with Cons.IH [of ?B] Cons.prems show ?case by (auto simp: get_put put_put)
qed (simp add: put_get)

end

definition decode_input_row :: "input_row \<Rightarrow> tx_input result" where
  "decode_input_row row =
     rbind (mk_output_reference (zeroify_nulls (iw_output_reference_hash row)) (iw_output_reference_index row)) (\<lambda>r.
     rbind (case iw_signature row of
              None \<Rightarrow> Inr None
            | Some s \<Rightarrow> if s = [] then Inr None
                        else rbind (stream_deserialize_signature s) (\<lambda>(sig, _). Inr (Some sig))) (\<lambda>sig.
     Inr \<lparr>inp_output_reference = r, inp_signature = sig\<rparr>))"

definition decode_output_row :: "output_row \<Rightarrow> tx_output result" where
  "decode_output_row row =
     rbind (stream_deserialize_public_key (ow_public_key row)) (\<lambda>(k, _). Inr \<lparr>out_value = ow_value row, out_public_key = k\<rparr>)"

interpretation input_loader: row_loader load_input decode_input_row iw_transaction_hash iw_seq bd_inputs
  "\<lambda>x b. b\<lparr>bd_inputs := x\<rparr>"
  by unfold_locales (simp_all add: load_input_def decode_input_row_def rbind_assoc)

interpretation output_loader: row_loader load_output decode_output_row ow_transaction_hash ow_seq bd_outputs
  "\<lambda>x b. b\<lparr>bd_outputs := x\<rparr>"
  by unfold_locales
    (auto simp: load_output_def decode_output_row_def rbind_assoc intro!: rbind_cong split: prod.split)

lemma zeroify_nullify: "length h = 32 \<Longrightarrow> zeroify_nulls (nullify_zeros h) = h"
  by (auto simp: zeroify_nulls_def nullify_zeros_def)

lemma filter_concat_key:
  assumes "distinct (map k ts)" and "t \<in> set ts" and "\<And>t r. r \<in> set (f t) \<Longrightarrow> key r = k t"
  shows "filter (\<lambda>r. key r = k t) (concat (map f ts)) = f t"
  using assms(1,2)
proof (induction ts)
  case (Cons u ts)
  have same: "filter (\<lambda>r. key r = k t) (f u) = (if k u = k t then f u else [])"
    using assms(3) [of _ u] by (auto intro!: filter_True filter_False)
  show ?case
  proof (cases "u = t")
    case True
    then have "filter (\<lambda>r. key r = k t) (concat (map f ts)) = []"
      using Cons.prems(1) by (auto simp: filter_empty_conv dest!: assms(3) intro: rev_image_eqI)
    with True same show ?thesis by simp
  next
    case False
    with Cons same show ?thesis by auto
  qed
qed simp

lemma groupby_append:
  assumes "xs \<noteq> []" and "\<forall>x\<in>set xs. key x = k" and "\<forall>g\<in>set (groupby key ys). fst g \<noteq> k"
  shows "groupby key (xs @ ys) = (k, xs) # groupby key ys"
  using assms(1,2)
proof (induction xs)
  case (Cons x xs)
  show ?case
  proof (cases "xs = []")
    case True
    with Cons.prems assms(3) show ?thesis by (cases "groupby key ys") auto
  next
    case False
    with Cons have "groupby key (xs @ ys) = (k, xs) # groupby key ys" by simp
    with Cons.prems show ?thesis by simp
  qed
qed simp

lemma groupby_concat:
  "distinct (map k bs) \<Longrightarrow> \<forall>b\<in>set bs. g b \<noteq> [] \<and> (\<forall>x\<in>set (g b). key x = k b) \<Longrightarrow>
     groupby key (concat (map g bs)) = map (\<lambda>b. (k b, g b)) bs"
proof (induction bs)
  case (Cons b bs)
  have "groupby key (g b @ concat (map g bs)) = (k b, g b) # groupby key (concat (map g bs))"
    using Cons by (intro groupby_append) (auto intro: rev_image_eqI)
  with Cons show ?case by simp
qed simp

definition builder_of :: "crypto \<Rightarrow> block \<Rightarrow> transaction \<Rightarrow> transaction_builder" where
  "builder_of cr b t =
     \<lparr>bd_block_hash = header_key cr b, bd_inputs = enumerate 0 (tx_inputs t), bd_outputs = enumerate 0 (tx_outputs t)\<rparr>"

definition builders_of :: "crypto \<Rightarrow> block \<Rightarrow> (bytes \<times> transaction_builder) list" where
  "builders_of cr b = map (\<lambda>t. (tx_key cr t, builder_of cr b t)) (blk_transactions b)"

lemma fold_numbered:
  assumes "\<And>n x. (n, x) \<in> set nxs \<Longrightarrow> seqn (row (n, x)) = n \<and> val (row (n, x)) = x" and d: "distinct (map fst nxs)"
  shows "fold (\<lambda>r. AList.update (seqn r) (val r)) (map row nxs) [] = nxs"
proof -
  have "fold (\<lambda>r. AList.update (seqn r) (val r)) (map row nxs) [] = fold (\<lambda>(n, x). AList.update n x) nxs []"
    unfolding fold_map by (rule fold_cong) (auto simp: assms(1))
  then show ?thesis using fold_update_fresh [of "[]" nxs] d by simp
qed

text \<open>A row of a well-formed input or output is decoded to it.\<close>

lemma input_row_decoded:
  assumes "input_wf i"
  shows "decode_input_row (input_row_of h (n, i)) = Inr i"
proof -
  obtain s where s: "inp_signature i = Some s" "signature_wf s" and r: "output_reference_wf (inp_output_reference i)"
    using assms by (auto simp: input_wf_def)
  let ?b = "projr (stream_serialize_signature s)"
  have b: "stream_serialize_signature s = Inr ?b" by (rule projr_eq [OF sig_wire.ser_returns [OF s(2)]])
  then have "stream_deserialize_signature ?b = Inr (s, [])" "?b \<noteq> []"
    using sig_wire.par_whole [OF s(2)] sig_wire.ser_nonempty [OF s(2)] by simp_all
  moreover have "mk_output_reference (ref_hash (inp_output_reference i)) (ref_index (inp_output_reference i)) =
      Inr (inp_output_reference i)"
    using r by (simp add: output_reference_wf_def mk_output_reference_eq_Inr)
  ultimately show ?thesis
    using s(1) r by (simp add: decode_input_row_def input_row_of_def zeroify_nullify output_reference_wf_def)
qed

lemma output_row_decoded:
  assumes "output_wf p"
  shows "decode_output_row (output_row_of h (n, p)) = Inr p"
proof -
  have wf: "public_key_wf (out_public_key p)" using assms by (simp add: output_wf_def)
  show ?thesis
    using pk_wire.par_whole [OF wf projr_eq [OF pk_wire.ser_returns [OF wf]]]
    by (simp add: decode_output_row_def output_row_of_def)
qed

text \<open>The rows of one transaction, put into an empty builder.\<close>

lemma row_of_keys:
  "iw_transaction_hash (input_row_of h ni) = h" "iw_seq (input_row_of h ni) = fst ni"
  "ow_transaction_hash (output_row_of h nx) = h" "ow_seq (output_row_of h nx) = fst nx"
  by (simp_all add: input_row_of_def output_row_of_def split_beta)

lemma fold_input_rows:
  "transaction_wf t \<Longrightarrow>
     fold (\<lambda>r. AList.update (iw_seq r) (projr (decode_input_row r))) (input_rows cr t) [] = enumerate 0 (tx_inputs t)"
  unfolding input_rows_def
  by (rule fold_numbered)
    (auto simp: transaction_wf_def input_row_decoded row_of_keys dest!: enumerate_snd)

lemma fold_output_rows:
  "transaction_wf t \<Longrightarrow>
     fold (\<lambda>r. AList.update (ow_seq r) (projr (decode_output_row r))) (output_rows cr t) [] = enumerate 0 (tx_outputs t)"
  unfolding output_rows_def
  by (rule fold_numbered) (auto simp: transaction_wf_def output_row_decoded row_of_keys dest!: enumerate_snd)

lemma row_decoded:
  "transaction_wf t \<Longrightarrow> r \<in> set (input_rows cr t) \<Longrightarrow>
     iw_transaction_hash r = tx_key cr t \<and> decode_input_row r = Inr (projr (decode_input_row r))"
  "transaction_wf t \<Longrightarrow> q \<in> set (output_rows cr t) \<Longrightarrow>
     ow_transaction_hash q = tx_key cr t \<and> decode_output_row q = Inr (projr (decode_output_row q))"
  by (auto simp: transaction_wf_def input_rows_def output_rows_def row_of_keys input_row_decoded output_row_decoded
      dest!: enumerate_snd)

text \<open>The transactions of blocks, each with its block.\<close>

definition with_block :: "block list \<Rightarrow> (block \<times> transaction) list" where
  "with_block bs = concat (map (\<lambda>b. map (Pair b) (blk_transactions b)) bs)"

lemma with_block_map:
  "map f (with_block bs) = concat (map (\<lambda>b. map (\<lambda>t. f (b, t)) (blk_transactions b)) bs)"
  "map snd (with_block bs) = all_transactions bs"
  by (simp_all add: with_block_def map_concat o_def)

lemma with_block_keys: "map (\<lambda>bt. tx_key cr (snd bt)) (with_block bs) = map (tx_key cr) (all_transactions bs)"
  by (simp add: with_block_map(1) map_concat o_def)

lemma load_transaction_builders_rows:
  assumes "storable cr bs"
  shows "load_transaction_builders (tables_of cr bs) = map (\<lambda>(b, t).
    (tx_key cr t, \<lparr>bd_block_hash = header_key cr b, bd_inputs = [], bd_outputs = []\<rparr>)) (with_block bs)"
proof -
  let ?f = "\<lambda>(b, t). (tx_key cr t, \<lparr>bd_block_hash = header_key cr b, bd_inputs = [], bd_outputs = []\<rparr>)"
  have rows: "tb_transaction_locator (tables_of cr bs) =
      map (\<lambda>(b, t). \<lparr>lw_transaction_hash = tx_key cr t, lw_block_hash = header_key cr b\<rparr>) (with_block bs)"
    by (simp add: with_block_map tables_of_def locator_rows_def [abs_def])
  have "distinct (map fst (map ?f (with_block bs)))"
    using assms by (simp add: storable_def with_block_keys [symmetric] o_def split_beta)
  then have "fold (\<lambda>(k, v). AList.update k v) (map ?f (with_block bs)) [] = map ?f (with_block bs)"
    using fold_update_fresh [of "[]" "map ?f (with_block bs)"] by simp
  moreover have "load_transaction_builders (tables_of cr bs) = fold (\<lambda>(k, v). AList.update k v) (map ?f (with_block bs)) []"
    unfolding load_transaction_builders_def rows fold_map by (rule fold_cong) auto
  ultimately show ?thesis by simp
qed

lemma builders_loaded:
  assumes s: "storable cr bs"
  shows "rbind (load_inputs (tables_of cr bs) (load_transaction_builders (tables_of cr bs)))
    (load_outputs (tables_of cr bs)) = Inr (concat (map (builders_of cr) bs))"
proof -
  let ?bts = "with_block bs" and ?txs = "all_transactions bs"
  let ?ks = "map (tx_key cr) ?txs" and ?m = "load_transaction_builders (tables_of cr bs)"
  define B where "B k = the (map_of ?m k)" for k
  have d: "distinct ?ks" and wf: "\<And>t. t \<in> set ?txs \<Longrightarrow> transaction_wf t"
    using s by (auto simp: storable_def block_wf_def)
  have m: "?m = map (\<lambda>(b, t). (tx_key cr t, \<lparr>bd_block_hash = header_key cr b, bd_inputs = [], bd_outputs = []\<rparr>)) ?bts"
    by (rule load_transaction_builders_rows [OF s])
  have dm: "distinct (map fst ?m)" using d by (simp add: m with_block_keys [symmetric] o_def split_beta)
  have B: "B (tx_key cr t) = \<lparr>bd_block_hash = header_key cr b, bd_inputs = [], bd_outputs = []\<rparr>" if "(b, t) \<in> set ?bts" for b t
    unfolding B_def by (subst map_of_is_SomeI [OF dm]) (use that in \<open>force simp: m\<close>)+
  have image: "map (\<lambda>k. (k, f k)) ?ks = map (\<lambda>(b, t). (tx_key cr t, f (tx_key cr t))) ?bts" for f :: "bytes \<Rightarrow> transaction_builder"
    by (simp add: with_block_map(1) map_concat o_def)
  define B1 where "B1 k = (B k)\<lparr>bd_inputs := fold (\<lambda>r. AList.update (iw_seq r) (projr (decode_input_row r)))
      (filter (\<lambda>r. iw_transaction_hash r = k) (tb_transaction_inputs (tables_of cr bs))) (bd_inputs (B k))\<rparr>" for k
  define B2 where "B2 k = (B1 k)\<lparr>bd_outputs := fold (\<lambda>r. AList.update (ow_seq r) (projr (decode_output_row r)))
      (filter (\<lambda>r. ow_transaction_hash r = k) (tb_transaction_outputs (tables_of cr bs))) (bd_outputs (B1 k))\<rparr>" for k
  have "?m = map (\<lambda>k. (k, B k)) ?ks" unfolding image by (auto simp: m B)
  moreover have "load_inputs (tables_of cr bs) (map (\<lambda>k. (k, B k)) ?ks) = Inr (map (\<lambda>k. (k, B1 k)) ?ks)"
    unfolding load_inputs_def B1_def
    by (rule input_loader.loaded [OF d]) (use wf row_decoded(1) in \<open>fastforce simp: tables_of_rows\<close>)
  moreover have "load_outputs (tables_of cr bs) (map (\<lambda>k. (k, B1 k)) ?ks) = Inr (map (\<lambda>k. (k, B2 k)) ?ks)"
    unfolding load_outputs_def B2_def
    by (rule output_loader.loaded [OF d]) (use wf row_decoded(2) in \<open>fastforce simp: tables_of_rows\<close>)
  moreover have "B2 (tx_key cr t) = builder_of cr b t" if bt: "(b, t) \<in> set ?bts" for b t
  proof -
    have t: "t \<in> set ?txs" using bt by (auto simp: with_block_def)
    have "filter (\<lambda>r. iw_transaction_hash r = tx_key cr t) (tb_transaction_inputs (tables_of cr bs)) = input_rows cr t"
      and "filter (\<lambda>r. ow_transaction_hash r = tx_key cr t) (tb_transaction_outputs (tables_of cr bs)) = output_rows cr t"
      unfolding tables_of_rows
      by (rule filter_concat_key [OF d t]; auto simp: input_rows_def output_rows_def row_of_keys)+
    then show ?thesis
      by (simp add: B2_def B1_def B [OF bt] fold_input_rows [OF wf [OF t]] fold_output_rows [OF wf [OF t]] builder_of_def)
  qed
  then have "map (\<lambda>k. (k, B2 k)) ?ks = map (\<lambda>(b, t). (tx_key cr t, builder_of cr b t)) ?bts"
    unfolding image by auto
  ultimately show ?thesis by (simp add: with_block_map builders_of_def [abs_def])
qed

text \<open>Reading: the blocks as they are read from bytes, in the order of their rows.\<close>

lemma built_block_canon:
  assumes "block_wf b"
  shows "built_block (block_param (header_key cr b) b) (builders_of cr b) = block_canon cr b"
proof -
  have "bs_previous_block_hash (block_summary_of b) = zeroify_nulls (nullify_zeros (bs_previous_block_hash (block_summary_of b)))"
    using assms by (simp add: block_wf_def block_header_wf_def block_summary_wf_def zeroify_nullify)
  moreover have "map built_transaction (builders_of cr b) = map (transaction_canon cr) (blk_transactions b)"
  proof -
    have sorted: "sort_key fst (enumerate 0 xs) = enumerate 0 xs" for xs :: "'x list"
      by (rule sort_key_id_if_sorted) simp
    show ?thesis
      by (simp add: sorted builders_of_def builder_of_def built_transaction_def transaction_canon_def tx_key_def)
  qed
  ultimately show ?thesis
    by (simp add: built_block_def block_param_def block_canon_def header_key_def Let_def)
qed

lemma stored_blocks_read:
  assumes s: "storable cr bs" and order: "\<And>rows. mset (order rows) = mset rows"
  obtains bs' where "read_blocks_from_disk order (tables_of cr bs) = Inr bs'" "mset bs' = mset (map (block_canon cr) bs)"
    "map block_height bs' = map cw_height (order (tb_chain (tables_of cr bs)))"
proof -
  let ?builders = "concat (map (builders_of cr) bs)" and ?rows = "tb_chain (tables_of cr bs)"
  have d: "distinct (map (header_key cr) bs)" and ne: "\<forall>b\<in>set bs. block_wf b \<and> blk_transactions b \<noteq> []"
    using s by (auto simp: storable_def)
  have groups: "groupby (\<lambda>(_, builder). bd_block_hash builder) ?builders = map (\<lambda>b. (header_key cr b, builders_of cr b)) bs"
    by (rule groupby_concat [OF d]) (use ne in \<open>auto simp: builders_of_def builder_of_def\<close>)
  have bb: "block_builders ?builders = map (\<lambda>b. (header_key cr b, builders_of cr b)) bs"
    using fold_update_fresh [of "[]" "map (\<lambda>b. (header_key cr b, builders_of cr b)) bs"] d
    by (simp add: block_builders_def groups o_def)
  define F where "F row = built_block row (the (map_of (block_builders ?builders) (cw_block_hash row)))" for row
  have known: "map_of (block_builders ?builders) (header_key cr b) = Some (builders_of cr b)" if "b \<in> set bs" for b
    unfolding bb by (rule map_of_is_SomeI) (use d that in \<open>auto simp: o_def\<close>)
  have rows: "set (order ?rows) = set ?rows" using order [of ?rows] by (metis set_mset_mset)
  have "concat (map (\<lambda>row. case map_of (block_builders ?builders) (cw_block_hash row) of
      None \<Rightarrow> [] | Some builder_tuples \<Rightarrow> [built_block row builder_tuples]) (order ?rows)) = map F (order ?rows)"
  proof -
    have "(case map_of (block_builders ?builders) (cw_block_hash row) of
        None \<Rightarrow> [] | Some builder_tuples \<Rightarrow> [built_block row builder_tuples]) = [F row]" if "row \<in> set (order ?rows)" for row
      using that known unfolding rows by (auto simp: tables_of_def F_def block_param_def Let_def)
    then show ?thesis by (simp cong: map_cong add: concat_map_singleton)
  qed
  moreover have "rbind (load_inputs (tables_of cr bs) (load_transaction_builders (tables_of cr bs)))
      (load_outputs (tables_of cr bs)) = Inr ?builders" by (rule builders_loaded [OF s])
  ultimately have "read_blocks_from_disk order (tables_of cr bs) = Inr (map F (order ?rows))"
    by (simp add: read_blocks_from_disk_def rbind_assoc [symmetric])
  moreover have "mset (map F (order ?rows)) = mset (map (block_canon cr) bs)"
  proof -
    have "map F ?rows = map (block_canon cr) bs"
      using known ne by (auto simp: tables_of_def F_def block_param_def Let_def built_block_canon
          [unfolded block_param_def Let_def])
    then show ?thesis by (metis order mset_map)
  qed
  moreover have "map block_height (map F (order ?rows)) = map cw_height (order ?rows)"
    by (simp add: F_def built_block_def block_height_def)
  ultimately show thesis by (rule that)
qed

section \<open>When writing succeeds\<close>

text \<open>Each block after its parent, every reference to an output that is stored, integers of 64 bits.\<close>

fun parents_first :: "crypto \<Rightarrow> bytes set \<Rightarrow> block list \<Rightarrow> bool" where
  "parents_first cr known [] = True"
| "parents_first cr known (b # bs) =
     (block_previous_block_hash b \<in> insert zero_hash known \<and> parents_first cr (insert (header_key cr b) known) bs)"

definition output_keys :: "crypto \<Rightarrow> transaction \<Rightarrow> (bytes \<times> nat) set" where
  "output_keys cr t = (\<lambda>n. (tx_key cr t, n)) ` {..<length (tx_outputs t)}"

definition stored_output_keys :: "tables \<Rightarrow> (bytes \<times> nat) set" where
  "stored_output_keys tb = (\<lambda>r. (ow_transaction_hash r, ow_seq r)) ` set (tb_transaction_outputs tb)"

definition insertable :: "crypto \<Rightarrow> tables \<Rightarrow> block list \<Rightarrow> bool" where
  "insertable cr tb bs \<longleftrightarrow> parents_first cr (cw_block_hash ` set (tb_chain tb)) bs \<and>
     (\<forall>b\<in>set bs. block_wf b \<and> block_hash cr b = block_header_hash cr (blk_header b) \<and> block_height b < 2 ^ 63) \<and>
     (\<forall>t\<in>set (all_transactions bs).
        (\<forall>p\<in>set (tx_outputs t). out_value p < 2 ^ 63) \<and>
        (\<forall>i\<in>set (tx_inputs t). ref_hash (inp_output_reference i) = zero_hash \<or>
           (ref_hash (inp_output_reference i), nat (ref_index (inp_output_reference i))) \<in>
             stored_output_keys tb \<union> (\<Union>u\<in>set (all_transactions bs). output_keys cr u)))"

lemma insertable_transaction: "insertable cr tb bs \<Longrightarrow> t \<in> set (all_transactions bs) \<Longrightarrow> transaction_wf t"
  by (auto simp: insertable_def block_wf_def)

lemma insertable_params:
  "insertable cr tb bs \<Longrightarrow> rmap (block_params cr) bs = Inr (map (block_params_of cr) bs)"
  by (rule rmap_map) (auto simp: insertable_def intro: block_params_wf)

lemma insert_or_ignore_returns:
  "returns (rbind (insert_or_ignore k ints ok r rs) (\<lambda>x. Inr (f x))) \<longleftrightarrow>
     (\<forall>i\<in>set (ints r). - (2 ^ 63) \<le> i \<and> i < 2 ^ 63) \<and> (k r \<in> k ` set rs \<or> ok r)"
  by (auto simp: rbind_eq_Inr insert_or_ignore_eq_Inr)

lemma insert_chain_frame: "insert_chain r tb = Inr tb' \<Longrightarrow> tb_transaction_outputs tb' = tb_transaction_outputs tb"
  by (auto simp: insert_chain_def rbind_eq_Inr)

lemma chain_inserted:
  assumes "\<forall>b\<in>set bs. block_wf b \<and> block_height b < 2 ^ 63" and "parents_first cr (cw_block_hash ` set (tb_chain tb)) bs"
  shows "\<exists>tb'. rfold (\<lambda>tb r. insert_chain r tb) tb (map (\<lambda>b. block_param (header_key cr b) b) bs) = Inr tb' \<and>
    tb_transaction_outputs tb' = tb_transaction_outputs tb"
  using assms
proof (induction bs arbitrary: tb)
  case (Cons b bs)
  let ?r = "block_param (header_key cr b) b"
  have "returns (insert_chain ?r tb)"
    using Cons.prems
    by (auto simp: insert_chain_def insert_or_ignore_returns block_param_def Let_def block_wf_def
        block_header_wf_def block_summary_wf_def block_height_def block_previous_block_hash_def nullify_zeros_def)
  then obtain tb1 where tb1: "insert_chain ?r tb = Inr tb1" by blast
  then have "rfold (\<lambda>tb r. insert_chain r tb) tb [?r] = Inr tb1" by simp
  from chain_table.inserted_keys [OF this]
  have "cw_block_hash ` set (tb_chain tb1) = insert (header_key cr b) (cw_block_hash ` set (tb_chain tb))"
    by (simp add: block_param_def Let_def)
  with Cons.prems obtain tb' where
    "rfold (\<lambda>tb r. insert_chain r tb) tb1 (map (\<lambda>b. block_param (header_key cr b) b) bs) = Inr tb'"
    "tb_transaction_outputs tb' = tb_transaction_outputs tb1"
    using Cons.IH [of tb1] by auto
  with tb1 insert_chain_frame [OF tb1] show ?case by simp
qed simp

lemma same_rows:
  fixes tb :: tables
  shows "\<exists>rows. tb = tb\<lparr>tb_transaction_locator := rows\<rparr>" "\<exists>rows. tb = tb\<lparr>tb_transaction_outputs := rows\<rparr>"
    "\<exists>rows. tb = tb\<lparr>tb_transaction_inputs := rows\<rparr>"
  by - (metis locator_table.upd_rows output_table.upd_rows input_table.upd_rows)+

lemma insert_returns:
  "lw_block_hash r \<in> cw_block_hash ` set (tb_chain tb) \<Longrightarrow>
     \<exists>rows. insert_transaction_locator r tb = Inr (tb\<lparr>tb_transaction_locator := rows\<rparr>)"
  "ow_transaction_hash p \<in> lw_transaction_hash ` set (tb_transaction_locator tb) \<Longrightarrow>
   - (2 ^ 63) \<le> ow_value p \<Longrightarrow> ow_value p < 2 ^ 63 \<Longrightarrow>
     \<exists>rows. insert_transaction_output p tb = Inr (tb\<lparr>tb_transaction_outputs := rows\<rparr>)"
  "iw_transaction_hash i \<in> lw_transaction_hash ` set (tb_transaction_locator tb) \<Longrightarrow>
   0 \<le> iw_output_reference_index i \<Longrightarrow> iw_output_reference_index i < 2 ^ 63 \<Longrightarrow>
   \<forall>h. iw_output_reference_hash i = Some h \<longrightarrow> (h, nat (iw_output_reference_index i)) \<in> stored_output_keys tb \<Longrightarrow>
     \<exists>rows. insert_transaction_input i tb = Inr (tb\<lparr>tb_transaction_inputs := rows\<rparr>)"
proof -
  show "lw_block_hash r \<in> cw_block_hash ` set (tb_chain tb) \<Longrightarrow>
     \<exists>rows. insert_transaction_locator r tb = Inr (tb\<lparr>tb_transaction_locator := rows\<rparr>)"
    by (auto simp: insert_transaction_locator_def insert_or_ignore_def same_rows)
  show "ow_transaction_hash p \<in> lw_transaction_hash ` set (tb_transaction_locator tb) \<Longrightarrow>
   - (2 ^ 63) \<le> ow_value p \<Longrightarrow> ow_value p < 2 ^ 63 \<Longrightarrow>
     \<exists>rows. insert_transaction_output p tb = Inr (tb\<lparr>tb_transaction_outputs := rows\<rparr>)"
    by (auto simp: insert_transaction_output_def insert_or_ignore_def raise_if_def not_le not_less same_rows)
  assume "iw_transaction_hash i \<in> lw_transaction_hash ` set (tb_transaction_locator tb)"
    and nonneg: "0 \<le> iw_output_reference_index i" and "iw_output_reference_index i < 2 ^ 63"
    "\<forall>h. iw_output_reference_hash i = Some h \<longrightarrow> (h, nat (iw_output_reference_index i)) \<in> stored_output_keys tb"
  moreover obtain j where "iw_output_reference_index i = int j" using nonneg nonneg_int_cases by blast
  ultimately show "\<exists>rows. insert_transaction_input i tb = Inr (tb\<lparr>tb_transaction_inputs := rows\<rparr>)"
    by (auto simp: insert_transaction_input_def insert_or_ignore_def raise_if_def not_le not_less same_rows
        stored_output_keys_def image_iff split: option.split)
qed

lemma locators_inserted:
  assumes "header_key cr ` set bs \<subseteq> cw_block_hash ` set (tb_chain tb)"
  shows "\<exists>tb'. rfold (\<lambda>tb r. insert_transaction_locator r tb) tb (tb_transaction_locator (tables_of cr bs)) = Inr tb' \<and>
    tb_chain tb' = tb_chain tb \<and> tb_transaction_outputs tb' = tb_transaction_outputs tb"
proof (rule rfold_returns)
  fix s :: tables and r
  assume r: "r \<in> set (tb_transaction_locator (tables_of cr bs))"
    and s: "tb_chain s = tb_chain tb \<and> tb_transaction_outputs s = tb_transaction_outputs tb"
  have "lw_block_hash r \<in> header_key cr ` set bs" using r by (auto simp: tables_of_def locator_rows_def)
  then show "\<exists>s'. insert_transaction_locator r s = Inr s' \<and>
      tb_chain s' = tb_chain tb \<and> tb_transaction_outputs s' = tb_transaction_outputs tb"
    using insert_returns(1) [of r s] assms s by (auto simp: subset_iff)
qed simp

lemma outputs_inserted:
  assumes "\<And>t p. t \<in> set ts \<Longrightarrow> p \<in> set (tx_outputs t) \<Longrightarrow> 0 \<le> out_value p \<and> out_value p < 2 ^ 63"
    and "tx_key cr ` set ts \<subseteq> lw_transaction_hash ` set (tb_transaction_locator tb)"
  shows "\<exists>tb'. rfold (\<lambda>tb r. insert_transaction_output r tb) tb (concat (map (output_rows cr) ts)) = Inr tb' \<and>
    tb_transaction_locator tb' = tb_transaction_locator tb"
proof (rule rfold_returns)
  fix s :: tables and r assume "r \<in> set (concat (map (output_rows cr) ts))" and s: "tb_transaction_locator s = tb_transaction_locator tb"
  then obtain t n p where t: "t \<in> set ts" and p: "p \<in> set (tx_outputs t)" and r: "r = output_row_of (tx_key cr t) (n, p)"
    by (auto simp: output_rows_def dest!: enumerate_snd)
  then have "tx_key cr t \<in> lw_transaction_hash ` set (tb_transaction_locator s)" using assms(2) s by auto
  with assms(1) [OF t p] show "\<exists>s'. insert_transaction_output r s = Inr s' \<and> tb_transaction_locator s' = tb_transaction_locator tb"
    using insert_returns(2) [of r s] s by (auto simp: r output_row_of_def)
qed simp

lemma inputs_inserted:
  assumes "\<And>t i. t \<in> set ts \<Longrightarrow> i \<in> set (tx_inputs t) \<Longrightarrow> output_reference_wf (inp_output_reference i) \<and>
      (ref_hash (inp_output_reference i) = zero_hash \<or>
       (ref_hash (inp_output_reference i), nat (ref_index (inp_output_reference i))) \<in> stored_output_keys tb)"
    and "tx_key cr ` set ts \<subseteq> lw_transaction_hash ` set (tb_transaction_locator tb)"
  shows "\<exists>tb'. rfold (\<lambda>tb r. insert_transaction_input r tb) tb (concat (map (input_rows cr) ts)) = Inr tb' \<and>
    tb_transaction_locator tb' = tb_transaction_locator tb \<and> stored_output_keys tb' = stored_output_keys tb"
proof (rule rfold_returns)
  fix s :: tables and r assume "r \<in> set (concat (map (input_rows cr) ts))"
    and s: "tb_transaction_locator s = tb_transaction_locator tb \<and> stored_output_keys s = stored_output_keys tb"
  then obtain t n i where t: "t \<in> set ts" and i: "i \<in> set (tx_inputs t)" and r: "r = input_row_of (tx_key cr t) (n, i)"
    by (auto simp: input_rows_def dest!: enumerate_snd)
  then have "tx_key cr t \<in> lw_transaction_hash ` set (tb_transaction_locator s)" using assms(2) s by auto
  with assms(1) [OF t i] show "\<exists>s'. insert_transaction_input r s = Inr s' \<and>
      tb_transaction_locator s' = tb_transaction_locator tb \<and> stored_output_keys s' = stored_output_keys tb"
    using insert_returns(3) [of r s] s
    by (auto simp: r input_row_of_def nullify_zeros_def output_reference_wf_def) (auto simp: stored_output_keys_def)
qed simp

lemma stored_output_keys_rows:
  "(\<lambda>r. (ow_transaction_hash r, ow_seq r)) ` set (output_rows cr t) = output_keys cr t"
proof -
  have "map (\<lambda>r. (ow_transaction_hash r, ow_seq r)) (output_rows cr t) =
      map (Pair (tx_key cr t)) (map fst (enumerate 0 (tx_outputs t)))"
    by (simp add: output_rows_def row_of_keys o_def del: map_fst_enumerate)
  then have "set (map (\<lambda>r. (ow_transaction_hash r, ow_seq r)) (output_rows cr t)) = output_keys cr t"
    by (simp add: output_keys_def lessThan_atLeast0 del: set_map) simp
  then show ?thesis by simp
qed

lemma stored_output_keys_all:
  "(\<lambda>r. (ow_transaction_hash r, ow_seq r)) ` set (concat (map (output_rows cr) ts)) = (\<Union>u\<in>set ts. output_keys cr u)"
  by (induction ts) (simp_all add: image_Un stored_output_keys_rows)

lemma insert_params_returns:
  assumes "insertable cr tb bs"
  shows "returns (insert_params (map (block_params_of cr) bs) tb)"
proof -
  let ?c = "tables_of cr bs" and ?ts = "all_transactions bs"
  obtain tb1 where 1: "rfold (\<lambda>tb r. insert_chain r tb) tb (tb_chain ?c) = Inr tb1"
    and o1: "tb_transaction_outputs tb1 = tb_transaction_outputs tb"
    using chain_inserted [of bs cr tb] assms by (auto simp: insertable_def tables_of_def)
  have "header_key cr ` set bs \<subseteq> cw_block_hash ` set (tb_chain tb1)"
    using chain_table.inserted_keys [OF 1] arg_cong [OF stored_keys(1) [of cr bs], of set] by auto
  from locators_inserted [OF this]
  obtain tb2 where 2: "rfold (\<lambda>tb r. insert_transaction_locator r tb) tb1 (tb_transaction_locator ?c) = Inr tb2"
    and o2: "tb_transaction_outputs tb2 = tb_transaction_outputs tb" by (auto simp: o1)
  have l2: "tx_key cr ` set ?ts \<subseteq> lw_transaction_hash ` set (tb_transaction_locator tb2)"
    using locator_table.inserted_keys [OF 2] arg_cong [OF stored_keys(2) [of cr bs], of set] by auto
  obtain tb3 where 3: "rfold (\<lambda>tb r. insert_transaction_output r tb) tb2 (tb_transaction_outputs ?c) = Inr tb3"
    and l3: "tb_transaction_locator tb3 = tb_transaction_locator tb2"
    using outputs_inserted [OF _ l2] assms insertable_transaction [OF assms]
    by (fastforce simp: tables_of_rows insertable_def transaction_wf_def output_wf_def)
  have o3: "stored_output_keys tb3 = stored_output_keys tb \<union> (\<Union>u\<in>set ?ts. output_keys cr u)"
    using output_table.inserted_keys [OF 3] unfolding stored_output_keys_def o2 tables_of_rows stored_output_keys_all .
  obtain tb4 where "rfold (\<lambda>tb r. insert_transaction_input r tb) tb3 (tb_transaction_inputs ?c) = Inr tb4"
    using inputs_inserted [of ?ts tb3 cr] assms insertable_transaction [OF assms] l2 l3
    unfolding o3 tables_of_rows insertable_def transaction_wf_def input_wf_def by metis
  with 1 2 3 show ?thesis by (simp add: insert_params_def Let_def insert_params_rows del: map_map)
qed

lemma flush_in_transaction:
  assumes "st_in_transaction st"
  shows "snd (flush_blocks_to_disk cr st) = st" and "st_write_buffer st \<noteq> [] \<Longrightarrow> \<exists>e. fst (flush_blocks_to_disk cr st) = Inl e"
proof -
  have "begin_transaction st = (Inl OperationalError, st)"
    using assms by (simp add: begin_transaction_def abind_apply action_apply)
  then have "\<exists>e. write_blocks_to_disk cr bs st = (Inl e, st)" for bs
    by (cases "rmap (block_params cr) bs")
      (simp_all add: write_blocks_to_disk_def abind_def [of "alift _"] action_apply abind_Inl Let_def)
  then obtain e where "write_blocks_to_disk cr (st_write_buffer st) st = (Inl e, st)" by blast
  then show "snd (flush_blocks_to_disk cr st) = st"
    and "st_write_buffer st \<noteq> [] \<Longrightarrow> \<exists>e. fst (flush_blocks_to_disk cr st) = Inl e"
    by (simp_all add: flush_blocks_to_disk_def abind_apply awhen_def abind_Inl action_apply)
qed

lemma flush_insertable:
  assumes "insertable cr (st_tables st) (st_write_buffer st)" and "\<not> st_in_transaction st" and "st_committed st = st_tables st"
  obtains tb where "insert_params (map (block_params_of cr) (st_write_buffer st)) (st_tables st) = Inr tb"
    "flush_blocks_to_disk cr st = (Inr (), st\<lparr>st_tables := tb, st_committed := tb, st_write_buffer := []\<rparr>)"
proof (cases "st_write_buffer st = []")
  case True
  then have "insert_params (map (block_params_of cr) (st_write_buffer st)) (st_tables st) = Inr (st_tables st)"
    by (simp add: insert_params_def)
  moreover have same: "st\<lparr>st_tables := st_tables st, st_committed := st_tables st, st_write_buffer := []\<rparr> = st"
    using True assms(3) by (intro block_store.equality) simp_all
  moreover have "flush_blocks_to_disk cr st = (Inr (), st)"
    using True by (simp add: flush_blocks_to_disk_def abind_apply action_apply)
  ultimately show thesis by (intro that [of "st_tables st"]) (simp_all only: same)
next
  case False
  obtain tb where tb: "insert_params (map (block_params_of cr) (st_write_buffer st)) (st_tables st) = Inr tb"
    using insert_params_returns [OF assms(1)] by blast
  have "write_blocks_to_disk cr (st_write_buffer st) st = (Inr (), st\<lparr>st_tables := tb, st_committed := tb, st_in_transaction := False\<rparr>)"
    using tb by (cases rule: write_blocks_cases [OF insertable_params [OF assms(1)] assms(2)]) auto
  moreover have "st\<lparr>st_tables := tb, st_committed := tb, st_in_transaction := False, st_write_buffer := []\<rparr> =
      st\<lparr>st_tables := tb, st_committed := tb, st_write_buffer := []\<rparr>"
    using assms(2) by (intro block_store.equality) simp_all
  ultimately show thesis
    using False by (intro that [OF tb])
      (simp add: flush_blocks_to_disk_def abind_def action_apply clear_write_buffer_def)
qed

text \<open>The hashes of the blocks that were flushed are in the table of blocks.\<close>

lemma inserted_chain_keys:
  assumes "insert_params ps tb = Inr tb'"
  shows "cw_block_hash ` set (tb_chain tb') = cw_block_hash ` set (tb_chain tb) \<union> cw_block_hash ` set (map fst ps)"
proof -
  let ?ts = "concat (map snd ps)"
  obtain tb1 tb2 tb3 where
    1: "rfold (\<lambda>tb r. insert_chain r tb) tb (map fst ps) = Inr tb1" and
    2: "rfold (\<lambda>tb r. insert_transaction_locator r tb) tb1 (map fst ?ts) = Inr tb2" and
    3: "rfold (\<lambda>tb r. insert_transaction_output r tb) tb2 (concat (map (\<lambda>(_, _, outs). outs) ?ts)) = Inr tb3" and
    4: "rfold (\<lambda>tb r. insert_transaction_input r tb) tb3 (concat (map (\<lambda>(_, ins, _). ins) ?ts)) = Inr tb'"
    using assms by (auto simp: insert_params_def rbind_eq_Inr Let_def)
  have "tb_chain tb2 = tb_chain tb1" "tb_chain tb3 = tb_chain tb2" "tb_chain tb' = tb_chain tb3"
    by (rule rfold_invariant [OF 2] rfold_invariant [OF 3] rfold_invariant [OF 4]; auto simp: insert_transaction_locator_def
        insert_transaction_output_def insert_transaction_input_def rbind_eq_Inr)+
  then show ?thesis using chain_table.inserted_keys [OF 1] by simp
qed

lemma flushed_block_present:
  assumes "flush_blocks_to_disk cr st = (Inr (), st')" and b: "b \<in> set (st_write_buffer st)"
  obtains h where "block_hash cr b = Inr h" "h \<in> cw_block_hash ` set (tb_chain (st_committed st'))" "st_write_buffer st' = []"
proof -
  let ?bs = "st_write_buffer st"
  have "?bs \<noteq> []" using b by auto
  then obtain st1 where w: "write_blocks_to_disk cr ?bs st = (Inr (), st1)" and st': "st' = st1\<lparr>st_write_buffer := []\<rparr>"
    using assms(1) by (auto simp: flush_blocks_to_disk_def clear_write_buffer_def abind_def action_apply
        split: prod.splits sum.splits)
  obtain ps where ps: "rmap (block_params cr) ?bs = Inr ps"
    using w by (cases "rmap (block_params cr) ?bs") (auto simp: write_blocks_to_disk_def abind_def alift_def)
  have nt: "\<not> st_in_transaction st"
    using w flush_in_transaction(2) [of st cr] assms(1) \<open>?bs \<noteq> []\<close> by auto
  obtain tb where tb: "insert_params ps (st_tables st) = Inr tb" and "st_committed st1 = tb"
    using w by (cases rule: write_blocks_cases [OF ps nt]) auto
  obtain p where p: "p \<in> set ps" "block_params cr b = Inr p"
    using rmap_member [OF ps b] by blast
  then obtain h where h: "block_hash cr b = Inr h" "cw_block_hash (fst p) = h"
    by (auto simp: block_params_def rbind_eq_Inr block_param_def Let_def)
  have "h \<in> cw_block_hash ` set (tb_chain tb)" using inserted_chain_keys [OF tb] p(1) h(2) by auto
  with h(1) st' \<open>st_committed st1 = tb\<close> show thesis by (intro that) simp_all
qed

text \<open>A new transaction that spends an output that is not stored makes the insertion raise.\<close>

lemma stored_outputs_inserted:
  assumes "rfold (\<lambda>tb r. insert_chain r tb) tb (tb_chain (tables_of cr bs)) = Inr tb1"
    and "rfold (\<lambda>tb r. insert_transaction_locator r tb) tb1 (tb_transaction_locator (tables_of cr bs)) = Inr tb2"
    and 3: "rfold (\<lambda>tb r. insert_transaction_output r tb) tb2 (tb_transaction_outputs (tables_of cr bs)) = Inr tb3"
  shows "stored_output_keys tb3 = stored_output_keys tb \<union> (\<Union>u\<in>set (all_transactions bs). output_keys cr u)"
    and "tb_transaction_inputs tb3 = tb_transaction_inputs tb"
proof -
  have "tb_transaction_outputs tb1 = tb_transaction_outputs tb" "tb_transaction_outputs tb2 = tb_transaction_outputs tb1"
    by (rule rfold_invariant [OF assms(1)] rfold_invariant [OF assms(2)];
        auto simp: insert_chain_def insert_transaction_locator_def rbind_eq_Inr)+
  then show "stored_output_keys tb3 = stored_output_keys tb \<union> (\<Union>u\<in>set (all_transactions bs). output_keys cr u)"
    using output_table.inserted_keys [OF 3] unfolding stored_output_keys_def tables_of_rows stored_output_keys_all by simp
  have "tb_transaction_inputs tb1 = tb_transaction_inputs tb" "tb_transaction_inputs tb2 = tb_transaction_inputs tb1"
    "tb_transaction_inputs tb3 = tb_transaction_inputs tb2"
    by (rule rfold_invariant [OF assms(1)] rfold_invariant [OF assms(2)] rfold_invariant [OF 3];
        auto simp: insert_chain_def insert_transaction_locator_def insert_transaction_output_def rbind_eq_Inr)+
  then show "tb_transaction_inputs tb3 = tb_transaction_inputs tb" by simp
qed

lemma inserted_input_refers:
  assumes "insert_transaction_input r tb = Inr tb'"
    and "(iw_transaction_hash r, iw_seq r) \<notin> (\<lambda>r. (iw_transaction_hash r, iw_seq r)) ` set (tb_transaction_inputs tb)"
    and "iw_output_reference_hash r = Some h" and "0 \<le> iw_output_reference_index r"
  shows "(h, nat (iw_output_reference_index r)) \<in> stored_output_keys tb"
proof -
  have "(h, iw_output_reference_index r) \<in>
      set (map (\<lambda>p. (ow_transaction_hash p, int (ow_seq p))) (tb_transaction_outputs tb))"
    using assms(1-3) by (auto simp: insert_transaction_input_def rbind_eq_Inr insert_or_ignore_eq_Inr)
  then show ?thesis by (auto simp: stored_output_keys_def)
qed

lemma unknown_reference_raises:
  assumes "distinct (map (tx_key cr) (all_transactions bs))" and "t \<in> set (all_transactions bs)" and "i \<in> set (tx_inputs t)"
    and "tx_key cr t \<notin> iw_transaction_hash ` set (tb_transaction_inputs tb)"
    and "ref_hash (inp_output_reference i) \<noteq> zero_hash" and "0 \<le> ref_index (inp_output_reference i)"
    and unknown: "(ref_hash (inp_output_reference i), nat (ref_index (inp_output_reference i))) \<notin>
        stored_output_keys tb \<union> (\<Union>u\<in>set (all_transactions bs). output_keys cr u)"
  shows "\<exists>e. insert_params (map (block_params_of cr) bs) tb = Inl e"
proof (rule ccontr)
  let ?c = "tables_of cr bs" and ?key = "\<lambda>r. (iw_transaction_hash r, iw_seq r)"
  assume "\<nexists>e. insert_params (map (block_params_of cr) bs) tb = Inl e"
  then obtain tb' where "insert_params (map (block_params_of cr) bs) tb = Inr tb'"
    by (cases "insert_params (map (block_params_of cr) bs) tb") auto
  then obtain tb1 tb2 tb3 where
    1: "rfold (\<lambda>tb r. insert_chain r tb) tb (tb_chain ?c) = Inr tb1" and
    2: "rfold (\<lambda>tb r. insert_transaction_locator r tb) tb1 (tb_transaction_locator ?c) = Inr tb2" and
    3: "rfold (\<lambda>tb r. insert_transaction_output r tb) tb2 (tb_transaction_outputs ?c) = Inr tb3" and
    4: "rfold (\<lambda>tb r. insert_transaction_input r tb) tb3 (tb_transaction_inputs ?c) = Inr tb'"
    by (auto simp: insert_params_def rbind_eq_Inr Let_def insert_params_rows simp del: map_map)
  note o3 = stored_outputs_inserted [OF 1 2 3]
  obtain n where "n < length (tx_inputs t)" "tx_inputs t ! n = i" using assms(3) by (auto simp: in_set_conv_nth)
  then have "(n, i) \<in> set (enumerate 0 (tx_inputs t))" by (simp add: in_set_enumerate_eq)
  then have "input_row_of (tx_key cr t) (n, i) \<in> set (tb_transaction_inputs ?c)"
    using assms(2) unfolding tables_of_rows by (auto simp: input_rows_def)
  then obtain rs1 rs2 where rs: "tb_transaction_inputs ?c = rs1 @ input_row_of (tx_key cr t) (n, i) # rs2"
    using split_list by fast
  then obtain s s' where s: "rfold (\<lambda>tb r. insert_transaction_input r tb) tb3 rs1 = Inr s"
    and s': "insert_transaction_input (input_row_of (tx_key cr t) (n, i)) s = Inr s'"
    using 4 by (auto simp: rfold_append rbind_eq_Inr)
  have "distinct (map ?key (tb_transaction_inputs ?c))"
    using distinct_input_keys [OF assms(1)] by (simp only: tables_of_rows)
  then have "?key (input_row_of (tx_key cr t) (n, i)) \<notin> ?key ` set rs1" unfolding rs by auto
  moreover have "?key (input_row_of (tx_key cr t) (n, i)) \<notin> ?key ` set (tb_transaction_inputs tb3)"
    using assms(4) by (auto simp: o3(2) row_of_keys)
  ultimately have new: "?key (input_row_of (tx_key cr t) (n, i)) \<notin> ?key ` set (tb_transaction_inputs s)"
    using input_table.inserted_keys [OF s] by blast
  have "tb_transaction_outputs s = tb_transaction_outputs tb3"
    by (rule rfold_invariant [OF s]) (auto simp: insert_transaction_input_def rbind_eq_Inr)
  then have "(ref_hash (inp_output_reference i), nat (ref_index (inp_output_reference i))) \<notin> stored_output_keys s"
    using unknown o3(1) by (simp add: stored_output_keys_def)
  moreover have "iw_output_reference_hash (input_row_of (tx_key cr t) (n, i)) = Some (ref_hash (inp_output_reference i))"
    "iw_output_reference_index (input_row_of (tx_key cr t) (n, i)) = ref_index (inp_output_reference i)"
    using assms(5) by (simp_all add: input_row_of_def nullify_zeros_def)
  ultimately show False using inserted_input_refers [OF s' new] assms(6) by simp
qed

section \<open>Failures\<close>

lemma failed_flush:
  assumes "flush_blocks_to_disk cr st = (Inl e, st1)" and "\<not> st_in_transaction st"
    and "rmap (block_params cr) (st_write_buffer st) = Inr ps"
  shows "st_in_transaction st1 \<and> st_committed st1 = st_committed st"
  using assms
  by (cases rule: write_blocks_cases [OF assms(3,2)])
    (auto simp: flush_blocks_to_disk_def abind_def action_apply awhen_def clear_write_buffer_def split: if_splits)

section \<open>An example\<close>

text \<open>The genesis block, and a block after it that spends its coinbase (or, if \<open>h\<close> is no known hash, nothing stored).\<close>

definition genesis_key :: bytes where
  "genesis_key = pe_block_hash (hd_pow_evidence (blk_header genesis_block))"

definition genesis_tx_key :: bytes where
  "genesis_tx_key = drop 32 genesis_miner_key"

definition spend_of :: "bytes \<Rightarrow> transaction" where
  "spend_of h = sample_transaction 7 [\<lparr>inp_output_reference = \<lparr>ref_hash = h, ref_index = 0\<rparr>,
     inp_signature = Some (SECP256k1Signature (replicate 64 3))\<rparr>] [sample_output 6 5]"

definition next_block :: "bytes \<Rightarrow> block" where
  "next_block h = sample_block 1 genesis_key zero_hash [spend_of h]"

lemma next_block_wf: "length h = 32 \<Longrightarrow> block_wf (next_block h)"
  by (simp add: next_block_def spend_of_def sample_block_def block_wf_def block_header_wf_def block_summary_wf_def pow_evidence_wf_def
      sample_transaction_def transaction_wf_def input_wf_def output_wf_def sample_output_def output_reference_wf_def
      genesis_key_def genesis_block_def)

lemma toy_digest_last: "length y = 32 \<Longrightarrow> toy_digest (x @ y) = y"
  by (simp add: toy_digest_def)

lemma toy_header_key:
  assumes "block_wf b"
  shows "header_key toy_crypto b = pe_block_hash (hd_pow_evidence (blk_header b))"
proof -
  obtain bs where bs: "stream_serialize_block_header (blk_header b) = Inr bs"
    using assms header_wire.ser_returns by (auto simp: block_wf_def)
  then obtain a where "bs = a @ pe_block_hash (hd_pow_evidence (blk_header b))"
    by (auto simp: stream_serialize_block_header_def stream_serialize_pow_evidence_def rbind_eq_Inr)
  with assms bs show ?thesis
    by (simp add: header_key_def toy_digest_last block_wf_def block_header_wf_def pow_evidence_wf_def)
qed

lemma toy_tx_key:
  assumes "transaction_wf t" and p: "tx_outputs t = [p]"
  shows "tx_key toy_crypto t = drop 32 (pk_bytes (out_public_key p))"
proof -
  let ?k = "pk_bytes (out_public_key p)"
  obtain bs where bs: "stream_serialize_transaction t = Inr bs" using tx_wire.ser_returns [OF assms(1)] by blast
  then obtain a where "bs = a @ ?k"
    by (cases "out_public_key p") (auto simp: stream_serialize_transaction_def stream_serialize_list_def p
        stream_serialize_output_def rbind_eq_Inr)
  then have "bs = (a @ take 32 ?k) @ drop 32 ?k" by simp
  moreover have "length (drop 32 ?k) = 32"
    using assms by (cases "out_public_key p") (auto simp: transaction_wf_def p output_wf_def)
  ultimately show ?thesis using bs by (simp only: tx_key_def sum.sel sha256d_toy toy_digest_last)
qed

lemma genesis_coinbase_wf: "transaction_wf genesis_coinbase"
  using genesis_block_wf by (simp add: block_wf_def genesis_block_def)

lemma example_keys:
  "header_key toy_crypto genesis_block = genesis_key" "tx_key toy_crypto genesis_coinbase = genesis_tx_key"
  "length h = 32 \<Longrightarrow> header_key toy_crypto (next_block h) = zero_hash"
  "length h = 32 \<Longrightarrow> tx_key toy_crypto (spend_of h) = sample_hash 5"
proof -
  show "header_key toy_crypto genesis_block = genesis_key"
    by (simp add: toy_header_key [OF genesis_block_wf] genesis_key_def)
  show "tx_key toy_crypto genesis_coinbase = genesis_tx_key"
    using toy_tx_key [OF genesis_coinbase_wf] by (simp add: genesis_coinbase_def genesis_tx_key_def)
  assume "length h = 32"
  from next_block_wf [OF this] show "header_key toy_crypto (next_block h) = zero_hash"
    "tx_key toy_crypto (spend_of h) = sample_hash 5"
    using toy_tx_key [of "spend_of h"]
    by (simp_all add: toy_header_key block_wf_def) (simp_all add: next_block_def sample_block_def spend_of_def sample_output_def sample_hash_def)
qed

text \<open>The store after the genesis block, with the next block in its buffer.\<close>

definition genesis_store :: "bytes \<Rightarrow> block_store" where
  "genesis_store h = \<lparr>st_tables = tables_of toy_crypto [genesis_block], st_committed = tables_of toy_crypto [genesis_block],
     st_in_transaction = False, st_write_buffer = [next_block h]\<rparr>"

lemma example_blocks:
  "blk_transactions genesis_block = [genesis_coinbase]" "blk_transactions (next_block h) = [spend_of h]"
  "block_previous_block_hash genesis_block = zero_hash" "block_previous_block_hash (next_block h) = genesis_key"
  "block_height genesis_block = 0" "block_height (next_block h) = 1"
  "block_hash toy_crypto genesis_block = block_header_hash toy_crypto (blk_header genesis_block)"
  "length h = 32 \<Longrightarrow> block_hash toy_crypto (next_block h) = block_header_hash toy_crypto (blk_header (next_block h))"
  "genesis_key \<noteq> zero_hash" "genesis_tx_key \<noteq> sample_hash 5" "genesis_tx_key \<noteq> zero_hash"
  "length (genesis_tx_key) = 32" "sample_hash 8 \<noteq> genesis_tx_key"
  "sample_hash 5 \<noteq> genesis_tx_key" "zero_hash \<noteq> genesis_key" "zero_hash \<noteq> genesis_tx_key"
  "sample_hash 5 \<noteq> zero_hash" "sample_hash 8 \<noteq> zero_hash"
proof -
  show "length h = 32 \<Longrightarrow> block_hash toy_crypto (next_block h) = block_header_hash toy_crypto (blk_header (next_block h))"
    using header_wire.ser_returns [of "blk_header (next_block h)"] next_block_wf [of h] example_keys(3) [of h]
    by (auto simp: block_hash_def cached_or_def next_block_def zero_hash_def block_wf_def block_header_hash_def header_key_def)
  have "hd genesis_key = 227" by (simp add: genesis_key_def genesis_block_def)
  moreover have "hd genesis_tx_key = 152" by (simp add: genesis_tx_key_def genesis_miner_key_def)
  moreover have "hd zero_hash = 0" "hd (sample_hash 5) = 5" "hd (sample_hash 8) = 8"
    by (simp_all add: zero_hash_def sample_hash_def numeral_eq_Suc)
  ultimately show "genesis_key \<noteq> zero_hash" "genesis_tx_key \<noteq> sample_hash 5" "genesis_tx_key \<noteq> zero_hash"
    "sample_hash 8 \<noteq> genesis_tx_key" "sample_hash 5 \<noteq> genesis_tx_key" "zero_hash \<noteq> genesis_key"
    "zero_hash \<noteq> genesis_tx_key" "sample_hash 5 \<noteq> zero_hash" "sample_hash 8 \<noteq> zero_hash"
    by auto
qed (simp_all add: genesis_block_def next_block_def sample_block_def block_height_def block_previous_block_hash_def block_hash_def cached_or_def
  genesis_tx_key_def genesis_miner_key_def)

lemma genesis_store_storable: "length h = 32 \<Longrightarrow> storable toy_crypto ([genesis_block] @ [next_block h])"
  by (simp add: storable_def example_blocks example_keys genesis_block_wf next_block_wf)

lemma genesis_store_outputs:
  "(\<Union>u\<in>set (all_transactions [genesis_block]). output_keys toy_crypto u) = {(genesis_tx_key, 0)}"
  "length h = 32 \<Longrightarrow>
     (\<Union>u\<in>set (all_transactions [next_block h]). output_keys toy_crypto u) = {(sample_hash 5, 0)}"
  "stored_output_keys (tables_of toy_crypto [genesis_block]) = {(genesis_tx_key, 0)}"
proof -
  show 1: "(\<Union>u\<in>set (all_transactions [genesis_block]). output_keys toy_crypto u) = {(genesis_tx_key, 0)}"
    by (simp add: example_blocks output_keys_def example_keys) (simp add: genesis_coinbase_def lessThan_Suc)
  show "length h = 32 \<Longrightarrow>
     (\<Union>u\<in>set (all_transactions [next_block h]). output_keys toy_crypto u) = {(sample_hash 5, 0)}"
    by (simp add: example_blocks output_keys_def example_keys) (simp add: spend_of_def lessThan_Suc)
  show "stored_output_keys (tables_of toy_crypto [genesis_block]) = {(genesis_tx_key, 0)}"
    unfolding stored_output_keys_def tables_of_rows stored_output_keys_all by (rule 1)
qed

lemma genesis_store_insertable:
  "insertable toy_crypto (tables_of toy_crypto [genesis_block]) [next_block (genesis_tx_key)]"
proof -
  have "cw_block_hash ` set (tb_chain (tables_of toy_crypto [genesis_block])) = {genesis_key}"
    using arg_cong [OF stored_keys(1) [of toy_crypto "[genesis_block]"], of set] by (simp add: example_keys)
  then show ?thesis
    by (simp add: insertable_def example_blocks next_block_wf genesis_store_outputs(3))
      (simp add: spend_of_def sample_output_def)
qed

lemma genesis_store_fails:
  "\<exists>e. insert_params [block_params_of toy_crypto (next_block (sample_hash 8))] (tables_of toy_crypto [genesis_block]) = Inl e"
proof -
  let ?b = "next_block (sample_hash 8)" and ?t = "spend_of (sample_hash 8)"
  have keys: "iw_transaction_hash ` set (tb_transaction_inputs (tables_of toy_crypto [genesis_block])) = {genesis_tx_key}"
    by (simp add: tables_of_rows example_blocks input_rows_def example_keys) (simp add: genesis_coinbase_def row_of_keys)
  have ref: "ref_hash (inp_output_reference (hd (tx_inputs ?t))) = sample_hash 8"
      "ref_index (inp_output_reference (hd (tx_inputs ?t))) = 0" "hd (tx_inputs ?t) \<in> set (tx_inputs ?t)"
    by (simp_all add: spend_of_def)
  have "\<exists>e. insert_params (map (block_params_of toy_crypto) [?b]) (tables_of toy_crypto [genesis_block]) = Inl e"
  proof (rule unknown_reference_raises [OF _ _ ref(3)])
    show "(ref_hash (inp_output_reference (hd (tx_inputs ?t))), nat (ref_index (inp_output_reference (hd (tx_inputs ?t))))) \<notin>
        stored_output_keys (tables_of toy_crypto [genesis_block]) \<union>
        (\<Union>u\<in>set (all_transactions [?b]). output_keys toy_crypto u)"
      unfolding genesis_store_outputs(3) genesis_store_outputs(2) [OF length_sample_hash] ref
      by (simp add: example_blocks)
  qed (simp_all add: keys ref example_blocks example_keys)
  then show ?thesis by simp
qed

section \<open>Properties\<close>



end
