(* ===== verification/Node_Core.thy ===== *)
theory Node_Core
  imports Network_Invariant Stored_Blocks
begin

text \<open>
  What a node does to its chain manager and to its block store. Of all the handlers and steps only those
  for blocks and transactions and the step that fetches blocks touch them (\<open>neutral\<close>: all the others).
  The locale \<open>node_core\<close> is the contract of a property of the two: if the few operations the node
  applies to them keep it, it holds in every node that is reached, whatever the peers send.
\<close>

section \<open>Actions that touch neither\<close>

definition inner :: "node \<Rightarrow> chain_manager \<times> block_store" where
  "inner n = (nd_chain n, nd_store n)"

abbreviation neutral :: "(node, 'a) action \<Rightarrow> bool" where
  "neutral \<equiv> preserves inner"

lemma neutral_environment [preserves_intros]:
  "neutral get_time" "neutral (randrange k)" "neutral (the_peer p)" "neutral (set_peer p f)"
  "neutral (selector_modify p w)" "neutral (selector_unregister p)" "neutral (register_peer c)" "neutral sanity_check"
  by (auto simp: preserves_iff get_time_def randrange_def the_peer_def set_peer_def selector_modify_def
      selector_unregister_def register_peer_def sanity_check_def inner_def action_apply abind_apply awhen_def)

lemma neutral_send_message [preserves_intros]: "neutral (send_message p message prev_header)"
  unfolding send_message_def next_header_def new_context_def get_msg_id_def fill_send_buffer_def start_sending_def
  by (intro preserves_intros)

lemma neutral_handle_can_send [preserves_intros]: "neutral (handle_can_send p sends)"
proof (induction sends)
  case (Cons sent sends)
  show ?case
    unfolding handle_can_send.simps stop_sending_def by (intro preserves_intros Cons.IH; simp add: inner_def)
qed (simp add: preserves_basic)

lemma neutral_broadcast [preserves_intros]: "neutral (broadcast_message message)" "neutral (broadcast_block cr b)"
  "neutral (broadcast_transaction t)"
  unfolding broadcast_block_def broadcast_transaction_def broadcast_message_def by (intro preserves_intros)+

lemma neutral_connections [preserves_intros]:
  "neutral (handle_peer_disconnected p)" "neutral (disconnect p)" "neutral (handle_peer_connected p)"
  "neutral (start_outgoing_connection d)" "neutral (connect_if_due t d)"
proof -
  show off [preserves_intros]: "neutral (handle_peer_disconnected p)" for p
    unfolding handle_peer_disconnected_def by (intro preserves_intros; simp add: inner_def)
  show d [preserves_intros]: "neutral (disconnect p)" for p
    unfolding disconnect_def by (intro preserves_intros)
  show on [preserves_intros]: "neutral (handle_peer_connected p)" for p
    unfolding handle_peer_connected_def by (intro preserves_intros; simp add: inner_def)
  show out [preserves_intros]: "neutral (start_outgoing_connection d)" for d
    unfolding start_outgoing_connection_def by (intro preserves_intros)
  show "neutral (connect_if_due t d)"
    unfolding connect_if_due_def by (intro preserves_intros; simp add: inner_def)
qed

lemma neutral_network_manager_step [preserves_intros]: "neutral (network_manager_step t)"
  unfolding network_manager_step_def peer_step_def send_hello_def by (intro preserves_intros)

lemma neutral_handlers [preserves_intros]:
  "neutral (handle_hello_message_received p m)"
  "neutral (handle_get_blocks_message_received cr p header hashes)"
  "neutral (handle_inventory_message_received p header items)"
  "neutral (handle_get_data_message_received p header data_type hash)"
  "neutral (handle_get_peers_message_received p header)" "neutral (handle_peers_message_received p peers)"
  "neutral (handle_incoming_connection getpeername)" "neutral leave_run_loop"
  unfolding handle_hello_message_received_def add_disconnected_if_new_def write_peers_def
    handle_get_blocks_message_received_def handle_inventory_message_received_def check_inventory_messages_def
    request_item_def set_inventory_def handle_get_data_message_received_def handle_get_peers_message_received_def
    announce_connected_def announce_disconnected_def handle_peers_message_received_def
    handle_incoming_connection_def leave_run_loop_def
  by (intro preserves_intros; simp add: inner_def Let_def)+

section \<open>The contract of a property of the chain manager and the store\<close>

text \<open>A block that a node adds: new, with a known parent, and valid by itself at some time.\<close>

definition accepted :: "crypto \<Rightarrow> coinstate \<Rightarrow> block \<Rightarrow> bool" where
  "accepted cr cs b \<longleftrightarrow> (\<exists>h. block_hash cr b = Inr h \<and> cs_block_by_hash cs h = None) \<and>
     cs_block_by_hash cs (block_previous_block_hash b) \<noteq> None \<and>
     (\<exists>now. validate_block_by_itself cr b now = Inr ())"

definition node_part :: "(chain_manager \<Rightarrow> block_store \<Rightarrow> bool) \<Rightarrow> node \<Rightarrow> bool" where
  "node_part P n \<longleftrightarrow> P (nd_chain n) (nd_store n)"

lemma neutral_keeps: "neutral m \<Longrightarrow> keeps (node_part P) m"
  by (simp add: preserves_iff keeps_iff node_part_def inner_def)

locale node_core =
  fixes cr :: crypto and P :: "chain_manager \<Rightarrow> block_store \<Rightarrow> bool"
  assumes fetching: "P cm st \<Longrightarrow> P (cm\<lparr>cm_actively_fetching_blocks_from_peers := fs\<rparr>) st"
    and added: "P cm st \<Longrightarrow> accepted cr (cm_coinstate cm) b \<Longrightarrow>
      add_block_no_validation cr (cm_coinstate cm) b = Inr cs \<Longrightarrow> P (snd (set_coinstate cr cs validated cm)) st"
    and restored: "P cm st \<Longrightarrow> cm_last_known_valid_coinstate cm = Some cs \<Longrightarrow>
      P (snd (set_coinstate cr cs True cm)) st"
    and pooled: "P cm st \<Longrightarrow> P (snd (add_transaction_to_pool cr t cm)) st"
    and buffered: "P cm st \<Longrightarrow> P cm (snd (add_block_to_buffer b st))"
    and flushed: "P cm st \<Longrightarrow> P cm (snd (flush_blocks_to_disk cr st))"
    and cleared: "P cm st \<Longrightarrow> P cm (snd (clear_write_buffer st))"
begin

lemma on_store_kept:
  "keeps (node_part P) (save_block b)" "keeps (node_part P) (flush_blocks cr)"
  "keeps (node_part P) (on_store clear_write_buffer)"
  using buffered flushed cleared
  by (auto simp: keeps_iff save_block_def flush_blocks_def on_store_def node_part_def split: prod.split)
    (metis snd_conv)+

lemma chain_manager_step_kept: "keeps (node_part P) (chain_manager_step cr t)"
  unfolding chain_manager_step_def drop_finished_fetches_def fetch_blocks_from_def Let_def
  by (intro keeps_basic keeps_abind keeps_awhen keeps_amod keeps_cases neutral_keeps [OF neutral_environment(2)]
      neutral_keeps [OF neutral_environment(4)] neutral_keeps [OF neutral_send_message])
    (simp_all add: node_part_def fetching)

lemma transaction_kept: "keeps (node_part P) (handle_transaction_received cr t)"
proof -
  have "keeps (node_part P) (on_chain (add_transaction_to_pool cr t))"
    using pooled by (auto simp: keeps_iff on_chain_def node_part_def split: prod.split) (metis snd_conv)
  then show ?thesis
    unfolding handle_transaction_received_def
    by (intro keeps_basic keeps_abind keeps_if keeps_awhen neutral_keeps [OF neutral_broadcast(3)])
qed

lemma reject_kept: "keeps (node_part P) (reject_block cr)"
proof -
  have "node_part P (snd (on_chain (set_coinstate cr cs True) n))"
    if "node_part P n" "cm_last_known_valid_coinstate (nd_chain n) = Some cs" for n cs
    using restored [of "nd_chain n" "nd_store n" cs] that by (auto simp: on_chain_def node_part_def split: prod.split)
  then have "node_part P (snd (reject_block cr n))" if "node_part P n" for n
    using that on_store_kept(3)
    by (auto simp: reject_block_def abind_def action_apply keeps_iff split: option.splits prod.splits sum.splits)
      (metis snd_conv)+
  then show ?thesis by (simp add: keeps_iff)
qed

lemma head_broadcast_kept: "keeps (node_part P) (broadcast_if_head cr header b cs)"
  unfolding broadcast_if_head_def
  by (intro keeps_basic keeps_abind keeps_awhen neutral_keeps [OF neutral_broadcast(2)])

lemma set_coinstate_kept:
  assumes "accepted cr cs b" "add_block_no_validation cr cs b = Inr cs'"
  shows "ensures (\<lambda>n. node_part P n \<and> cm_coinstate (nd_chain n) = cs)
    (on_chain (set_coinstate cr cs' validated)) (\<lambda>_. node_part P) (\<lambda>_. node_part P)"
  using assms added by (auto simp: ensures_def on_chain_def node_part_def split: prod.split sum.split)
    (metis snd_conv)+

lemma accept_kept:
  assumes "accepted cr cs b"
  shows "ensures (\<lambda>n. node_part P n \<and> cm_coinstate (nd_chain n) = cs) (accept_block cr header b cs)
    (\<lambda>_. node_part P) (\<lambda>_. node_part P)"
proof -
  let ?I = "\<lambda>n. node_part P n \<and> cm_coinstate (nd_chain n) = cs"
  have save: "ensures ?I (save_block b) (\<lambda>_. ?I) (\<lambda>_. node_part P)"
    using buffered by (auto simp: ensures_def save_block_def on_store_def node_part_def split: prod.split sum.split)
      (metis snd_conv)+
  have rest: "ensures ?I (if mh_in_response_to header = 0 \<or> block_height b mod IBD_VALIDATION_SKIP = 0
     then (case validate_block_in_coinstate cr b cs of
             Inl e \<Rightarrow> reject_block cr
           | Inr _ \<Rightarrow>
               athen (on_chain (set_coinstate cr cs' True))
               (athen (flush_blocks cr) (broadcast_if_head cr header b cs')))
     else athen (on_chain (set_coinstate cr cs' False)) (broadcast_if_head cr header b cs'))
     (\<lambda>_. node_part P) (\<lambda>_. node_part P)"
    if "add_block_no_validation cr cs b = Inr cs'" for cs'
  proof -
    note set = ensures_abind [OF set_coinstate_kept [OF assms that]]
    have reject: "ensures ?I (reject_block cr) (\<lambda>_. node_part P) (\<lambda>_. node_part P)"
      by (rule ensures_weaken [OF reject_kept]) simp_all
    show ?thesis
      by (intro ensures_if set keeps_abind on_store_kept(2) head_broadcast_kept)
        (auto split: sum.split intro!: reject set keeps_abind on_store_kept(2) head_broadcast_kept)
  qed
  show ?thesis
    unfolding accept_block_def
    by (rule ensures_abind [OF save], rule ensures_alift_abind) (use rest in simp_all)
qed

lemma block_kept: "keeps (node_part P) (handle_block_received cr p header b)"
proof -
  let ?I = "\<lambda>cs n. node_part P n \<and> cm_coinstate (nd_chain n) = cs"
  have inv: "ensures (?I cs) m (\<lambda>_. ?I cs) (\<lambda>_. node_part P)" if "neutral m" for cs and m :: "(node, 'b) action"
    using that by (auto simp: preserves_iff ensures_def inner_def node_part_def split: prod.split sum.split)
      (metis fst_conv snd_conv)+
  have read: "ensures (node_part P) (aget (\<lambda>n. cm_coinstate (nd_chain n))) ?I (\<lambda>_. node_part P)"
    by (simp add: ensures_def action_apply)
  have lift: "ensures (?I cs) (athen (alift r) (aret ())) (\<lambda>_. node_part P) (\<lambda>_. node_part P)"
    for cs and r :: "block result"
    by (rule ensures_alift_abind) (auto intro: ensures_aret)
  have new: "ensures (?I cs) (case validate_block_by_itself cr b now of
       Inl e \<Rightarrow> athen (alift (cs_head cs)) (aret ()) | Inr _ \<Rightarrow> accept_block cr header b cs)
     (\<lambda>_. node_part P) (\<lambda>_. node_part P)"
    if "block_hash cr b = Inr hash" "cs_block_by_hash cs hash = None"
      "cs_block_by_hash cs (block_previous_block_hash b) \<noteq> None" for cs hash now
    using that by (auto simp: accepted_def split: sum.split intro!: lift accept_kept)
  show ?thesis
    unfolding handle_block_received_def
    by (rule ensures_abind [OF read], rule ensures_alift_abind, rule ensures_abind [OF inv])
      (auto simp: remove_from_inventory_def intro!: neutral_environment ensures_aret lift
        ensures_abind [OF inv [OF neutral_environment(1)]] new ensures_if)
qed

lemma data_kept: "keeps (node_part P) (handle_data_message_received cr p header data_type d)"
  unfolding handle_data_message_received_def
  by (cases d) (auto intro: keeps_if keeps_basic block_kept transaction_kept)

lemma message_kept: "keeps (node_part P) (handle_message_received cr p header message)"
proof (cases message)
  case (HelloMessage m)
  then show ?thesis by (simp add: handle_message_received_def neutral_keeps neutral_handlers)
qed (auto simp: handle_message_received_def intro!: keeps_basic keeps_abind keeps_if data_kept
    neutral_keeps [OF neutral_environment(3)] neutral_keeps [OF neutral_handlers(2)]
    neutral_keeps [OF neutral_handlers(3)] neutral_keeps [OF neutral_handlers(4)]
    neutral_keeps [OF neutral_handlers(5)] neutral_keeps [OF neutral_handlers(6)])

lemma receive_data_kept: "keeps (node_part P) (handle_receive_data cr p bs)"
proof -
  have "node_part P (snd (handle_receive_data cr p bs n))" if "node_part P n" for n
  proof -
    have "node_part P (snd (snd (receive cr (handle_message_received cr p) bs (cp_receiver (nd_peers n p), n))))"
      by (rule receive_keeps [OF message_kept that])
    then show ?thesis by (auto simp: handle_receive_data_def node_part_def split: prod.split)
  qed
  then show ?thesis by (simp add: keeps_iff)
qed

lemma peer_event_kept: "keeps (node_part P) (handle_remote_peer_selector_event cr p ev)"
  unfolding handle_remote_peer_selector_event_def
  by (intro keeps_acatch keeps_abind keeps_cases keeps_if keeps_basic receive_data_kept
      neutral_keeps [OF neutral_connections(2)] neutral_keeps [OF neutral_handle_can_send])

lemma step_managers_kept: "keeps (node_part P) (step_managers cr t)"
  unfolding step_managers_def
  by (intro keeps_basic keeps_abind keeps_awhen chain_manager_step_kept neutral_keeps [OF neutral_network_manager_step])

lemma event_kept: "keeps (node_part P) (handle_event cr ev)"
proof -
  have "keeps (node_part P) (event_action cr ev)"
    by (cases ev) (simp_all add: step_managers_kept peer_event_kept neutral_keeps neutral_handlers)
  then show ?thesis
    unfolding handle_event_def
    by (intro keeps_abind keeps_basic keeps_awhen keeps_acatch neutral_keeps [OF neutral_handlers(8)])
qed

lemma reachable_part: "node_reachable cr n0 n \<Longrightarrow> node_part P n0 \<Longrightarrow> node_part P n"
proof (induction rule: reachable.induct)
  case (step n ev n')
  then show ?case using event_kept [of ev] by (auto simp: node_step_eq keeps_iff)
qed

end

end
