(* ===== verification/Node_Example.thy ===== *)
theory Node_Example
  imports Node_Core Chain_Manager
begin

text \<open>
  A run of a node: a peer connects, greets, and sends a transaction and a block.
\<close>

section \<open>The messages\<close>

definition arrived_block :: block where
  "arrived_block =
     \<lparr>blk_header =
        \<lparr>hd_summary = \<lparr>bs_height = 1, bs_previous_block_hash = sample_hash 1, bs_merkle_root_hash = replicate 32 4,
           bs_timestamp = 0, bs_target = replicate 32 255, bs_nonce = 0\<rparr>,
         hd_pow_evidence = \<lparr>pe_summary_hash = zero_hash, pe_chain_sample = zero_hash, pe_block_hash = replicate 32 5\<rparr>\<rparr>,
      blk_transactions = [\<lparr>tx_inputs = [\<lparr>inp_output_reference = \<lparr>ref_hash = zero_hash, ref_index = 0\<rparr>,
        inp_signature = Some (CoinbaseData 1 [])\<rparr>],
      tx_outputs = [sample_output 10 4], tx_cached_hash = Some (replicate 32 4)\<rparr>],
      blk_cached_hash = Some (replicate 32 5)\<rparr>"

definition arrived_header :: "message_header" where
  "arrived_header = \<lparr>mh_timestamp = 0, mh_id = 2, mh_in_response_to = 1, mh_context = 0\<rparr>"

definition arrived_hello :: message where
  "arrived_hello = HelloMessage \<lparr>hm_supported_versions = [], hm_your_ip_address = replicate 16 0, hm_your_port = 2412,
     hm_my_ip_address = replicate 16 0, hm_my_port = 2412, hm_nonce = 8, hm_user_agent = []\<rparr>"

definition waiting_node :: node where
  "waiting_node = initial_node 7 [] 64 (new_chain_manager sample_coinstate 0) empty_store None []
     (\<lambda>_. mk_connected_peer [] 0 INCOMING None 0) (\<lambda>_. 0) (\<lambda>_. 0)"

definition connected_node :: node where
  "connected_node = snd (handle_event toy_crypto (IncomingConnection (Inr (''10.0.0.2'', 5000))) waiting_node)"

definition greeted_node :: node where
  "greeted_node = snd (handle_message_received toy_crypto 0 arrived_header arrived_hello connected_node)"

definition arrived_coinstate :: coinstate where
  "arrived_coinstate = projr (add_block_no_validation toy_crypto sample_coinstate arrived_block)"

lemma neutral_event: "neutral (event_action cr ev) \<Longrightarrow> neutral (handle_event cr ev)"
  unfolding handle_event_def by (intro preserves_intros)

lemma connected_node_facts:
  "nd_running connected_node" "cp_receiver (nd_peers connected_node 0) = empty_receiver"
  "nd_chain connected_node = new_chain_manager sample_coinstate 0"
proof -
  show "nd_running connected_node" "cp_receiver (nd_peers connected_node 0) = empty_receiver" by code_simp+
  have "neutral (handle_event toy_crypto (IncomingConnection a))" for a
    by (intro neutral_event) (simp add: neutral_handlers)
  then show "nd_chain connected_node = new_chain_manager sample_coinstate 0"
    by (simp add: preserves_iff inner_def connected_node_def) (simp add: waiting_node_def initial_node_def new_node_def)
qed

lemma greeted_node_facts:
  "handle_message_received toy_crypto 0 arrived_header arrived_hello connected_node = (Inr (), greeted_node)"
  "cp_hello_received (nd_peers greeted_node 0)" "nd_time greeted_node (nd_ticks greeted_node) = 0"
  "nd_chain greeted_node = new_chain_manager sample_coinstate 0"
proof -
  have "fst (handle_message_received toy_crypto 0 arrived_header arrived_hello connected_node) = Inr ()" by code_simp
  then show "handle_message_received toy_crypto 0 arrived_header arrived_hello connected_node = (Inr (), greeted_node)"
    by (metis greeted_node_def prod.collapse)
  show "cp_hello_received (nd_peers greeted_node 0)" "nd_time greeted_node (nd_ticks greeted_node) = 0" by code_simp+
  have "neutral (handle_message_received toy_crypto 0 arrived_header arrived_hello)"
    by (simp add: handle_message_received_def arrived_hello_def neutral_handlers)
  then show "nd_chain greeted_node = new_chain_manager sample_coinstate 0"
    by (simp add: preserves_iff inner_def greeted_node_def connected_node_facts)
qed

lemma arrived_block_facts:
  "block_hash toy_crypto arrived_block = Inr (replicate 32 5)" "block_height arrived_block = 1"
  "cs_block_by_hash sample_coinstate (replicate 32 5) = None"
  "cs_block_by_hash sample_coinstate (block_previous_block_hash arrived_block) = Some sample_genesis"
  "validate_block_by_itself toy_crypto arrived_block 0 = Inr ()"
  "block_canon toy_crypto arrived_block = arrived_block"
  "add_block_no_validation toy_crypto sample_coinstate arrived_block = Inr arrived_coinstate"
  "block_wf arrived_block" "cs_block_by_hash arrived_coinstate (replicate 32 5) = Some arrived_block"
proof -
  show "block_hash toy_crypto arrived_block = Inr (replicate 32 5)" "block_height arrived_block = 1"
    "cs_block_by_hash sample_coinstate (replicate 32 5) = None"
    "cs_block_by_hash sample_coinstate (block_previous_block_hash arrived_block) = Some sample_genesis"
    "validate_block_by_itself toy_crypto arrived_block 0 = Inr ()"
    "block_canon toy_crypto arrived_block = arrived_block"
    "cs_block_by_hash arrived_coinstate (replicate 32 5) = Some arrived_block" by code_simp+
  have "\<not> isl (add_block_no_validation toy_crypto sample_coinstate arrived_block)" by code_simp
  then show "add_block_no_validation toy_crypto sample_coinstate arrived_block = Inr arrived_coinstate"
    by (simp add: arrived_coinstate_def)
  show "block_wf arrived_block"
    by (simp add: block_wf_def arrived_block_def block_header_wf_def block_summary_wf_def pow_evidence_wf_def
      transaction_wf_def input_wf_def output_wf_def sample_output_def output_reference_wf_def)
qed

text \<open>A transaction that spends the genesis coinbase, as it is read from bytes.\<close>

definition arrived_transaction :: transaction where
  "arrived_transaction = transaction_canon toy_crypto top_transaction"

definition pooled_manager :: chain_manager where
  "pooled_manager = (new_chain_manager sample_coinstate 0)\<lparr>cm_transaction_pool := [arrived_transaction]\<rparr>"

definition pooled_node :: node where
  "pooled_node = greeted_node\<lparr>nd_chain := pooled_manager\<rparr>"

lemma arrived_transaction_facts:
  "transaction_hash toy_crypto arrived_transaction = Inr (replicate 32 5)"
  "validate_for_pool toy_crypto (new_chain_manager sample_coinstate 0) arrived_transaction = Inr ()"
  "pool_transaction_is_valid toy_crypto arrived_coinstate arrived_transaction = Inr True"
  by code_simp+

lemma transaction_arrives:
  "handle_message_received toy_crypto 0 arrived_header (DataMessage DATA_TRANSACTION (TransactionData arrived_transaction)) greeted_node =
     (Inr (), pooled_node)"
proof -
  have add: "add_transaction_to_pool toy_crypto arrived_transaction (new_chain_manager sample_coinstate 0) =
      (Inr True, pooled_manager)"
    using arrived_transaction_facts
    by (simp add: add_transaction_to_pool_True pooled_manager_def) (simp add: new_chain_manager_def)
  have "get_active_peers greeted_node = []" by code_simp
  then have "broadcast_transaction t pooled_node = (Inr (), pooled_node)" for t
    by (simp add: broadcast_transaction_def broadcast_message_def abind_apply action_apply pooled_node_def get_active_peers_def)
  then show ?thesis
    using greeted_node_facts(2,4)
    by (simp add: handle_message_received_def handle_data_message_received_def handle_transaction_received_def
        the_peer_def abind_apply on_chain_def abind_def action_apply add pooled_node_def DATA_TRANSACTION_def DATA_BLOCK_def)
     (simp add: new_chain_manager_def)
qed

lemma block_arrives:
  "cm_coinstate (nd_chain (snd (handle_block_received toy_crypto 0 arrived_header arrived_block pooled_node))) = arrived_coinstate"
  "cm_transaction_pool (nd_chain (snd (handle_block_received toy_crypto 0 arrived_header arrived_block pooled_node))) =
     [arrived_transaction]"
  using greeted_node_facts(3) arrived_block_facts arrived_transaction_facts(3)
  by (simp_all add: handle_block_received_def remove_from_inventory_def set_peer_def abind_apply action_apply abind_def get_time_def
      accept_block_def save_block_def on_store_def add_block_to_buffer_def arrived_header_def IBD_VALIDATION_SKIP_def
      on_chain_def set_coinstate_eq new_chain_manager_def broadcast_if_head_def awhen_def pooled_node_def pooled_manager_def
      split: sum.split prod.split)

text \<open>The three messages in one piece.\<close>

definition arrived_messages :: "(message_header \<times> message) list" where
  "arrived_messages = [(arrived_header, arrived_hello),
     (arrived_header, DataMessage DATA_TRANSACTION (TransactionData arrived_transaction)),
     (arrived_header, DataMessage DATA_BLOCK (BlockData arrived_block))]"

definition arrived_bytes :: bytes where
  "arrived_bytes = concat (map (\<lambda>(h, m). projr (frame h m)) arrived_messages)"

definition arrived_run :: node where
  "arrived_run = snd (handle_event toy_crypto (PeerEvent 0 \<lparr>se_read = Some (Inr arrived_bytes), se_write = None\<rparr>) connected_node)"

lemma arrived_run_reachable: "node_reachable toy_crypto waiting_node arrived_run"
  unfolding arrived_run_def connected_node_def
  by (rule reachable.step [OF reachable.step [OF reachable.init]]) (rule TrueI node_step_eq)+

lemma rmap_projr: "\<forall>x\<in>set xs. \<not> isl (f x) \<Longrightarrow> rmap f xs = Inr (map (\<lambda>x. projr (f x)) xs)"
proof (induction xs)
  case (Cons x xs)
  then show ?case by (cases "f x") simp_all
qed simp

lemma arrived_messages_framed:
  "rmap (\<lambda>(h, m). frame h m) arrived_messages = Inr (map (\<lambda>(h, m). projr (frame h m)) arrived_messages)"
  "\<forall>f\<in>set (map (\<lambda>(h, m). projr (frame h m)) arrived_messages). length f \<le> nat MAX_MESSAGE_SIZE + 8"
proof -
  have *: "\<forall>(h, m)\<in>set arrived_messages. \<not> isl (frame h m) \<and> length (projr (frame h m)) < 1000"
    by code_simp
  then show "rmap (\<lambda>(h, m). frame h m) arrived_messages = Inr (map (\<lambda>(h, m). projr (frame h m)) arrived_messages)"
    by (subst rmap_projr) (auto simp: case_prod_beta)
  show "\<forall>f\<in>set (map (\<lambda>(h, m). projr (frame h m)) arrived_messages). length f \<le> nat MAX_MESSAGE_SIZE + 8"
    using * by (auto simp: MAX_MESSAGE_SIZE_def)
qed

lemma arrived_messages_wf: "\<forall>(h, m)\<in>set arrived_messages. message_header_wf h \<and> message_wf m"
proof -
  have "transaction_wf arrived_transaction"
    by (simp add: arrived_transaction_def transaction_canon_def top_transaction_def transaction_wf_def input_wf_def
        output_wf_def sample_output_def sample_input_def output_reference_wf_def)
  then show ?thesis
    by (simp add: arrived_messages_def arrived_block_facts(8) arrived_hello_def hello_message_wf_def arrived_header_def
        message_header_wf_def)
qed

lemma arrived_run_chain:
  "cm_coinstate (nd_chain arrived_run) = arrived_coinstate"
  "cm_transaction_pool (nd_chain arrived_run) = [arrived_transaction]"
proof -
  let ?handle = "handle_message_received toy_crypto 0"
  let ?after = "snd (handle_block_received toy_crypto 0 arrived_header arrived_block pooled_node)"
  have canon: "message_canon toy_crypto arrived_hello = arrived_hello"
    "transaction_canon toy_crypto arrived_transaction = arrived_transaction" "block_canon toy_crypto arrived_block = arrived_block"
    using arrived_block_facts(6) by (simp add: arrived_hello_def, code_simp, simp)
  have "?handle arrived_header (DataMessage DATA_BLOCK (BlockData arrived_block)) pooled_node =
      handle_block_received toy_crypto 0 arrived_header arrived_block pooled_node"
    using greeted_node_facts(2)
    by (simp add: handle_message_received_def handle_data_message_received_def the_peer_def abind_apply pooled_node_def)
  then have "snd (aforeach (\<lambda>(h, m). ?handle h (message_canon toy_crypto m)) arrived_messages connected_node) = ?after"
    using greeted_node_facts(1) transaction_arrives
    by (simp add: arrived_messages_def canon abind_Inr) (simp add: abind_def action_apply split: prod.split sum.split)
  moreover obtain y s1 where "aforeach (\<lambda>(h, m). ?handle h (message_canon toy_crypto m)) arrived_messages connected_node = (y, s1)"
    by fastforce
  ultimately have "nd_chain (snd (snd (receive toy_crypto ?handle arrived_bytes (empty_receiver, connected_node)))) = nd_chain ?after"
    using receive_frames [OF arrived_messages_wf arrived_messages_framed, of toy_crypto ?handle connected_node]
    by (cases y) (auto simp: arrived_bytes_def)
  then have "nd_chain (snd (handle_receive_data toy_crypto 0 arrived_bytes connected_node)) = nd_chain ?after"
    by (auto simp: handle_receive_data_def connected_node_facts split: prod.split)
  moreover have "nd_chain arrived_run = nd_chain (snd (handle_receive_data toy_crypto 0 arrived_bytes connected_node))"
  proof -
    let ?ev = "\<lparr>se_read = Some (Inr arrived_bytes), se_write = None\<rparr> :: socket_event"
    have "arrived_bytes \<noteq> []" by code_simp
    moreover have "abind (alift (Inr x)) f = f x" for x and f :: "bytes \<Rightarrow> (node, unit) action"
      by (rule ext) (simp add: abind_def action_apply)
    ultimately have read: "handle_remote_peer_selector_event toy_crypto 0 ?ev =
        acatch (athen (handle_receive_data toy_crypto 0 arrived_bytes) (aret ())) (\<lambda>e. disconnect 0)"
      by (simp add: handle_remote_peer_selector_event_def)
    have kept: "nd_chain (snd (acatch m (\<lambda>e. k) n)) = nd_chain (snd (m n))" if "neutral k" for k m and n :: node
      using that by (auto simp: acatch_def preserves_iff inner_def split: prod.split sum.split)
    show ?thesis
      unfolding arrived_run_def handle_event_def
      by (simp add: abind_apply connected_node_facts(1) kept neutral_handlers(8) read neutral_connections(2))
        (simp add: abind_def action_apply split: prod.split sum.split)
  qed
  ultimately show "cm_coinstate (nd_chain arrived_run) = arrived_coinstate"
    "cm_transaction_pool (nd_chain arrived_run) = [arrived_transaction]"
    by (simp_all add: block_arrives)
qed

end
