(* ===== verification/Node_Safety.thy ===== *)
theory Node_Safety
  imports Node_Example
begin

text \<open>
  What holds in every state a node reaches, whatever its peers send, by the contract of \<open>Node_Core\<close>: the
  blocks it holds passed the checks that are made of every block, its pool holds transactions that can be
  mined, and a write to the block store that failed is the last one.
\<close>

section \<open>One block\<close>

text \<open>What becomes of the chain manager when a block arrives, on every path through the handler.\<close>

definition full_validation_due :: "message_header \<Rightarrow> block \<Rightarrow> bool" where
  "full_validation_due header b \<longleftrightarrow> mh_in_response_to header = 0 \<or> block_height b mod IBD_VALIDATION_SKIP = 0"

definition block_outcome :: "crypto \<Rightarrow> message_header \<Rightarrow> block \<Rightarrow> chain_manager \<Rightarrow> chain_manager \<Rightarrow> bool" where
  "block_outcome cr header b cm cm' \<longleftrightarrow>
     (let cs = cm_coinstate cm; cs' = cm_coinstate cm'; valid = (validate_block_in_coinstate cr b cs = Inr ()) in
      cm' = cm \<or>
      accepted cr cs b \<and> full_validation_due header b \<and> \<not> valid \<and> cm_last_known_valid_coinstate cm = Some cs' \<and>
        cm_last_known_valid_coinstate cm' = Some cs' \<or>
      accepted cr cs b \<and> add_block_no_validation cr cs b = Inr cs' \<and> (full_validation_due header b \<longrightarrow> valid) \<and>
        (cm_last_known_valid_coinstate cm' = cm_last_known_valid_coinstate cm \<or>
         full_validation_due header b \<and> cm_last_known_valid_coinstate cm' = Some cs'))"

lemma block_outcome_same [simp]: "block_outcome cr header b cm cm"
  by (simp add: block_outcome_def)

abbreviation chain_is :: "chain_manager \<Rightarrow> node \<Rightarrow> bool" where
  "chain_is cm n \<equiv> nd_chain n = cm"

lemma chain_preserved:
  "neutral m \<Longrightarrow> preserves nd_chain m" "preserves nd_chain (on_store k)"
  by (auto simp: preserves_iff inner_def on_store_def split: prod.split)

lemma chain_kept: "preserves nd_chain m \<Longrightarrow> keeps (\<lambda>n. Q (nd_chain n)) m"
  by (rule preserves_keeps)

lemma set_coinstate_outcome:
  "snd (set_coinstate cr cs validated cm) = cm' \<Longrightarrow>
     cm_coinstate cm' = cs \<and> (cm_last_known_valid_coinstate cm' = cm_last_known_valid_coinstate cm \<or>
       validated \<and> cm_last_known_valid_coinstate cm' = Some cs)"
  by (auto simp: set_coinstate_eq split: sum.splits if_splits)

lemma on_chain_ensures:
  "Q (snd (f cm)) \<Longrightarrow> ensures (chain_is cm) (on_chain f) (\<lambda>_ n. Q (nd_chain n)) (\<lambda>_ n. Q (nd_chain n))"
  by (auto simp: ensures_def on_chain_def split: prod.split sum.split)

lemma reject_outcome:
  assumes "accepted cr (cm_coinstate cm) b" "full_validation_due header b"
    "validate_block_in_coinstate cr b (cm_coinstate cm) \<noteq> Inr ()"
  shows "ensures (chain_is cm) (reject_block cr) (\<lambda>_ n. block_outcome cr header b cm (nd_chain n))
    (\<lambda>_ n. block_outcome cr header b cm (nd_chain n))"
proof -
  let ?Q = "\<lambda>n. block_outcome cr header b cm (nd_chain n)"
  have returned: "block_outcome cr header b cm (snd (set_coinstate cr cs True cm))"
    if "cm_last_known_valid_coinstate cm = Some cs" for cs
    using set_coinstate_outcome [OF refl, of cr cs True cm] that assms by (simp add: block_outcome_def Let_def)
  have restore: "ensures (chain_is cm) (case cm_last_known_valid_coinstate cm of None \<Rightarrow> aret ()
      | Some cs \<Rightarrow> on_chain (set_coinstate cr cs True)) (\<lambda>_. ?Q) (\<lambda>_. ?Q)"
    using returned on_chain_ensures [where Q = "block_outcome cr header b cm"]
    by (auto split: option.split intro: ensures_aret)
  show ?thesis
    unfolding reject_block_def
    by (rule ensures_aget_abind [where x = "cm_last_known_valid_coinstate cm"])
      (auto intro!: ensures_abind [OF restore] chain_kept [OF chain_preserved(2)])
qed

lemma accept_outcome:
  assumes "accepted cr (cm_coinstate cm) b"
  shows "ensures (chain_is cm) (accept_block cr header b (cm_coinstate cm))
    (\<lambda>_ n. block_outcome cr header b cm (nd_chain n)) (\<lambda>_ n. block_outcome cr header b cm (nd_chain n))"
proof -
  let ?Q = "\<lambda>n. block_outcome cr header b cm (nd_chain n)" and ?cs = "cm_coinstate cm"
  have same: "ensures (chain_is cm) m (\<lambda>_. chain_is cm) (\<lambda>_. ?Q)" if "preserves nd_chain m" for m :: "(node, 'b) action"
    by (rule ensures_weaken [OF chain_kept [OF that, where Q = "\<lambda>c. c = cm"]]) simp_all
  have step: "ensures (chain_is cm) (athen (on_chain (set_coinstate cr cs' v)) m) (\<lambda>_. ?Q) (\<lambda>_. ?Q)"
    if "add_block_no_validation cr ?cs b = Inr cs'" "v \<longrightarrow> full_validation_due header b"
      "full_validation_due header b \<longrightarrow> validate_block_in_coinstate cr b ?cs = Inr ()" "preserves nd_chain m"
    for cs' v and m :: "(node, unit) action"
  proof (rule ensures_abind)
    show "ensures (chain_is cm) (on_chain (set_coinstate cr cs' v)) (\<lambda>_. ?Q) (\<lambda>_. ?Q)"
      using set_coinstate_outcome [OF refl, of cr cs' v cm] that assms
      by (intro on_chain_ensures) (auto simp: block_outcome_def Let_def)
  qed (rule chain_kept [OF that(4)])
  have head: "preserves nd_chain (broadcast_if_head cr header b cs')" for cs'
    unfolding broadcast_if_head_def
    by (intro preserves_basic preserves_abind preserves_awhen chain_preserved(1) neutral_broadcast)
  have flush: "preserves nd_chain (flush_blocks cr)"
    unfolding flush_blocks_def by (rule chain_preserved(2))
  show ?thesis
    unfolding accept_block_def save_block_def full_validation_due_def [symmetric]
    by (intro ensures_abind [OF same [OF chain_preserved(2)]] ensures_alift_abind ensures_if)
      (auto split: sum.split intro!: step reject_outcome assms preserves_abind head flush)
qed

lemma block_received_outcome:
  "ensures (chain_is cm) (handle_block_received cr p header b) (\<lambda>_ n. block_outcome cr header b cm (nd_chain n))
     (\<lambda>_ n. block_outcome cr header b cm (nd_chain n))"
proof -
  let ?Q = "\<lambda>n. block_outcome cr header b cm (nd_chain n)" and ?cs = "cm_coinstate cm"
  have same: "ensures (chain_is cm) m (\<lambda>_. chain_is cm) (\<lambda>_. ?Q)" if "neutral m" for m :: "(node, 'b) action"
    by (rule ensures_weaken [OF chain_kept [OF chain_preserved(1) [OF that], where Q = "\<lambda>c. c = cm"]])
      simp_all
  have stop: "ensures (chain_is cm) m (\<lambda>_. ?Q) (\<lambda>_. ?Q)" if "neutral m" for m :: "(node, unit) action"
    by (rule ensures_weaken [OF same [OF that]]) simp_all
  have known: "neutral (athen (alift r) (aret ()))" for r :: "block result"
    by (intro preserves_intros)
  have new: "ensures (chain_is cm) (abind get_time (\<lambda>now. case validate_block_by_itself cr b now of
       Inl e \<Rightarrow> athen (alift (cs_head ?cs)) (aret ()) | Inr _ \<Rightarrow> accept_block cr header b ?cs)) (\<lambda>_. ?Q) (\<lambda>_. ?Q)"
    if "block_hash cr b = Inr hash" "cs_block_by_hash ?cs hash = None"
      "cs_block_by_hash ?cs (block_previous_block_hash b) \<noteq> None" for hash
    using that by (intro ensures_abind [OF same [OF neutral_environment(1)]])
      (auto simp: accepted_def split: sum.split intro!: stop [OF known] accept_outcome)
  show ?thesis
    unfolding handle_block_received_def remove_from_inventory_def
    by (rule ensures_aget_abind [where x = ?cs], simp, rule ensures_alift_abind,
        rule ensures_abind [OF same], rule neutral_environment)
      (auto intro!: new stop [OF known] stop [OF preserves_basic(1)])
qed

section \<open>The blocks of a node\<close>

text \<open>
  A block that is neither from the state a node started with nor unknown: kept under its own hash, with
  its parent, valid by itself, and with the unspent outputs that its transactions leave of its parent's.
\<close>

definition admitted :: "crypto \<Rightarrow> coinstate \<Rightarrow> bytes \<Rightarrow> block \<Rightarrow> bool" where
  "admitted cr cs h b \<longleftrightarrow>
     block_hash cr b = Inr h \<and> cs_block_by_hash cs (block_previous_block_hash b) \<noteq> None \<and>
     (\<exists>now. validate_block_by_itself cr b now = Inr ()) \<and>
     (\<exists>u0 u. parent_unspent cs b = Inr u0 \<and> uto_apply_block cr u0 b = Inr u \<and>
        cs_unspent_transaction_outs_by_hash cs h = Some u)"

definition grown_from :: "crypto \<Rightarrow> coinstate \<Rightarrow> coinstate \<Rightarrow> bool" where
  "grown_from cr cs0 cs \<longleftrightarrow> cs_block_by_hash cs0 \<subseteq>\<^sub>m cs_block_by_hash cs \<and>
     (\<forall>h b. cs_block_by_hash cs h = Some b \<longrightarrow> cs_block_by_hash cs0 h = Some b \<or> admitted cr cs h b)"

lemma grown_from_refl: "grown_from cr cs0 cs0"
  by (simp add: grown_from_def)

lemma grown_from_add:
  assumes "grown_from cr cs0 cs" and "accepted cr cs b" and "add_block_no_validation cr cs b = Inr cs'"
  shows "grown_from cr cs0 cs'"
proof -
  obtain h now where h: "block_hash cr b = Inr h" "cs_block_by_hash cs h = None"
    and p: "cs_block_by_hash cs (block_previous_block_hash b) \<noteq> None"
    and v: "validate_block_by_itself cr b now = Inr ()"
    using assms(2) by (auto simp: accepted_def)
  obtain u0 u n c where u: "parent_unspent cs b = Inr u0" "uto_apply_block cr u0 b = Inr u"
    and cs': "cs' = mk_coinstate ((cs_block_by_hash cs)(h \<mapsto> b))
        ((cs_unspent_transaction_outs_by_hash cs)(h \<mapsto> u)) n
        ((cs_heads cs)(block_previous_block_hash b := None, h \<mapsto> b)) (Some c)"
    by (rule add_block_no_validationE [OF assms(3) h(1)])
  have same: "parent_unspent cs' d = parent_unspent cs d" if "cs_block_by_hash cs (block_previous_block_hash d) \<noteq> None" for d
    using that h(2) by (auto simp: parent_unspent_def cs' lookup_key_def)
  have old: "admitted cr cs' k d" if "admitted cr cs k d" "cs_block_by_hash cs k = Some d" for k d
    using that h(2) same [of d] by (auto simp: admitted_def cs')
  have new: "admitted cr cs' h b"
    using h p v u same [of b] by (auto simp: admitted_def cs')
  have "cs_block_by_hash cs0 \<subseteq>\<^sub>m cs_block_by_hash cs'"
    using assms(1) h(2) by (force simp: grown_from_def map_le_def cs' dom_def)
  moreover have "cs_block_by_hash cs0 k = Some d \<or> admitted cr cs' k d" if "cs_block_by_hash cs' k = Some d" for k d
    using that new old assms(1) by (cases "k = h") (auto simp: grown_from_def cs')
  ultimately show ?thesis by (simp add: grown_from_def)
qed

definition chain_grown :: "crypto \<Rightarrow> coinstate \<Rightarrow> chain_manager \<Rightarrow> bool" where
  "chain_grown cr cs0 cm \<longleftrightarrow> grown_from cr cs0 (cm_coinstate cm) \<and>
     (\<forall>cs. cm_last_known_valid_coinstate cm = Some cs \<longrightarrow> grown_from cr cs0 cs)"

lemma add_transaction_keeps_chain:
  "cm_coinstate (snd (add_transaction_to_pool cr t cm)) = cm_coinstate cm \<and>
   cm_last_known_valid_coinstate (snd (add_transaction_to_pool cr t cm)) = cm_last_known_valid_coinstate cm"
proof -
  obtain r cm' where "add_transaction_to_pool cr t cm = (r, cm')" by fastforce
  then show ?thesis
    using add_transaction_to_pool_True [of cr t cm cm'] add_transaction_to_pool_other [of cr t cm r cm']
    by (cases "r = Inr True") auto
qed

interpretation blocks_of_node: node_core cr "\<lambda>cm st. chain_grown cr cs0 cm" for cr cs0
proof unfold_locales
  fix cm b cs v
  assume "chain_grown cr cs0 cm" "accepted cr (cm_coinstate cm) b"
    and "add_block_no_validation cr (cm_coinstate cm) b = Inr cs"
  with grown_from_add set_coinstate_outcome [OF refl, of cr cs v cm]
  show "chain_grown cr cs0 (snd (set_coinstate cr cs v cm))" by (auto simp: chain_grown_def)
next
  fix cm cs assume "chain_grown cr cs0 cm" "cm_last_known_valid_coinstate cm = Some cs"
  with set_coinstate_outcome [OF refl, of cr cs True cm]
  show "chain_grown cr cs0 (snd (set_coinstate cr cs True cm))" by (auto simp: chain_grown_def)
qed (simp_all add: chain_grown_def add_transaction_keeps_chain)

section \<open>The pool of a node\<close>

text \<open>
  If the clean-up of the pool raises, the new state is there with the old pool. That can only be because
  of a transaction whose validation ends in something else than a \<open>ValidateTransactionError\<close>.
\<close>

definition validation_raises :: "crypto \<Rightarrow> chain_manager \<Rightarrow> bool" where
  "validation_raises cr cm \<longleftrightarrow>
     (\<exists>t\<in>set (cm_transaction_pool cm). \<exists>e. pool_transaction_is_valid cr (cm_coinstate cm) t = Inl e)"

definition pool_sound :: "crypto \<Rightarrow> chain_manager \<Rightarrow> bool" where
  "pool_sound cr cm \<longleftrightarrow>
     (\<forall>t\<in>set (cm_transaction_pool cm). transaction_ok t) \<and>
     distinct (concat (map input_refs (cm_transaction_pool cm))) \<and>
     (pool_valid cr cm \<or> validation_raises cr cm)"

lemma valid_transactions_raises:
  "valid_transactions cr cs ts = Inl e \<Longrightarrow> \<exists>t\<in>set ts. \<exists>e. pool_transaction_is_valid cr cs t = Inl e"
  by (induction ts) (auto simp: rbind_eq_Inl)

lemma pool_sound_set_coinstate:
  assumes "pool_sound cr cm"
  shows "pool_sound cr (snd (set_coinstate cr cs v cm))"
proof (cases "valid_transactions cr cs (cm_transaction_pool cm)")
  case (Inl e)
  with valid_transactions_raises [OF Inl] assms show ?thesis
    by (auto simp: set_coinstate_eq pool_sound_def validation_raises_def)
next
  case (Inr pool)
  with valid_transactions_eq_Inr [OF Inr] assms show ?thesis
    by (auto simp: set_coinstate_eq pool_sound_def pool_valid_def distinct_concat_filter)
qed

lemma pool_sound_add:
  assumes "pool_sound cr cm"
  shows "pool_sound cr (snd (add_transaction_to_pool cr t cm))"
proof -
  obtain r cm' where add: "add_transaction_to_pool cr t cm = (r, cm')" by fastforce
  have "pool_sound cr cm'"
  proof (cases "r = Inr True")
    case True
    with add have v: "validate_for_pool cr cm t = Inr ()"
      and cm': "cm' = cm\<lparr>cm_transaction_pool := cm_transaction_pool cm @ [t]\<rparr>"
      using add_transaction_to_pool_True by blast+
    from v have "transaction_ok t" "distinct (concat (map input_refs (cm_transaction_pool cm @ [t])))"
      by (simp_all add: validate_for_pool_def rbind_eq_Inr validate_non_coinbase_transaction_by_itself_iff
          validate_no_duplicate_references_iff)
    moreover have "pool_valid cr cm' \<or> validation_raises cr cm'"
      using assms pool_valid_add [OF _ add] by (auto simp: pool_sound_def validation_raises_def cm')
    ultimately show ?thesis using assms by (auto simp: pool_sound_def cm')
  qed (use assms add add_transaction_to_pool_other in metis)
  with add show ?thesis by simp
qed

interpretation pool_of_node: node_core cr "\<lambda>cm st. pool_sound cr cm" for cr
proof unfold_locales
  show "pool_sound cr (cm\<lparr>cm_actively_fetching_blocks_from_peers := fs\<rparr>)" if "pool_sound cr cm" for cm fs
    using that by (auto simp: pool_sound_def pool_valid_def validation_raises_def)
qed (simp_all add: pool_sound_set_coinstate pool_sound_add)

section \<open>The store of a node\<close>

interpretation stuck_store: node_core cr "\<lambda>cm st. st_in_transaction st \<and> st_committed st = c" for cr c
  by unfold_locales (auto simp: add_block_to_buffer_def clear_write_buffer_def action_apply flush_in_transaction)

lemma reject_by_stuck_store:
  assumes "st_in_transaction (nd_store n)" and "block_hash cr b = Inr h"
    and "cs_block_by_hash (cm_coinstate (nd_chain n)) h = None"
    and "cs_block_by_hash (cm_coinstate (nd_chain n)) (block_previous_block_hash b) \<noteq> None"
    and "validate_block_by_itself cr b (nd_time n (nd_ticks n)) = Inr ()"
    and "validate_block_in_coinstate cr b (cm_coinstate (nd_chain n)) = Inr ()" and "full_validation_due header b"
  shows "\<exists>e. fst (handle_block_received cr p header b n) = Inl e"
proof -
  let ?n = "n\<lparr>nd_peers := (nd_peers n)(p := (nd_peers n p)\<lparr>cp_inventory_messages :=
      remove_from_messages h (cp_inventory_messages (nd_peers n p))\<rparr>), nd_ticks := Suc (nd_ticks n),
      nd_store := (nd_store n)\<lparr>st_write_buffer := st_write_buffer (nd_store n) @ [b]\<rparr>\<rparr>"
  have go: "handle_block_received cr p header b n =
      abind (alift (add_block_no_validation cr (cm_coinstate (nd_chain n)) b)) (\<lambda>cs'.
        athen (on_chain (set_coinstate cr cs' True)) (athen (flush_blocks cr) (broadcast_if_head cr header b cs'))) ?n"
    using assms
    by (auto simp: handle_block_received_def remove_from_inventory_def set_peer_def abind_apply action_apply abind_def [of "alift _"]
        abind_def [of get_time] get_time_def accept_block_def save_block_def on_store_def add_block_to_buffer_def
        full_validation_due_def abind_def [of "on_store _"] split: sum.split)
  have stuck: "\<exists>e. fst (athen (flush_blocks cr) k m) = Inl e"
    if "nd_store m = nd_store ?n" for m and k :: "(node, unit) action"
    using flush_in_transaction(2) [of "nd_store ?n" cr] assms(1) that
    by (auto simp: abind_def flush_blocks_def on_store_def split: prod.split sum.split)
  show ?thesis
    unfolding go
    using stuck
    by (cases "add_block_no_validation cr (cm_coinstate (nd_chain n)) b")
      (auto simp: abind_def [of "alift _"] abind_def [of "on_chain _"] action_apply on_chain_def split: prod.split sum.split)
qed

section \<open>Properties\<close>

text \<open>
  C4: whatever a node has received, each block it holds that it did not start with is kept under its own
  hash with its parent, has passed validation by itself, and its transactions could be applied, one after another,
  to the unspent outputs at its parent: each input of a transaction that is not the block's first was unspent when its
  turn came (at the parent, or created by an earlier transaction of the block), and what they left is what the node keeps for the block.
  (More is not checked of a block that was asked for: whether its spends are signed, or what it creates.)
\<close>

theorem node_blocks_passed_checks:
  assumes "node_reachable cr
      (initial_node nonce version sz (new_chain_manager cs0 t0) store peers_file rows peers clock random) n"
    and "cs_block_by_hash (cm_coinstate (nd_chain n)) h = Some b" and "cs_block_by_hash cs0 h = None"
  shows "block_hash cr b = Inr h \<and>
    cs_block_by_hash (cm_coinstate (nd_chain n)) (block_previous_block_hash b) \<noteq> None \<and>
    (\<exists>now. validate_block_by_itself cr b now = Inr ()) \<and>
    (\<exists>u0 u. parent_unspent (cm_coinstate (nd_chain n)) b = Inr u0 \<and> uto_apply_block cr u0 b = Inr u \<and>
       cs_unspent_transaction_outs_by_hash (cm_coinstate (nd_chain n)) h = Some u)"
proof -
  have "chain_grown cr cs0 (nd_chain n)"
    using blocks_of_node.reachable_part [OF assms(1), of cs0] grown_from_refl
    by (simp add: node_part_def chain_grown_def initial_node_def new_node_def new_chain_manager_def)
  then have "admitted cr (cm_coinstate (nd_chain n)) h b"
    using assms(2,3) by (simp add: chain_grown_def grown_from_def) (metis option.distinct(1))
  then show ?thesis by (simp add: admitted_def)
qed

theorem node_blocks_passed_checks_witness:
  "node_reachable toy_crypto waiting_node arrived_run \<and>
   (\<exists>now. validate_block_by_itself toy_crypto arrived_block now = Inr ())"
  using node_blocks_passed_checks [OF arrived_run_reachable [unfolded waiting_node_def], of "replicate 32 5" arrived_block]
    arrived_run_reachable by (simp add: arrived_run_chain arrived_block_facts)

text \<open>
  C3: when a block arrives, the node's chain stays as it is, or goes back to the last valid state because
  the block failed full validation, or gets the block: then it is new, its parent is known and it is valid
  by itself, and also against the state if it was not asked for or has a height at which that is checked.
\<close>

theorem received_block_is_checked:
  assumes "handle_block_received cr p header b n = (r, n')"
  shows "let cs = cm_coinstate (nd_chain n); cs' = cm_coinstate (nd_chain n');
      valid = (validate_block_in_coinstate cr b cs = Inr ());
      due = (mh_in_response_to header = 0 \<or> block_height b mod IBD_VALIDATION_SKIP = 0) in
    nd_chain n' = nd_chain n \<or>
    accepted cr cs b \<and> due \<and> \<not> valid \<and> cm_last_known_valid_coinstate (nd_chain n) = Some cs' \<or>
    accepted cr cs b \<and> add_block_no_validation cr cs b = Inr cs' \<and> (\<not> due \<or> valid) \<and>
      (cm_last_known_valid_coinstate (nd_chain n') = cm_last_known_valid_coinstate (nd_chain n) \<or>
       due \<and> cm_last_known_valid_coinstate (nd_chain n') = Some cs')"
proof -
  have "block_outcome cr header b (nd_chain n) (nd_chain n')"
    using block_received_outcome [of "nd_chain n" cr p header b] assms
    by (cases r) (auto elim: ensures_Inl [rotated 2] ensures_Inr [rotated 2])
  then show ?thesis by (auto simp: block_outcome_def full_validation_due_def Let_def)
qed

theorem received_block_is_checked_witness:
  "accepted toy_crypto sample_coinstate arrived_block \<and>
   cm_coinstate (nd_chain (snd (handle_block_received toy_crypto 0 arrived_header arrived_block pooled_node))) = arrived_coinstate"
proof -
  obtain r n' where h: "handle_block_received toy_crypto 0 arrived_header arrived_block pooled_node = (r, n')" by fastforce
  have "arrived_coinstate \<noteq> sample_coinstate" using arrived_block_facts(3,9) by auto
  moreover have "cm_coinstate (nd_chain pooled_node) = sample_coinstate"
    by (simp add: pooled_node_def pooled_manager_def new_chain_manager_def)
  ultimately show ?thesis
    using received_block_is_checked [OF h] block_arrives(1) h
    by (auto simp: Let_def arrived_header_def IBD_VALIDATION_SKIP_def arrived_block_facts(2))
qed

text \<open>
  C9: in every state a node reaches, its pool holds transactions that are valid by themselves and spend no
  output twice; and all are valid at the head of its chain, unless the validation of one of them ends in
  an exception that the clean-up of the pool does not catch.
\<close>

theorem node_pool_stays_valid:
  assumes "node_reachable cr
      (initial_node nonce version sz (new_chain_manager cs0 t0) store peers_file rows peers clock random) n"
  shows "(\<forall>t\<in>set (cm_transaction_pool (nd_chain n)). validate_non_coinbase_transaction_by_itself t = Inr ()) \<and>
    validate_no_duplicate_output_references_in_transactions (cm_transaction_pool (nd_chain n)) = Inr () \<and>
    (validation_raises cr (nd_chain n) \<or>
     (\<forall>t\<in>set (cm_transaction_pool (nd_chain n)). \<exists>cur.
        cs_current_chain_hash (cm_coinstate (nd_chain n)) = Some cur \<and>
        validate_non_coinbase_transaction_in_coinstate cr t cur (cm_coinstate (nd_chain n)) = Inr ()))"
proof -
  have "pool_sound cr (nd_chain n)"
    using pool_of_node.reachable_part [OF assms]
    by (auto simp: node_part_def pool_sound_def pool_valid_def initial_node_def new_node_def new_chain_manager_def)
  then show ?thesis
    by (auto simp: pool_sound_def pool_valid_def validate_non_coinbase_transaction_by_itself_iff validate_at_head_iff
        validate_no_duplicate_references_iff validate_non_coinbase_transaction_in_coinstate_iff)
qed

theorem node_pool_stays_valid_witness:
  "cm_transaction_pool (nd_chain arrived_run) = [arrived_transaction] \<and>
   (\<exists>cur. validate_non_coinbase_transaction_in_coinstate toy_crypto arrived_transaction cur arrived_coinstate = Inr ())"
proof -
  have "\<not> validation_raises toy_crypto (nd_chain arrived_run)"
    by (simp add: validation_raises_def arrived_run_chain arrived_transaction_facts)
  with node_pool_stays_valid [OF arrived_run_reachable [unfolded waiting_node_def]]
  show ?thesis by (auto simp: arrived_run_chain)
qed

text \<open>
  C17: once a write of new blocks to the store has failed, nothing is written any more in whatever the node
  goes through, and each new block that passes full validation ends the connection it came on: handling it
  raises. (Given that the blocks' rows could be computed and that no write was open.)
\<close>

theorem failed_flush_stops_the_node:
  assumes "flush_blocks_to_disk cr st = (Inl e, st1)" and "\<not> st_in_transaction st"
    and "\<exists>ps. rmap (block_params cr) (st_write_buffer st) = Inr ps"
    and "nd_store n1 = st1" and "node_reachable cr n1 n"
  shows "st_committed (nd_store n) = st_committed st \<and>
    (\<forall>p header b h. (mh_in_response_to header = 0 \<or> block_height b mod IBD_VALIDATION_SKIP = 0) \<longrightarrow>
       block_hash cr b = Inr h \<longrightarrow> cs_block_by_hash (cm_coinstate (nd_chain n)) h = None \<longrightarrow>
       cs_block_by_hash (cm_coinstate (nd_chain n)) (block_previous_block_hash b) \<noteq> None \<longrightarrow>
       validate_block_by_itself cr b (nd_time n (nd_ticks n)) = Inr () \<longrightarrow>
       validate_block_in_coinstate cr b (cm_coinstate (nd_chain n)) = Inr () \<longrightarrow>
       (\<exists>e. fst (handle_block_received cr p header b n) = Inl e))"
proof -
  have "st_in_transaction st1 \<and> st_committed st1 = st_committed st"
    using failed_flush [OF assms(1,2)] assms(3) by blast
  then have "node_part (\<lambda>cm s. st_in_transaction s \<and> st_committed s = st_committed st) n1"
    by (simp add: node_part_def assms(4))
  then have n: "st_in_transaction (nd_store n) \<and> st_committed (nd_store n) = st_committed st"
    using stuck_store.reachable_part [OF assms(5), of "st_committed st"] by (simp add: node_part_def)
  then show ?thesis using reject_by_stuck_store [of n cr] by (auto simp: full_validation_due_def)
qed

theorem failed_flush_stops_the_node_witness:
  "\<exists>e st1. flush_blocks_to_disk toy_crypto (genesis_store (sample_hash 8)) = (Inl e, st1) \<and>
     st_committed (nd_store (snd (handle_event toy_crypto (StepManagers 0) (waiting_node\<lparr>nd_store := st1\<rparr>)))) =
       tables_of toy_crypto [genesis_block]"
proof -
  let ?st = "genesis_store (sample_hash 8)" and ?b = "next_block (sample_hash 8)"
  have p: "rmap (block_params toy_crypto) (st_write_buffer ?st) = Inr [block_params_of toy_crypto ?b]"
    using block_params_wf [OF next_block_wf, of "sample_hash 8" toy_crypto] example_blocks(8) [of "sample_hash 8"]
    by (simp add: genesis_store_def)
  have nt: "\<not> st_in_transaction ?st" by (simp add: genesis_store_def)
  have "\<exists>e st1. flush_blocks_to_disk toy_crypto ?st = (Inl e, st1)"
    using genesis_store_fails
    by (cases rule: write_blocks_cases [OF p nt])
      (auto simp: flush_blocks_to_disk_def abind_def action_apply genesis_store_def)
  then obtain e st1 where w: "flush_blocks_to_disk toy_crypto ?st = (Inl e, st1)" by blast
  have "node_reachable toy_crypto (waiting_node\<lparr>nd_store := st1\<rparr>)
      (snd (handle_event toy_crypto (StepManagers 0) (waiting_node\<lparr>nd_store := st1\<rparr>)))"
    by (rule reachable.step [OF reachable.init]) (rule TrueI node_step_eq)+
  from failed_flush_stops_the_node [OF w nt _ _ this] p w show ?thesis by (auto simp: genesis_store_def)
qed

end
