(* ===== verification/Utils.thy ===== *)
theory Utils
  imports Datatypes Humans
begin

text \<open>
  Model of \<open>skepticoin/utils.py\<close>, and the text that Python's formatting makes of numbers and lines, which
  the explorer and the scripts use.
\<close>

section \<open>Numbers as text\<close>

text \<open>The digits of a number that is not negative.\<close>

function digits :: "int \<Rightarrow> string" where
  "digits n = (if n < 10 then [hex_digit (nat n)] else digits (n div 10) @ [hex_digit (nat (n mod 10))])"
  by pat_completeness auto
termination by (relation "measure nat") auto

declare digits.simps [simp del]

definition decimal :: "int \<Rightarrow> string" where
  "decimal n = (if n < 0 then ''-'' else []) @ digits \<bar>n\<bar>"

text \<open>\<open>"%0wd"\<close>: the sign counts, and a number that is too long is not cut.\<close>

definition zero_padded :: "nat \<Rightarrow> int \<Rightarrow> string" where
  "zero_padded w n =
     (let sign = (if n < 0 then ''-'' else []); ds = digits \<bar>n\<bar> in
      sign @ replicate (w - length sign - length ds) (CHR ''0'') @ ds)"

text \<open>\<open>"%ws"\<close>: filled with spaces on the left.\<close>

definition right_aligned :: "nat \<Rightarrow> string \<Rightarrow> string" where
  "right_aligned w s = replicate (w - length s) (CHR '' '') @ s"

definition text_lines :: "string list \<Rightarrow> string" where
  "text_lines ls = concat (map (\<lambda>l. l @ [CHR 0x0A]) ls)"

section \<open>Blocks\<close>

definition block_filename :: "crypto \<Rightarrow> block \<Rightarrow> string result" where
  "block_filename cr b = rbind (block_hash cr b) (\<lambda>h. Inr (zero_padded 8 (block_height b) @ ''-'' @ human h))"

definition calc_work :: "bytes \<Rightarrow> int result" where
  "calc_work target =
     (if be_value target = 0 then Inl ZeroDivisionError else Inr (2 ^ (32 * 8) div be_value target))"

end
