(* ===== verification/Explorer.thy ===== *)
theory Explorer
  imports Chain_Sync Utils
begin

text \<open>
  Model of \<open>skepticoin/explorer.py\<close>: balances with their history along the main chain, and the pages the
  explorer writes about blocks, transactions and addresses. Shown: the balances are those of
  \<open>balances.py\<close>, the history is complete, and what a page refers to has a page.
\<close>

section \<open>Balances with history\<close>

record pk_balance_2 =
  pb2_value :: int
  pb2_all_output_references :: "output_reference list"
  pb2_unspent_output_references :: "output_reference list"
  pb2_spent_in_transactions :: "transaction list"

type_synonym balances_2 = "public_key \<Rightarrow> pk_balance_2 option"

text \<open>The bodies of the two loops of \<open>pkb2_apply_transaction\<close>.\<close>

definition pkb2_spend :: "unspent \<Rightarrow> transaction \<Rightarrow> balances_2 \<Rightarrow> tx_input \<Rightarrow> balances_2 result" where
  "pkb2_spend u t m input =
     rbind (lookup_key u (inp_output_reference input)) (\<lambda>previously_unspent_output.
     let public_key = out_public_key previously_unspent_output in
     rbind (lookup_key m public_key) (\<lambda>balance.
     Inr (m(public_key \<mapsto>
       \<lparr>pb2_value = pb2_value balance - out_value previously_unspent_output,
        pb2_all_output_references = pb2_all_output_references balance,
        pb2_unspent_output_references =
          filter (\<lambda>to. to \<noteq> inp_output_reference input) (pb2_unspent_output_references balance),
        pb2_spent_in_transactions = pb2_spent_in_transactions balance @ [t]\<rparr>))))"

definition pkb2_receive :: "crypto \<Rightarrow> transaction \<Rightarrow> balances_2 \<Rightarrow> nat \<times> tx_output \<Rightarrow> balances_2 result" where
  "pkb2_receive cr t m = (\<lambda>(i, output).
     rbind (transaction_hash cr t) (\<lambda>h.
     rbind (mk_output_reference h (int i)) (\<lambda>output_reference.
     let m = (if m (out_public_key output) = None
              then m(out_public_key output \<mapsto>
                \<lparr>pb2_value = 0, pb2_all_output_references = [], pb2_unspent_output_references = [],
                 pb2_spent_in_transactions = []\<rparr>) else m) in
     rbind (lookup_key m (out_public_key output)) (\<lambda>balance.
     Inr (m(out_public_key output \<mapsto>
       \<lparr>pb2_value = pb2_value balance + out_value output,
        pb2_all_output_references = pb2_all_output_references balance @ [output_reference],
        pb2_unspent_output_references = pb2_unspent_output_references balance @ [output_reference],
        pb2_spent_in_transactions = pb2_spent_in_transactions balance\<rparr>))))))"

definition pkb2_apply_transaction ::
  "crypto \<Rightarrow> unspent \<Rightarrow> balances_2 \<Rightarrow> transaction \<Rightarrow> bool \<Rightarrow> balances_2 result" where
  "pkb2_apply_transaction cr u m t is_coinbase =
     rbind (if is_coinbase then Inr m else rfold (pkb2_spend u t) m (tx_inputs t)) (\<lambda>m.
     rfold (pkb2_receive cr t) m (enumerate 0 (tx_outputs t)))"

definition pkb2_apply_block :: "crypto \<Rightarrow> unspent \<Rightarrow> balances_2 \<Rightarrow> block \<Rightarrow> balances_2 result" where
  "pkb2_apply_block cr u m b =
     rbind (first_elem (blk_transactions b)) (\<lambda>coinbase.
     rbind (pkb2_apply_transaction cr u m coinbase True) (\<lambda>m.
     rfold (\<lambda>m t. pkb2_apply_transaction cr u m t False) m (tl (blk_transactions b))))"

definition get_unspent_transaction_outs_before_block :: "coinstate \<Rightarrow> block \<Rightarrow> unspent result" where
  "get_unspent_transaction_outs_before_block cs b =
     (if block_previous_block_hash b = replicate 32 0 then Inr Map.empty
      else lookup_key (cs_unspent_transaction_outs_by_hash cs) (block_previous_block_hash b))"

definition build_pkb2_block :: "crypto \<Rightarrow> coinstate \<Rightarrow> block \<Rightarrow> balances_2 \<Rightarrow> balances_2 result" where
  "build_pkb2_block cr cs b m =
     rbind (get_unspent_transaction_outs_before_block cs b) (\<lambda>u. pkb2_apply_block cr u m b)"

text \<open>\<open>range(coinstate.head().height + 1)\<close>, and the block of the main chain at a height.\<close>

definition heights_to :: "int \<Rightarrow> int list" where
  "heights_to height = map int [0..<nat (height + 1)]"

definition main_block :: "coinstate \<Rightarrow> int \<Rightarrow> block result" where
  "main_block cs height = rbind (by_height_at_head cs) (\<lambda>by_height. lookup_key by_height height)"

definition build_pkb2 :: "crypto \<Rightarrow> coinstate \<Rightarrow> balances_2 result" where
  "build_pkb2 cr cs =
     rbind (cs_head cs) (\<lambda>head.
     rfold (\<lambda>m height. rbind (main_block cs height) (\<lambda>b. build_pkb2_block cr cs b m))
       Map.empty (heights_to (block_height head)))"

section \<open>Text\<close>

text \<open>
  \<open>show_coin\<close>: the quotient goes through a float, whose eight decimals are exact for every amount up to
  \<open>MAX_SASHIMI\<close>.
\<close>

definition show_coin :: "int \<Rightarrow> string" where
  "show_coin sashimi =
     (let n = \<bar>sashimi\<bar>; cents = digits (n mod SASHIMI_PER_COIN) in
      (if sashimi < 0 then ''-'' else []) @ digits (n div SASHIMI_PER_COIN) @ ''.'' @
      replicate (8 - length cents) (CHR ''0'') @ cents @ '' SKEPTI'')"

definition page_name :: "bytes \<Rightarrow> string" where
  "page_name h = human h @ ''.md''"

definition page_link :: "bytes \<Rightarrow> string" where
  "page_link h = ''['' @ human h @ '']('' @ human h @ ''.md)''"

definition pk_address :: "public_key \<Rightarrow> string" where
  "pk_address k = ''SKE'' @ human (pk_bytes k) @ ''PTI''"

definition address_link :: "public_key \<Rightarrow> string" where
  "address_link k = ''['' @ pk_address k @ '']('' @ pk_address k @ ''.md)''"

section \<open>Pages\<close>

text \<open>
  The files of the explorer's directory by name. How a time is written (\<open>datetime.isoformat\<close>) is the
  argument \<open>isoformat\<close>.
\<close>

type_synonym files = "string \<Rightarrow> string option"

definition coinbase_message :: "block \<Rightarrow> string result" where
  "coinbase_message b =
     rbind (first_elem (blk_transactions b)) (\<lambda>coinbase.
     rbind (first_elem (tx_inputs coinbase)) (\<lambda>input.
     rbind (case inp_signature input of
              Some (CoinbaseData height s) \<Rightarrow> Inr s
            | Some (SECP256k1Signature s) \<Rightarrow> Inr s
            | _ \<Rightarrow> Inl AttributeError) (\<lambda>potential_message.
     Inr (if \<forall>x\<in>set potential_message. 32 \<le> x \<and> x < 127 \<or> x = 10
          then ''```'' @ [CHR 0x0A] @ map (\<lambda>x. char_of (unat x)) potential_message @ [CHR 0x0A] @ ''```''
          else []))))"

definition transaction_row :: "crypto \<Rightarrow> transaction \<Rightarrow> string result" where
  "transaction_row cr t =
     rbind (transaction_hash cr t) (\<lambda>h.
     Inr (page_link h @ '' | '' @ show_coin (sum_list (map out_value (tx_outputs t))) @ '' ''))"

definition block_page :: "crypto \<Rightarrow> (int \<Rightarrow> string) \<Rightarrow> block \<Rightarrow> string result" where
  "block_page cr isoformat b =
     rbind (coinbase_message b) (\<lambda>msg.
     rbind (block_hash cr b) (\<lambda>hash.
     rbind (rmap (transaction_row cr) (blk_transactions b)) (\<lambda>rows.
     Inr (text_lines ([''## Block '' @ human hash, [], ''Attribute | Value'', ''--- | ---'',
       ''Height | '' @ decimal (block_height b), ''Hash | '' @ human hash,
       ''Timestamp | '' @ isoformat (block_timestamp b), ''Target | '' @ human (block_target b),
       ''Merke root | '' @ human (bs_merkle_root_hash (block_summary_of b)),
       ''Nonce | '' @ decimal (bs_nonce (block_summary_of b)), [], msg, [],
       ''### Transactions'', [], ''Hash | Amount'', ''--- | ---''] @ rows)))))"

definition input_row_text :: "unspent \<Rightarrow> tx_input \<Rightarrow> string result" where
  "input_row_text u input =
     (let r = inp_output_reference input; h = human (ref_hash r) in
      if ref_hash r \<noteq> replicate 32 0
      then rbind (lookup_key u r) (\<lambda>output.
           Inr (page_link (ref_hash r) @ '' | '' @ decimal (ref_index r) @ '' | '' @
             show_coin (out_value output) @ '' | '' @ address_link (out_public_key output)))
      else Inr (h @ '' | '' @ decimal (ref_index r) @ '' |  | Thin Air''))"

definition output_row_text :: "tx_output \<Rightarrow> string" where
  "output_row_text output = show_coin (out_value output) @ '' | '' @ address_link (out_public_key output)"

definition transaction_page :: "crypto \<Rightarrow> unspent \<Rightarrow> bytes \<Rightarrow> transaction \<Rightarrow> string result" where
  "transaction_page cr u in_block t =
     rbind (transaction_hash cr t) (\<lambda>hash.
     rbind (rmap (input_row_text u) (tx_inputs t)) (\<lambda>input_rows.
     Inr (text_lines ([''## Transaction '' @ human hash, [], ''In block '' @ page_link in_block, [],
       ''### Inputs'', [], ''Transaction | Output Index | Value | Address'', ''--- | --- | --- | ---''] @ input_rows @
       [''### Outputs'', [], ''Value | Address'', ''--- | ---''] @ map output_row_text (tx_outputs t)))))"

definition write_transaction_page :: "crypto \<Rightarrow> unspent \<Rightarrow> bytes \<Rightarrow> files \<Rightarrow> transaction \<Rightarrow> files result" where
  "write_transaction_page cr u in_block files t =
     rbind (transaction_hash cr t) (\<lambda>h.
     rbind (transaction_page cr u in_block t) (\<lambda>page.
     Inr (files(page_name h \<mapsto> page))))"

text \<open>The file of the block is closed after those of its transactions.\<close>

definition write_block_pages :: "crypto \<Rightarrow> (int \<Rightarrow> string) \<Rightarrow> unspent \<Rightarrow> files \<Rightarrow> block \<Rightarrow> files result" where
  "write_block_pages cr isoformat u files b =
     rbind (block_hash cr b) (\<lambda>hash.
     rbind (rfold (write_transaction_page cr u hash) files (blk_transactions b)) (\<lambda>files.
     rbind (block_page cr isoformat b) (\<lambda>page.
     Inr (files(page_name hash \<mapsto> page)))))"

definition address_page :: "crypto \<Rightarrow> int \<Rightarrow> public_key \<Rightarrow> pk_balance_2 \<Rightarrow> string result" where
  "address_page cr head_height pk pkb2 =
     rbind (rmap (\<lambda>t. rbind (transaction_hash cr t) (\<lambda>h. Inr (human h @ '' | ...''))) (pb2_spent_in_transactions pkb2)) (\<lambda>spent.
     Inr (text_lines ([''## '' @ pk_address pk, [], ''Current balance: '' @ show_coin (pb2_value pkb2),
       ''(as of block '' @ decimal head_height @ '')'', [], ''## Received in'', [],
       ''Transaction | Output Index'', ''--- | ---''] @
       map (\<lambda>r. page_link (ref_hash r) @ '' | '' @ decimal (ref_index r)) (pb2_all_output_references pkb2) @
       [[], ''## Spent in'', []] @
       (if pb2_spent_in_transactions pkb2 \<noteq> [] then [''Transaction | ...'', ''--- | ---''] @ spent
        else [''-- not spent --'']))))"

text \<open>\<open>items\<close>: the order in which the entries come out of the hash map.\<close>

definition build_explorer ::
  "crypto \<Rightarrow> (int \<Rightarrow> string) \<Rightarrow> (balances_2 \<Rightarrow> public_key list) \<Rightarrow> coinstate \<Rightarrow> files result" where
  "build_explorer cr isoformat items cs =
     rbind (cs_head cs) (\<lambda>head.
     rbind (rfold (\<lambda>(m, files) height.
         rbind (main_block cs height) (\<lambda>b.
         rbind (get_unspent_transaction_outs_before_block cs b) (\<lambda>u.
         rbind (build_pkb2_block cr cs b m) (\<lambda>m.
         rbind (write_block_pages cr isoformat u files b) (\<lambda>files.
         Inr (m, files))))))
       (Map.empty, Map.empty) (heights_to (block_height head))) (\<lambda>(m, files).
     rfold (\<lambda>files pk.
         rbind (lookup_key m pk) (\<lambda>pkb2.
         rbind (address_page cr (block_height head) pk pkb2) (\<lambda>page.
         Inr (files(pk_address pk @ ''.md'' \<mapsto> page))))) files (items m)))"

section \<open>Without the history\<close>

definition plain_balance :: "pk_balance_2 \<Rightarrow> pk_balance" where
  "plain_balance b = \<lparr>pkb_value = pb2_value b, pkb_refs = pb2_unspent_output_references b\<rparr>"

definition plain :: "balances_2 \<Rightarrow> balances" where
  "plain m = (\<lambda>k. map_option plain_balance (m k))"

lemma plain_upd [simp]: "plain (m(k \<mapsto> b)) = (plain m)(k \<mapsto> plain_balance b)"
  by (simp add: plain_def fun_eq_iff)

lemma plain_empty [simp]: "plain Map.empty = Map.empty"
  by (simp add: plain_def)

text \<open>A step that does the same to the balances without the history, exceptions included.\<close>

definition forgets :: "(balances_2 \<Rightarrow> balances_2 result) \<Rightarrow> (balances \<Rightarrow> balances result) \<Rightarrow> bool" where
  "forgets f g \<longleftrightarrow> (\<forall>m. map_sum id plain (f m) = g (plain m))"

lemma rbind_Inr: "rbind m Inr = m"
  by (cases m) simp_all

lemma forgets_bind:
  "forgets f g \<Longrightarrow> forgets f' g' \<Longrightarrow> forgets (\<lambda>m. rbind (f m) f') (\<lambda>m. rbind (g m) g')"
  unfolding forgets_def
proof
  fix m assume fg: "\<forall>m. map_sum id plain (f m) = g (plain m)" "\<forall>m. map_sum id plain (f' m) = g' (plain m)"
  then show "map_sum id plain (rbind (f m) f') = rbind (g (plain m)) g'"
    by (cases "f m") (metis map_sum.simps rbind.simps id_apply)+
qed

lemma forgets_fold: "(\<And>x. forgets (\<lambda>m. f m x) (\<lambda>m. g m x)) \<Longrightarrow> forgets (\<lambda>m. rfold f m xs) (\<lambda>m. rfold g m xs)"
proof (induction xs)
  case (Cons x xs)
  from forgets_bind [OF Cons.prems [of x] Cons.IH [OF Cons.prems]] show ?case by simp
qed (simp add: forgets_def)

lemma forgets_spend: "forgets (\<lambda>m. pkb2_spend u t m i) (\<lambda>m. pkb_spend u m i)"
  by (auto simp: forgets_def pkb2_spend_def pkb_spend_def lookup_key_def plain_def plain_balance_def Let_def
      fun_eq_iff split: option.split)

lemma forgets_receive: "forgets (\<lambda>m. pkb2_receive cr t m p) (\<lambda>m. pkb_receive cr t m p)"
proof -
  have "map_sum id plain (pkb2_receive cr t m (i, q)) = pkb_receive cr t (plain m) (i, q)" for m i q
    by (cases "m (out_public_key q)"; cases "transaction_hash cr t"; cases "mk_output_reference (projr (transaction_hash cr t)) (int i)")
      (simp_all add: pkb2_receive_def pkb_receive_def lookup_key_def Let_def, simp_all add: plain_def plain_balance_def fun_eq_iff)
  then show ?thesis by (cases p) (simp add: forgets_def)
qed

lemma forgets_block: "forgets (\<lambda>m. pkb2_apply_block cr u m b) (\<lambda>m. pkb_apply_block cr u m b)"
proof -
  have t: "forgets (\<lambda>m. pkb2_apply_transaction cr u m t cb) (\<lambda>m. pkb_apply_transaction cr u m t cb)" for t cb
  proof -
    have "forgets (\<lambda>m. if cb then Inr m else rfold (pkb2_spend u t) m (tx_inputs t))
        (\<lambda>m. if cb then Inr m else rfold (pkb_spend u) m (tx_inputs t))"
      using forgets_fold [OF forgets_spend] by (cases cb) (simp_all add: forgets_def)
    from forgets_bind [OF this forgets_fold [OF forgets_receive]] show ?thesis
      unfolding pkb2_apply_transaction_def pkb_apply_transaction_def .
  qed
  from forgets_bind [OF t forgets_fold [OF t]] show ?thesis
    unfolding pkb2_apply_block_def pkb_apply_block_def
    by (cases "first_elem (blk_transactions b)") (simp_all add: forgets_def)
qed

section \<open>Along the main chain\<close>

lemma main_chain_block:
  assumes "cs_ok cr cs" and "cs_current_chain_hash cs = Some cur" and "entry_ok cr cs cur b chain u" and "i < length chain"
  shows "main_block cs (int i) = Inr (chain ! i)"
  using cs_ok_at_head(2) [OF assms(1-3)] assms(4) by (simp add: main_block_def lookup_key_def chain_map_def)

lemma chain_to_single:
  assumes "chain_to blocks k [d]"
  shows "block_previous_block_hash d = zero_hash"
  using assms
proof (cases rule: chain_to.cases)
  case (extend c)
  then show ?thesis using chain_to_last by auto
qed auto

lemma unspent_before_block:
  assumes ok: "cs_ok cr cs" and e: "entry_ok cr cs cur b chain u" and i: "i < length chain"
  shows "\<exists>v. get_unspent_transaction_outs_before_block cs (chain ! i) = Inr v \<and> replay cr (take i chain) = Inr v"
proof (cases i)
  case 0
  have c: "chain_to (cs_block_by_hash cs) cur chain" using e by (simp add: entry_ok_def)
  from chain_to_nth [OF c i] 0 obtain k where "chain_to (cs_block_by_hash cs) k (take (Suc 0) chain)" by blast
  moreover obtain d where "take (Suc 0) chain = [d]" "chain ! 0 = d" using i 0 by (cases chain) simp_all
  ultimately have "block_previous_block_hash (chain ! 0) = zero_hash" using chain_to_single by auto
  then show ?thesis by (simp add: 0 get_unspent_transaction_outs_before_block_def zero_hash_def replay_def)
next
  case (Suc j)
  have c: "chain_to (cs_block_by_hash cs) cur chain" using e by (simp add: entry_ok_def)
  let ?p = "block_previous_block_hash (chain ! i)"
  obtain k where k: "chain_to (cs_block_by_hash cs) k (take (Suc i) chain)" using chain_to_nth [OF c i] by blast
  have "take (Suc i) chain = take i chain @ [chain ! i]" "take i chain \<noteq> []"
    using i Suc by (auto simp: take_Suc_conv_app_nth)
  with k have p: "chain_to (cs_block_by_hash cs) ?p (take i chain)" by (auto elim: chain_toE)
  then obtain d where "cs_block_by_hash cs ?p = Some d" using chain_to_last by blast
  from cs_ok_entry [OF ok this] obtain ch v where v: "entry_ok cr cs ?p d ch v" by blast
  then have "ch = take i chain" using p chain_to_unique by (auto simp: entry_ok_def)
  with v show ?thesis
    by (auto simp: entry_ok_def get_unspent_transaction_outs_before_block_def lookup_key_def zero_hash_def)
qed

lemma build_pkb2_plain:
  assumes ok: "cs_ok cr cs" and cur: "cs_current_chain_hash cs = Some cur" and e: "entry_ok cr cs cur b chain u"
  shows "map_sum id plain (build_pkb2 cr cs) = public_key_balances_by_hash cr (cs_block_by_hash cs) (Some cur)"
proof -
  let ?step = "\<lambda>m height. rbind (main_block cs height) (\<lambda>b. build_pkb2_block cr cs b m)"
  have run: "map_sum id plain (rfold ?step Map.empty (map int [0..<n])) =
        rbind (rfold (balances_step cr) (Map.empty, Map.empty) (take n chain)) (\<lambda>(m, u). Inr m) \<and>
      (\<forall>m v. rfold (balances_step cr) (Map.empty, Map.empty) (take n chain) = Inr (m, v) \<longrightarrow>
         replay cr (take n chain) = Inr v)" if "n \<le> length chain" for n
    using that
  proof (induction n)
    case (Suc n)
    then have n: "n < length chain" by simp
    obtain v where v: "get_unspent_transaction_outs_before_block cs (chain ! n) = Inr v" "replay cr (take n chain) = Inr v"
      using unspent_before_block [OF ok e n] by blast
    have last: "take (Suc n) chain = take n chain @ [chain ! n]" using n by (rule take_Suc_conv_app_nth)
    have step: "?step m (int n) = pkb2_apply_block cr v m (chain ! n)" for m
      by (simp add: main_chain_block [OF ok cur e n] build_pkb2_block_def v(1))
    have "\<exists>w. replay cr (take (Suc n) chain) = Inr w"
      using e n by (simp add: entry_ok_def) (metis append_take_drop_id rbind_eq_Inr replay_def rfold_append)
    then obtain w where w: "uto_apply_block cr v (chain ! n) = Inr w"
      using v(2) by (auto simp: last replay_snoc)
    have one: "map_sum id plain (pkb2_apply_block cr v m (chain ! n)) = pkb_apply_block cr v (plain m) (chain ! n)" for m
      using forgets_block by (simp add: forgets_def)
    have same: "map_sum id plain (rfold ?step Map.empty (map int [0..<Suc n])) =
        rbind (rfold (balances_step cr) (Map.empty, Map.empty) (take (Suc n) chain)) (\<lambda>(m, u). Inr m)"
    proof (cases "rfold (balances_step cr) (Map.empty, Map.empty) (take n chain)")
      case (Inl e)
      then show ?thesis using Suc n by (cases "rfold ?step Map.empty (map int [0..<n])") (simp_all add: last rfold_append)
    next
      case (Inr mu)
      then obtain m where "rfold (balances_step cr) (Map.empty, Map.empty) (take n chain) = Inr (m, v)"
        using Suc n v(2) by (cases mu) auto
      then show ?thesis
        using Suc n one by (cases "rfold ?step Map.empty (map int [0..<n])")
          (auto simp: last rfold_append step balances_step_def w rbind_assoc rbind_Inr)
    qed
    have "replay cr (take (Suc n) chain) = Inr x"
      if "rfold (balances_step cr) (Map.empty, Map.empty) (take (Suc n) chain) = Inr (m, x)" for m x
      using that Suc n v(2) w by (auto simp: last rfold_append balances_step_def replay_snoc rbind_eq_Inr)
    with same show ?case by blast
  qed (simp add: replay_def)
  have "chain_at_hash (cs_block_by_hash cs) cur = Inr chain"
    using e chain_at_hash_chain_to by (fastforce simp: entry_ok_def)
  moreover have "cs_head cs = Inr b" "nat (block_height b + 1) = length chain"
    using cs_ok_at_head(3) [OF ok cur e] e by (simp_all add: entry_ok_def)
  ultimately show ?thesis
    using run [OF order_refl] by (simp add: build_pkb2_def heights_to_def public_key_balances_by_hash_def)
qed

section \<open>Pages that are written\<close>

text \<open>What each round of a loop adds to a set that the others keep is there in the end, and no round raised.\<close>

lemma rfold_collects:
  assumes "\<And>s x s'. f s x = Inr s' \<Longrightarrow> g s \<subseteq> g s' \<and> new x \<subseteq> g s'" and "rfold f s xs = Inr s'"
  shows "g s \<subseteq> g s' \<and> (\<forall>x\<in>set xs. new x \<subseteq> g s')"
  using assms(2)
proof (induction xs arbitrary: s)
  case (Cons x xs)
  then obtain s1 where "f s x = Inr s1" "rfold f s1 xs = Inr s'" by (auto simp: rbind_eq_Inr)
  with Cons.IH assms(1) show ?case by (metis (no_types, lifting) order_trans set_ConsD)
qed simp

lemma rfold_within:
  assumes "\<And>s x s'. f s x = Inr s' \<Longrightarrow> g s' \<subseteq> g s \<union> new x" and "rfold f s xs = Inr s'"
  shows "g s' \<subseteq> g s \<union> (\<Union>x\<in>set xs. new x)"
  using assms(2)
proof (induction xs arbitrary: s)
  case (Cons x xs)
  then obtain s1 where s1: "f s x = Inr s1" "rfold f s1 xs = Inr s'" by (auto simp: rbind_eq_Inr)
  show ?case using Cons.IH [OF s1(2)] assms(1) [OF s1(1)] by auto
qed simp

lemma rfold_rounds: "rfold f s xs = Inr s' \<Longrightarrow> x \<in> set xs \<Longrightarrow> \<exists>s1 s2. f s1 x = Inr s2"
  by (induction xs arbitrary: s) (auto simp: rbind_eq_Inr)

text \<open>The first component of a loop over pairs, if it does not depend on the second.\<close>

lemma rfold_fst:
  "rfold f (a, c) xs = Inr (a', c') \<Longrightarrow> (\<And>a c x a' c'. f (a, c) x = Inr (a', c') \<Longrightarrow> g a x = Inr a') \<Longrightarrow>
     rfold g a xs = Inr a'"
proof (induction xs arbitrary: a c)
  case (Cons x xs)
  then obtain a1 c1 where f: "f (a, c) x = Inr (a1, c1)" "rfold f (a1, c1) xs = Inr (a', c')"
    by (auto simp: rbind_eq_Inr)
  have "rfold g a1 xs = Inr a'" by (rule Cons.IH [OF f(2) Cons.prems(2)])
  with Cons.prems(2) [OF f(1)] show ?case by simp
qed simp

definition block_page_names :: "crypto \<Rightarrow> block \<Rightarrow> string set" where
  "block_page_names cr b = {page_name h |h. block_hash cr b = Inr h} \<union>
     {page_name h |h t. t \<in> set (blk_transactions b) \<and> transaction_hash cr t = Inr h}"

definition paid_keys :: "block \<Rightarrow> public_key set" where
  "paid_keys b = {out_public_key p |p t. t \<in> set (blk_transactions b) \<and> p \<in> set (tx_outputs t)}"

lemma write_block_pages_names:
  assumes "write_block_pages cr isoformat u files b = Inr files'"
  shows "dom files \<subseteq> dom files' \<and> block_page_names cr b \<subseteq> dom files'"
proof -
  obtain h files1 page where h: "block_hash cr b = Inr h"
    and f: "rfold (write_transaction_page cr u h) files (blk_transactions b) = Inr files1"
    and files': "files' = files1(page_name h \<mapsto> page)"
    using assms by (auto simp: write_block_pages_def rbind_eq_Inr)
  have "dom files \<subseteq> dom files1 \<and>
      (\<forall>t\<in>set (blk_transactions b). {page_name h |h. transaction_hash cr t = Inr h} \<subseteq> dom files1)"
    by (rule rfold_collects [OF _ f]) (auto simp: write_transaction_page_def rbind_eq_Inr)
  with h show ?thesis by (auto simp: block_page_names_def files')
qed

lemma write_block_pages_inputs:
  assumes "write_block_pages cr isoformat u files b = Inr files'" and "t \<in> set (blk_transactions b)"
    and "i \<in> set (tx_inputs t)" and "ref_hash (inp_output_reference i) \<noteq> zero_hash"
  shows "inp_output_reference i \<in> dom u"
proof -
  obtain h files1 where "rfold (write_transaction_page cr u h) files (blk_transactions b) = Inr files1"
    using assms(1) by (auto simp: write_block_pages_def rbind_eq_Inr)
  from rfold_rounds [OF this assms(2)] obtain rows where "rmap (input_row_text u) (tx_inputs t) = Inr rows"
    by (auto simp: write_transaction_page_def transaction_page_def rbind_eq_Inr)
  then obtain row where "input_row_text u i = Inr row"
    using assms(3) by (auto simp: rmap_eq_Inr list_all2_conv_all_nth in_set_conv_nth)
  with assms(4) show ?thesis
    by (auto simp: input_row_text_def Let_def zero_hash_def rbind_eq_Inr lookup_key_eq_Inr)
qed

lemma pkb2_apply_block_keys:
  assumes "pkb2_apply_block cr u m b = Inr m'"
  shows "dom m \<subseteq> dom m' \<and> paid_keys b \<subseteq> dom m'"
proof -
  have spend: "dom m \<subseteq> dom m'" if "rfold (pkb2_spend u t) m xs = Inr m'" for m m' t xs
  proof -
    have one: "pkb2_spend u t s x = Inr s' \<Longrightarrow> dom s \<subseteq> dom s' \<and> {} \<subseteq> dom s'" for s x s'
      by (auto simp: pkb2_spend_def rbind_eq_Inr Let_def)
    show ?thesis
      by (rule conjunct1 [OF rfold_collects [where f = "pkb2_spend u t" and new = "\<lambda>_. {}"]]) (use one that in auto)
  qed
  have receive: "dom m \<subseteq> dom m' \<and> (\<forall>p\<in>set (tx_outputs t). out_public_key p \<in> dom m')"
    if "rfold (pkb2_receive cr t) m (enumerate 0 (tx_outputs t)) = Inr m'" for m m' t
  proof -
    have "dom m \<subseteq> dom m' \<and> (\<forall>x\<in>set (enumerate 0 (tx_outputs t)). {out_public_key (snd x)} \<subseteq> dom m')"
      by (rule rfold_collects [OF _ that]) (auto simp: pkb2_receive_def rbind_eq_Inr Let_def split: if_splits)
    moreover have "snd ` set (enumerate 0 (tx_outputs t)) = set (tx_outputs t)"
      by (metis map_snd_enumerate set_map)
    ultimately show ?thesis by (metis imageE insert_subset)
  qed
  have t: "dom m \<subseteq> dom m' \<and> (\<forall>p\<in>set (tx_outputs t). out_public_key p \<in> dom m')"
    if "pkb2_apply_transaction cr u m t cb = Inr m'" for m m' t cb
    using that spend receive by (auto simp: pkb2_apply_transaction_def rbind_eq_Inr split: if_splits) blast+
  obtain c ts m1 where b: "blk_transactions b = c # ts" "pkb2_apply_transaction cr u m c True = Inr m1"
    "rfold (\<lambda>m t. pkb2_apply_transaction cr u m t False) m1 ts = Inr m'"
    using assms by (auto simp: pkb2_apply_block_def result_simps)
  have m1: "dom m \<subseteq> dom m1" "out_public_key ` set (tx_outputs c) \<subseteq> dom m1"
    using t [OF b(2)] by (simp_all add: image_subset_iff)
  have "dom m1 \<subseteq> dom m' \<and> (\<forall>t\<in>set ts. out_public_key ` set (tx_outputs t) \<subseteq> dom m')"
    by (rule rfold_collects [OF _ b(3)]) (use t in blast)
  then have rest: "dom m1 \<subseteq> dom m'" "(\<Union>t\<in>set ts. out_public_key ` set (tx_outputs t)) \<subseteq> dom m'"
    by (simp_all add: UN_subset_iff)
  have "paid_keys b = out_public_key ` set (tx_outputs c) \<union> (\<Union>t\<in>set ts. out_public_key ` set (tx_outputs t))"
    by (auto simp: paid_keys_def b(1))
  then show ?thesis
    using order_trans [OF m1(1) rest(1)] order_trans [OF m1(2) rest(1)] rest(2) by (simp only: Un_subset_iff simp_thms)
qed

text \<open>The transactions named by the history of the balances are in the blocks.\<close>

definition received_in :: "balances_2 \<Rightarrow> bytes set" where
  "received_in m = {ref_hash r |k b r. m k = Some b \<and> r \<in> set (pb2_all_output_references b)}"

definition block_transaction_hashes :: "crypto \<Rightarrow> block \<Rightarrow> bytes set" where
  "block_transaction_hashes cr b = {h. \<exists>t\<in>set (blk_transactions b). transaction_hash cr t = Inr h}"

lemma received_in_upd: "received_in (m(k \<mapsto> b)) \<subseteq> received_in m \<union> ref_hash ` set (pb2_all_output_references b)"
  by (auto simp: received_in_def split: if_splits)

lemma received_in_entry: "m k = Some b \<Longrightarrow> ref_hash ` set (pb2_all_output_references b) \<subseteq> received_in m"
  by (auto simp: received_in_def)

lemma pkb2_apply_block_received:
  assumes "pkb2_apply_block cr u m b = Inr m'"
  shows "received_in m' \<subseteq> received_in m \<union> block_transaction_hashes cr b"
proof -
  have spend: "received_in s' \<subseteq> received_in s \<union> {}" if s: "pkb2_spend u t s x = Inr s'" for t s x s'
  proof -
    obtain k b0 b1 where s': "s' = s(k \<mapsto> b1)" "s k = Some b0"
      and b1: "pb2_all_output_references b1 = pb2_all_output_references b0"
      using s by (auto simp: pkb2_spend_def rbind_eq_Inr Let_def lookup_key_eq_Inr)
    show ?thesis using received_in_upd [of s k b1] received_in_entry [of s k b0] s'(2) by (auto simp: s'(1) b1)
  qed
  have receive: "received_in s' \<subseteq> received_in s \<union> {h. transaction_hash cr t = Inr h}"
    if s: "pkb2_receive cr t s x = Inr s'" for t s x s'
  proof -
    obtain i p where x: "x = (i, p)" by fastforce
    let ?k = "out_public_key p"
    let ?b0 = "\<lparr>pb2_value = 0, pb2_all_output_references = [], pb2_unspent_output_references = [], pb2_spent_in_transactions = []\<rparr>"
    let ?s = "if s ?k = None then s(?k \<mapsto> ?b0) else s"
    obtain h b1 b2 where h: "transaction_hash cr t = Inr h" and s': "s' = ?s(?k \<mapsto> b2)" and b1: "?s ?k = Some b1"
      and b2: "pb2_all_output_references b2 = pb2_all_output_references b1 @ [\<lparr>ref_hash = h, ref_index = int i\<rparr>]"
      using s by (auto simp: x pkb2_receive_def rbind_eq_Inr Let_def lookup_key_eq_Inr mk_output_reference_eq_Inr split: if_splits)
    have "received_in ?s \<subseteq> received_in s" using received_in_upd [of s ?k ?b0] by auto
    moreover have "ref_hash ` set (pb2_all_output_references b2) \<subseteq> received_in ?s \<union> {h}"
      using received_in_entry [of ?s ?k b1, OF b1] by (simp only: b2 set_append image_Un) auto
    ultimately have "received_in s' \<subseteq> received_in s \<union> {h}"
      unfolding s' by - (rule order_trans [OF received_in_upd], blast)
    then show ?thesis by (simp add: h)
  qed
  have t: "received_in m2 \<subseteq> received_in m1 \<union> {h. transaction_hash cr t = Inr h}"
    if a: "pkb2_apply_transaction cr u m1 t cb = Inr m2" for m1 m2 t cb
  proof -
    obtain m3 where m3: "(if cb then Inr m1 else rfold (pkb2_spend u t) m1 (tx_inputs t)) = Inr m3"
      "rfold (pkb2_receive cr t) m3 (enumerate 0 (tx_outputs t)) = Inr m2"
      using a by (auto simp: pkb2_apply_transaction_def rbind_eq_Inr)
    have "received_in m3 \<subseteq> received_in m1"
      using m3(1) rfold_within [where f = "pkb2_spend u t" and g = received_in and new = "\<lambda>_. {}", OF spend]
      by (auto split: if_splits)
    moreover have "received_in m2 \<subseteq> received_in m3 \<union> (\<Union>x\<in>set (enumerate 0 (tx_outputs t)). {h. transaction_hash cr t = Inr h})"
      by (rule rfold_within [OF receive m3(2)])
    moreover have "(\<Union>x\<in>set (enumerate 0 (tx_outputs t)). {h. transaction_hash cr t = Inr h}) \<subseteq> {h. transaction_hash cr t = Inr h}"
      by blast
    ultimately show ?thesis by blast
  qed
  obtain c ts m1 where b: "blk_transactions b = c # ts" "pkb2_apply_transaction cr u m c True = Inr m1"
    "rfold (\<lambda>m t. pkb2_apply_transaction cr u m t False) m1 ts = Inr m'"
    using assms by (auto simp: pkb2_apply_block_def result_simps)
  have "received_in m' \<subseteq> received_in m1 \<union> (\<Union>t\<in>set ts. {h. transaction_hash cr t = Inr h})"
    by (rule rfold_within [OF t b(3)])
  with t [OF b(2)] show ?thesis by (auto simp: block_transaction_hashes_def b(1))
qed

text \<open>An unspent output stems from a transaction of the chain.\<close>

lemma applied_block_refs:
  assumes "uto_apply_block cr u b = Inr u'" and "u' r = Some p"
  shows "u r = Some p \<or> (\<exists>t\<in>set (blk_transactions b). transaction_hash cr t = Inr (ref_hash r) \<and> p \<in> set (tx_outputs t))"
proof -
  have t: "v r = Some p \<or> transaction_hash cr t = Inr (ref_hash r) \<and> p \<in> set (tx_outputs t)"
    if "uto_apply_transaction cr v t cb = Inr w" "w r = Some p" for v w t cb
    using that by (auto simp: uto_apply_transaction_eq_Inr tx_created_def created_def tx_outputs_ok_def map_add_def
        restrict_map_def split: if_splits option.splits)
  have ts: "v r = Some p \<or> (\<exists>t\<in>set ts. transaction_hash cr t = Inr (ref_hash r) \<and> p \<in> set (tx_outputs t))"
    if "rfold (\<lambda>u t. uto_apply_transaction cr u t False) v ts = Inr w" "w r = Some p" for v w ts
    using that
  proof (induction ts arbitrary: v)
    case (Cons x xs)
    then show ?case using t by (fastforce simp: rbind_eq_Inr)
  qed simp
  obtain c rest v where "blk_transactions b = c # rest" "uto_apply_transaction cr u c True = Inr v"
    "rfold (\<lambda>u t. uto_apply_transaction cr u t False) v rest = Inr u'"
    using assms(1) by (auto simp: uto_apply_block_def result_simps)
  with t ts assms(2) show ?thesis by fastforce
qed

lemma replayed_refs:
  assumes "replay cr chain = Inr u" and "u r = Some p"
  shows "\<exists>b\<in>set chain. \<exists>t\<in>set (blk_transactions b). transaction_hash cr t = Inr (ref_hash r) \<and> p \<in> set (tx_outputs t)"
  using assms
proof (induction chain arbitrary: u rule: rev_induct)
  case (snoc b chain)
  then show ?case using applied_block_refs by (fastforce simp: replay_snoc rbind_eq_Inr)
qed (simp add: replay_def)

lemma built_pages:
  assumes ok: "cs_ok cr cs" and cur: "cs_current_chain_hash cs = Some cur" and e: "entry_ok cr cs cur b chain u"
    and built: "build_explorer cr isoformat items cs = Inr files" and all: "build_pkb2 cr cs = Inr m0" "set (items m0) = dom m0"
    and d: "d \<in> set chain"
  shows "block_page_names cr d \<subseteq> dom files"
    and "k \<in> paid_keys d \<Longrightarrow> pk_address k @ ''.md'' \<in> dom files"
    and "t \<in> set (blk_transactions d) \<Longrightarrow> i \<in> set (tx_inputs t) \<Longrightarrow> ref_hash (inp_output_reference i) \<noteq> zero_hash \<Longrightarrow>
      \<exists>v p. get_unspent_transaction_outs_before_block cs d = Inr v \<and> v (inp_output_reference i) = Some p \<and>
        page_name (ref_hash (inp_output_reference i)) \<in> dom files \<and> pk_address (out_public_key p) @ ''.md'' \<in> dom files"
    and "m0 k = Some pkb2 \<Longrightarrow> r \<in> set (pb2_all_output_references pkb2) \<Longrightarrow> page_name (ref_hash r) \<in> dom files"
    and "m0 k = Some pkb2 \<Longrightarrow> pk_address k @ ''.md'' \<in> dom files"
proof -
  let ?step = "\<lambda>(m, files) height.
         rbind (main_block cs height) (\<lambda>b.
         rbind (get_unspent_transaction_outs_before_block cs b) (\<lambda>u.
         rbind (build_pkb2_block cr cs b m) (\<lambda>m.
         rbind (write_block_pages cr isoformat u files b) (\<lambda>files.
         Inr (m, files)))))"
  have head: "cs_head cs = Inr b" "heights_to (block_height b) = map int [0..<length chain]"
    using cs_ok_at_head(3) [OF ok cur e] e by (simp_all add: entry_ok_def heights_to_def)
  obtain m files1 where loop: "rfold ?step (Map.empty, Map.empty) (map int [0..<length chain]) = Inr (m, files1)"
    and rest: "rfold (\<lambda>files pk. rbind (lookup_key m pk) (\<lambda>pkb2.
         rbind (address_page cr (block_height b) pk pkb2) (\<lambda>page.
         Inr (files(pk_address pk @ ''.md'' \<mapsto> page))))) files1 (items m) = Inr files"
    using built by (auto simp: build_explorer_def head rbind_eq_Inr)
  have "rfold (\<lambda>m height. rbind (main_block cs height) (\<lambda>b. build_pkb2_block cr cs b m)) Map.empty
      (map int [0..<length chain]) = Inr m"
    by (rule rfold_fst [OF loop]) (auto simp: build_pkb2_block_def rbind_eq_Inr)
  then have "m0 = m" using all(1) by (simp add: build_pkb2_def head)
  then have items: "set (items m) = dom m" using all(2) by simp
  have "dom files1 \<subseteq> dom files \<and> (\<forall>pk\<in>set (items m). {pk_address pk @ ''.md''} \<subseteq> dom files)"
    by (rule rfold_collects [OF _ rest]) (auto simp: rbind_eq_Inr)
  then have files: "dom files1 \<subseteq> dom files" "\<And>k. k \<in> dom m \<Longrightarrow> pk_address k @ ''.md'' \<in> dom files"
    by (auto simp: items)
  let ?new = "\<lambda>height. {Inl n |n d. main_block cs height = Inr d \<and> n \<in> block_page_names cr d} \<union>
      {Inr k |k d. main_block cs height = Inr d \<and> k \<in> paid_keys d}"
  let ?have = "\<lambda>(m, files). Inl ` dom files \<union> Inr ` dom m"
  have round: "?have s \<subseteq> ?have s' \<and> ?new height \<subseteq> ?have s'" if st: "?step s height = Inr s'" for s height s'
  proof -
    obtain m0 f0 m1 f1 where s: "s = (m0, f0)" "s' = (m1, f1)" by (cases s, cases s') auto
    obtain c v v' where c: "main_block cs height = Inr c" and p: "pkb2_apply_block cr v' m0 c = Inr m1"
      and w: "write_block_pages cr isoformat v f0 c = Inr f1"
      using st unfolding s build_pkb2_block_def by (simp add: rbind_eq_Inr) blast
    have "?new height = Inl ` block_page_names cr c \<union> Inr ` paid_keys c" using c by auto
    with write_block_pages_names [OF w] pkb2_apply_block_keys [OF p] show ?thesis
      unfolding s prod.case by (intro conjI) (simp_all only: Un_mono image_mono)
  qed
  have got: "?new (int j) \<subseteq> ?have (m, files1)" if "j < length chain" for j
    using rfold_collects [of ?step ?have ?new, OF round loop] that by auto
  have block: "block_page_names cr d \<subseteq> dom files1 \<and> paid_keys d \<subseteq> dom m" if "d \<in> set chain" for d
  proof -
    obtain j where j: "j < length chain" "chain ! j = d" using \<open>d \<in> set chain\<close> by (auto simp: in_set_conv_nth)
    with main_chain_block [OF ok cur e j(1)] got [OF j(1)] show ?thesis by auto
  qed
  show "block_page_names cr d \<subseteq> dom files" using block [OF d] files(1) by blast
  show "pk_address k @ ''.md'' \<in> dom files" if "k \<in> paid_keys d" using block [OF d] files(2) that by blast
  show "\<exists>v p. get_unspent_transaction_outs_before_block cs d = Inr v \<and> v (inp_output_reference i) = Some p \<and>
        page_name (ref_hash (inp_output_reference i)) \<in> dom files \<and> pk_address (out_public_key p) @ ''.md'' \<in> dom files"
    if t: "t \<in> set (blk_transactions d)" "i \<in> set (tx_inputs t)" "ref_hash (inp_output_reference i) \<noteq> zero_hash"
  proof -
    obtain j where j: "j < length chain" "chain ! j = d" using d by (auto simp: in_set_conv_nth)
    obtain v where v: "get_unspent_transaction_outs_before_block cs d = Inr v" "replay cr (take j chain) = Inr v"
      using unspent_before_block [OF ok e j(1)] j(2) by blast
    obtain s1 s2 where "?step s1 (int j) = Inr s2" using rfold_rounds [OF loop, of "int j"] j(1) by auto
    then obtain f1 f2 where "write_block_pages cr isoformat v f1 d = Inr f2"
      using main_chain_block [OF ok cur e j(1)] j(2) v(1) by (auto simp: rbind_eq_Inr split: prod.splits)
    from write_block_pages_inputs [OF this t] obtain p where p: "v (inp_output_reference i) = Some p" by blast
    from replayed_refs [OF v(2) p] obtain c t' where c: "c \<in> set chain" "t' \<in> set (blk_transactions c)"
      "transaction_hash cr t' = Inr (ref_hash (inp_output_reference i))" "p \<in> set (tx_outputs t')"
      by (blast dest: in_set_takeD)
    then have "page_name (ref_hash (inp_output_reference i)) \<in> block_page_names cr c" "out_public_key p \<in> paid_keys c"
      by (auto simp: block_page_names_def paid_keys_def)
    with block [OF c(1)] files v(1) p show ?thesis by blast
  qed
  show "pk_address k @ ''.md'' \<in> dom files" if "m0 k = Some pkb2" using that files(2) \<open>m0 = m\<close> by blast
  show "page_name (ref_hash r) \<in> dom files" if h: "m0 k = Some pkb2" "r \<in> set (pb2_all_output_references pkb2)"
  proof -
    let ?hashes = "\<lambda>height. \<Union> (block_transaction_hashes cr ` {d. main_block cs height = Inr d})"
    have within: "received_in (fst s') \<subseteq> received_in (fst s) \<union> ?hashes height" if st: "?step s height = Inr s'" for s height s'
    proof -
      obtain c v' where c: "main_block cs height = Inr c" and p: "pkb2_apply_block cr v' (fst s) c = Inr (fst s')"
        using st by (auto simp: rbind_eq_Inr build_pkb2_block_def split: prod.splits)
      from pkb2_apply_block_received [OF p] c show ?thesis by auto
    qed
    have "received_in m \<subseteq> received_in Map.empty \<union> (\<Union>x\<in>set (map int [0..<length chain]). ?hashes x)"
      using rfold_within [where f = ?step and g = "\<lambda>s. received_in (fst s)" and new = ?hashes, OF within loop] by simp
    moreover have "ref_hash r \<in> received_in m" using h \<open>m0 = m\<close> by (auto simp: received_in_def)
    moreover have "received_in Map.empty = {}" by (simp add: received_in_def)
    ultimately obtain j c t where j: "j < length chain" "main_block cs (int j) = Inr c" "t \<in> set (blk_transactions c)"
      "transaction_hash cr t = Inr (ref_hash r)" by (auto simp: block_transaction_hashes_def)
    with main_chain_block [OF ok cur e j(1)] have "c \<in> set chain" "page_name (ref_hash r) \<in> block_page_names cr c"
      by (auto simp: block_page_names_def)
    with block files(1) show ?thesis by blast
  qed
qed

section \<open>An example\<close>

definition explorer_block :: block where
  "explorer_block = sample_block 0 zero_hash (sample_hash 1)
     [\<lparr>tx_inputs = [\<lparr>inp_output_reference = \<lparr>ref_hash = zero_hash, ref_index = 0\<rparr>,
         inp_signature = Some (CoinbaseData 0 [72, 105])\<rparr>],
       tx_outputs = [sample_output 10 3], tx_cached_hash = Some (sample_hash 8)\<rparr>]"

definition explorer_unspent :: unspent where
  "explorer_unspent = created (sample_hash 8) [sample_output 10 3]"

definition explorer_state :: coinstate where
  "explorer_state = mk_coinstate [sample_hash 1 \<mapsto> explorer_block] [sample_hash 1 \<mapsto> explorer_unspent]
     [sample_hash 1 \<mapsto> [0 \<mapsto> explorer_block]] [sample_hash 1 \<mapsto> explorer_block] (Some (sample_hash 1))"

lemma explorer_state_facts:
  "coinstate_reachable toy_crypto explorer_state" "cs_current_chain_hash explorer_state = Some (sample_hash 1)"
  "chain_at_hash (cs_block_by_hash explorer_state) (sample_hash 1) = Inr [explorer_block]"
proof -
  have "uto_apply_block toy_crypto Map.empty explorer_block = Inr explorer_unspent"
    by (simp add: uto_apply_block_def explorer_block_def first_elem_def uto_apply_transaction_eq_Inr tx_spent_def
        tx_outputs_ok_def tx_created_def explorer_unspent_def transaction_hash_def cached_or_def rbind_eq_Inr)
  then have "add_block_no_validation toy_crypto empty_coinstate explorer_block = Inr explorer_state"
    unfolding add_block_no_validation_def
    by (simp add: parent_unspent_def next_height_index_def next_current_chain_hash_def empty_coinstate_def explorer_state_def)
      (simp add: explorer_block_def)
  moreover have "attaches toy_crypto empty_coinstate explorer_block"
    by (simp add: attaches_def empty_coinstate_def explorer_block_def)
  ultimately show "coinstate_reachable toy_crypto explorer_state" by (auto intro: reachable.intros)
  show "cs_current_chain_hash explorer_state = Some (sample_hash 1)" by (simp add: explorer_state_def)
  show "chain_at_hash (cs_block_by_hash explorer_state) (sample_hash 1) = Inr [explorer_block]"
    by (simp add: explorer_state_def chain_at_hash_def lookup_key_def chain_loop.simps explorer_block_def)
qed

lemma explorer_example:
  "\<not> isl (build_explorer toy_crypto (\<lambda>_. ''1970'') (\<lambda>_. [SECP256k1PublicKey (replicate 64 3)]) explorer_state)"
  "build_pkb2 toy_crypto explorer_state = Inr [SECP256k1PublicKey (replicate 64 3) \<mapsto>
     \<lparr>pb2_value = 10, pb2_all_output_references = [\<lparr>ref_hash = sample_hash 8, ref_index = 0\<rparr>],
      pb2_unspent_output_references = [\<lparr>ref_hash = sample_hash 8, ref_index = 0\<rparr>], pb2_spent_in_transactions = []\<rparr>]"
proof -
  show "\<not> isl (build_explorer toy_crypto (\<lambda>_. ''1970'') (\<lambda>_. [SECP256k1PublicKey (replicate 64 3)]) explorer_state)"
    by code_simp
  have "cs_head explorer_state = Inr explorer_block" "main_block explorer_state 0 = Inr explorer_block"
    "heights_to (block_height explorer_block) = [0]" "block_previous_block_hash explorer_block = zero_hash"
    by (simp_all add: explorer_state_def cs_head_def assert_current_def lookup_key_def main_block_def by_height_at_head_def
        heights_to_def explorer_block_def)
  then show "build_pkb2 toy_crypto explorer_state = Inr [SECP256k1PublicKey (replicate 64 3) \<mapsto>
     \<lparr>pb2_value = 10, pb2_all_output_references = [\<lparr>ref_hash = sample_hash 8, ref_index = 0\<rparr>],
      pb2_unspent_output_references = [\<lparr>ref_hash = sample_hash 8, ref_index = 0\<rparr>], pb2_spent_in_transactions = []\<rparr>]"
    by (simp add: build_pkb2_def build_pkb2_block_def get_unspent_transaction_outs_before_block_def zero_hash_def)
      (simp add: pkb2_apply_block_def explorer_block_def first_elem_def pkb2_apply_transaction_def pkb2_receive_def
        transaction_hash_def cached_or_def mk_output_reference_def lookup_key_def Let_def sample_output_def)
qed

section \<open>Properties\<close>

text \<open>
  C33: in a state reached by blocks that attach (each one higher than its stored parent) the balances of
  the explorer, without their history, are those that \<open>PublicKeyBalances\<close> computes for the head of the chain, key by key, and an exception is raised by both or by none.
\<close>

theorem explorer_balances_agree:
  assumes "coinstate_reachable cr cs" and "cs_current_chain_hash cs = Some cur"
  shows "map_sum id plain (build_pkb2 cr cs) = public_key_balances_by_hash cr (cs_block_by_hash cs) (Some cur)"
proof -
  have ok: "cs_ok cr cs" using assms(1) by (rule coinstate_machine.reachable_inv)
  obtain b chain u where "entry_ok cr cs cur b chain u" using cs_ok_current [OF ok assms(2)] by blast
  with ok assms(2) show ?thesis by (rule build_pkb2_plain)
qed

theorem explorer_balances_agree_witness:
  "\<exists>m. build_pkb2 toy_crypto explorer_state = Inr m \<and>
     public_key_balances_by_hash toy_crypto (cs_block_by_hash explorer_state) (Some (sample_hash 1)) = Inr (plain m)"
  using explorer_balances_agree [OF explorer_state_facts(1,2)] by (simp add: explorer_example(2))

text \<open>
  No link of the explorer leads nowhere. When it has run on a chain there is a page for each block and
  each of its transactions; for each output that is spent, of the transaction that it stems from and of the
  address that owned it; of each address that is paid; and of each transaction an address page lists.
\<close>

theorem explorer_links_resolve:
  assumes "coinstate_reachable cr cs" and "cs_current_chain_hash cs = Some cur"
    and "chain_at_hash (cs_block_by_hash cs) cur = Inr chain"
    and "build_pkb2 cr cs = Inr m" and "set (items m) = dom m"
    and "build_explorer cr isoformat items cs = Inr files"
    and "b \<in> set chain" and "t \<in> set (blk_transactions b)"
  shows "(\<exists>h. block_hash cr b = Inr h \<and> page_name h \<in> dom files) \<and>
    (\<forall>h. transaction_hash cr t = Inr h \<longrightarrow> page_name h \<in> dom files) \<and>
    (\<forall>i\<in>set (tx_inputs t). ref_hash (inp_output_reference i) \<noteq> zero_hash \<longrightarrow>
       (\<exists>u p. get_unspent_transaction_outs_before_block cs b = Inr u \<and> u (inp_output_reference i) = Some p \<and>
          page_name (ref_hash (inp_output_reference i)) \<in> dom files \<and>
          pk_address (out_public_key p) @ ''.md'' \<in> dom files)) \<and>
    (\<forall>p\<in>set (tx_outputs t). pk_address (out_public_key p) @ ''.md'' \<in> dom files) \<and>
    (\<forall>k pkb2 r. m k = Some pkb2 \<longrightarrow> r \<in> set (pb2_all_output_references pkb2) \<longrightarrow>
       pk_address k @ ''.md'' \<in> dom files \<and> page_name (ref_hash r) \<in> dom files)"
proof -
  have ok: "cs_ok cr cs" using assms(1) by (rule coinstate_machine.reachable_inv)
  obtain d chain' u where e: "entry_ok cr cs cur d chain' u" using cs_ok_current [OF ok assms(2)] by blast
  then have "chain' = chain" using assms(3) chain_at_hash_chain_to by (fastforce simp: entry_ok_def)
  note pages = built_pages [OF ok assms(2) e assms(6,4,5), unfolded this, OF assms(7)]
  obtain k where "cs_block_by_hash cs k = Some b"
    using e assms(7) chain_to_nth \<open>chain' = chain\<close> by (fastforce simp: entry_ok_def in_set_conv_nth)
  then have "block_hash cr b = Inr k" by (rule cs_ok_hash [OF ok])
  moreover have "page_name h \<in> block_page_names cr b" if "transaction_hash cr t = Inr h \<or> block_hash cr b = Inr h" for h
    using that assms(8) by (auto simp: block_page_names_def)
  moreover have "out_public_key p \<in> paid_keys b" if "p \<in> set (tx_outputs t)" for p
    using that assms(8) by (auto simp: paid_keys_def)
  ultimately show ?thesis using pages(1,2,4,5) pages(3) [OF assms(8)] by blast
qed

theorem explorer_links_resolve_witness:
  "\<exists>files. build_explorer toy_crypto (\<lambda>_. ''1970'') (\<lambda>_. [SECP256k1PublicKey (replicate 64 3)]) explorer_state = Inr files \<and>
     page_name (sample_hash 1) \<in> dom files \<and> page_name (sample_hash 8) \<in> dom files"
proof -
  let ?items = "\<lambda>_. [SECP256k1PublicKey (replicate 64 3)]"
  obtain files where files: "build_explorer toy_crypto (\<lambda>_. ''1970'') ?items explorer_state = Inr files"
    using explorer_example(1) by (cases "build_explorer toy_crypto (\<lambda>_. ''1970'') ?items explorer_state") simp_all
  obtain t where t: "t \<in> set (blk_transactions explorer_block)" "transaction_hash toy_crypto t = Inr (sample_hash 8)"
    "block_hash toy_crypto explorer_block = Inr (sample_hash 1)"
    by (simp add: explorer_block_def transaction_hash_def cached_or_def)
  from explorer_links_resolve [OF explorer_state_facts explorer_example(2) _ files _ t(1)] t(2,3) files
  show ?thesis by auto
qed

end
