(* ===== verification/Disk_Interface.thy ===== *)
theory Disk_Interface
  imports Network_Invariant
begin

text \<open>
  Model of \<open>load_peers_from_network\<close> and \<open>DiskInterface.load_peers\<close> in
  \<open>skepticoin/networking/disk_interface.py\<close>: the peers a node starts with, from the file \<open>peers.json\<close> or
  else from the network. Shown: what \<open>write_peers\<close> (in \<open>Remote_Peer\<close>) saved is loaded again, and a node
  does not start when it has no usable file and one of the addresses on the network does not answer, or
  when a row of the file is too short.

  The library \<open>json\<close> gives values of the type \<open>json\<close> or raises; \<open>urlopen\<close> raises or gives a response.
  Both are arguments. A dictionary is indexed by the JSON values themselves, so that \<open>true\<close> and \<open>1\<close>,
  which Python takes for one key, are two keys here.
\<close>

section \<open>JSON values\<close>

datatype json = JNull | JBool bool | JNumber int | JFloat string | JString string | JArray "json list"
  | JObject "(string \<times> json) list"

text \<open>\<open>for x in v\<close>; and \<open>tuple(v[0:n])\<close>, where a dictionary cannot be cut.\<close>

fun json_iter :: "json \<Rightarrow> json list result" where
  "json_iter (JArray xs) = Inr xs"
| "json_iter (JString s) = Inr (map (\<lambda>c. JString [c]) s)"
| "json_iter (JObject kvs) = Inr (map (\<lambda>(k, v). JString k) kvs)"
| "json_iter _ = Inl TypeError"

fun json_slice :: "nat \<Rightarrow> json \<Rightarrow> json list result" where
  "json_slice n (JArray xs) = Inr (take n xs)"
| "json_slice n (JString s) = Inr (map (\<lambda>c. JString [c]) (take n s))"
| "json_slice n _ = Inl TypeError"

fun hashable :: "json \<Rightarrow> bool" where
  "hashable (JArray _) = False"
| "hashable (JObject _) = False"
| "hashable _ = True"

definition hash_row :: "json list \<Rightarrow> json list result" where
  "hash_row row = (if \<forall>v\<in>set row. hashable v then Inr row else Inl TypeError)"

section \<open>Peers from the network\<close>

definition PEER_URLS :: "string list" where
  "PEER_URLS = [''https://pastebin.com/raw/CcfPX9mS'', ''https://skepticoin.s3.amazonaws.com/peers.json'']"

text \<open>
  \<open>web url\<close> is what \<open>urlopen\<close> does: it raises, or there is a response, whose content is a JSON value or
  cannot be read. The order of \<open>list(all_peers)\<close> is the argument \<open>listed\<close>.
\<close>

definition add_peers :: "json list set \<Rightarrow> json \<Rightarrow> json list set result" where
  "add_peers all_peers peers =
     rbind (json_iter peers) (\<lambda>ps.
     rfold (\<lambda>all_peers peer.
         rbind (json_slice 3 peer) (\<lambda>row. rbind (hash_row row) (\<lambda>row. Inr (insert row all_peers))))
       all_peers ps)"

definition load_peers_from_network ::
  "(string \<Rightarrow> json result result) \<Rightarrow> (json list set \<Rightarrow> json list list) \<Rightarrow> json list list result" where
  "load_peers_from_network web listed =
     rbind (rfold (\<lambda>all_peers url.
         rbind (web url) (\<lambda>resp. case resp of Inl e \<Rightarrow> Inr all_peers | Inr peers \<Rightarrow> add_peers all_peers peers))
       {} PEER_URLS) (\<lambda>all_peers.
     Inr (listed all_peers))"

section \<open>Peers from the file\<close>

definition peer_rows :: "json \<Rightarrow> json list list result" where
  "peer_rows data = rbind (json_iter data) (rmap (json_slice 3))"

text \<open>\<open>for (host, port, direction) in lst\<close>, the key of the new dictionary being hashed.\<close>

definition unpack_row :: "json list \<Rightarrow> (json \<times> json \<times> json) result" where
  "unpack_row row =
     (case row of
        [host, port, direction] \<Rightarrow> rbind (hash_row row) (\<lambda>_. Inr (host, port, direction))
      | _ \<Rightarrow> Inl (ValueError ''not enough values to unpack (expected 3)''))"

definition as_text :: "json \<Rightarrow> string result" where
  "as_text v = (case v of JString s \<Rightarrow> Inr s | _ \<Rightarrow> Inl TypeError)"

text \<open>
  \<open>file\<close>: no file, a file that cannot be read, or its value. The hosts are joined to be printed, before
  the rows are unpacked. The result is the list of keys of the dictionary (repeated keys are one).
\<close>

definition rows_of_file :: "json result option \<Rightarrow> json list list" where
  "rows_of_file file =
     (case file of
        None \<Rightarrow> []
      | Some data \<Rightarrow> (case rbind data peer_rows of Inl e \<Rightarrow> [] | Inr rows \<Rightarrow> rows))"

definition load_peers ::
  "(string \<Rightarrow> json result result) \<Rightarrow> (json list set \<Rightarrow> json list list) \<Rightarrow> json result option \<Rightarrow>
   (json \<times> json \<times> json) list result" where
  "load_peers web listed file =
     (let db = rows_of_file file in
      rbind (if db = [] then load_peers_from_network web listed else Inr db) (\<lambda>db.
      rbind (rmap first_elem db) (\<lambda>hosts.
      rbind (rmap as_text hosts) (\<lambda>_.
      rmap unpack_row db))))"

text \<open>The keys as a node has them, and the file that \<open>write_peers\<close> leaves.\<close>

fun direction_name :: "direction \<Rightarrow> string" where
  "direction_name INCOMING = ''INCOMING''"
| "direction_name OUTGOING = ''OUTGOING''"

definition json_key :: "peer_key \<Rightarrow> json \<times> json \<times> json" where
  "json_key = (\<lambda>(host, port, direction). (JString host, JNumber port, JString (direction_name direction)))"

definition peers_json :: "(peer_key \<Rightarrow> string) \<Rightarrow> peer_key list \<Rightarrow> json" where
  "peers_json date keys = JArray (map (\<lambda>k. case json_key k of (host, port, direction) \<Rightarrow>
     JArray [host, port, direction, JString (date k)]) keys)"

section \<open>Lemmas\<close>

lemma rmap_Inr_map: "(\<And>x. x \<in> set xs \<Longrightarrow> f x = Inr (g x)) \<Longrightarrow> rmap f xs = Inr (map g xs)"
  by (induction xs) auto

lemma rmap_raises: "x \<in> set xs \<Longrightarrow> f x = Inl e \<Longrightarrow> \<exists>e. rmap f xs = Inl e"
proof (induction xs)
  case (Cons y ys)
  then show ?case by (cases "f y") auto
qed simp

lemma rfold_raises:
  "x \<in> set xs \<Longrightarrow> (\<And>s. \<exists>e. f s x = Inl e) \<Longrightarrow> \<exists>e. rfold f s xs = Inl e"
proof (induction xs arbitrary: s)
  case (Cons y ys)
  show ?case
  proof (cases "f s y")
    case (Inr s')
    with Cons.prems(1) Cons.prems(2) [of s] have "x \<in> set ys" by auto
    with Cons Inr show ?thesis by simp
  qed simp
qed simp

lemma peer_rows_saved: "peer_rows (peers_json date keys) = Inr (map (\<lambda>k. case json_key k of (h, p, d) \<Rightarrow> [h, p, d]) keys)"
proof -
  have "rmap (json_slice 3) (map (\<lambda>k. case json_key k of (h, p, d) \<Rightarrow> JArray [h, p, d, JString (date k)]) keys) =
      Inr (map (\<lambda>k. case json_key k of (h, p, d) \<Rightarrow> [h, p, d]) keys)"
    by (induction keys) (simp_all add: json_key_def split_beta)
  then show ?thesis by (simp add: peer_rows_def peers_json_def)
qed

lemma load_saved:
  assumes "keys \<noteq> []"
  shows "load_peers web listed (Some (Inr (peers_json date keys))) = Inr (map json_key keys)"
proof -
  let ?rows = "map (\<lambda>k. case json_key k of (h, p, d) \<Rightarrow> [h, p, d]) keys"
  have "rmap first_elem ?rows = Inr (map (\<lambda>k. fst (json_key k)) keys)"
    by (induction keys) (simp_all add: json_key_def first_elem_def split_beta)
  moreover have "rmap as_text (map (\<lambda>k. fst (json_key k)) keys) = Inr (map fst keys)"
    by (induction keys) (simp_all add: json_key_def as_text_def split_beta)
  moreover have "rmap unpack_row ?rows = Inr (map json_key keys)"
    by (induction keys) (simp_all add: json_key_def unpack_row_def hash_row_def split_beta)
  ultimately show ?thesis
    using assms by (simp add: load_peers_def rows_of_file_def peer_rows_saved Let_def)
qed

lemma loaded_peer: "k \<in> set keys \<Longrightarrow> k \<in> fst ` set (load_peers_from_list keys)"
proof -
  have "fst ` set (fold (\<lambda>(host, port, direction) m.
      AList.update (host, port, direction) (mk_disconnected_peer host port direction None 0) m) ks m) =
    set ks \<union> fst ` set m" for ks m
    by (induction ks arbitrary: m) (simp_all add: dom_update split_beta)
  then show "k \<in> set keys \<Longrightarrow> k \<in> fst ` set (load_peers_from_list keys)" by (simp add: load_peers_from_list_def)
qed

lemma network_raises: "u \<in> set PEER_URLS \<Longrightarrow> web u = Inl e \<Longrightarrow> \<exists>e. load_peers_from_network web listed = Inl e"
  using rfold_raises [of u PEER_URLS "\<lambda>all_peers url. rbind (web url)
    (\<lambda>resp. case resp of Inl e \<Rightarrow> Inr all_peers | Inr peers \<Rightarrow> add_peers all_peers peers)" "{}"]
  by (auto simp: load_peers_from_network_def)

section \<open>Properties\<close>

text \<open>
  C35: peers survive a restart. After \<open>write_peers\<close> the file holds the peer that was written first, and the
  peers from before as far as there is room; from this file \<open>load_peers\<close> gives exactly those keys, in
  this order, without asking the network, and every one of them is among the peers the node starts with.
\<close>

theorem saved_peers_are_loaded:
  assumes "write_peers p n = (r, n')"
  shows "\<exists>keys. nd_peers_file n' = Some keys \<and> length keys \<le> PEERS_JSON_MAX_LEN \<and>
    hd keys = connected_key (nd_peers n p) \<and>
    (\<forall>old. nd_peers_file n = Some old \<longrightarrow> length old < PEERS_JSON_MAX_LEN \<longrightarrow> set old \<subseteq> set keys) \<and>
    load_peers web listed (Some (Inr (peers_json date keys))) = Inr (map json_key keys) \<and>
    set keys \<subseteq> fst ` set (load_peers_from_list keys)"
proof -
  let ?k = "connected_key (nd_peers n p)"
  let ?rest = "filter (\<lambda>row. row \<noteq> ?k) (case nd_peers_file n of None \<Rightarrow> [] | Some rows \<Rightarrow> rows)"
  define keys where "keys = take PEERS_JSON_MAX_LEN (?k # ?rest)"
  have n': "nd_peers_file n' = Some keys" using assms by (auto simp: write_peers_def action_apply keys_def Let_def)
  have pos: "0 < PEERS_JSON_MAX_LEN" by (simp add: PEERS_JSON_MAX_LEN_def)
  then have hd: "keys \<noteq> []" "hd keys = ?k" unfolding keys_def by (simp_all add: take_Cons' del: take_eq_Nil)
  have old: "set old \<subseteq> set keys" if "nd_peers_file n = Some old" "length old < PEERS_JSON_MAX_LEN" for old
  proof -
    have "length (filter (\<lambda>row. row \<noteq> ?k) old) < PEERS_JSON_MAX_LEN"
      by (rule le_less_trans [OF length_filter_le that(2)])
    then have "length (?k # ?rest) \<le> PEERS_JSON_MAX_LEN" using that(1) by (simp add: Suc_le_eq)
    then have "keys = ?k # ?rest" unfolding keys_def by (rule take_all)
    with that(1) show ?thesis by auto
  qed
  have "length keys \<le> PEERS_JSON_MAX_LEN" by (simp add: keys_def)
  with n' hd old load_saved [OF hd(1)] loaded_peer show ?thesis by blast
qed

theorem saved_peers_are_loaded_witness:
  "\<exists>n' keys. write_peers 1 sample_run = (Inr (), n') \<and> nd_peers_file n' = Some keys \<and>
     load_peers (\<lambda>_. Inl OSError) (\<lambda>_. []) (Some (Inr (peers_json (\<lambda>_. ''now'') keys))) = Inr (map json_key keys)"
proof -
  obtain n' where w: "write_peers 1 sample_run = (Inr (), n')" by (simp add: write_peers_def action_apply)
  from saved_peers_are_loaded [OF w, of "\<lambda>_. Inl OSError" "\<lambda>_. []" "\<lambda>_. ''now''"] w show ?thesis by blast
qed

text \<open>
  What keeps a node from starting, since these exceptions are not caught: without a file that gives any
  peers, one address of the network that cannot be opened is enough, even when the other answers; and a
  file that can be read, with a row of fewer than three entries, raises although the code means to ignore
  a corrupted file.
\<close>

theorem load_peers_raises:
  assumes "rows_of_file file = []" and "u \<in> set PEER_URLS" and "web u = Inl e"
    and "peer_rows data = Inr rows" and "row \<in> set rows" and "length row < 3"
  shows "(\<exists>e. load_peers web listed file = Inl e) \<and> (\<exists>e. load_peers web' listed' (Some (Inr data)) = Inl e)"
proof
  show "\<exists>e. load_peers web listed file = Inl e"
    using network_raises [of u web e listed] assms(1-3) by (auto simp: load_peers_def)
  have "rows \<noteq> []" using assms(5) by auto
  moreover have "\<exists>e. unpack_row row = Inl e" using assms(6) by (auto simp: unpack_row_def split: list.splits)
  then have "\<exists>e. rmap unpack_row rows = Inl e" using rmap_raises [OF assms(5)] by blast
  moreover have "\<exists>e. rbind m f = Inl e" if "\<And>x. \<exists>e. f x = Inl e" for m :: "'a result" and f :: "'a \<Rightarrow> 'b result"
    using that by (cases m) simp_all
  ultimately show "\<exists>e. load_peers web' listed' (Some (Inr data)) = Inl e"
    using assms(4) by (auto simp: load_peers_def rows_of_file_def rbind_eq_Inl) (metis old.sum.exhaust)+
qed

theorem load_peers_raises_witness:
  "\<exists>e. load_peers (\<lambda>u. if u = hd PEER_URLS then Inl OSError else Inr (Inr (JArray []))) (\<lambda>_. []) None = Inl e"
  using load_peers_raises [of None "hd PEER_URLS" "\<lambda>u. if u = hd PEER_URLS then Inl OSError else Inr (Inr (JArray []))" OSError
    "JArray [JArray [JString ''10.0.0.1'']]" "[[JString ''10.0.0.1'']]" "[JString ''10.0.0.1'']" "\<lambda>_. []" "\<lambda>_. Inl OSError" "\<lambda>_. []"]
  by (auto simp: rows_of_file_def PEER_URLS_def peer_rows_def)

end
