(* ===== verification/Threading.thy ===== *)
theory Threading
  imports Disk_Interface
begin

text \<open>
  Model of \<open>NetworkingThread\<close> in \<open>skepticoin/networking/threading.py\<close> and of \<open>LocalPeer.stop\<close> and the
  beginning and end of \<open>LocalPeer.run\<close>: a thread that runs a local peer, and the main thread, which starts it,
  stops it and waits for its end. The two are interleaved step by step. Shown: a thread whose loop runs
  ends after \<open>stop\<close> without doing anything more; a \<open>stop\<close> that comes before the loop has no effect.
\<close>

section \<open>The thread\<close>

text \<open>
  Where the thread is: made, started, after \<open>start_listening\<close>, in the loop of \<open>LocalPeer.run\<close>, or ended
  (which is what \<open>join\<close> waits for).
\<close>

datatype thread_phase = Created | Started | Prepared | Looping | Finished

record networking_thread =
  nt_port :: "int option"
  nt_local_peer :: node
  nt_phase :: thread_phase

text \<open>\<open>__init__\<close>, for a new local peer; \<open>loaded\<close> is what \<open>load_peers\<close> gives.\<close>

definition new_networking_thread ::
  "crypto \<Rightarrow> coinstate \<Rightarrow> int option \<Rightarrow> node \<Rightarrow> peer_key list result \<Rightarrow> networking_thread result" where
  "new_networking_thread cr cs port local_peer loaded =
     (case on_chain (set_coinstate cr cs True) local_peer of
        (Inl e, _) \<Rightarrow> Inl e
      | (Inr _, n) \<Rightarrow> rbind loaded (\<lambda>rows.
          Inr \<lparr>nt_port = port, nt_local_peer = n\<lparr>nd_disconnected := load_peers_from_list rows\<rparr>, nt_phase = Created\<rparr>))"

definition local_peer_stop :: "node \<Rightarrow> node" where
  "local_peer_stop n = n\<lparr>nd_running := False\<rparr>"

text \<open>What the main thread does.\<close>

definition thread_start :: "networking_thread \<Rightarrow> networking_thread" where
  "thread_start t = (if nt_phase t = Created then t\<lparr>nt_phase := Started\<rparr> else t)"

definition thread_stop :: "networking_thread \<Rightarrow> networking_thread" where
  "thread_stop t = t\<lparr>nt_local_peer := local_peer_stop (nt_local_peer t)\<rparr>"

text \<open>
  One step of \<open>run\<close>. \<open>bound\<close>: whether binding the socket succeeds; \<open>ev\<close>: what happens in this round of the
  loop. Before each step of the loop \<open>running\<close> is looked at; when it is not set, the loop is left.
\<close>

definition thread_run_step :: "crypto \<Rightarrow> bool \<Rightarrow> node_event \<Rightarrow> networking_thread \<Rightarrow> networking_thread" where
  "thread_run_step cr bound ev t =
     (let n = nt_local_peer t in
      case nt_phase t of
        Created \<Rightarrow> t
      | Started \<Rightarrow> t\<lparr>nt_local_peer := (case nt_port t of None \<Rightarrow> n | Some port \<Rightarrow> snd (start_listening port bound n)),
                     nt_phase := Prepared\<rparr>
      | Prepared \<Rightarrow> t\<lparr>nt_local_peer := n\<lparr>nd_running := True\<rparr>, nt_phase := Looping\<rparr>
      | Looping \<Rightarrow> if nd_running n then t\<lparr>nt_local_peer := snd (handle_event cr ev n)\<rparr>
                   else t\<lparr>nt_local_peer := snd (leave_run_loop n), nt_phase := Finished\<rparr>
      | Finished \<Rightarrow> t)"

datatype thread_action = StartThread | StopThread | RunStep bool node_event

fun thread_act :: "crypto \<Rightarrow> thread_action \<Rightarrow> networking_thread \<Rightarrow> networking_thread" where
  "thread_act cr StartThread t = thread_start t"
| "thread_act cr StopThread t = thread_stop t"
| "thread_act cr (RunStep bound ev) t = thread_run_step cr bound ev t"

abbreviation thread_run :: "crypto \<Rightarrow> thread_action list \<Rightarrow> networking_thread \<Rightarrow> networking_thread" where
  "thread_run cr as t \<equiv> fold (thread_act cr) as t"

section \<open>Stopping\<close>

definition is_run_step :: "thread_action \<Rightarrow> bool" where
  "is_run_step a \<longleftrightarrow> (case a of RunStep _ _ \<Rightarrow> True | _ \<Rightarrow> False)"

text \<open>What a stopped thread has in common with what it was: all but the flag and the selector.\<close>

definition quiet :: "networking_thread \<Rightarrow> networking_thread \<Rightarrow> bool" where
  "quiet t s \<longleftrightarrow> nd_out (nt_local_peer s) = nd_out (nt_local_peer t) \<and>
     nd_chain (nt_local_peer s) = nd_chain (nt_local_peer t) \<and> nd_store (nt_local_peer s) = nd_store (nt_local_peer t) \<and>
     nd_peers_file (nt_local_peer s) = nd_peers_file (nt_local_peer t)"

lemma finished_stays:
  "nt_phase t = Finished \<Longrightarrow> nt_phase (thread_run cr as t) = Finished \<and> quiet t (thread_run cr as t)"
proof (induction as arbitrary: t)
  case (Cons a as)
  have "nt_phase (thread_act cr a t) = Finished" "quiet t (thread_act cr a t)"
    using Cons.prems by (cases a; simp add: thread_start_def thread_stop_def thread_run_step_def local_peer_stop_def quiet_def Let_def)+
  with Cons.IH [of "thread_act cr a t"] show ?case by (simp add: quiet_def)
qed (simp add: quiet_def)

lemma stopped_loop:
  "nt_phase t = Looping \<Longrightarrow> \<not> nd_running (nt_local_peer t) \<Longrightarrow>
     quiet t (thread_run cr as t) \<and> nt_phase (thread_run cr as t) = (if \<exists>a\<in>set as. is_run_step a then Finished else Looping)"
proof (induction as arbitrary: t)
  case (Cons a as)
  show ?case
  proof (cases "is_run_step a")
    case True
    then obtain bound ev where a: "a = RunStep bound ev" by (auto simp: is_run_step_def split: thread_action.splits)
    have "nt_phase (thread_act cr a t) = Finished" "quiet t (thread_act cr a t)"
      using Cons.prems by (simp_all add: a thread_run_step_def leave_run_loop_def action_apply quiet_def Let_def)
    with finished_stays [of "thread_act cr a t" cr as] True show ?thesis by (simp add: quiet_def)
  next
    case False
    then have "nt_phase (thread_act cr a t) = Looping" "\<not> nd_running (nt_local_peer (thread_act cr a t))"
      "quiet t (thread_act cr a t)"
      using Cons.prems by (cases a; simp add: is_run_step_def thread_start_def thread_stop_def local_peer_stop_def quiet_def)+
    with Cons.IH [of "thread_act cr a t"] False show ?thesis by (simp add: quiet_def)
  qed
qed (simp add: quiet_def)

text \<open>Before the loop, what differs is the flag only, and the loop sets it.\<close>

definition before_loop :: "networking_thread \<Rightarrow> bool" where
  "before_loop t \<longleftrightarrow> nt_phase t \<in> {Created, Started, Prepared}"

lemma stop_before_loop:
  "before_loop t \<Longrightarrow> \<forall>a\<in>set as. a \<noteq> StopThread \<Longrightarrow>
     (if before_loop (thread_run cr as t)
      then thread_run cr as (thread_stop t) = thread_stop (thread_run cr as t)
      else thread_run cr as (thread_stop t) = thread_run cr as t)"
proof (induction as arbitrary: t)
  case (Cons a as)
  show ?case
  proof (cases "before_loop (thread_act cr a t)")
    case True
    then have "thread_act cr a (thread_stop t) = thread_stop (thread_act cr a t)"
      using Cons.prems
      by (cases a) (auto simp: before_loop_def thread_start_def thread_stop_def thread_run_step_def local_peer_stop_def
          start_listening_def action_apply abind_apply awhen_def Let_def split: option.splits)
    with Cons.IH [OF True] Cons.prems show ?thesis by simp
  next
    case False
    then have same: "thread_act cr a (thread_stop t) = thread_act cr a t"
      using Cons.prems
      by (cases a) (auto simp: before_loop_def thread_start_def thread_stop_def thread_run_step_def local_peer_stop_def
          Let_def split: if_splits)
    have "\<not> before_loop s \<Longrightarrow> \<not> before_loop (thread_run cr as s)" for s
    proof (induction as arbitrary: s)
      case (Cons b bs)
      then have "\<not> before_loop (thread_act cr b s)"
        by (cases b; cases "nt_phase s") (simp_all add: before_loop_def thread_start_def thread_stop_def thread_run_step_def Let_def)
      with Cons.IH show ?case by simp
    qed simp
    with False same show ?thesis by simp
  qed
qed simp

section \<open>An example\<close>

text \<open>A node without peers, not listening; and a round of its loop in which a connection is gone at once.\<close>

definition sample_thread :: networking_thread where
  "sample_thread = \<lparr>nt_port = None, nt_local_peer = sample_node\<lparr>nd_running := False\<rparr>, nt_phase = Created\<rparr>"

abbreviation idle_round :: thread_action where
  "idle_round \<equiv> RunStep True (IncomingConnection (Inl 107))"

abbreviation started_run :: "thread_action list" where
  "started_run \<equiv> [StartThread, idle_round, idle_round, idle_round]"

lemma idle_event: "handle_event cr (IncomingConnection (Inl 107)) n = (Inr (), n)"
  by (simp add: handle_event_def handle_incoming_connection_def abind_apply acatch_def action_apply awhen_def)

lemma started_run_loops:
  "nt_phase (thread_run cr started_run sample_thread) = Looping \<and>
     nd_running (nt_local_peer (thread_run cr started_run sample_thread))"
  by (simp add: sample_thread_def thread_start_def thread_run_step_def idle_event Let_def)

section \<open>Properties\<close>

text \<open>
  When \<open>stop\<close> is called while the loop runs, the thread does nothing more, whatever else happens: nothing is
  sent or written, the chain and the store stay as they are, and it has ended as soon as it gets to take a
  step, so that \<open>join\<close> returns.
\<close>

theorem stop_ends_the_loop:
  assumes "nt_phase t = Looping"
  shows "let s = thread_run cr as (thread_stop t) in
    nt_phase s = (if \<exists>a\<in>set as. is_run_step a then Finished else Looping) \<and>
    nd_out (nt_local_peer s) = nd_out (nt_local_peer t) \<and> nd_chain (nt_local_peer s) = nd_chain (nt_local_peer t) \<and>
    nd_store (nt_local_peer s) = nd_store (nt_local_peer t) \<and> nd_peers_file (nt_local_peer s) = nd_peers_file (nt_local_peer t)"
proof -
  have "quiet (thread_stop t) (thread_run cr as (thread_stop t)) \<and>
      nt_phase (thread_run cr as (thread_stop t)) = (if \<exists>a\<in>set as. is_run_step a then Finished else Looping)"
    by (rule stopped_loop) (use assms in \<open>simp_all add: thread_stop_def local_peer_stop_def\<close>)
  then show ?thesis by (simp add: quiet_def thread_stop_def local_peer_stop_def Let_def)
qed

theorem stop_ends_the_loop_witness:
  "nt_phase (thread_run toy_crypto [idle_round] (thread_stop (thread_run toy_crypto started_run sample_thread))) = Finished"
  using stop_ends_the_loop [of "thread_run toy_crypto started_run sample_thread" toy_crypto "[idle_round]"] started_run_loops
  by (simp add: is_run_step_def Let_def)

text \<open>
  C30: a \<open>stop\<close> that comes before the loop of the thread is lost: once the loop was entered, the thread is in
  the same state as if \<open>stop\<close> had never been called, and goes on from there.
\<close>

theorem early_stop_is_lost:
  assumes "nt_phase t \<in> {Created, Started, Prepared}" and "StopThread \<notin> set as"
    and "nt_phase (thread_run cr as t) \<in> {Looping, Finished}"
  shows "thread_run cr as (thread_stop t) = thread_run cr as t"
proof -
  have "before_loop t" "\<not> before_loop (thread_run cr as t)" "\<forall>a\<in>set as. a \<noteq> StopThread"
    using assms by (auto simp: before_loop_def)
  with stop_before_loop [of t as cr] show ?thesis by simp
qed

theorem early_stop_is_lost_witness:
  "nd_running (nt_local_peer (thread_run toy_crypto started_run (thread_stop sample_thread)))"
  using early_stop_is_lost [of sample_thread started_run toy_crypto] started_run_loops
  by (simp add: sample_thread_def)

end
