(* ===== verification/Restart.thy ===== *)
theory Restart
  imports Stored_Blocks
begin

text \<open>
  \<open>read_chain_from_disk\<close> of \<open>scripts/utils.py\<close> over the whole life of a node: the state of the block tree
  that is built when the program starts again is the one whose blocks were saved.
\<close>

section \<open>The blocks determine the state\<close>

lemma cs_ok_same_blocks:
  assumes "cs_ok cr cs" and "cs_ok cr cs'" and same: "cs_block_by_hash cs' = cs_block_by_hash cs"
  shows "cs_unspent_transaction_outs_by_hash cs' = cs_unspent_transaction_outs_by_hash cs"
    and "cs_block_by_height_by_hash cs' = cs_block_by_height_by_hash cs"
    and "cs_heads cs' = cs_heads cs"
proof -
  have "cs_unspent_transaction_outs_by_hash cs' h = cs_unspent_transaction_outs_by_hash cs h \<and>
      cs_block_by_height_by_hash cs' h = cs_block_by_height_by_hash cs h" for h
  proof (cases "cs_block_by_hash cs h")
    case None
    then have "h \<notin> dom (cs_unspent_transaction_outs_by_hash cs)" "h \<notin> dom (cs_unspent_transaction_outs_by_hash cs')"
      "h \<notin> dom (cs_block_by_height_by_hash cs)" "h \<notin> dom (cs_block_by_height_by_hash cs')"
      using assms by (simp_all add: cs_ok_def domIff)
    then show ?thesis by (simp add: domIff)
  next
    case (Some d)
    obtain c u c' u' where e: "entry_ok cr cs h d c u" "entry_ok cr cs' h d c' u'"
      using cs_ok_entry [OF assms(1) Some] cs_ok_entry [OF assms(2), of h d] Some same by auto
    then have "c = c'" using chain_to_unique same by (fastforce simp: entry_ok_def)
    with e show ?thesis by (auto simp: entry_ok_def)
  qed
  then show "cs_unspent_transaction_outs_by_hash cs' = cs_unspent_transaction_outs_by_hash cs"
    and "cs_block_by_height_by_hash cs' = cs_block_by_height_by_hash cs" by (simp_all add: fun_eq_iff)
  show "cs_heads cs' = cs_heads cs"
    using assms by (simp add: cs_ok_def childless_def same fun_eq_iff)
qed

lemma same_head_height:
  assumes "cs_ok cr cs" and "cs_ok cr cs'" and same: "cs_block_by_hash cs' = cs_block_by_hash cs"
  shows "rbind (cs_head cs') (\<lambda>b. Inr (block_height b)) = rbind (cs_head cs) (\<lambda>b. Inr (block_height b))"
proof (cases "cs_current_chain_hash cs")
  case None
  then have "cs_current_chain_hash cs' = None" using assms by (auto simp: cs_ok_def split: option.splits)
  with None show ?thesis by (simp add: cs_head_def)
next
  case (Some cur)
  then obtain cur' where cur': "cs_current_chain_hash cs' = Some cur'"
    using assms by (cases "cs_current_chain_hash cs'") (auto simp: cs_ok_def)
  obtain b c u where b: "cs_block_by_hash cs cur = Some b" "entry_ok cr cs cur b c u"
    using cs_ok_current [OF assms(1) Some] by blast
  obtain b' c' u' where b': "cs_block_by_hash cs' cur' = Some b'" "entry_ok cr cs' cur' b' c' u'"
    using cs_ok_current [OF assms(2) cur'] by blast
  have "block_height b' \<le> block_height b"
    using assms(1) Some b(1) b'(1) by (auto simp: cs_ok_def same ran_def)
  moreover have "block_height b \<le> block_height b'"
    using assms(2) cur' b(1) b'(1) by (auto simp: cs_ok_def same ran_def)
  ultimately show ?thesis
    using cs_ok_at_head(3) [OF assms(1) Some b(2)] cs_ok_at_head(3) [OF assms(2) cur' b'(2)] by simp
qed

section \<open>Adding the blocks again\<close>

definition add_or_skip :: "crypto \<Rightarrow> coinstate \<Rightarrow> block \<Rightarrow> coinstate" where
  "add_or_skip cr cs b = (case add_block_no_validation cr cs b of Inl _ \<Rightarrow> cs | Inr cs' \<Rightarrow> cs')"

definition restored :: "crypto \<Rightarrow> coinstate \<Rightarrow> block set \<Rightarrow> coinstate \<Rightarrow> bool" where
  "restored cr cs B cs' \<longleftrightarrow> coinstate_reachable cr cs' \<and>
     cs_block_by_hash cs' = (\<lambda>h. case cs_block_by_hash cs h of None \<Rightarrow> None | Some b \<Rightarrow> if b \<in> B then Some b else None)"

text \<open>Of the blocks of a state, in the order of their heights, each attaches to the state of those before it.\<close>

lemma chain_to_snocE:
  assumes "chain_to blocks h chain" and "blocks h = Some b"
  obtains (genesis) "block_previous_block_hash b = zero_hash" "chain = [b]"
    | (child) c where "block_previous_block_hash b \<noteq> zero_hash" "chain = c @ [b]"
        "chain_to blocks (block_previous_block_hash b) c"
  using assms by (auto elim: chain_toE)

lemma restored_mono: "restored cr cs B cs' \<Longrightarrow> cs_block_by_hash cs' k = Some b \<Longrightarrow> cs_block_by_hash cs k = Some b"
  by (auto simp: restored_def split: option.splits if_splits)

lemma restored_attaches:
  assumes ok: "cs_ok cr cs" and r: "restored cr cs (set ps) cs1"
    and all: "set (ps @ b # qs) = ran (cs_block_by_hash cs)" "distinct (ps @ b # qs)" "sorted (map block_height (ps @ b # qs))"
  obtains h u0 u where "attaches cr cs1 b" "block_hash cr b = Inr h" "parent_unspent cs1 b = Inr u0"
    "uto_apply_block cr u0 b = Inr u"
proof -
  have "b \<in> ran (cs_block_by_hash cs)" unfolding all(1) [symmetric] by simp
  then obtain h where h: "cs_block_by_hash cs h = Some b" by (auto simp: ran_def)
  obtain chain u where e: "entry_ok cr cs h b chain u" using cs_ok_entry [OF ok h] by blast
  have "b \<notin> set ps" using all(2) by simp
  then have new: "\<exists>h. block_hash cr b = Inr h \<and> length h = 32 \<and> h \<noteq> zero_hash \<and> cs_block_by_hash cs1 h = None"
    and hash: "block_hash cr b = Inr h"
    using e r h by (auto simp: entry_ok_def restored_def)
  have chain: "chain_to (cs_block_by_hash cs) h chain" using e by (simp add: entry_ok_def)
  from chain h show thesis
  proof (cases rule: chain_to_snocE)
    case genesis
    have "ps = []"
    proof (rule ccontr)
      assume "ps \<noteq> []"
      then have "p \<in> set ps" if "p = hd ps" for p using that by simp
      then obtain p where p: "p \<in> set ps" by blast
      then have "p \<in> ran (cs_block_by_hash cs)" unfolding all(1) [symmetric] by simp
      then obtain k where k: "cs_block_by_hash cs k = Some p" by (auto simp: ran_def)
      obtain c v where c: "entry_ok cr cs k p c v" using cs_ok_entry [OF ok k] by blast
      have "block_height p \<le> block_height b" using p all(3) by (auto simp: sorted_append)
      then have short: "length c \<le> 1" using c e genesis by (simp add: entry_ok_def)
      have "chain_to (cs_block_by_hash cs) k c" using c by (simp add: entry_ok_def)
      from this k have "block_previous_block_hash p = zero_hash"
        by (cases rule: chain_to_snocE) (use short in \<open>auto dest: chain_to_last\<close>)
      moreover have "single_genesis cs" using ok by (simp add: cs_ok_def)
      ultimately have "p = b" using genesis h k by (simp add: single_genesis_def ranI)
      with p \<open>b \<notin> set ps\<close> show False by simp
    qed
    then have "cs_block_by_hash cs1 = Map.empty" using r by (auto simp: restored_def split: option.split)
    then have "attaches cr cs1 b" using new e genesis by (simp add: attaches_def entry_ok_def)
    moreover have "parent_unspent cs1 b = Inr Map.empty" using genesis by (simp add: parent_unspent_def)
    moreover have "uto_apply_block cr Map.empty b = Inr u"
      using e genesis by (auto simp: entry_ok_def replay_def rbind_eq_Inr)
    ultimately show thesis using hash by (intro that)
  next
    case (child c)
    let ?p = "block_previous_block_hash b"
    obtain p where p: "cs_block_by_hash cs ?p = Some p" using chain_to_last [OF child(3)] by auto
    then obtain c' v where c': "entry_ok cr cs ?p p c' v" using cs_ok_entry [OF ok] by blast
    then have "c' = c" using child(3) chain_to_unique by (auto simp: entry_ok_def)
    then have height: "block_height b = block_height p + 1" using e c' child by (simp add: entry_ok_def)
    have "p \<in> set (ps @ b # qs)" unfolding all(1) using p by (rule ranI)
    then have "p \<in> set ps" using height all(3) by (auto simp: sorted_append)
    then have p1: "cs_block_by_hash cs1 ?p = Some p" using r p by (simp add: restored_def)
    have "cs_ok cr cs1" using r coinstate_machine.reachable_inv by (simp add: restored_def)
    then obtain c1 u1 where e1: "entry_ok cr cs1 ?p p c1 u1" using cs_ok_entry p1 by blast
    then have "chain_to (cs_block_by_hash cs) ?p c1"
      by (auto simp: entry_ok_def intro: chain_to_mono restored_mono [OF r])
    then have "c1 = c" by (rule chain_to_unique [OF _ child(3)])
    with e1 e child have u: "parent_unspent cs1 b = Inr u1" "uto_apply_block cr u1 b = Inr u"
      by (auto simp: entry_ok_def parent_unspent_def lookup_key_def replay_snoc)
    have "attaches cr cs1 b" using new p1 height child by (simp add: attaches_def)
    then show thesis using hash u by (intro that)
  qed
qed

lemma restored_all:
  assumes ok: "cs_ok cr cs"
    and "set (ps @ qs) = ran (cs_block_by_hash cs)" "distinct (ps @ qs)" "sorted (map block_height (ps @ qs))"
  shows "restored cr cs (set ps) (foldl (add_or_skip cr) empty_coinstate ps)"
  using assms(2-4)
proof (induction ps arbitrary: qs rule: rev_induct)
  case Nil
  show ?case by (auto simp: restored_def reachable.init empty_coinstate_def fun_eq_iff split: option.split)
next
  case (snoc b ps)
  let ?cs1 = "foldl (add_or_skip cr) empty_coinstate ps"
  have r: "restored cr cs (set ps) ?cs1" by (rule snoc.IH [of "b # qs"]) (use snoc.prems in simp_all)
  then have reach: "coinstate_reachable cr ?cs1" and ok1: "cs_ok cr ?cs1"
    using coinstate_machine.reachable_inv by (auto simp: restored_def)
  obtain h u0 u where att: "attaches cr ?cs1 b" and h: "block_hash cr b = Inr h"
    and u: "parent_unspent ?cs1 b = Inr u0" "uto_apply_block cr u0 b = Inr u"
    by (rule restored_attaches [OF ok r, of b qs]) (use snoc.prems in simp_all)
  obtain cs2 where add: "add_block_no_validation cr ?cs1 b = Inr cs2"
    using add_block_returns [OF ok1 att h u] by blast
  have "coinstate_reachable cr cs2" by (rule reachable.step [OF reach att add])
  moreover have "cs_block_by_hash cs2 = (\<lambda>h. case cs_block_by_hash cs h of None \<Rightarrow> None
      | Some d \<Rightarrow> if d \<in> set (ps @ [b]) then Some d else None)"
  proof -
    obtain k where k: "cs_block_by_hash cs k = Some b" using snoc.prems(1) by (auto simp: ran_def)
    then have "block_hash cr b = Inr k" by (rule cs_ok_hash [OF ok])
    then have "k = h" using h by simp
    moreover have "d \<noteq> b" if "cs_block_by_hash cs x = Some d" "x \<noteq> h" for x d
      using that cs_ok_hash [OF ok that(1)] h by auto
    ultimately show ?thesis
      using r k by (auto simp: add_block_maps(1) [OF add h att] restored_def fun_eq_iff split: option.splits)
  qed
  moreover have "foldl (add_or_skip cr) empty_coinstate (ps @ [b]) = cs2" using add by (simp add: add_or_skip_def)
  ultimately show ?case by (simp only: restored_def)
qed

section \<open>Blocks as they are read from bytes\<close>

text \<open>
  A block that was mined here carries no hash; one that was read from bytes does. \<open>read_back\<close> is the
  state with every block as it is read: the same state as long as the hashes that are carried are right.
\<close>

abbreviation hashes_right :: "crypto \<Rightarrow> block \<Rightarrow> bool" where
  "hashes_right cr b \<equiv> block_wf b \<and> block_hash cr b = block_header_hash cr (blk_header b) \<and>
     (\<forall>t\<in>set (blk_transactions b). transaction_hash cr t = Inr (tx_key cr t))"

definition read_back :: "crypto \<Rightarrow> coinstate \<Rightarrow> coinstate" where
  "read_back cr cs = mk_coinstate (\<lambda>h. map_option (block_canon cr) (cs_block_by_hash cs h))
     (cs_unspent_transaction_outs_by_hash cs)
     (\<lambda>h. map_option (\<lambda>m i. map_option (block_canon cr) (m i)) (cs_block_by_height_by_hash cs h))
     (\<lambda>h. map_option (block_canon cr) (cs_heads cs h)) (cs_current_chain_hash cs)"

lemma block_canon_fields [simp]:
  "block_height (block_canon cr b) = block_height b"
  "block_previous_block_hash (block_canon cr b) = block_previous_block_hash b"
  "blk_transactions (block_canon cr b) = map (transaction_canon cr) (blk_transactions b)"
  by (simp_all add: block_canon_def block_height_def block_previous_block_hash_def)

lemma block_hash_canon: "hashes_right cr b \<Longrightarrow> block_hash cr (block_canon cr b) = block_hash cr b"
  using header_wire.ser_returns [of "blk_header b"]
  by (auto simp: block_wf_def block_header_hash_def block_hash_def block_canon_def cached_or_def)

lemma uto_apply_transaction_canon:
  assumes "transaction_hash cr t = Inr (tx_key cr t)"
  shows "uto_apply_transaction cr u (transaction_canon cr t) is_coinbase = uto_apply_transaction cr u t is_coinbase"
proof -
  have "transaction_hash cr (transaction_canon cr t) = transaction_hash cr t"
    using assms by (auto simp: transaction_canon_def transaction_hash_def cached_or_def tx_key_def stream_serialize_transaction_def
        split: option.splits if_splits)
  then have "add_output cr (transaction_canon cr t) = add_output cr t" by (simp add: add_output_def fun_eq_iff)
  then show ?thesis by (simp add: uto_apply_transaction_def transaction_canon_def)
qed

lemma uto_apply_block_canon:
  assumes "hashes_right cr b"
  shows "uto_apply_block cr u (block_canon cr b) = uto_apply_block cr u b"
proof (cases "blk_transactions b")
  case (Cons t ts)
  have "rfold (\<lambda>u t. uto_apply_transaction cr u t False) v (map (transaction_canon cr) ts) =
      rfold (\<lambda>u t. uto_apply_transaction cr u t False) v ts" if "set ts \<subseteq> set (blk_transactions b)" for v ts
    using that by (induction ts arbitrary: v) (use assms in \<open>auto simp: uto_apply_transaction_canon\<close>)
  from this [of ts] Cons have "rfold (\<lambda>u t. uto_apply_transaction cr u t False) v (map (transaction_canon cr) ts) =
      rfold (\<lambda>u t. uto_apply_transaction cr u t False) v ts" for v by (simp add: subset_insertI)
  with Cons show ?thesis
    using assms by (simp add: uto_apply_block_def first_elem_def uto_apply_transaction_canon)
qed (simp add: uto_apply_block_def first_elem_def)

lemma chain_to_canon:
  "chain_to blocks h c \<Longrightarrow> chain_to (\<lambda>h. map_option (block_canon cr) (blocks h)) h (map (block_canon cr) c)"
  by (induction rule: chain_to.induct) (auto intro!: chain_to.intros)

lemma replay_canon: "\<forall>b\<in>set c. hashes_right cr b \<Longrightarrow> replay cr (map (block_canon cr) c) = replay cr c"
  by (induction c rule: rev_induct) (simp_all add: replay_snoc uto_apply_block_canon replay_def [of cr "[]"])

lemma chain_map_canon: "(\<lambda>i. map_option f (chain_map c i)) = chain_map (map f c)"
  by (auto simp: chain_map_def fun_eq_iff nat_less_iff)

lemma ran_map_option: "ran (\<lambda>h. map_option f (m h)) = f ` ran m"
  by (auto simp: ran_def)

lemma read_back_ok:
  assumes ok: "cs_ok cr cs" and right: "\<forall>b\<in>ran (cs_block_by_hash cs). hashes_right cr b"
  shows "cs_ok cr (read_back cr cs)"
proof -
  have entry: "entry_ok cr (read_back cr cs) h (block_canon cr b) (map (block_canon cr) c) u"
    if e: "entry_ok cr cs h b c u" for h b c u
  proof -
    have "\<exists>k. cs_block_by_hash cs k = Some d" if "d \<in> set c" for d
      using that e chain_to_nth [of "cs_block_by_hash cs" h c] by (auto simp: entry_ok_def in_set_conv_nth)
    then have "\<forall>d\<in>set c. hashes_right cr d" using right by (auto simp: ran_def)
    with e right show ?thesis
      by (auto simp: entry_ok_def read_back_def chain_to_canon replay_canon chain_map_canon block_hash_canon ran_def)
  qed
  show ?thesis
    unfolding cs_ok_def
  proof (intro conjI allI impI)
    fix h b assume "cs_block_by_hash (read_back cr cs) h = Some b"
    then obtain b0 where b: "cs_block_by_hash cs h = Some b0" "b = block_canon cr b0" by (auto simp: read_back_def)
    show "\<exists>chain u. entry_ok cr (read_back cr cs) h b chain u"
      using cs_ok_entry [OF ok b(1)] entry unfolding b(2) by blast
  next
    fix h show "cs_heads (read_back cr cs) h = (if childless (read_back cr cs) h then cs_block_by_hash (read_back cr cs) h else None)"
      using ok by (simp add: cs_ok_def read_back_def childless_def ran_map_option)
  next
    show "single_genesis (read_back cr cs)"
      using ok by (auto simp: cs_ok_def single_genesis_def read_back_def ran_map_option)
  next
    show "case cs_current_chain_hash (read_back cr cs) of None \<Rightarrow> cs_block_by_hash (read_back cr cs) = Map.empty
      | Some h \<Rightarrow> \<exists>b. cs_block_by_hash (read_back cr cs) h = Some b \<and>
          (\<forall>b'\<in>ran (cs_block_by_hash (read_back cr cs)). block_height b' \<le> block_height b)"
      using ok by (auto simp: cs_ok_def read_back_def ran_map_option split: option.splits)
  qed (use ok in \<open>auto simp: cs_ok_def read_back_def dom_def cache_ok_def\<close>)
qed

section \<open>An example\<close>

text \<open>Two blocks that were mined on the genesis block, with only a coinbase each and no hashes yet.\<close>

definition mined_child :: "byte \<Rightarrow> block" where
  "mined_child k = (sample_block 1 genesis_key zero_hash [(sample_transaction 0 [\<lparr>inp_output_reference =
       \<lparr>ref_hash = zero_hash, ref_index = 0\<rparr>, inp_signature = Some (CoinbaseData 1 [k])\<rparr>] [sample_output 6 k])\<lparr>tx_cached_hash := None\<rparr>])
     \<lparr>blk_cached_hash := None, blk_header := \<lparr>hd_summary = \<lparr>bs_height = 1, bs_previous_block_hash = genesis_key,
         bs_merkle_root_hash = zero_hash, bs_timestamp = 1, bs_target = zero_hash, bs_nonce = 0\<rparr>,
       hd_pow_evidence = \<lparr>pe_summary_hash = zero_hash, pe_chain_sample = zero_hash, pe_block_hash = sample_hash k\<rparr>\<rparr>\<rparr>"

abbreviation fork_blocks :: "block list" where
  "fork_blocks \<equiv> [genesis_block, mined_child 5, mined_child 6]"

lemma mined_child_wf: "block_wf (mined_child k)"
  by (simp add: mined_child_def sample_block_def block_wf_def block_header_wf_def block_summary_wf_def pow_evidence_wf_def
      sample_transaction_def transaction_wf_def input_wf_def output_wf_def sample_output_def output_reference_wf_def
      genesis_key_def genesis_block_def)

lemma header_hash_key: "block_wf b \<Longrightarrow> block_header_hash cr (blk_header b) = Inr (header_key cr b)"
  using header_wire.ser_returns [of "blk_header b"] by (auto simp: block_header_hash_def header_key_def block_wf_def)

lemma uncached_tx_key: "transaction_wf t \<Longrightarrow> tx_cached_hash t = None \<Longrightarrow> transaction_hash cr t = Inr (tx_key cr t)"
  using tx_wire.ser_returns [of t] by (auto simp: transaction_hash_def tx_key_def cached_or_def)

lemma fork_block_fields:
  "block_previous_block_hash (mined_child k) = genesis_key" "block_height (mined_child k) = 1"
  "header_key toy_crypto (mined_child k) = sample_hash k"
  "block_hash toy_crypto (mined_child k) = Inr (sample_hash k)"
  "\<exists>t p. blk_transactions (mined_child k) = [t] \<and> transaction_hash toy_crypto t = Inr (tx_key toy_crypto t) \<and>
     tx_key toy_crypto t = sample_hash k \<and> tx_outputs t = [p]"
proof -
  show key: "header_key toy_crypto (mined_child k) = sample_hash k"
    using toy_header_key [OF mined_child_wf] by (simp add: mined_child_def)
  with header_hash_key [OF mined_child_wf] show "block_hash toy_crypto (mined_child k) = Inr (sample_hash k)"
    by (simp add: block_hash_def cached_or_def) (simp add: mined_child_def)
  obtain t where t: "blk_transactions (mined_child k) = [t]" "tx_outputs t = [sample_output 6 k]" "tx_cached_hash t = None"
    by (auto simp: mined_child_def sample_block_def sample_transaction_def)
  then have wf: "transaction_wf t" using mined_child_wf [of k] by (simp add: block_wf_def)
  then show "\<exists>t p. blk_transactions (mined_child k) = [t] \<and> transaction_hash toy_crypto t = Inr (tx_key toy_crypto t) \<and>
     tx_key toy_crypto t = sample_hash k \<and> tx_outputs t = [p]"
    using t uncached_tx_key [OF wf] toy_tx_key [OF wf t(2)] by (simp add: sample_output_def sample_hash_def)
qed (simp_all add: mined_child_def block_previous_block_hash_def block_height_def)

lemma fork_keys: "genesis_key \<noteq> sample_hash 5" "genesis_key \<noteq> sample_hash 6" "genesis_tx_key \<noteq> sample_hash 6"
proof -
  have "hd genesis_key = 227" by (simp add: genesis_key_def genesis_block_def)
  moreover have "hd genesis_tx_key = 152" by (simp add: genesis_tx_key_def genesis_miner_key_def)
  moreover have "hd (sample_hash 5) = 5" "hd (sample_hash 6) = 6" by (simp_all add: sample_hash_def numeral_eq_Suc)
  ultimately show "genesis_key \<noteq> sample_hash 5" "genesis_key \<noteq> sample_hash 6" "genesis_tx_key \<noteq> sample_hash 6"
    by auto
qed

lemma coinbase_block_added:
  assumes r: "coinstate_reachable cr cs" and att: "attaches cr cs b" and t: "blk_transactions b = [t]" "tx_outputs_ok cr t"
  obtains cs' h where "coinstate_reachable cr cs'" "block_hash cr b = Inr h"
    "cs_block_by_hash cs' = (cs_block_by_hash cs)(h \<mapsto> b)"
proof -
  have ok: "cs_ok cr cs" using r by (rule coinstate_machine.reachable_inv)
  obtain h where h: "block_hash cr b = Inr h" using att by (auto simp: attaches_def)
  have "block_previous_block_hash b \<noteq> zero_hash \<Longrightarrow> block_previous_block_hash b \<in> dom (cs_unspent_transaction_outs_by_hash cs)"
    using att ok by (auto simp: attaches_def cs_ok_def)
  then obtain u0 where u0: "parent_unspent cs b = Inr u0"
    by (cases "block_previous_block_hash b = zero_hash") (auto simp: parent_unspent_def lookup_key_def)
  have "uto_apply_block cr u0 b = Inr (u0 ++ tx_created cr t)"
    using t by (simp add: uto_apply_block_def first_elem_def rbind_eq_Inr uto_apply_transaction_eq_Inr tx_spent_def)
  then obtain cs' where add: "add_block_no_validation cr cs b = Inr cs'"
    using add_block_returns [OF ok att h u0] by blast
  show thesis by (rule that [OF reachable.step [OF r att add] h add_block_maps(1) [OF add h att]])
qed

lemma fork_reachable:
  obtains cs where "coinstate_reachable toy_crypto cs"
    "cs_block_by_hash cs = [genesis_key \<mapsto> genesis_block, sample_hash 5 \<mapsto> mined_child 5, sample_hash 6 \<mapsto> mined_child 6]"
proof -
  have outs: "tx_outputs_ok toy_crypto t" if "transaction_wf t" "tx_cached_hash t = None" "tx_outputs t = [p]" for t p
    using that uncached_tx_key [OF that(1,2), of toy_crypto] length_digests(1) [OF toy_digests_ok]
    by (auto simp: tx_outputs_ok_def tx_key_def simp del: sha256d_toy)
  have len: "length genesis_key = 32" by (simp add: genesis_key_def genesis_block_def)
  have hash: "block_hash toy_crypto genesis_block = Inr genesis_key"
    using header_hash_key [OF genesis_block_wf] by (simp add: example_blocks example_keys)
  have "attaches toy_crypto empty_coinstate genesis_block"
    using hash len by (simp add: attaches_def example_blocks empty_coinstate_def)
  from coinbase_block_added [OF reachable.init this example_blocks(1)]
  obtain cs1 where 1: "coinstate_reachable toy_crypto cs1" "cs_block_by_hash cs1 = [genesis_key \<mapsto> genesis_block]"
    using outs [OF genesis_coinbase_wf] hash by (auto simp: genesis_coinbase_def empty_coinstate_def)
  have child: "\<exists>cs'. coinstate_reachable toy_crypto cs' \<and> cs_block_by_hash cs' = (cs_block_by_hash cs)(sample_hash k \<mapsto> mined_child k)"
    if "coinstate_reachable toy_crypto cs" "cs_block_by_hash cs genesis_key = Some genesis_block"
      "cs_block_by_hash cs (sample_hash k) = None" "k \<noteq> 0" for cs k
  proof -
    have "attaches toy_crypto cs (mined_child k)"
      using that by (simp add: attaches_def fork_block_fields example_blocks)
    moreover obtain t p where t: "blk_transactions (mined_child k) = [t]" "transaction_hash toy_crypto t = Inr (sample_hash k)"
      "tx_outputs t = [p]" using fork_block_fields(5) [of k] by auto
    moreover have "tx_outputs_ok toy_crypto t" using t by (simp add: tx_outputs_ok_def)
    ultimately show ?thesis
      using coinbase_block_added [OF that(1)] fork_block_fields(4) [of k] by (metis Inr_inject)
  qed
  obtain cs2 where 2: "coinstate_reachable toy_crypto cs2"
    "cs_block_by_hash cs2 = [genesis_key \<mapsto> genesis_block, sample_hash 5 \<mapsto> mined_child 5]"
    using child [OF 1(1), of 5] fork_keys by (auto simp: 1(2))
  then show thesis using child [OF 2(1), of 6] fork_keys that by (auto simp: 2(2))
qed

lemma fork_storable: "storable toy_crypto fork_blocks"
  "\<forall>t\<in>set (all_transactions fork_blocks). transaction_hash toy_crypto t = Inr (tx_key toy_crypto t)"
proof -
  obtain t5 p5 where t5: "blk_transactions (mined_child 5) = [t5]" "transaction_hash toy_crypto t5 = Inr (sample_hash 5)"
    "tx_key toy_crypto t5 = sample_hash 5" using fork_block_fields(5) [of 5] by auto
  obtain t6 p6 where t6: "blk_transactions (mined_child 6) = [t6]" "transaction_hash toy_crypto t6 = Inr (sample_hash 6)"
    "tx_key toy_crypto t6 = sample_hash 6" using fork_block_fields(5) [of 6] by auto
  show "storable toy_crypto fork_blocks"
    using t5 t6 fork_keys
    by (simp add: storable_def genesis_block_wf mined_child_wf example_blocks example_keys fork_block_fields header_hash_key)
  show "\<forall>t\<in>set (all_transactions fork_blocks). transaction_hash toy_crypto t = Inr (tx_key toy_crypto t)"
    using t5 t6 uncached_tx_key [OF genesis_coinbase_wf] by (simp add: example_blocks) (simp add: genesis_coinbase_def)
qed

section \<open>The property\<close>

lemma read_chain_restores:
  assumes ok: "cs_ok cr cs" and s: "storable cr bs" and all: "set bs = ran (cs_block_by_hash cs)"
    and right: "\<forall>t\<in>set (all_transactions bs). transaction_hash cr t = Inr (tx_key cr t)"
    and order: "\<And>rows. mset (order rows) = mset rows" "\<And>rows. sorted (map cw_height (order rows))"
  obtains cs' where "read_chain_from_disk cr order (tables_of cr bs) = Inr cs'" "coinstate_reachable cr cs'"
    "cs_ok cr (read_back cr cs)" "cs_block_by_hash cs' = cs_block_by_hash (read_back cr cs)"
proof -
  have "\<forall>b\<in>ran (cs_block_by_hash cs). hashes_right cr b"
    using s right by (auto simp: all [symmetric] storable_def)
  from read_back_ok [OF ok this] have ok': "cs_ok cr (read_back cr cs)" .
  obtain bs' where bs': "read_blocks_from_disk order (tables_of cr bs) = Inr bs'" "mset bs' = mset (map (block_canon cr) bs)"
    "map block_height bs' = map cw_height (order (tb_chain (tables_of cr bs)))"
    by (rule stored_blocks_read [OF s order(1)])
  have "set bs' = block_canon cr ` set bs" using arg_cong [OF bs'(2), of set_mset] by simp
  then have ran: "set (bs' @ []) = ran (cs_block_by_hash (read_back cr cs))"
    by (simp add: all read_back_def ran_map_option)
  have "distinct (map (block_canon cr) bs)"
  proof -
    have "map (header_key cr) (map (block_canon cr) bs) = map (header_key cr) bs"
      by (simp add: header_key_def block_canon_def)
    then show ?thesis using s by (metis distinct_map storable_def)
  qed
  then have "distinct (bs' @ [])" using bs'(2) by (metis append_Nil2 mset_eq_imp_distinct_iff)
  from restored_all [OF ok' ran this] have r: "restored cr (read_back cr cs) (set bs') (foldl (add_or_skip cr) empty_coinstate bs')"
    using order(2) by (simp add: bs'(3))
  let ?cs' = "foldl (add_or_skip cr) empty_coinstate bs'"
  have "read_chain_from_disk cr order (tables_of cr bs) = Inr ?cs'"
    by (simp add: read_chain_from_disk_def bs'(1) add_or_skip_def [abs_def])
  moreover have "cs_block_by_hash ?cs' = cs_block_by_hash (read_back cr cs)"
    using r ran by (auto simp: restored_def fun_eq_iff ran_def split: option.splits)
  ultimately show thesis using r ok' by (intro that [of ?cs']) (simp_all add: restored_def)
qed

text \<open>
  C13: a node that is stopped after its blocks were saved starts again with the state it had. When the
  tables hold the blocks of a state that was reached by blocks that attach (each one higher than its stored parent), whose hashes are right and whose transactions are each in
  one block, \<open>read_chain_from_disk\<close> skips no block, whatever the order in which the database returns
  blocks of one height: the block tree, the unspent outputs of every block, the index of heights of every
  block and the heads are those from before, and the head has the same height (of several blocks of that
  height, another one may be the head).
\<close>

theorem restart_restores_chain:
  assumes "coinstate_reachable cr cs" and "storable cr bs" and "set bs = ran (cs_block_by_hash cs)"
    and "\<forall>t\<in>set (all_transactions bs). transaction_hash cr t = Inr (tx_key cr t)"
    and "\<And>rows. mset (order rows) = mset rows" and "\<And>rows. sorted (map cw_height (order rows))"
  shows "\<exists>cs'. read_chain_from_disk cr order (tables_of cr bs) = Inr cs' \<and> coinstate_reachable cr cs' \<and>
    cs_block_by_hash cs' = cs_block_by_hash (read_back cr cs) \<and>
    cs_unspent_transaction_outs_by_hash cs' = cs_unspent_transaction_outs_by_hash cs \<and>
    cs_block_by_height_by_hash cs' = cs_block_by_height_by_hash (read_back cr cs) \<and>
    cs_heads cs' = cs_heads (read_back cr cs) \<and>
    rbind (cs_head cs') (\<lambda>b. Inr (block_height b)) = rbind (cs_head cs) (\<lambda>b. Inr (block_height b))"
proof -
  have ok: "cs_ok cr cs" using assms(1) by (rule coinstate_machine.reachable_inv)
  obtain cs' where cs': "read_chain_from_disk cr order (tables_of cr bs) = Inr cs'" "coinstate_reachable cr cs'"
    and ok': "cs_ok cr (read_back cr cs)" and same: "cs_block_by_hash cs' = cs_block_by_hash (read_back cr cs)"
    by (rule read_chain_restores [OF ok assms(2-6)])
  have ok2: "cs_ok cr cs'" using cs'(2) by (rule coinstate_machine.reachable_inv)
  note equal = cs_ok_same_blocks [OF ok' ok2 same]
  have "cs_head (read_back cr cs) = rbind (cs_head cs) (\<lambda>b. Inr (block_canon cr b))"
    using ok by (auto simp: cs_head_def read_back_def lookup_key_def cs_ok_def split: option.splits)
  moreover have "rbind (cs_head cs') (\<lambda>b. Inr (block_height b)) = rbind (cs_head (read_back cr cs)) (\<lambda>b. Inr (block_height b))"
    by (rule same_head_height [OF ok' ok2 same])
  ultimately have "rbind (cs_head cs') (\<lambda>b. Inr (block_height b)) = rbind (cs_head cs) (\<lambda>b. Inr (block_height b))"
    by (simp add: rbind_assoc)
  with cs' same equal(1-3) show ?thesis by (simp add: read_back_def)
qed

theorem restart_restores_chain_witness:
  "\<exists>cs. read_chain_from_disk toy_crypto (\<lambda>rows. sort_key cw_height (rev rows)) (tables_of toy_crypto fork_blocks) = Inr cs \<and>
     cs_block_by_hash cs = [genesis_key \<mapsto> block_canon toy_crypto genesis_block,
       sample_hash 5 \<mapsto> block_canon toy_crypto (mined_child 5), sample_hash 6 \<mapsto> block_canon toy_crypto (mined_child 6)]"
proof -
  let ?order = "\<lambda>rows. sort_key cw_height (rev rows)"
  obtain cs where cs: "coinstate_reachable toy_crypto cs"
    "cs_block_by_hash cs = [genesis_key \<mapsto> genesis_block, sample_hash 5 \<mapsto> mined_child 5, sample_hash 6 \<mapsto> mined_child 6]"
    by (rule fork_reachable)
  have "set fork_blocks = ran (cs_block_by_hash cs)" using fork_keys by (auto simp: cs(2) ran_map_upd eq_commute [of _ genesis_key])
  moreover have "mset (?order rows) = mset rows" "sorted (map cw_height (?order rows))" for rows by simp_all
  ultimately obtain cs' where "read_chain_from_disk toy_crypto ?order (tables_of toy_crypto fork_blocks) = Inr cs'"
    "cs_block_by_hash cs' = cs_block_by_hash (read_back toy_crypto cs)"
    using restart_restores_chain [OF cs(1) fork_storable(1) _ fork_storable(2), of ?order] by blast
  then show ?thesis by (auto simp: read_back_def cs(2) fun_eq_iff)
qed

end
