(* ===== verification/Wallet.thy ===== *)
theory Wallet
  imports Mining_Blocks Actions Block_Tree
begin

text \<open>
  Model of \<open>skepticoin/wallet.py\<close>: the keys of a user, the JSON value they are saved as, balances,
  the choice of outputs to spend, signing, and addresses. Shown: what a wallet makes is accepted by
  the validators and pays exactly what was asked, a spend succeeds whenever there is enough, a spend
  that fails makes the outputs unusable, and saving and addresses round trip.

  Generating keys and signing are done by the \<open>ecdsa\<close> package, which is the parameter \<open>kt\<close>; both use
  random numbers, which are arguments. Printing is left out, and so are the files themselves.
\<close>

section \<open>State\<close>

record key_tools =
  \<comment> \<open>\<open>SigningKey.generate\<close>: private and public key\<close>
  kt_generate :: "nat \<Rightarrow> bytes \<times> bytes"
  \<comment> \<open>\<open>SigningKey.from_string(private_key).sign(message)\<close>\<close>
  kt_sign :: "bytes \<Rightarrow> bytes \<Rightarrow> nat \<Rightarrow> bytes result"

record wallet =
  wl_keypairs :: "(bytes \<times> bytes) list"
  wl_unused_public_keys :: "bytes list"
  wl_public_key_annotations :: "(bytes \<times> string) list"
  wl_spent_transaction_outputs :: "output_reference set"

definition mk_wallet :: "(bytes \<times> bytes) list \<Rightarrow> bytes list \<Rightarrow> (bytes \<times> string) list \<Rightarrow> wallet" where
  "mk_wallet keypairs unused_public_keys public_key_annotations =
     \<lparr>wl_keypairs = keypairs, wl_unused_public_keys = unused_public_keys,
      wl_public_key_annotations = public_key_annotations, wl_spent_transaction_outputs = {}\<rparr>"

definition empty_wallet :: wallet where
  "empty_wallet = mk_wallet [] [] []"

definition wallet_getitem :: "wallet \<Rightarrow> bytes \<Rightarrow> bytes result" where
  "wallet_getitem w public_key = lookup_key (map_of (wl_keypairs w)) public_key"

definition wallet_contains :: "wallet \<Rightarrow> bytes \<Rightarrow> bool" where
  "wallet_contains w public_key \<longleftrightarrow> map_of (wl_keypairs w) public_key \<noteq> None"

section \<open>Keys\<close>

text \<open>\<open>random.choice\<close> of an empty list raises \<open>IndexError\<close>; \<open>pop\<close> takes the last element.\<close>

definition get_annotated_public_key :: "nat \<Rightarrow> string \<Rightarrow> (wallet, bytes) action" where
  "get_annotated_public_key random annotation =
     abind (aget id) (\<lambda>w.
     if wl_unused_public_keys w = []
     then (if wl_keypairs w = [] then araise IndexError
           else aret (map fst (wl_keypairs w) ! (random mod length (wl_keypairs w))))
     else let public_key = last (wl_unused_public_keys w) in
          athen (amod (\<lambda>w. w\<lparr>wl_unused_public_keys := butlast (wl_unused_public_keys w),
            wl_public_key_annotations := AList.update public_key annotation (wl_public_key_annotations w)\<rparr>))
          (aret public_key))"

definition restore_annotated_public_key :: "bytes \<Rightarrow> string \<Rightarrow> (wallet, unit) action" where
  "restore_annotated_public_key public_key annotation =
     abind (aget wl_public_key_annotations) (\<lambda>annotations.
     if map_of annotations public_key = None then araise KeyError
     else amod (\<lambda>w. w\<lparr>wl_public_key_annotations := AList.delete public_key annotations,
       wl_unused_public_keys := wl_unused_public_keys w @ [public_key]\<rparr>))"

definition generate_key :: "key_tools \<Rightarrow> nat \<Rightarrow> (wallet, unit) action" where
  "generate_key kt random =
     (let (private_key, public_key) = kt_generate kt random in
      amod (\<lambda>w. w\<lparr>wl_keypairs := AList.update public_key private_key (wl_keypairs w),
        wl_unused_public_keys := wl_unused_public_keys w @ [public_key]\<rparr>))"

text \<open>One random number for each of the \<open>n\<close> keys.\<close>

definition generate_keys :: "key_tools \<Rightarrow> nat list \<Rightarrow> (wallet, unit) action" where
  "generate_keys kt randoms = aforeach (generate_key kt) randoms"

section \<open>Saving\<close>

text \<open>The JSON object that is written and read; an entry that is missing raises \<open>KeyError\<close>.\<close>

record wallet_json =
  js_keypairs :: "(string \<times> string) list option"
  js_unused_public_keys :: "string list option"
  js_public_key_annotations :: "(string \<times> string) list option"

definition dump :: "wallet \<Rightarrow> wallet_json" where
  "dump w =
     \<lparr>js_keypairs = Some (map (\<lambda>(k, v). (human k, human v)) (wl_keypairs w)),
      js_unused_public_keys = Some (map human (wl_unused_public_keys w)),
      js_public_key_annotations =
        Some (map (\<lambda>(k, annotation). (human k, annotation)) (wl_public_key_annotations w))\<rparr>"

text \<open>A dict comprehension over items: a key that comes twice keeps its place and takes the later value.\<close>

definition dict_of :: "('a \<Rightarrow> ('k \<times> 'v) result) \<Rightarrow> 'a list \<Rightarrow> ('k \<times> 'v) list result" where
  "dict_of f items = rfold (\<lambda>m x. rbind (f x) (\<lambda>(k, v). Inr (AList.update k v m))) [] items"

definition entry :: "'a option \<Rightarrow> 'a result" where
  "entry x = (case x of None \<Rightarrow> Inl KeyError | Some v \<Rightarrow> Inr v)"

definition load :: "wallet_json \<Rightarrow> wallet result" where
  "load d =
     rbind (entry (js_keypairs d)) (\<lambda>ks.
     rbind (dict_of (\<lambda>(k, v). rbind (computer k) (\<lambda>k. rbind (computer v) (\<lambda>v. Inr (k, v)))) ks) (\<lambda>keypairs.
     rbind (entry (js_unused_public_keys d)) (\<lambda>us.
     rbind (rmap computer us) (\<lambda>unused_public_keys.
     rbind (entry (js_public_key_annotations d)) (\<lambda>as.
     rbind (dict_of (\<lambda>(k, annotation). rbind (computer k) (\<lambda>k. Inr (k, annotation))) as) (\<lambda>annotations.
     Inr (mk_wallet keypairs unused_public_keys annotations)))))))"

section \<open>Balances\<close>

text \<open>\<open>coinstate.public_key_balances_by_hash[coinstate.current_chain_hash]\<close>, for a state without blocks too.\<close>

definition balances_of_current :: "crypto \<Rightarrow> coinstate \<Rightarrow> balances result" where
  "balances_of_current cr cs =
     (case cs_current_chain_hash cs of
        None \<Rightarrow> Inr (\<lambda>_. None)
      | Some h \<Rightarrow> rbind (pkb_getitem cr (cs_public_key_balances_by_hash cs) h) (\<lambda>(_, m). Inr m))"

definition get_balance :: "crypto \<Rightarrow> wallet \<Rightarrow> coinstate \<Rightarrow> int result" where
  "get_balance cr w cs =
     rfold (\<lambda>total pk.
         rbind (balances_of_current cr cs) (\<lambda>m.
         rbind (mk_public_key pk) (\<lambda>k.
         Inr (total + (case m k of None \<Rightarrow> 0 | Some b \<Rightarrow> pkb_value b)))))
       0 (map fst (wl_public_key_annotations w) @ wl_unused_public_keys w)"

section \<open>Spending\<close>

definition sign_input :: "key_tools \<Rightarrow> wallet \<Rightarrow> unspent \<Rightarrow> bytes \<Rightarrow> tx_input \<times> nat \<Rightarrow> tx_input result" where
  "sign_input kt w unspent_transaction_outs message = (\<lambda>(input, random).
     case unspent_transaction_outs (inp_output_reference input) of
       None \<Rightarrow> Inl (PyException ''Attempting to sign invalid transaction'')
     | Some p \<Rightarrow>
         let public_key = pk_bytes (out_public_key p) in
         if \<not> wallet_contains w public_key
         then Inl (PyException ''Can't sign this; no known private key in wallet'')
         else rbind (wallet_getitem w public_key) (\<lambda>private_key.
              rbind (kt_sign kt private_key message random) (\<lambda>s.
              rbind (mk_secp256k1_signature s) (\<lambda>sig.
              Inr \<lparr>inp_output_reference = inp_output_reference input, inp_signature = Some sig\<rparr>))))"

text \<open>The random numbers of the signatures come from \<open>randoms\<close>, by position.\<close>

definition sign_transaction ::
  "key_tools \<Rightarrow> (nat \<Rightarrow> nat) \<Rightarrow> wallet \<Rightarrow> unspent \<Rightarrow> transaction \<Rightarrow> transaction result" where
  "sign_transaction kt randoms w unspent_transaction_outs t =
     rbind (stream_serialize_transaction (transaction_signable_equivalent t)) (\<lambda>message.
     let inputs = tx_inputs (transaction_signable_equivalent t) in
     rbind (rmap (sign_input kt w unspent_transaction_outs message)
              (zip inputs (map randoms [0..<length inputs]))) (\<lambda>signed_inputs.
     Inr \<lparr>tx_inputs = signed_inputs, tx_outputs = tx_outputs t, tx_cached_hash = None\<rparr>))"

text \<open>
  The loops of \<open>create_spend_transaction\<close> as recursions over the output references of a key and over
  the keys, with the collected value and the inputs so far; \<open>True\<close> is the early return.
\<close>

fun collect_outputs ::
  "unspent \<Rightarrow> int \<Rightarrow> output_reference list \<Rightarrow> int \<times> tx_input list \<Rightarrow> (wallet, bool \<times> int \<times> tx_input list) action" where
  "collect_outputs u needed [] acc = aret (False, acc)"
| "collect_outputs u needed (r # rs) (collected_value, inputs) =
     abind (aget wl_spent_transaction_outputs) (\<lambda>spent.
     if r \<in> spent then collect_outputs u needed rs (collected_value, inputs)
     else athen (amod (\<lambda>w. w\<lparr>wl_spent_transaction_outputs := insert r (wl_spent_transaction_outputs w)\<rparr>))
          (abind (alift (lookup_key u r)) (\<lambda>p.
           let collected_value = collected_value + out_value p;
               inputs = inputs @ [\<lparr>inp_output_reference = r, inp_signature = None\<rparr>] in
           if collected_value \<ge> needed then aret (True, collected_value, inputs)
           else collect_outputs u needed rs (collected_value, inputs))))"

definition references_of :: "crypto \<Rightarrow> coinstate \<Rightarrow> bytes \<Rightarrow> output_reference list result" where
  "references_of cr cs public_key =
     rbind (mk_public_key public_key) (\<lambda>k.
     rbind (balances_at_head cr cs) (\<lambda>(_, m).
     Inr (case m k of None \<Rightarrow> [] | Some b \<Rightarrow> pkb_refs b)))"

fun collect_keys ::
  "crypto \<Rightarrow> coinstate \<Rightarrow> unspent \<Rightarrow> int \<Rightarrow> bytes list \<Rightarrow> int \<times> tx_input list \<Rightarrow>
   (wallet, bool \<times> int \<times> tx_input list) action" where
  "collect_keys cr cs u needed [] acc = aret (False, acc)"
| "collect_keys cr cs u needed (public_key # keys) acc =
     abind (alift (references_of cr cs public_key)) (\<lambda>refs.
     abind (collect_outputs u needed refs acc) (\<lambda>(found, acc).
     if found then aret (True, acc) else collect_keys cr cs u needed keys acc))"

definition spend_outputs :: "int \<Rightarrow> int \<Rightarrow> int \<Rightarrow> public_key \<Rightarrow> public_key \<Rightarrow> tx_output list" where
  "spend_outputs collected_value value miners_fee output_public_key change_address =
     [\<lparr>out_value = value, out_public_key = output_public_key\<rparr>] @
     (if collected_value \<noteq> value + miners_fee
      then [\<lparr>out_value = collected_value - (value + miners_fee), out_public_key = change_address\<rparr>] else [])"

definition create_spend_transaction ::
  "crypto \<Rightarrow> key_tools \<Rightarrow> (nat \<Rightarrow> nat) \<Rightarrow> coinstate \<Rightarrow> int \<Rightarrow> int \<Rightarrow> public_key \<Rightarrow> public_key \<Rightarrow>
   (wallet, transaction) action" where
  "create_spend_transaction cr kt randoms cs value miners_fee output_public_key change_address =
     abind (alift (unspent_at_head cs)) (\<lambda>u.
     abind (aget (\<lambda>w. map fst (wl_keypairs w))) (\<lambda>keys.
     abind (collect_keys cr cs u (value + miners_fee) keys (0, [])) (\<lambda>(found, collected_value, inputs).
     if found
     then abind (aget id) (\<lambda>w. alift (sign_transaction kt randoms w u
            \<lparr>tx_inputs = inputs,
             tx_outputs = spend_outputs collected_value value miners_fee output_public_key change_address,
             tx_cached_hash = None\<rparr>))
     else araise (PyException ''Insufficient balance''))))"

section \<open>Addresses\<close>

definition parse_address :: "string \<Rightarrow> bytes result" where
  "parse_address s =
     (if take 3 s \<noteq> ''SKE'' then Inl AddressParseError
      else if drop (length s - 3) s \<noteq> ''PTI'' then Inl AddressParseError
      else if length s \<noteq> 3 + 128 + 3 then Inl AddressParseError
      else let digits = take (length s - 6) (drop 3 s) in
           if \<not> (\<forall>c\<in>set digits. c \<in> set ''0123456789abcdef'') then Inl AddressParseError
           else computer digits)"

definition is_valid_address :: "string \<Rightarrow> bool result" where
  "is_valid_address s =
     (case parse_address s of
        Inr _ \<Rightarrow> Inr True
      | Inl AddressParseError \<Rightarrow> Inr False
      | Inl e \<Rightarrow> Inl e)"

section \<open>Choosing outputs\<close>

abbreviation (input) unsigned :: "output_reference \<Rightarrow> tx_input" where
  "unsigned r \<equiv> \<lparr>inp_output_reference = r, inp_signature = None\<rparr>"

abbreviation (input) mark_spent :: "output_reference list \<Rightarrow> wallet \<Rightarrow> wallet" where
  "mark_spent taken w \<equiv> w\<lparr>wl_spent_transaction_outputs := wl_spent_transaction_outputs w \<union> set taken\<rparr>"

text \<open>What a run of the loops has taken, with \<open>seen\<close> the references it went over.\<close>

definition collected ::
  "unspent \<Rightarrow> int \<Rightarrow> output_reference set \<Rightarrow> wallet \<Rightarrow> int \<times> tx_input list \<Rightarrow> output_reference list \<Rightarrow>
   bool \<times> int \<times> tx_input list \<Rightarrow> wallet \<Rightarrow> bool" where
  "collected u needed seen w acc taken res w' \<longleftrightarrow>
     set taken \<subseteq> seen \<and> distinct taken \<and> set taken \<inter> wl_spent_transaction_outputs w = {} \<and> set taken \<subseteq> dom u \<and>
     snd res = (fst acc + sum_list (map (value_at u) taken), snd acc @ map unsigned taken) \<and>
     w' = mark_spent taken w \<and>
     (if fst res then taken \<noteq> [] \<and> needed \<le> fst (snd res)
      else seen \<subseteq> wl_spent_transaction_outputs w' \<and> (fst acc < needed \<longrightarrow> fst (snd res) < needed))"

lemma collected_none: "collected u needed {} w acc [] (False, acc) w"
  by (cases acc) (simp add: collected_def)

lemma collected_unfinished:
  "collected u needed seen w acc taken (False, acc') w' \<Longrightarrow>
     seen \<subseteq> wl_spent_transaction_outputs w' \<and> (fst acc < needed \<longrightarrow> fst acc' < needed)"
  unfolding collected_def fst_conv snd_conv if_False by blast

lemma collected_then:
  assumes "collected u needed seen w acc taken (False, acc1) w1" and "collected u needed seen' w1 acc1 taken' res w'"
  shows "collected u needed (seen \<union> seen') w acc (taken @ taken') res w'"
proof -
  have w1: "w1 = mark_spent taken w" and w': "w' = mark_spent taken' w1"
    and acc1: "acc1 = (fst acc + sum_list (map (value_at u) taken), snd acc @ map unsigned taken)"
    using assms by (simp_all add: collected_def)
  have spent: "wl_spent_transaction_outputs w1 = wl_spent_transaction_outputs w \<union> set taken" by (simp add: w1)
  have "set (taken @ taken') \<subseteq> seen \<union> seen'" "set (taken @ taken') \<subseteq> dom u"
    "set (taken @ taken') \<inter> wl_spent_transaction_outputs w = {}" "distinct (taken @ taken')"
    using assms unfolding collected_def spent by (simp_all; blast)+
  moreover have "w' = mark_spent (taken @ taken') w" by (simp add: w' w1 Un_assoc)
  moreover have "seen \<union> seen' \<subseteq> wl_spent_transaction_outputs w'" if "\<not> fst res"
  proof -
    have "seen \<subseteq> wl_spent_transaction_outputs w1"
      using collected_unfinished [OF assms(1)] by blast
    moreover have "seen' \<subseteq> wl_spent_transaction_outputs w'"
      using assms(2) that unfolding collected_def by (elim conjE) (simp only: if_False simp_thms)
    ultimately show ?thesis by (auto simp: w')
  qed
  moreover have "snd res = (fst acc1 + sum_list (map (value_at u) taken'), snd acc1 @ map unsigned taken')"
    using assms(2) unfolding collected_def by blast
  moreover have "taken' \<noteq> [] \<and> needed \<le> fst (snd res)" if "fst res"
    using assms(2) that unfolding collected_def by (elim conjE) (simp only: if_True simp_thms)
  moreover have "fst acc < needed \<longrightarrow> fst (snd res) < needed" if "\<not> fst res"
  proof -
    have "fst acc1 < needed \<longrightarrow> fst (snd res) < needed"
      using assms(2) that unfolding collected_def by (elim conjE) (simp only: if_False simp_thms; blast)
    moreover have "fst acc < needed \<longrightarrow> fst acc1 < needed"
      using collected_unfinished [OF assms(1)] by blast
    ultimately show ?thesis by blast
  qed
  ultimately show ?thesis
    unfolding collected_def by (cases "fst res") (simp_all add: acc1 add.assoc)
qed

lemma collected_more:
  "collected u needed seen w acc taken res w' \<Longrightarrow> fst res \<Longrightarrow> seen \<subseteq> seen' \<Longrightarrow> collected u needed seen' w acc taken res w'"
  by (auto simp: collected_def)

lemma collect_outputs_collected:
  "collect_outputs u needed rs acc w = (Inr res, w') \<Longrightarrow> \<exists>taken. collected u needed (set rs) w acc taken res w'"
proof (induction u needed rs acc arbitrary: w rule: collect_outputs.induct)
  case (1 u needed acc)
  then have "res = (False, acc)" "w' = w" by (auto simp: action_apply)
  then show ?case using collected_none by fastforce
next
  case (2 u needed r rs cv ins)
  show ?case
  proof (cases "r \<in> wl_spent_transaction_outputs w")
    case True
    then have "collected u needed {r} w (cv, ins) [] (False, cv, ins) w" by (simp add: collected_def)
    with 2 True show ?thesis by (fastforce simp: abind_apply dest: collected_then)
  next
    case False
    let ?w = "w\<lparr>wl_spent_transaction_outputs := insert r (wl_spent_transaction_outputs w)\<rparr>"
    obtain p where p: "u r = Some p"
      using 2(3) False by (cases "u r") (simp_all add: abind_apply abind_def lookup_key_def action_apply)
    let ?acc = "(cv + out_value p, ins @ [unsigned r])"
    have run: "(if cv + out_value p \<ge> needed then aret (True, ?acc) else collect_outputs u needed rs ?acc) ?w = (Inr res, w')"
      using 2(3) False p by (simp add: abind_apply abind_def [of "alift r" for r] lookup_key_def action_apply Let_def)
    have one: "collected u needed {r} w (cv, ins) [r] (b, ?acc) ?w" if "b \<longleftrightarrow> cv + out_value p \<ge> needed" for b
      using that False p by (auto simp: collected_def value_at_def)
    show ?thesis
    proof (cases "cv + out_value p \<ge> needed")
      case True
      with run have "res = (True, ?acc)" "w' = ?w" by (auto simp: action_apply)
      moreover have "collected u needed (set (r # rs)) w (cv, ins) [r] (True, ?acc) ?w"
        by (rule collected_more [OF one]) (use True in simp_all)
      ultimately show ?thesis by blast
    next
      case more: False
      with run have "collect_outputs u needed rs ?acc ?w = (Inr res, w')" by simp
      from 2(2) [OF False refl refl _ this] more obtain taken where "collected u needed (set rs) ?w ?acc taken res w'"
        by auto
      with collected_then [OF one [of False] this] more show ?thesis by auto
    qed
  qed
qed

lemma collect_keys_collected:
  "collect_keys cr cs u needed keys acc w = (Inr res, w') \<Longrightarrow>
     \<exists>taken. collected u needed (\<Union>k\<in>set keys. case references_of cr cs k of Inr rs \<Rightarrow> set rs | Inl e \<Rightarrow> {}) w acc taken res w'"
proof (induction keys arbitrary: acc w)
  case Nil
  then have "res = (False, acc)" "w' = w" by (auto simp: action_apply)
  then show ?case using collected_none by fastforce
next
  case (Cons k keys)
  then obtain rs where rs: "references_of cr cs k = Inr rs"
    by (cases "references_of cr cs k") (simp_all add: abind_def action_apply)
  obtain r1 w1 where one: "collect_outputs u needed rs acc w = (r1, w1)" by fastforce
  with Cons.prems rs obtain found acc1 where r1: "r1 = Inr (found, acc1)"
    by (cases r1) (auto simp: abind_def action_apply)
  with one obtain taken where taken: "collected u needed (set rs) w acc taken (found, acc1) w1"
    using collect_outputs_collected by blast
  show ?case
  proof (cases found)
    case True
    with Cons.prems rs one r1 have "res = (found, acc1)" "w' = w1" by (auto simp: abind_def action_apply)
    moreover have "collected u needed
        (\<Union>k\<in>set (k # keys). case references_of cr cs k of Inr rs \<Rightarrow> set rs | Inl e \<Rightarrow> {}) w acc taken (found, acc1) w1"
      by (rule collected_more [OF taken]) (use True rs in auto)
    ultimately show ?thesis by blast
  next
    case False
    with Cons.prems rs one r1 have "collect_keys cr cs u needed keys acc1 w1 = (Inr res, w')"
      by (simp add: abind_def action_apply)
    from Cons.IH [OF this] obtain taken' where "collected u needed
        (\<Union>k\<in>set keys. case references_of cr cs k of Inr rs \<Rightarrow> set rs | Inl e \<Rightarrow> {}) w1 acc1 taken' res w'" by blast
    then have "collected u needed (set rs \<union>
        (\<Union>k\<in>set keys. case references_of cr cs k of Inr rs \<Rightarrow> set rs | Inl e \<Rightarrow> {})) w acc (taken @ taken') res w'"
      by (rule collected_then [rotated]) (use taken False in simp)
    then show ?thesis using rs by (intro exI [of _ "taken @ taken'"]) simp
  qed
qed

section \<open>Signing\<close>

lemma sign_input_eq_Inr:
  "sign_input kt w u m (i, r) = Inr j \<longleftrightarrow> (\<exists>p priv s.
     u (inp_output_reference i) = Some p \<and> map_of (wl_keypairs w) (pk_bytes (out_public_key p)) = Some priv \<and>
     kt_sign kt priv m r = Inr s \<and> length s = 64 \<and>
     j = \<lparr>inp_output_reference = inp_output_reference i, inp_signature = Some (SECP256k1Signature s)\<rparr>)"
  by (auto simp: sign_input_def Let_def wallet_contains_def wallet_getitem_def result_simps lookup_key_eq_Inr
      mk_secp256k1_signature_def split: option.split)

text \<open>The signature is one of the wallet's key for the output that is spent.\<close>

definition signed_by :: "key_tools \<Rightarrow> wallet \<Rightarrow> unspent \<Rightarrow> bytes \<Rightarrow> tx_input \<Rightarrow> bool" where
  "signed_by kt w u m i \<longleftrightarrow> (\<exists>p priv r s. u (inp_output_reference i) = Some p \<and>
     map_of (wl_keypairs w) (pk_bytes (out_public_key p)) = Some priv \<and>
     kt_sign kt priv m r = Inr s \<and> length s = 64 \<and> inp_signature i = Some (SECP256k1Signature s))"

lemma sign_inputs_eq_Inr:
  "rmap (sign_input kt w u m) (zip is rs) = Inr js \<Longrightarrow> length rs = length is \<Longrightarrow>
     map inp_output_reference js = map inp_output_reference is \<and> (\<forall>j\<in>set js. signed_by kt w u m j)"
proof (induction "is" arbitrary: rs js)
  case (Cons i "is")
  then obtain r rs' where "rs = r # rs'" by (cases rs) auto
  with Cons show ?case by (fastforce simp: rbind_eq_Inr sign_input_eq_Inr signed_by_def)
qed simp

lemma signable_equivalent_cong:
  "input_refs t = input_refs t' \<Longrightarrow> tx_outputs t = tx_outputs t' \<Longrightarrow>
     transaction_signable_equivalent t = transaction_signable_equivalent t'"
proof -
  have eq: "map input_signable_equivalent xs = map (\<lambda>r. \<lparr>inp_output_reference = r, inp_signature = Some SignableEquivalent\<rparr>)
      (map inp_output_reference xs)" for xs
    by (simp add: input_signable_equivalent_def comp_def)
  show "input_refs t = input_refs t' \<Longrightarrow> tx_outputs t = tx_outputs t' \<Longrightarrow>
     transaction_signable_equivalent t = transaction_signable_equivalent t'"
    unfolding transaction_signable_equivalent_def input_refs_def eq by simp
qed

lemma input_refs_signable [simp]: "input_refs (transaction_signable_equivalent t) = input_refs t"
  by (simp add: transaction_signable_equivalent_def input_refs_def input_signable_equivalent_def)

lemma sign_transaction_signed:
  assumes "sign_transaction kt randoms w u t = Inr t'"
  shows "tx_outputs t' = tx_outputs t" and "input_refs t' = input_refs t"
    and "\<exists>m. stream_serialize_transaction (transaction_signable_equivalent t') = Inr m \<and>
      (\<forall>i\<in>set (tx_inputs t'). signed_by kt w u m i)"
proof -
  let ?is = "tx_inputs (transaction_signable_equivalent t)"
  from assms obtain m js where m: "stream_serialize_transaction (transaction_signable_equivalent t) = Inr m"
    and js: "rmap (sign_input kt w u m) (zip ?is (map randoms [0..<length ?is])) = Inr js"
    and t': "t' = \<lparr>tx_inputs = js, tx_outputs = tx_outputs t, tx_cached_hash = None\<rparr>"
    by (auto simp: sign_transaction_def rbind_eq_Inr Let_def)
  have signed: "map inp_output_reference js = map inp_output_reference ?is \<and> (\<forall>j\<in>set js. signed_by kt w u m j)"
    by (rule sign_inputs_eq_Inr [OF js]) simp
  then show refs: "input_refs t' = input_refs t" and outs: "tx_outputs t' = tx_outputs t"
    using input_refs_signable [of t] by (simp_all add: t' input_refs_def)
  from m signed signable_equivalent_cong [OF refs outs]
  show "\<exists>m. stream_serialize_transaction (transaction_signable_equivalent t') = Inr m \<and>
      (\<forall>i\<in>set (tx_inputs t'). signed_by kt w u m i)"
    by (intro exI [of _ m]) (simp add: t')
qed

text \<open>
  What the \<open>ecdsa\<close> package promises of the wallet's pairs of keys: the public key is a point of the
  curve, and it verifies what the private key signs.
\<close>

definition keypairs_work :: "crypto \<Rightarrow> key_tools \<Rightarrow> wallet \<Rightarrow> bool" where
  "keypairs_work cr kt w \<longleftrightarrow> (\<forall>(pub, priv)\<in>set (wl_keypairs w). ecdsa_point_ok cr pub \<and>
     (\<forall>m r s. kt_sign kt priv m r = Inr s \<longrightarrow> ecdsa_verify cr pub s m))"

lemma signed_by_authorised:
  assumes "keypairs_work cr kt w" and "stream_serialize_transaction (transaction_signable_equivalent t) = Inr m"
    and "signed_by kt w u m i"
  shows "authorised cr u t i" and "signed_input i"
proof -
  obtain p priv r s where p: "u (inp_output_reference i) = Some p"
    and priv: "map_of (wl_keypairs w) (pk_bytes (out_public_key p)) = Some priv"
    and s: "kt_sign kt priv m r = Inr s" "inp_signature i = Some (SECP256k1Signature s)"
    using assms(3) by (auto simp: signed_by_def)
  have "(pk_bytes (out_public_key p), priv) \<in> set (wl_keypairs w)" using priv by (rule map_of_SomeD)
  then show "authorised cr u t i" using assms(1,2) p s by (fastforce simp: authorised_def keypairs_work_def)
  show "signed_input i" using s by (simp add: signed_input_def)
qed

section \<open>Spending\<close>

lemma create_spend_transaction_Inr:
  assumes run: "create_spend_transaction cr kt randoms cs value miners_fee to_pk change_pk w = (Inr t, w')"
    and u: "unspent_at_head cs = Inr u"
  obtains taken where "taken \<noteq> []" "distinct taken" "set taken \<inter> wl_spent_transaction_outputs w = {}"
    "set taken \<subseteq> dom u" "w' = mark_spent taken w" "value + miners_fee \<le> sum_list (map (value_at u) taken)"
    "input_refs t = taken"
    "tx_outputs t = spend_outputs (sum_list (map (value_at u) taken)) value miners_fee to_pk change_pk"
    "\<exists>m. stream_serialize_transaction (transaction_signable_equivalent t) = Inr m \<and>
      (\<forall>i\<in>set (tx_inputs t). signed_by kt w u m i)"
proof -
  let ?keys = "map fst (wl_keypairs w)"
  obtain r w1 where c: "collect_keys cr cs u (value + miners_fee) ?keys (0, []) w = (r, w1)" by fastforce
  with run u obtain res where r: "r = Inr res"
    by (cases r) (auto simp: create_spend_transaction_def abind_def action_apply)
  obtain found cv ins where res: "res = (found, cv, ins)" by (cases res) auto
  have found: "found" using run u c r res
    by (cases found) (auto simp: create_spend_transaction_def abind_def action_apply)
  obtain seen taken where taken: "collected u (value + miners_fee) seen w (0, []) taken (True, cv, ins) w1"
    using collect_keys_collected [OF c [unfolded r res]] found by auto
  have w1: "w1 = mark_spent taken w" and cv: "cv = sum_list (map (value_at u) taken)" and ins: "ins = map unsigned taken"
    using taken by (simp_all add: collected_def)
  let ?t = "\<lparr>tx_inputs = ins, tx_outputs = spend_outputs cv value miners_fee to_pk change_pk, tx_cached_hash = None\<rparr>"
  have sign: "sign_transaction kt randoms w1 u ?t = Inr t" and w': "w' = w1"
    using run u c r res found by (auto simp: create_spend_transaction_def abind_def action_apply)
  have keys: "signed_by kt w1 u m i = signed_by kt w u m i" for m i by (simp add: signed_by_def w1)
  show thesis
  proof (rule that)
    show "input_refs t = taken"
      using sign_transaction_signed(2) [OF sign] by (simp add: ins input_refs_def comp_def)
    show "tx_outputs t = spend_outputs (sum_list (map (value_at u) taken)) value miners_fee to_pk change_pk"
      using sign_transaction_signed(1) [OF sign] by (simp add: cv)
    show "\<exists>m. stream_serialize_transaction (transaction_signable_equivalent t) = Inr m \<and>
        (\<forall>i\<in>set (tx_inputs t). signed_by kt w u m i)"
      using sign_transaction_signed(3) [OF sign] by (simp add: keys)
    show "value + miners_fee \<le> sum_list (map (value_at u) taken)" using taken by (simp add: collected_def)
    show "w' = mark_spent taken w" by (simp add: w' w1)
  qed (use taken in \<open>simp_all add: collected_def\<close>)
qed

lemma outputs_value_spend:
  "sum_list (map out_value (spend_outputs cv value fee k k')) = cv - fee" if "value + fee \<le> cv"
  using that by (auto simp: spend_outputs_def)

text \<open>What the ledger guarantees of the unspent outputs at a head.\<close>

definition unspent_ok :: "unspent \<Rightarrow> bool" where
  "unspent_ok u \<longleftrightarrow> finite (dom u) \<and> values_nonneg u \<and> total_value u \<le> MAX_SASHIMI \<and>
     (\<forall>r p. u r = Some p \<longrightarrow>
       output_reference_wf r \<and> \<not> references_thin_air r \<and> public_key_wf (out_public_key p))"

lemma sum_taken_bound:
  assumes "unspent_ok u" and "distinct taken" and "set taken \<subseteq> dom u"
  shows "sum_list (map (value_at u) taken) \<le> MAX_SASHIMI"
proof -
  have "sum_list (map (value_at u) taken) = (\<Sum>r\<in>set taken. value_at u r)"
    by (rule sum_list_distinct_conv_sum_set [OF assms(2)])
  also have "\<dots> \<le> total_value u"
    unfolding total_value_def using assms by (intro sum_mono2) (auto simp: unspent_ok_def value_at_nonneg)
  finally show ?thesis using assms(1) by (simp add: unspent_ok_def)
qed

lemma spend_accepted:
  assumes run: "create_spend_transaction cr kt randoms cs value miners_fee to_pk change_pk w = (Inr t, w')"
    and u: "unspent_at_head cs = Inr u" and ok: "unspent_ok u" and keys: "keypairs_work cr kt w"
    and pos: "0 < value" "0 \<le> miners_fee"
    and size: "stream_serialize_transaction t = Inr bs" "int (length bs) \<le> MAX_BLOCK_SIZE"
  shows "transaction_ok t" and "spend_ok cr u t" and "get_transaction_fee t u = Inr miners_fee"
proof -
  obtain taken where taken: "taken \<noteq> []" "distinct taken" "set taken \<subseteq> dom u" "input_refs t = taken"
    and enough: "value + miners_fee \<le> sum_list (map (value_at u) taken)"
    and outs: "tx_outputs t = spend_outputs (sum_list (map (value_at u) taken)) value miners_fee to_pk change_pk"
    and signed: "\<exists>m. stream_serialize_transaction (transaction_signable_equivalent t) = Inr m \<and>
      (\<forall>i\<in>set (tx_inputs t). signed_by kt w u m i)"
    by (rule create_spend_transaction_Inr [OF run u]) blast
  let ?cv = "sum_list (map (value_at u) taken)"
  have out: "outputs_value t = ?cv - miners_fee"
    using outputs_value_spend [OF enough] by (simp add: outputs_value_def outs)
  have bound: "?cv \<le> MAX_SASHIMI" by (rule sum_taken_bound [OF ok taken(2,3)])
  have auth: "authorised cr u t i" "signed_input i" if "i \<in> set (tx_inputs t)" for i
    using signed that signed_by_authorised [OF keys] by blast+
  show "spend_ok cr u t" using auth(1) pos by (simp add: spend_ok_def out taken(4))
  show "get_transaction_fee t u = Inr miners_fee"
    unfolding get_transaction_fee_eq_Inr using taken(3,4) out by simp
  have thin: "\<not> references_thin_air (inp_output_reference i)" if "i \<in> set (tx_inputs t)" for i
  proof -
    have "inp_output_reference i \<in> set (input_refs t)" using that by (simp add: input_refs_def)
    then have "inp_output_reference i \<in> dom u" using taken(3,4) by blast
    then show ?thesis using ok by (auto simp: unspent_ok_def)
  qed
  have "\<forall>p\<in>set (tx_outputs t). 0 < out_value p \<and> out_value p \<le> MAX_SASHIMI"
    using enough bound pos by (auto simp: outs spend_outputs_def)
  then show "transaction_ok t"
    using taken size auth(2) thin out enough bound pos
    by (auto simp: transaction_ok_def outs spend_outputs_def input_refs_def)
qed

subsection \<open>A spend succeeds when there is enough\<close>

definition spendable :: "wallet \<Rightarrow> unspent \<Rightarrow> output_reference set" where
  "spendable w u = {r. r \<notin> wl_spent_transaction_outputs w \<and>
     (\<exists>p. u r = Some p \<and> pk_bytes (out_public_key p) \<in> fst ` set (wl_keypairs w))}"

text \<open>Signing with the wallet's keys returns 64 bytes, and its public keys have 64 bytes.\<close>

definition keypairs_sign :: "key_tools \<Rightarrow> wallet \<Rightarrow> bool" where
  "keypairs_sign kt w \<longleftrightarrow> (\<forall>(pub, priv)\<in>set (wl_keypairs w). length pub = 64 \<and>
     (\<forall>m r. \<exists>s. kt_sign kt priv m r = Inr s \<and> length s = 64))"

lemma collect_outputs_returns:
  "set rs \<subseteq> dom u \<Longrightarrow> \<exists>res w'. collect_outputs u needed rs acc w = (Inr res, w')"
proof (induction u needed rs acc arbitrary: w rule: collect_outputs.induct)
  case (2 u needed r rs cv ins)
  then obtain p where p: "u r = Some p" by auto
  show ?case
    using 2 p by (cases "r \<in> wl_spent_transaction_outputs w")
      (auto simp: abind_apply abind_def [of "alift x" for x] lookup_key_def action_apply Let_def)
qed (auto simp: action_apply)

lemma collect_keys_returns:
  assumes "\<forall>k\<in>set keys. \<exists>rs. references_of cr cs k = Inr rs \<and> set rs \<subseteq> dom u"
  shows "\<exists>res w'. collect_keys cr cs u needed keys acc w = (Inr res, w')"
  using assms
proof (induction keys arbitrary: acc w)
  case (Cons k keys)
  then obtain rs where rs: "references_of cr cs k = Inr rs" "set rs \<subseteq> dom u" by auto
  obtain found acc1 w1 where one: "collect_outputs u needed rs acc w = (Inr (found, acc1), w1)"
    using collect_outputs_returns [OF rs(2), of needed acc w] by auto
  have "\<exists>res w'. collect_keys cr cs u needed keys acc1 w1 = (Inr res, w')" using Cons by simp
  then show ?case using rs(1) one by (cases found) (auto simp: abind_def action_apply)
qed (auto simp: action_apply)

lemma references_of_describes:
  assumes "balances_at_head cr cs = Inr (cs', m)" and "describes u m" and "length k = 64"
  shows "\<exists>rs. references_of cr cs k = Inr rs \<and> set rs = owned u (SECP256k1PublicKey k)"
proof (cases "m (SECP256k1PublicKey k)")
  case None
  then show ?thesis using assms describes_NoneD [OF assms(2)]
    by (simp add: references_of_def mk_public_key_def raise_if_def)
next
  case (Some b)
  then show ?thesis using assms describes_SomeD [OF assms(2)]
    by (simp add: references_of_def mk_public_key_def raise_if_def balance_ok_def)
qed

text \<open>The references the loops go over, when the balances describe the unspent outputs.\<close>

definition gone_over :: "crypto \<Rightarrow> coinstate \<Rightarrow> bytes list \<Rightarrow> output_reference set" where
  "gone_over cr cs keys = (\<Union>k\<in>set keys. case references_of cr cs k of Inr rs \<Rightarrow> set rs | Inl e \<Rightarrow> {})"

lemma gone_over_spendable:
  assumes m: "balances_at_head cr cs = Inr (cs', m)" "describes u m" and len: "\<forall>k\<in>fst ` set (wl_keypairs w). length k = 64"
  shows "gone_over cr cs (map fst (wl_keypairs w)) - wl_spent_transaction_outputs w = spendable w u"
    and "\<forall>k\<in>set (map fst (wl_keypairs w)). \<exists>rs. references_of cr cs k = Inr rs \<and> set rs \<subseteq> dom u"
proof -
  have refs: "\<exists>rs. references_of cr cs k = Inr rs \<and> set rs = owned u (SECP256k1PublicKey k)"
    if "k \<in> fst ` set (wl_keypairs w)" for k
    using that len by (intro references_of_describes [OF m]) blast
  have over: "gone_over cr cs (map fst (wl_keypairs w)) = (\<Union>k\<in>fst ` set (wl_keypairs w). owned u (SECP256k1PublicKey k))"
    unfolding gone_over_def set_map by (rule SUP_cong) (use refs in fastforce)+
  have "r \<in> owned u (SECP256k1PublicKey k) \<longleftrightarrow> (\<exists>p. u r = Some p \<and> pk_bytes (out_public_key p) = k)" for r k
    unfolding owned_def by (auto intro: public_key.expand)
  then show "gone_over cr cs (map fst (wl_keypairs w)) - wl_spent_transaction_outputs w = spendable w u"
    unfolding over spendable_def by blast
  show "\<forall>k\<in>set (map fst (wl_keypairs w)). \<exists>rs. references_of cr cs k = Inr rs \<and> set rs \<subseteq> dom u"
    unfolding set_map using refs by (fastforce simp: owned_def)
qed

lemma spendable_subset: "spendable w u \<subseteq> dom u"
  by (auto simp: spendable_def)

text \<open>The run of the loops: it takes spendable outputs, all of them unless it finds enough.\<close>

lemma collect_keys_run:
  assumes m: "balances_at_head cr cs = Inr (cs', m)" "describes u m" and len: "\<forall>k\<in>fst ` set (wl_keypairs w). length k = 64"
  obtains found taken where
    "collect_keys cr cs u needed (map fst (wl_keypairs w)) (0, []) w =
       (Inr (found, sum_list (map (value_at u) taken), map unsigned taken), mark_spent taken w)"
    "distinct taken" "set taken \<subseteq> spendable w u" "found \<Longrightarrow> needed \<le> sum_list (map (value_at u) taken)"
    "\<not> found \<Longrightarrow> set taken = spendable w u" "\<not> found \<Longrightarrow> 0 < needed \<Longrightarrow> sum_list (map (value_at u) taken) < needed"
proof -
  let ?keys = "map fst (wl_keypairs w)"
  note over = gone_over_spendable [OF m len]
  obtain res w1 where c: "collect_keys cr cs u needed ?keys (0, []) w = (Inr res, w1)"
    using collect_keys_returns [OF over(2)] by blast
  obtain found cv ins where res: "res = (found, cv, ins)" by (cases res) auto
  obtain taken where taken: "collected u needed (gone_over cr cs ?keys) w (0, []) taken (found, cv, ins) w1"
    using collect_keys_collected [OF c] unfolding gone_over_def res by blast
  then have w1: "w1 = mark_spent taken w" and cv: "cv = sum_list (map (value_at u) taken)" and ins: "ins = map unsigned taken"
    and t: "distinct taken" "set taken \<subseteq> gone_over cr cs ?keys" "set taken \<inter> wl_spent_transaction_outputs w = {}"
    by (simp_all add: collected_def)
  show thesis
  proof (rule that)
    show "collect_keys cr cs u needed ?keys (0, []) w =
       (Inr (found, sum_list (map (value_at u) taken), map unsigned taken), mark_spent taken w)"
      using c by (simp add: res w1 cv ins)
    show sub: "set taken \<subseteq> spendable w u" using t(2,3) unfolding over(1) [symmetric] by blast
    show "needed \<le> sum_list (map (value_at u) taken)" if found using taken that by (simp add: collected_def)
    assume "\<not> found"
    then have "collected u needed (gone_over cr cs ?keys) w (0, []) taken (False, cv, ins) w1" using taken by simp
    note unfinished = collected_unfinished [OF this]
    have "spendable w u \<subseteq> set taken"
      using unfinished unfolding over(1) [symmetric] by (auto simp: w1)
    with sub show "set taken = spendable w u" by (rule subset_antisym)
    show "0 < needed \<Longrightarrow> sum_list (map (value_at u) taken) < needed" using unfinished by (simp add: cv)
  qed (rule t(1))
qed

lemma rmap_returns: "(\<And>x. x \<in> set xs \<Longrightarrow> \<exists>y. f x = Inr y) \<Longrightarrow> \<exists>ys. rmap f xs = Inr ys"
proof (induction xs)
  case (Cons x xs)
  then have "\<exists>y. f x = Inr y" "\<exists>ys. rmap f xs = Inr ys" by auto
  then show ?case by auto
qed simp

lemma create_spend_returns:
  assumes m: "balances_at_head cr cs = Inr (cs', m)" "describes u m"
    and u: "unspent_at_head cs = Inr u" "unspent_ok u"
    and keys: "keypairs_sign kt w" and pks: "public_key_wf to_pk" "public_key_wf change_pk"
    and pos: "0 < value" "0 \<le> miners_fee"
    and enough: "value + miners_fee \<le> (\<Sum>r\<in>spendable w u. value_at u r)"
  shows "\<exists>t w'. create_spend_transaction cr kt randoms cs value miners_fee to_pk change_pk w = (Inr t, w')"
proof -
  let ?needed = "value + miners_fee"
  have len: "\<forall>k\<in>fst ` set (wl_keypairs w). length k = 64" using keys by (auto simp: keypairs_sign_def)
  obtain found taken where c: "collect_keys cr cs u ?needed (map fst (wl_keypairs w)) (0, []) w =
       (Inr (found, sum_list (map (value_at u) taken), map unsigned taken), mark_spent taken w)"
    and t: "distinct taken" "set taken \<subseteq> spendable w u"
    and when_found: "found \<Longrightarrow> ?needed \<le> sum_list (map (value_at u) taken)"
    and when_not: "\<not> found \<Longrightarrow> set taken = spendable w u"
      "\<not> found \<Longrightarrow> 0 < ?needed \<Longrightarrow> sum_list (map (value_at u) taken) < ?needed"
    using collect_keys_run [OF m len] by metis
  have sum: "sum_list (map (value_at u) taken) = (\<Sum>r\<in>set taken. value_at u r)"
    by (rule sum_list_distinct_conv_sum_set [OF t(1)])
  have found: found using when_not enough pos by (force simp: sum)
  define cv where "cv = sum_list (map (value_at u) taken)"
  define ins where "ins = map unsigned taken"
  define w1 where "w1 = mark_spent taken w"
  note c = c [folded cv_def ins_def w1_def]
  have needed: "?needed \<le> cv" using when_found [OF found] by (simp add: cv_def)
  have dom: "set taken \<subseteq> dom u" using t(2) spendable_subset by blast
  let ?t = "\<lparr>tx_inputs = ins, tx_outputs = spend_outputs cv value miners_fee to_pk change_pk, tx_cached_hash = None\<rparr>"
  have wf: "output_reference_wf r" if "r \<in> set taken" for r using that dom u(2) by (auto simp: unspent_ok_def)
  have "cv \<le> MAX_SASHIMI" unfolding cv_def by (rule sum_taken_bound [OF u(2) t(1) dom])
  then have "transaction_wf (transaction_signable_equivalent ?t)"
    using wf pks pos needed
    by (auto simp: transaction_wf_def transaction_signable_equivalent_def input_signable_equivalent_def ins_def
        input_wf_def output_wf_def spend_outputs_def MAX_SASHIMI_def SASHIMI_PER_COIN_def)
  then obtain msg where msg: "stream_serialize_transaction (transaction_signable_equivalent ?t) = Inr msg"
    using tx_wire.ser_returns by blast
  let ?is = "tx_inputs (transaction_signable_equivalent ?t)"
  have "\<exists>j. sign_input kt w1 u msg (i, r) = Inr j" if "i \<in> set ?is" for i r
  proof -
    have "inp_output_reference i \<in> set taken"
      using that by (auto simp: transaction_signable_equivalent_def input_signable_equivalent_def ins_def)
    then obtain k priv p where k: "(k, priv) \<in> set (wl_keypairs w)" and p: "u (inp_output_reference i) = Some p"
        "pk_bytes (out_public_key p) = k"
      using t(2) unfolding spendable_def by fastforce
    from weak_map_of_SomeI [OF k] obtain priv' where priv': "map_of (wl_keypairs w) k = Some priv'" by blast
    then have "(k, priv') \<in> set (wl_keypairs w)" by (rule map_of_SomeD)
    with keys obtain s where "kt_sign kt priv' msg r = Inr s" "length s = 64" by (fastforce simp: keypairs_sign_def)
    then show ?thesis using p priv' by (auto simp: sign_input_eq_Inr w1_def)
  qed
  then have "\<exists>js. rmap (sign_input kt w1 u msg) (zip ?is (map randoms [0..<length ?is])) = Inr js"
    by (intro rmap_returns) (auto dest: set_zip_leftD)
  then obtain t where "sign_transaction kt randoms w1 u ?t = Inr t"
    using msg by (auto simp: sign_transaction_def Let_def)
  then have "create_spend_transaction cr kt randoms cs value miners_fee to_pk change_pk w = (Inr t, w1)"
    using c u(1) found by (simp add: create_spend_transaction_def abind_def action_apply)
  then show ?thesis by blast
qed

subsection \<open>A spend that fails\<close>

lemma create_spend_insufficient:
  assumes m: "balances_at_head cr cs = Inr (cs', m)" "describes u m" and u: "unspent_at_head cs = Inr u"
    and len: "\<forall>k\<in>fst ` set (wl_keypairs w). length k = 64"
    and short: "(\<Sum>r\<in>spendable w u. value_at u r) < value + miners_fee"
    and u_ok: "finite (dom u)" "values_nonneg u"
  shows "create_spend_transaction cr kt randoms cs value miners_fee to_pk change_pk w =
    (Inl (PyException ''Insufficient balance''),
     w\<lparr>wl_spent_transaction_outputs := wl_spent_transaction_outputs w \<union> spendable w u\<rparr>)"
proof -
  obtain found taken where c: "collect_keys cr cs u (value + miners_fee) (map fst (wl_keypairs w)) (0, []) w =
       (Inr (found, sum_list (map (value_at u) taken), map unsigned taken), mark_spent taken w)"
    and t: "distinct taken" "set taken \<subseteq> spendable w u"
    and when_found: "found \<Longrightarrow> value + miners_fee \<le> sum_list (map (value_at u) taken)"
    and when_not: "\<not> found \<Longrightarrow> set taken = spendable w u"
    using collect_keys_run [OF m len] by metis
  have "finite (spendable w u)" using u_ok(1) spendable_subset by (rule finite_subset [rotated])
  then have "(\<Sum>r\<in>set taken. value_at u r) \<le> (\<Sum>r\<in>spendable w u. value_at u r)"
    using t(2) u_ok(2) by (intro sum_mono2) (auto simp: value_at_nonneg)
  then have "\<not> found" using when_found short sum_list_distinct_conv_sum_set [OF t(1), of "value_at u"] by force
  with c u when_not show ?thesis by (simp add: create_spend_transaction_def abind_def action_apply)
qed

section \<open>The keys of a wallet\<close>

text \<open>
  Every public key is either annotated or unused, and none is both. A new key is taken to differ from
  the keys there are, which holds but for a collision of random keys.
\<close>

definition wallet_ok :: "wallet \<Rightarrow> bool" where
  "wallet_ok w \<longleftrightarrow> distinct (map fst (wl_keypairs w)) \<and>
     distinct (map fst (wl_public_key_annotations w) @ wl_unused_public_keys w) \<and>
     set (map fst (wl_public_key_annotations w) @ wl_unused_public_keys w) = set (map fst (wl_keypairs w))"

datatype wallet_call =
    GenerateKey nat
  | AnnotateKey nat string
  | RestoreKey bytes string

fun wallet_call_step :: "key_tools \<Rightarrow> wallet \<Rightarrow> wallet_call \<Rightarrow> wallet result" where
  "wallet_call_step kt w (GenerateKey random) = (let (r, w') = generate_key kt random w in rbind r (\<lambda>_. Inr w'))"
| "wallet_call_step kt w (AnnotateKey random annotation) =
     (let (r, w') = get_annotated_public_key random annotation w in rbind r (\<lambda>_. Inr w'))"
| "wallet_call_step kt w (RestoreKey public_key annotation) =
     (let (r, w') = restore_annotated_public_key public_key annotation w in rbind r (\<lambda>_. Inr w'))"

fun fresh_key :: "key_tools \<Rightarrow> wallet \<Rightarrow> wallet_call \<Rightarrow> bool" where
  "fresh_key kt w (GenerateKey random) \<longleftrightarrow> \<not> wallet_contains w (snd (kt_generate kt random))"
| "fresh_key kt w _ \<longleftrightarrow> True"

lemma keys_update_new: "map_of xs k = None \<Longrightarrow> map fst (AList.update k v xs) = map fst xs @ [k]"
  by (induction xs) (auto split: if_splits)

lemma keys_delete: "map fst (AList.delete k xs) = filter (\<lambda>k'. k' \<noteq> k) (map fst xs)"
  by (induction xs) auto

lemma wallet_call_ok:
  assumes ok: "wallet_ok w" and "fresh_key kt w c" and "wallet_call_step kt w c = Inr w'"
  shows "wallet_ok w'"
proof (cases c)
  case (GenerateKey random)
  obtain priv pub where kt: "kt_generate kt random = (priv, pub)" by fastforce
  have new: "map_of (wl_keypairs w) pub = None" using assms(2) by (simp add: GenerateKey kt wallet_contains_def)
  then have "pub \<notin> set (map fst (wl_keypairs w))" by (simp add: map_of_eq_None_iff)
  moreover have "w' = w\<lparr>wl_keypairs := AList.update pub priv (wl_keypairs w),
      wl_unused_public_keys := wl_unused_public_keys w @ [pub]\<rparr>"
    using assms(3) by (simp add: GenerateKey generate_key_def kt action_apply)
  ultimately show ?thesis
    using ok keys_update_new [OF new, of priv] unfolding wallet_ok_def by (simp del: set_map) blast
next
  case (AnnotateKey random annotation)
  show ?thesis
  proof (cases "wl_unused_public_keys w = []")
    case True
    then have "w' = w" using assms(3)
      by (cases "wl_keypairs w = []") (simp_all add: AnnotateKey get_annotated_public_key_def abind_apply action_apply)
    then show ?thesis using ok by simp
  next
    case False
    then obtain ks k where ks: "wl_unused_public_keys w = ks @ [k]" by (metis rev_exhaust)
    have "k \<notin> set (map fst (wl_public_key_annotations w))" using ok by (auto simp: wallet_ok_def ks)
    then have new: "map_of (wl_public_key_annotations w) k = None" by (simp add: map_of_eq_None_iff)
    have "w' = w\<lparr>wl_unused_public_keys := ks,
        wl_public_key_annotations := AList.update k annotation (wl_public_key_annotations w)\<rparr>"
      using assms(3) by (simp add: AnnotateKey get_annotated_public_key_def abind_apply abind_def action_apply ks Let_def)
    then show ?thesis
      using ok unfolding wallet_ok_def by (auto simp: ks keys_update_new [OF new] simp del: set_map)
  qed
next
  case (RestoreKey k annotation)
  then have k: "map_of (wl_public_key_annotations w) k \<noteq> None"
    and w': "w' = w\<lparr>wl_public_key_annotations := AList.delete k (wl_public_key_annotations w),
      wl_unused_public_keys := wl_unused_public_keys w @ [k]\<rparr>"
    using assms(3) by (auto simp: restore_annotated_public_key_def abind_apply action_apply split: if_splits)
  then have "k \<in> set (map fst (wl_public_key_annotations w))" by (simp add: map_of_eq_None_iff)
  then show ?thesis
    using ok unfolding wallet_ok_def by (auto simp: w' keys_delete distinct_filter simp del: set_map)
qed

interpretation wallet_machine: invariant_of "fresh_key kt" "wallet_call_step kt" empty_wallet wallet_ok for kt
proof unfold_locales
  show "wallet_ok empty_wallet" by (simp add: wallet_ok_def empty_wallet_def mk_wallet_def)
qed (rule wallet_call_ok)

abbreviation wallet_reachable :: "key_tools \<Rightarrow> wallet \<Rightarrow> bool" where
  "wallet_reachable kt \<equiv> reachable (fresh_key kt) (wallet_call_step kt) empty_wallet"

section \<open>Balance\<close>

definition owned_by_wallet :: "wallet \<Rightarrow> unspent \<Rightarrow> output_reference set" where
  "owned_by_wallet w u = (\<Union>k\<in>set (map fst (wl_keypairs w)). owned u (SECP256k1PublicKey k))"

lemma balances_of_current_at_head: "balances_at_head cr cs = Inr (cs', m) \<Longrightarrow> balances_of_current cr cs = Inr m"
  by (auto simp: balances_at_head_def balances_of_current_def assert_current_def rbind_eq_Inr split: option.splits if_splits)

lemma balance_of_key:
  assumes "describes u m"
  shows "(case m k of None \<Rightarrow> 0 | Some b \<Rightarrow> pkb_value b) = (\<Sum>r\<in>owned u k. value_at u r)"
proof (cases "m k")
  case None
  then show ?thesis using describes_NoneD [OF assms] by simp
next
  case (Some b)
  from describes_SomeD [OF assms this] have "distinct (pkb_refs b)" "set (pkb_refs b) = owned u k"
    "pkb_value b = (\<Sum>r\<leftarrow>pkb_refs b. value_at u r)" by (simp_all add: balance_ok_def)
  then show ?thesis using sum_list_distinct_conv_sum_set [of "pkb_refs b" "value_at u"] by (simp add: Some)
qed

lemma get_balance_sum:
  assumes m: "balances_of_current cr cs = Inr m" "describes u m" and "\<forall>k\<in>set keys. length k = 64"
  shows "rfold (\<lambda>total pk. rbind (balances_of_current cr cs) (\<lambda>m. rbind (mk_public_key pk) (\<lambda>k.
      Inr (total + (case m k of None \<Rightarrow> 0 | Some b \<Rightarrow> pkb_value b))))) n keys =
    Inr (n + (\<Sum>k\<leftarrow>keys. \<Sum>r\<in>owned u (SECP256k1PublicKey k). value_at u r))"
  using assms(3)
  by (induction keys arbitrary: n) (simp_all add: m(1) mk_public_key_def raise_if_def balance_of_key [OF m(2)])

section \<open>Saving and addresses\<close>

lemma dict_of_distinct:
  "(\<And>x. x \<in> set xs \<Longrightarrow> f (g x) = Inr x) \<Longrightarrow> distinct (map fst (ys @ xs)) \<Longrightarrow>
     rfold (\<lambda>m x. rbind (f x) (\<lambda>(k, v). Inr (AList.update k v m))) ys (map g xs) = Inr (ys @ xs)"
proof (induction xs arbitrary: ys)
  case (Cons x xs)
  obtain k v where x: "x = (k, v)" by fastforce
  have new: "AList.update k v ys = ys @ [(k, v)]" if "k \<notin> set (map fst ys)"
    using that by (induction ys) auto
  show ?case
    using Cons.prems Cons.IH [of "ys @ [x]"] new by (simp add: x)
qed simp

lemma parse_address_iff:
  "parse_address s = Inr k \<longleftrightarrow> length k = 64 \<and> s = ''SKE'' @ human k @ ''PTI''"
proof
  assume ok: "parse_address s = Inr k"
  then have len: "length s = 134" and ends: "take 3 s = ''SKE''" "drop 131 s = ''PTI''"
    and hex: "\<forall>c\<in>set (take 128 (drop 3 s)). c \<in> set ''0123456789abcdef''"
    and k: "computer (take 128 (drop 3 s)) = Inr k"
    by (auto simp: parse_address_def Let_def split: if_splits)
  have "human k = take 128 (drop 3 s)" using human_computer [OF k] hex by blast
  moreover have "s = take 3 s @ take 128 (drop 3 s) @ drop 131 s"
    using append_take_drop_id [of 3 s] append_take_drop_id [of 128 "drop 3 s"] by simp
  moreover have "length k = 64" using length_computer [OF k] len by simp
  ultimately show "length k = 64 \<and> s = ''SKE'' @ human k @ ''PTI''" using ends by simp
next
  assume k: "length k = 64 \<and> s = ''SKE'' @ human k @ ''PTI''"
  then have len: "length s = 3 + 128 + 3" by simp
  moreover have "take 3 s = ''SKE''" "drop (length s - 3) s = ''PTI''" "take (length s - 6) (drop 3 s) = human k"
    using k by simp_all
  moreover have "\<forall>c\<in>set (human k). c \<in> set ''0123456789abcdef''" using human_digits [of k] by blast
  ultimately show "parse_address s = Inr k" unfolding parse_address_def Let_def by (simp only: computer_human) simp
qed

lemma parse_address_error: "parse_address s = Inl e \<Longrightarrow> e = AddressParseError"
proof -
  assume err: "parse_address s = Inl e"
  have hex: "\<exists>h. hex_value c = Some h" if "c \<in> set ''0123456789abcdef''" for c
    using that by (auto simp: hex_value_def)
  have computer: "\<exists>b. computer t = Inr b" if "\<forall>c\<in>set t. \<exists>h. hex_value c = Some h" "even (length t)" for t
    using that
  proof (induction t rule: computer.induct)
    case (3 c d t)
    then obtain h l where hl: "hex_value c = Some h" "hex_value d = Some l" by auto
    then have "\<exists>b. computer t = Inr b" by (intro 3(1) [OF refl]) (use 3(2,3) in auto)
    with hl show ?case by auto
  qed simp_all
  show ?thesis
  proof (rule ccontr)
    assume "e \<noteq> AddressParseError"
    with err have "length s = 134" and "\<forall>c\<in>set (take (length s - 6) (drop 3 s)). c \<in> set ''0123456789abcdef''"
      and e: "computer (take (length s - 6) (drop 3 s)) = Inl e"
      unfolding parse_address_def Let_def by (auto simp del: list.set split: if_splits)
    then have "\<exists>b. computer (take (length s - 6) (drop 3 s)) = Inr b" by (intro computer ballI hex) auto
    with e show False by simp
  qed
qed

section \<open>An example wallet\<close>

text \<open>Keys that are their own signatures, which the toy verification accepts.\<close>

definition sample_tools :: key_tools where
  "sample_tools = \<lparr>kt_generate = (\<lambda>n. (replicate 64 (word_of_nat n), replicate 64 (word_of_nat n))),
     kt_sign = (\<lambda>private_key message random. Inr (take 64 (private_key @ replicate 64 0)))\<rparr>"

definition sample_wallet :: wallet where
  "sample_wallet = mk_wallet [(replicate 64 3, replicate 64 3)] [replicate 64 3] []"

lemma sample_wallet_reachable: "wallet_reachable sample_tools sample_wallet"
proof (rule reachable.step [OF reachable.init, where e = "GenerateKey 3"])
  show "wallet_call_step sample_tools empty_wallet (GenerateKey 3) = Inr sample_wallet"
    by (simp add: generate_key_def sample_tools_def action_apply empty_wallet_def mk_wallet_def sample_wallet_def)
qed (simp add: wallet_contains_def empty_wallet_def mk_wallet_def)

lemma sample_keypairs: "keypairs_work toy_crypto sample_tools sample_wallet" "keypairs_sign sample_tools sample_wallet"
  "\<forall>k\<in>fst ` set (wl_keypairs sample_wallet). length k = 64"
  by (auto simp: keypairs_work_def keypairs_sign_def sample_tools_def sample_wallet_def mk_wallet_def)

lemma sample_unspent_eq: "sample_unspent = [\<lparr>ref_hash = sample_hash 8, ref_index = 0\<rparr> \<mapsto> sample_output 10 3]"
  using created_from_Cons [of Map.empty 0 "sample_hash 8" "sample_output 10 3" "[]"]
  by (simp add: sample_unspent_def created_from_0)

lemma sample_unspent_ok: "unspent_ok sample_unspent"
  by (auto simp: unspent_ok_def sample_unspent_eq values_nonneg_def total_value_def value_at_def sample_output_def
      MAX_SASHIMI_def SASHIMI_PER_COIN_def output_reference_wf_def references_thin_air_def)

lemma sample_head: "unspent_at_head sample_coinstate = Inr sample_unspent"
  "\<exists>cs' m. balances_at_head toy_crypto sample_coinstate = Inr (cs', m) \<and> describes sample_unspent m"
proof -
  show u: "unspent_at_head sample_coinstate = Inr sample_unspent"
    by (simp add: unspent_at_head_def assert_current_def sample_coinstate_def lookup_key_def)
  have "cs_ok toy_crypto sample_coinstate" using sample_reachable by (rule coinstate_machine.reachable_inv)
  from balances_at_head_describes [OF this sample_chain] u
  show "\<exists>cs' m. balances_at_head toy_crypto sample_coinstate = Inr (cs', m) \<and> describes sample_unspent m" by auto
qed

lemma sample_spendable: "(\<Sum>r\<in>spendable sample_wallet sample_unspent. value_at sample_unspent r) = 10"
proof -
  have "spendable sample_wallet sample_unspent = {\<lparr>ref_hash = sample_hash 8, ref_index = 0\<rparr>}"
    by (auto simp: spendable_def sample_unspent_eq sample_wallet_def mk_wallet_def sample_output_def split: if_splits)
  then show ?thesis by (simp add: value_at_def sample_unspent_eq sample_output_def)
qed

text \<open>A spend from the example state has one input and two outputs, so it fits in a block.\<close>

lemma sample_spend_size:
  assumes run: "create_spend_transaction cr sample_tools randoms sample_coinstate 4 1
      (SECP256k1PublicKey (replicate 64 9)) (SECP256k1PublicKey (replicate 64 3)) sample_wallet = (Inr t, w')"
  shows "\<exists>bs. stream_serialize_transaction t = Inr bs \<and> int (length bs) \<le> MAX_BLOCK_SIZE"
proof -
  let ?r = "\<lparr>ref_hash = sample_hash 8, ref_index = 0\<rparr>" and ?u = sample_unspent
  obtain taken where taken: "taken \<noteq> []" "distinct taken" "set taken \<subseteq> dom ?u" "input_refs t = taken"
    and outs: "tx_outputs t = spend_outputs (sum_list (map (value_at ?u) taken)) 4 1
      (SECP256k1PublicKey (replicate 64 9)) (SECP256k1PublicKey (replicate 64 3))"
    and signed: "\<exists>m. stream_serialize_transaction (transaction_signable_equivalent t) = Inr m \<and>
      (\<forall>i\<in>set (tx_inputs t). signed_by sample_tools sample_wallet ?u m i)"
    by (rule create_spend_transaction_Inr [OF run sample_head(1)])
  have "set taken = {?r}" using taken(1,3) by (cases taken) (auto simp: sample_unspent_eq split: if_splits)
  then have refs: "taken = [?r]" using taken(1,2) by (cases taken) (auto simp: subset_singleton_iff, fastforce?)
  have outs: "tx_outputs t = [sample_output 4 9, sample_output 5 3]"
    by (simp add: outs refs spend_outputs_def value_at_def sample_unspent_eq sample_output_def)
  obtain i where i: "tx_inputs t = [i]" "inp_output_reference i = ?r" using taken(4) by (auto simp: refs input_refs_def)
  then obtain s where s: "inp_signature i = Some (SECP256k1Signature s)" "length s = 64"
    using signed by (auto simp: signed_by_def)
  show ?thesis
    by (simp add: i s outs sample_output_def stream_serialize_transaction_def
      stream_serialize_list_def stream_serialize_input_def stream_serialize_output_def small_vlq
      stream_serialize_output_reference_def pack_uint_def type_bytes Let_def MAX_BLOCK_SIZE_def)
qed

lemma load_dump:
  assumes ok: "wallet_ok w"
  shows "load (dump w) = Inr (w\<lparr>wl_spent_transaction_outputs := {}\<rparr>)"
proof -
  have "rmap computer (map human us) = Inr us" for us by (induction us) simp_all
  moreover have "dict_of (\<lambda>(k, v). rbind (computer k) (\<lambda>k. rbind (computer v) (\<lambda>v. Inr (k, v))))
      (map (\<lambda>(k, v). (human k, human v)) (wl_keypairs w)) = Inr (wl_keypairs w)"
    using dict_of_distinct [where xs = "wl_keypairs w" and ys = "[]" and g = "\<lambda>(k, v). (human k, human v)"
        and f = "\<lambda>(k, v). rbind (computer k) (\<lambda>k. rbind (computer v) (\<lambda>v. Inr (k, v)))"] ok
    by (auto simp: dict_of_def wallet_ok_def)
  moreover have "dict_of (\<lambda>(k, annotation). rbind (computer k) (\<lambda>k. Inr (k, annotation)))
      (map (\<lambda>(k, annotation). (human k, annotation)) (wl_public_key_annotations w)) = Inr (wl_public_key_annotations w)"
    using dict_of_distinct [where xs = "wl_public_key_annotations w" and ys = "[]"
        and g = "\<lambda>(k, annotation). (human k, annotation)"
        and f = "\<lambda>(k, annotation). rbind (computer k) (\<lambda>k. Inr (k, annotation))"] ok
    by (auto simp: dict_of_def wallet_ok_def)
  ultimately show ?thesis by (simp add: load_def dump_def entry_def mk_wallet_def)
qed

lemma describes_finite: "describes u m \<Longrightarrow> finite (owned u k)"
proof (cases "m k")
  case (Some b)
  assume "describes u m"
  then have "owned u k = set (pkb_refs b)" by (auto simp: balance_ok_def Some dest!: describes_SomeD [where k = k])
  then show ?thesis by simp
qed (auto dest: describes_NoneD)

lemma balance_of_described:
  assumes "wallet_reachable kt w" and "balances_at_head cr cs = Inr (cs', m)" and "describes u m"
    and "\<forall>k\<in>fst ` set (wl_keypairs w). length k = 64"
  shows "get_balance cr w cs = Inr (\<Sum>r\<in>owned_by_wallet w u. value_at u r)"
proof -
  have ok: "wallet_ok w" using assms(1) by (rule wallet_machine.reachable_inv)
  let ?keys = "map fst (wl_public_key_annotations w) @ wl_unused_public_keys w"
  have keys: "set ?keys = fst ` set (wl_keypairs w)" "distinct ?keys" using ok by (simp_all add: wallet_ok_def)
  have "get_balance cr w cs = Inr (0 + (\<Sum>k\<leftarrow>?keys. \<Sum>r\<in>owned u (SECP256k1PublicKey k). value_at u r))"
    unfolding get_balance_def
    by (rule get_balance_sum [OF balances_of_current_at_head [OF assms(2)] assms(3)]) (use assms(4) keys in simp)
  also have "(\<Sum>k\<leftarrow>?keys. \<Sum>r\<in>owned u (SECP256k1PublicKey k). value_at u r) =
      (\<Sum>k\<in>set ?keys. \<Sum>r\<in>owned u (SECP256k1PublicKey k). value_at u r)"
    by (rule sum_list_distinct_conv_sum_set [OF keys(2)])
  also have "\<dots> = (\<Sum>r\<in>owned_by_wallet w u. value_at u r)"
    unfolding owned_by_wallet_def set_map keys(1)
  proof (rule sum.UNION_disjoint [symmetric])
    show "\<forall>k\<in>fst ` set (wl_keypairs w). finite (owned u (SECP256k1PublicKey k))"
    proof
      fix k show "finite (owned u (SECP256k1PublicKey k))" using assms(3) by (rule describes_finite)
    qed
  qed (auto simp: owned_def)
  finally show ?thesis by simp
qed

section \<open>Properties\<close>

text \<open>
  C11: a spend made by a wallet is accepted: if \<open>create_spend_transaction\<close> returns for a positive value and a
  fee that is not negative, and the transaction fits in the size limit, both validators for transactions accept it, its fee is
  exactly what was asked, its first output pays the value to the recipient and every other output pays
  change back, and it spends only outputs that this wallet did not spend before, all of which it now
  remembers. Each key pair of the wallet is assumed to work (its public key is a point of the curve and verifies what its
  private key signs), and the unspent outputs at the head to be finitely many, well-formed, named by
  references that are not \<open>thin air\<close>, of values that are not negative and together at most \<open>MAX_SASHIMI\<close>.
  \<open>create_spend_transaction\<close> itself checks none of this.
\<close>

theorem spend_is_accepted:
  assumes "create_spend_transaction cr kt randoms cs value miners_fee to_pk change_pk w = (Inr t, w')"
    and "cs_current_chain_hash cs = Some cur" and "unspent_at_head cs = Inr u" and "unspent_ok u"
    and "keypairs_work cr kt w" and "0 < value" and "0 \<le> miners_fee"
    and "stream_serialize_transaction t = Inr bs" and "int (length bs) \<le> MAX_BLOCK_SIZE"
  shows "validate_non_coinbase_transaction_by_itself t = Inr () \<and>
    validate_non_coinbase_transaction_in_coinstate cr t cur cs = Inr () \<and>
    get_transaction_fee t u = Inr miners_fee \<and>
    hd (tx_outputs t) = \<lparr>out_value = value, out_public_key = to_pk\<rparr> \<and>
    (\<forall>p\<in>set (tl (tx_outputs t)). out_public_key p = change_pk) \<and>
    set (input_refs t) \<inter> wl_spent_transaction_outputs w = {} \<and>
    wl_spent_transaction_outputs w' = wl_spent_transaction_outputs w \<union> set (input_refs t)"
proof -
  note ok = spend_accepted [OF assms(1,3,4,5,6,7,8,9)]
  have "cs_unspent_transaction_outs_by_hash cs cur = Some u"
    using assms(2,3) by (auto simp: unspent_at_head_def assert_current_def rbind_eq_Inr lookup_key_eq_Inr split: if_splits)
  then have "validate_non_coinbase_transaction_in_coinstate cr t cur cs = Inr ()"
    using ok(2) by (simp add: validate_non_coinbase_transaction_in_coinstate_iff)
  moreover obtain taken where "set taken \<inter> wl_spent_transaction_outputs w = {}" "w' = mark_spent taken w"
    "input_refs t = taken" "tx_outputs t = spend_outputs (sum_list (map (value_at u) taken)) value miners_fee to_pk change_pk"
    by (rule create_spend_transaction_Inr [OF assms(1,3)])
  ultimately show ?thesis
    using ok(1,3) by (auto simp: validate_non_coinbase_transaction_by_itself_iff spend_outputs_def)
qed

theorem spend_is_accepted_witness:
  "\<exists>t w'. create_spend_transaction toy_crypto sample_tools (\<lambda>_. 0) sample_coinstate 4 1
       (SECP256k1PublicKey (replicate 64 9)) (SECP256k1PublicKey (replicate 64 3)) sample_wallet = (Inr t, w') \<and>
     validate_non_coinbase_transaction_in_coinstate toy_crypto t (sample_hash 1) sample_coinstate = Inr () \<and>
     get_transaction_fee t sample_unspent = Inr 1"
proof -
  let ?to = "SECP256k1PublicKey (replicate 64 9)" and ?change = "SECP256k1PublicKey (replicate 64 3)"
  obtain cs' m where m: "balances_at_head toy_crypto sample_coinstate = Inr (cs', m)" "describes sample_unspent m"
    using sample_head(2) by blast
  have "\<exists>t w'. create_spend_transaction toy_crypto sample_tools (\<lambda>_. 0) sample_coinstate 4 1 ?to ?change sample_wallet = (Inr t, w')"
    by (rule create_spend_returns [OF m sample_head(1) sample_unspent_ok sample_keypairs(2)])
      (simp_all add: sample_spendable)
  then obtain t w' where run: "create_spend_transaction toy_crypto sample_tools (\<lambda>_. 0) sample_coinstate 4 1
      ?to ?change sample_wallet = (Inr t, w')" by blast
  obtain bs where bs: "stream_serialize_transaction t = Inr bs" "int (length bs) \<le> MAX_BLOCK_SIZE"
    using sample_spend_size [OF run] by blast
  from spend_is_accepted [OF run sample_chain(1) sample_head(1) sample_unspent_ok sample_keypairs(1) _ _ bs] run
  show ?thesis by auto
qed

text \<open>
  C14: a wallet that has enough can spend: if the outputs of its keys that it did not spend before are
  worth the value, which is positive, and the fee, \<open>create_spend_transaction\<close> returns a transaction. Assumed of the
  state: the balances at its head describe the unspent outputs there (each key's references and their sum), and these are
  finitely many, well-formed, not negative and at most \<open>MAX_SASHIMI\<close> together; of the keys: the wallet's
  have 64 bytes and sign with 64 bytes, and those of the recipient and for the change are well-formed.
\<close>

theorem spend_succeeds_when_enough:
  assumes "balances_at_head cr cs = Inr (cs', m)" and "describes u m" and "unspent_at_head cs = Inr u"
    and "unspent_ok u" and "keypairs_sign kt w" and "public_key_wf to_pk" and "public_key_wf change_pk"
    and "0 < value" and "0 \<le> miners_fee" and "value + miners_fee \<le> (\<Sum>r\<in>spendable w u. value_at u r)"
  shows "\<exists>t w'. create_spend_transaction cr kt randoms cs value miners_fee to_pk change_pk w = (Inr t, w')"
  using assms by (rule create_spend_returns)

theorem spend_succeeds_when_enough_witness:
  "\<exists>t w'. create_spend_transaction toy_crypto sample_tools (\<lambda>_. 0) sample_coinstate 9 1
     (SECP256k1PublicKey (replicate 64 9)) (SECP256k1PublicKey (replicate 64 3)) sample_wallet = (Inr t, w')"
proof -
  obtain cs' m where m: "balances_at_head toy_crypto sample_coinstate = Inr (cs', m)" "describes sample_unspent m"
    using sample_head(2) by blast
  show ?thesis
    by (rule spend_succeeds_when_enough [OF m sample_head(1) sample_unspent_ok sample_keypairs(2)])
      (simp_all add: sample_spendable)
qed

text \<open>
  C34: a failed spend locks the wallet: if there is not enough, \<open>create_spend_transaction\<close> raises
  "Insufficient balance" after it has marked every output it could spend as spent, so that from then
  on no amount can be spent from this state, however small.
\<close>

theorem failed_spend_locks_outputs:
  assumes "balances_at_head cr cs = Inr (cs', m)" and "describes u m" and "unspent_at_head cs = Inr u"
    and "finite (dom u)" and "values_nonneg u" and "\<forall>k\<in>fst ` set (wl_keypairs w). length k = 64"
    and "(\<Sum>r\<in>spendable w u. value_at u r) < value + miners_fee"
  shows "\<exists>w'. create_spend_transaction cr kt randoms cs value miners_fee to_pk change_pk w =
      (Inl (PyException ''Insufficient balance''), w') \<and>
    (\<forall>value' fee'. 0 < value' + fee' \<longrightarrow>
      create_spend_transaction cr kt randoms cs value' fee' to_pk change_pk w' =
        (Inl (PyException ''Insufficient balance''), w'))"
proof -
  let ?w' = "w\<lparr>wl_spent_transaction_outputs := wl_spent_transaction_outputs w \<union> spendable w u\<rparr>"
  have none: "spendable ?w' u = {}" by (auto simp: spendable_def)
  have "create_spend_transaction cr kt randoms cs value' fee' to_pk change_pk ?w' =
        (Inl (PyException ''Insufficient balance''), ?w')" if "0 < value' + fee'" for value' fee'
    using create_spend_insufficient [OF assms(1,2,3) _ _ assms(4,5), of ?w' value' fee'] assms(6) that
    by (simp add: none)
  with create_spend_insufficient [OF assms(1,2,3,6,7,4,5)] show ?thesis by blast
qed

theorem failed_spend_locks_outputs_witness:
  "\<exists>w'. create_spend_transaction toy_crypto sample_tools (\<lambda>_. 0) sample_coinstate 10 1 (SECP256k1PublicKey (replicate 64 4)) (SECP256k1PublicKey (replicate 64 4)) sample_wallet =
      (Inl (PyException ''Insufficient balance''), w') \<and>
    create_spend_transaction toy_crypto sample_tools (\<lambda>_. 0) sample_coinstate 1 0 (SECP256k1PublicKey (replicate 64 4)) (SECP256k1PublicKey (replicate 64 4)) w' =
      (Inl (PyException ''Insufficient balance''), w')"
proof -
  obtain cs' m where m: "balances_at_head toy_crypto sample_coinstate = Inr (cs', m)" "describes sample_unspent m"
    using sample_head(2) by blast
  have fin: "finite (dom sample_unspent)" "values_nonneg sample_unspent"
    using sample_unspent_ok by (simp_all add: unspent_ok_def)
  have "(\<Sum>r\<in>spendable sample_wallet sample_unspent. value_at sample_unspent r) < 10 + 1" by (simp add: sample_spendable)
  from failed_spend_locks_outputs [OF m sample_head(1) fin sample_keypairs(3) this, of sample_tools "\<lambda>_. 0"
      "SECP256k1PublicKey (replicate 64 4)" "SECP256k1PublicKey (replicate 64 4)"]
  show ?thesis by force
qed

text \<open>
  C32: the balance that a wallet shows is what it owns: for every wallet made by generating, handing out
  and restoring keys of 64 bytes, and every state reached by adding blocks that are new and have a stored parent
  (or are the first), it is the total value of the state's unspent outputs that pay one of the wallet's keys.
  The transactions of the main chain are assumed to be as the validators demand: the hashes of a block's transactions
  differ, none creates an output that is unspent already, and each spends outputs that were unspent before its block.
\<close>

theorem balance_is_total_owned:
  assumes "wallet_reachable kt w" and "\<forall>k\<in>fst ` set (wl_keypairs w). length k = 64"
    and "tree_reachable cr cs" and "cs_current_chain_hash cs = Some cur"
    and "chain_at_hash (cs_block_by_hash cs) cur = Inr chain" and "chain_fresh cr Map.empty chain"
    and "unspent_at_head cs = Inr u"
  shows "get_balance cr w cs = Inr (\<Sum>r\<in>owned_by_wallet w u. value_at u r)"
proof -
  have "tree_ok cr cs" using assms(3) by (rule tree_machine.reachable_inv)
  from tree_balances_at_head [OF this assms(4-6)] obtain cs' m
    where "balances_at_head cr cs = Inr (cs', m)" and "describes u m" using assms(7) by auto
  then show ?thesis by (rule balance_of_described [OF assms(1) _ _ assms(2)])
qed

theorem balance_is_total_owned_witness:
  "get_balance toy_crypto sample_wallet sample_coinstate = Inr 10"
proof -
  have "owned_by_wallet sample_wallet sample_unspent = {\<lparr>ref_hash = sample_hash 8, ref_index = 0\<rparr>}"
    by (auto simp: owned_by_wallet_def owned_def sample_unspent_eq sample_wallet_def mk_wallet_def sample_output_def
        split: if_splits)
  then show ?thesis
    using balance_is_total_owned [OF sample_wallet_reachable sample_keypairs(3) coinstate_reachable_tree [OF sample_reachable]
        sample_chain sample_head(1)]
    by (simp add: value_at_def sample_unspent_eq sample_output_def)
qed

text \<open>
  A wallet that is saved and loaded again is the same wallet, but for the outputs it remembers
  having spent, which are not saved.
\<close>

theorem wallet_roundtrip:
  assumes "wallet_reachable kt w"
  shows "load (dump w) = Inr (w\<lparr>wl_spent_transaction_outputs := {}\<rparr>)"
  by (rule load_dump [OF wallet_machine.reachable_inv [OF assms]])

theorem wallet_roundtrip_witness: "load (dump sample_wallet) = Inr sample_wallet"
  using wallet_roundtrip [OF sample_wallet_reachable] by (simp add: sample_wallet_def mk_wallet_def)

text \<open>
  An address stands for one public key and nothing else is accepted as an address: parsing returns
  a key exactly for \<open>SKE\<close>, the key of 64 bytes in lower-case hexadecimal digits, and \<open>PTI\<close>; on every
  other text it raises \<open>AddressParseError\<close>, so that \<open>is_valid_address\<close> always returns.
\<close>

theorem addresses_are_keys:
  "(parse_address s = Inr k) = (length k = 64 \<and> s = ''SKE'' @ human k @ ''PTI'') \<and>
   is_valid_address s = Inr (\<exists>k. length k = 64 \<and> s = ''SKE'' @ human k @ ''PTI'')"
proof -
  have "is_valid_address s = Inr (\<exists>k. parse_address s = Inr k)"
    by (cases "parse_address s") (auto simp: is_valid_address_def dest: parse_address_error)
  then show ?thesis unfolding parse_address_iff by blast
qed

end
