(* ===== verification/Scripts_Utils.thy ===== *)
theory Scripts_Utils
  imports Threading Node_Example Restart Wallet Utils Complex_Main
begin

text \<open>
  Model of what the scripts share, in \<open>skepticoin/scripts/utils.py\<close>, and of \<open>save_wallet\<close> in
  \<open>skepticoin/wallet.py\<close> and \<open>LocalPeer.show_stats\<close> in \<open>skepticoin/networking/local_peer.py\<close>, which waiting
  for a fresh chain calls. Shown: the statistics can always be shown, and waiting returns exactly when a look
  at the node finds a head that is fresh enough.

  While a script runs, the networking thread changes the node. What the script sees is a sequence: \<open>nodes i\<close>
  is the node and \<open>clock i\<close> the time (a float, taken as the rational number it is) at its \<open>i\<close>-th look.
\<close>

section \<open>Statistics\<close>

abbreviation coinstate_of :: "node \<Rightarrow> coinstate" where
  "coinstate_of n \<equiv> cm_coinstate (nd_chain n)"

definition line_end :: string where
  "line_end = [CHR 0x0A]"

definition peer_line :: "connected_peer \<Rightarrow> string" where
  "peer_line c = ''  '' @ right_aligned 15 (cp_host c) @ '':'' @ decimal (cp_port c) @ '' '' @
     direction_name (cp_direction c) @ '','' @ line_end"

definition fork_text :: "(int \<Rightarrow> string) \<Rightarrow> coinstate \<Rightarrow> string \<Rightarrow> block \<times> block \<Rightarrow> string result" where
  "fork_text isoformat cs out = (\<lambda>(head, lca).
     rbind (cs_head cs) (\<lambda>top.
     if block_height head < block_height top - 10 then Inr out
     else Inr (out @ ''Height = '' @ decimal (block_height head) @ '', '' @
       ''Date/time = '' @ isoformat (block_timestamp head) @ line_end @
       (if block_height head \<noteq> block_height lca
        then ''  diverges for '' @ decimal (block_height head - block_height lca) @ '' blocks'' @ line_end else []) @
       line_end)))"

text \<open>
  The text of \<open>show_stats\<close>. The local time of a block as text is the parameter \<open>isoformat\<close>; the heads come
  out of the hash map in the order \<open>heads\<close>. Whether the text differs from the last and is printed is left out.
\<close>

definition show_stats :: "crypto \<Rightarrow> (int \<Rightarrow> string) \<Rightarrow> (coinstate \<Rightarrow> block list) \<Rightarrow> node \<Rightarrow> string result" where
  "show_stats cr isoformat heads n =
     (let cs = coinstate_of n; peers = get_active_peers n;
          out = ''NETWORK - '' @ decimal (int (length peers)) @ '' connected peers: '' @ line_end @
            concat (map (\<lambda>p. peer_line (nd_peers n p)) peers) @ ''CHAIN - '' in
      rbind (forks cr cs (heads cs)) (\<lambda>fs. rfold (fork_text isoformat cs) out fs))"

section \<open>Waiting for a fresh chain\<close>

text \<open>The loop looks at the node in its condition, then to show the statistics, then to say how old the chain is.\<close>

partial_function (option) wait_for_fresh_chain ::
  "crypto \<Rightarrow> (int \<Rightarrow> string) \<Rightarrow> (coinstate \<Rightarrow> block list) \<Rightarrow> (nat \<Rightarrow> node) \<Rightarrow> (nat \<Rightarrow> rat) \<Rightarrow> int \<Rightarrow> nat \<Rightarrow> nat result option" where
  "wait_for_fresh_chain cr isoformat heads nodes clock freshness i =
     (case cs_head (coinstate_of (nodes i)) of
        Inl e \<Rightarrow> Some (Inl e)
      | Inr head \<Rightarrow>
          if of_int (block_timestamp head + freshness) < clock i
          then (case rbind (show_stats cr isoformat heads (nodes (i + 1))) (\<lambda>_. cs_head (coinstate_of (nodes (i + 2)))) of
                  Inl e \<Rightarrow> Some (Inl e)
                | Inr _ \<Rightarrow> wait_for_fresh_chain cr isoformat heads nodes clock freshness (i + 3))
          else Some (Inr i))"

section \<open>Wallet files\<close>

text \<open>\<open>wallet.json\<close>: not there, not readable as JSON, or its value.\<close>

type_synonym wallet_file = "wallet_json result option"

definition save_wallet_file :: "wallet \<Rightarrow> (wallet_file, unit) action" where
  "save_wallet_file w = amod (\<lambda>_. Some (Inr (dump w)))"

definition open_or_init_wallet :: "key_tools \<Rightarrow> (nat \<Rightarrow> nat) \<Rightarrow> (wallet_file, wallet) action" where
  "open_or_init_wallet kt randoms =
     abind (aget id) (\<lambda>file.
     case file of
       Some d \<Rightarrow> alift (rbind d load)
     | None \<Rightarrow>
         (case generate_keys kt (map randoms [0..<10000]) empty_wallet of
            (Inl e, _) \<Rightarrow> araise e
          | (Inr _, w) \<Rightarrow> athen (save_wallet_file w) (aret w)))"

section \<open>The thread of a script\<close>

definition start_networking_peer_in_background ::
  "crypto \<Rightarrow> bool \<Rightarrow> int \<Rightarrow> coinstate \<Rightarrow> node \<Rightarrow> peer_key list result \<Rightarrow> networking_thread result" where
  "start_networking_peer_in_background cr dont_listen listening_port cs local_peer loaded =
     (let port = (if dont_listen then None else Some listening_port) in
      rbind (new_networking_thread cr cs port local_peer loaded) (\<lambda>thread. Inr (thread_start thread)))"

section \<open>Loops that look again and again\<close>

text \<open>A loop that looks every \<open>d\<close> steps whether \<open>P\<close> holds returns at the first look that finds it, or never.\<close>

lemma polling:
  fixes i d :: nat
  assumes round: "\<And>i. loop i = (if P i then Some (f i) else loop (i + d))"
    and ends: "\<And>i r. loop i = Some r \<Longrightarrow> \<exists>j. P (i + d * j)"
  shows "loop i = Some r \<longleftrightarrow> (\<exists>j. r = f (i + d * j) \<and> P (i + d * j) \<and> (\<forall>k<j. \<not> P (i + d * k)))"
proof -
  have skip: "loop i = loop (i + d * j)" if "\<forall>k<j. \<not> P (i + d * k)" for j
    using that
  proof (induction j)
    case (Suc j)
    then have "loop i = loop (i + d * j)" "\<not> P (i + d * j)" by simp_all
    with round [of "i + d * j"] show ?case by (simp add: add.assoc add.commute [of d])
  qed simp
  show ?thesis
  proof
    assume "loop i = Some r"
    then have ex: "\<exists>j. P (i + d * j)" by (rule ends)
    define j where "j = (LEAST j. P (i + d * j))"
    have "P (i + d * j)" "\<forall>k<j. \<not> P (i + d * k)"
      unfolding j_def using LeastI_ex [OF ex] not_less_Least by blast+
    with skip [of j] round [of "i + d * j"] \<open>loop i = Some r\<close>
    show "\<exists>j. r = f (i + d * j) \<and> P (i + d * j) \<and> (\<forall>k<j. \<not> P (i + d * k))" by (intro exI [of _ j]) simp
  next
    assume "\<exists>j. r = f (i + d * j) \<and> P (i + d * j) \<and> (\<forall>k<j. \<not> P (i + d * k))"
    with skip round show "loop i = Some r" by fastforce
  qed
qed

section \<open>When waiting returns\<close>

text \<open>What a script may see: a reachable state that is not empty, its heads in some order.\<close>

definition visible :: "crypto \<Rightarrow> (coinstate \<Rightarrow> block list) \<Rightarrow> coinstate \<Rightarrow> bool" where
  "visible cr heads cs \<longleftrightarrow> coinstate_reachable cr cs \<and> cs_current_chain_hash cs \<noteq> None \<and>
     (\<forall>b\<in>set (heads cs). \<exists>h. cs_heads cs h = Some b)"

lemma visible_head:
  assumes "visible cr heads cs"
  obtains cur b chain u where "cs_current_chain_hash cs = Some cur" "cs_head cs = Inr b" "entry_ok cr cs cur b chain u"
    "cs_ok cr cs"
proof -
  have ok: "cs_ok cr cs" using assms coinstate_machine.reachable_inv by (auto simp: visible_def)
  obtain cur where cur: "cs_current_chain_hash cs = Some cur" using assms by (auto simp: visible_def)
  obtain b chain u where e: "entry_ok cr cs cur b chain u" using cs_ok_current [OF ok cur] by blast
  show thesis by (rule that [OF cur cs_ok_at_head(3) [OF ok cur e] e ok])
qed

lemma show_stats_returns:
  assumes "visible cr heads (coinstate_of n)"
  shows "\<exists>out. show_stats cr isoformat heads n = Inr out"
proof -
  let ?cs = "coinstate_of n"
  obtain cur top where ok: "cs_ok cr ?cs" and cur: "cs_current_chain_hash ?cs = Some cur" and top: "cs_head ?cs = Inr top"
    by (rule visible_head [OF assms])
  obtain fs where fs: "forks cr ?cs (heads ?cs) = Inr fs"
    using forks_return [OF ok cur, of "heads ?cs"] assms unfolding visible_def by blast
  have "\<exists>out'. rfold (fork_text isoformat ?cs) out fs = Inr out'" for out
    by (induction fs arbitrary: out) (auto simp: fork_text_def top split: if_splits)
  with fs show ?thesis by (simp add: show_stats_def Let_def)
qed

definition fresh_at :: "(nat \<Rightarrow> node) \<Rightarrow> (nat \<Rightarrow> rat) \<Rightarrow> int \<Rightarrow> nat \<Rightarrow> bool" where
  "fresh_at nodes clock freshness i \<longleftrightarrow>
     (\<exists>head. cs_head (coinstate_of (nodes i)) = Inr head \<and> clock i \<le> of_int (block_timestamp head + freshness))"

lemma wait_round:
  assumes "\<And>i. visible cr heads (coinstate_of (nodes i))"
  shows "wait_for_fresh_chain cr isoformat heads nodes clock freshness i =
    (if fresh_at nodes clock freshness i then Some (Inr i)
     else wait_for_fresh_chain cr isoformat heads nodes clock freshness (i + 3))"
proof -
  obtain head where "cs_head (coinstate_of (nodes i)) = Inr head" using visible_head [OF assms [of i]] by metis
  moreover obtain out where "show_stats cr isoformat heads (nodes (i + 1)) = Inr out"
    using show_stats_returns [OF assms [of "i + 1"]] by blast
  moreover obtain head2 where "cs_head (coinstate_of (nodes (i + 2))) = Inr head2" using visible_head [OF assms [of "i + 2"]] by metis
  ultimately show ?thesis
    by (subst wait_for_fresh_chain.simps) (auto simp: fresh_at_def not_less not_le)
qed

lemma wait_ends:
  assumes "wait_for_fresh_chain cr isoformat heads nodes clock freshness i = Some r"
  shows "(\<forall>i. visible cr heads (coinstate_of (nodes i))) \<longrightarrow> (\<exists>j. fresh_at nodes clock freshness (i + 3 * j))"
  using assms
proof (rule wait_for_fresh_chain.raw_induct [where P = "\<lambda>cr isoformat heads nodes clock freshness i r.
    (\<forall>i. visible cr heads (coinstate_of (nodes i))) \<longrightarrow> (\<exists>j. fresh_at nodes clock freshness (i + 3 * j))", rotated], intro impI)
  fix loop cr isoformat heads nodes clock freshness i r
  assume IH: "\<And>cr isoformat heads nodes clock freshness i r. loop cr isoformat heads nodes clock freshness i = Some r \<Longrightarrow>
      (\<forall>i. visible cr heads (coinstate_of (nodes i))) \<longrightarrow> (\<exists>j. fresh_at nodes clock freshness (i + 3 * j))"
    and body: "(case cs_head (coinstate_of (nodes i)) of Inl e \<Rightarrow> Some (Inl e)
      | Inr head \<Rightarrow>
          if of_int (block_timestamp head + freshness) < clock i
          then (case rbind (show_stats cr isoformat heads (nodes (i + 1))) (\<lambda>_. cs_head (coinstate_of (nodes (i + 2)))) of
                  Inl e \<Rightarrow> Some (Inl e)
                | Inr _ \<Rightarrow> loop cr isoformat heads nodes clock freshness (i + 3))
          else Some (Inr i)) = Some r"
    and seen: "\<forall>i. visible cr heads (coinstate_of (nodes i))"
  obtain head head2 out where "cs_head (coinstate_of (nodes i)) = Inr head" "cs_head (coinstate_of (nodes (i + 2))) = Inr head2"
    "show_stats cr isoformat heads (nodes (i + 1)) = Inr out"
    using seen visible_head show_stats_returns by metis
  then have "fresh_at nodes clock freshness i \<or> loop cr isoformat heads nodes clock freshness (i + 3) = Some r"
    using body by (auto simp: fresh_at_def not_less split: if_splits)
  then consider "fresh_at nodes clock freshness (i + 3 * 0)" | j where "fresh_at nodes clock freshness (i + 3 * Suc j)"
    using IH seen by (fastforce simp: algebra_simps)
  then show "\<exists>j. fresh_at nodes clock freshness (i + 3 * j)" by cases blast+
qed

section \<open>Property\<close>

text \<open>
  C29: waiting for a fresh chain returns at the first look that finds a head not older than \<open>freshness\<close>
  seconds, and goes on for ever when there is none; on states that are not empty and were reached by blocks that attach
  (each one higher than its stored parent), nothing in it raises, the statistics and their forks included.
\<close>

theorem waiting_returns_when_fresh:
  assumes "\<And>i. visible cr heads (coinstate_of (nodes i))"
  shows "wait_for_fresh_chain cr isoformat heads nodes clock freshness i = Some r \<longleftrightarrow>
    (\<exists>j. r = Inr (i + 3 * j) \<and> fresh_at nodes clock freshness (i + 3 * j) \<and> (\<forall>k<j. \<not> fresh_at nodes clock freshness (i + 3 * k)))"
proof (rule polling [where P = "fresh_at nodes clock freshness" and f = Inr and d = 3])
  show "wait_for_fresh_chain cr isoformat heads nodes clock freshness i =
    (if fresh_at nodes clock freshness i then Some (Inr i)
     else wait_for_fresh_chain cr isoformat heads nodes clock freshness (i + 3))" for i
    using assms by (rule wait_round)
qed (use wait_ends assms in blast)

theorem waiting_returns_when_fresh_witness:
  "wait_for_fresh_chain toy_crypto (\<lambda>_. []) (\<lambda>_. [sample_genesis]) (\<lambda>_. waiting_node) (\<lambda>i. if i = 0 then 400 else 200) 300 0 = Some (Inr 3)"
proof -
  let ?nodes = "\<lambda>_ :: nat. waiting_node" and ?clock = "\<lambda>i :: nat. if i = 0 then 400 else 200 :: rat"
  have cs: "coinstate_of waiting_node = sample_coinstate"
    by (simp add: waiting_node_def initial_node_def new_node_def new_chain_manager_def)
  have "visible toy_crypto (\<lambda>_. [sample_genesis]) (coinstate_of waiting_node)"
    unfolding cs visible_def using sample_reachable by (auto simp: sample_coinstate_def)
  moreover have "fresh_at ?nodes ?clock 300 i \<longleftrightarrow> i \<noteq> 0" for i
    by (simp add: fresh_at_def cs cs_head_def sample_coinstate_def lookup_key_def sample_genesis_def sample_block_def
        block_timestamp_def)
  ultimately show ?thesis
    using waiting_returns_when_fresh [of toy_crypto "\<lambda>_. [sample_genesis]" ?nodes "\<lambda>_. []" ?clock 300 0 "Inr 3"]
    by (auto intro!: exI [of _ 1])
qed

end
