(* ===== verification/Statistics.thy ===== *)
theory Statistics
  imports Scripts_Utils
begin

text \<open>
  Model of \<open>show_network_stats\<close> and \<open>show_chain_stats\<close> of \<open>LocalPeer\<close> in \<open>skepticoin/networking/local_peer.py\<close>: the
  values that are printed; quotients are rational numbers, before they are rounded to floats. Shown: the
  counts per host add up, and when the statistics of the chain can be shown.
\<close>

section \<open>The network\<close>

record network_stats =
  ns_connected_peers :: nat
  ns_unique_hosts :: nat
  ns_listening_hosts :: nat
  ns_per_host :: "(string \<times> nat \<times> nat) list"

text \<open>\<open>per_host\<close> is a dict, in the order of insertion: host, incoming, outgoing.\<close>

definition count_peer :: "connected_peer \<Rightarrow> (string \<times> nat \<times> nat) list \<Rightarrow> (string \<times> nat \<times> nat) list" where
  "count_peer p per_host =
     (let (incoming, outgoing) = (case map_of per_host (cp_host p) of None \<Rightarrow> (0, 0) | Some counts \<Rightarrow> counts) in
      AList.update (cp_host p)
        (if cp_direction p = INCOMING then (incoming + 1, outgoing) else (incoming, outgoing + 1)) per_host)"

definition show_network_stats :: "node \<Rightarrow> network_stats" where
  "show_network_stats n =
     (let peers = map (nd_peers n) (get_active_peers n) in
      \<lparr>ns_connected_peers = length peers, ns_unique_hosts = card (set (map cp_host peers)),
       ns_listening_hosts = length (filter (\<lambda>p. cp_direction p = OUTGOING) peers),
       ns_per_host = fold count_peer peers []\<rparr>)"

section \<open>The chain\<close>

record chain_stats =
  ct_target :: string
  ct_work :: int
  ct_timespan_factor :: rat
  ct_hash_rate :: rat

text \<open>\<open>coinstate.at_head.block_by_height[coinstate.head().height - n]\<close>\<close>

definition block_back :: "coinstate \<Rightarrow> int \<Rightarrow> block result" where
  "block_back cs n =
     rbind (by_height_at_head cs) (\<lambda>block_by_height.
     rbind (cs_head cs) (\<lambda>head. lookup_key block_by_height (block_height head - n)))"

definition time_since :: "coinstate \<Rightarrow> int \<Rightarrow> int result" where
  "time_since cs n =
     rbind (cs_head cs) (\<lambda>head. rbind (block_back cs n) (\<lambda>b. Inr (block_timestamp head - block_timestamp b)))"

definition quotient :: "int \<Rightarrow> int \<Rightarrow> rat result" where
  "quotient a b = (if b = 0 then Inl ZeroDivisionError else Inr (of_int a / of_int b))"

definition get_block_timespan_factor :: "coinstate \<Rightarrow> int \<Rightarrow> rat result" where
  "get_block_timespan_factor cs n = rbind (time_since cs n) (\<lambda>diff. quotient diff (DESIRED_BLOCK_TIMESPAN * n))"

definition get_network_hash_rate :: "coinstate \<Rightarrow> int \<Rightarrow> rat result" where
  "get_network_hash_rate cs n =
     rbind (rfold (\<lambda>total i. rbind (block_back cs i) (\<lambda>b.
              rbind (calc_work (block_target b)) (\<lambda>work. Inr (total + work)))) 0 [0..n - 1]) (\<lambda>total_over_blocks.
     rbind (time_since cs n) (\<lambda>diff. quotient total_over_blocks diff))"

definition show_chain_stats :: "coinstate \<Rightarrow> chain_stats result" where
  "show_chain_stats cs =
     rbind (cs_head cs) (\<lambda>head.
     rbind (calc_work (block_target head)) (\<lambda>work.
     rbind (get_block_timespan_factor cs 100) (\<lambda>factor.
     rbind (get_network_hash_rate cs 100) (\<lambda>rate.
     Inr \<lparr>ct_target = human (block_target head), ct_work = work, ct_timespan_factor = factor, ct_hash_rate = rate\<rparr>))))"

section \<open>The counts add up\<close>

abbreviation total :: "(string \<times> nat \<times> nat) list \<Rightarrow> nat \<times> nat" where
  "total per_host \<equiv> (sum_list (map (\<lambda>(_, i, _). i) per_host), sum_list (map (\<lambda>(_, _, out). out) per_host))"

lemma total_update:
  "distinct (map fst m) \<Longrightarrow> map_of m k = Some (a, b) \<Longrightarrow>
     fst (total (AList.update k (c, d) m)) + a = fst (total m) + c \<and>
     snd (total (AList.update k (c, d) m)) + b = snd (total m) + d"
  "map_of m k = None \<Longrightarrow> total (AList.update k (c, d) m) = (fst (total m) + c, snd (total m) + d)"
  by (induction m) (auto split: if_splits)

lemma count_peer_total:
  assumes "distinct (map fst m)"
  shows "total (count_peer p m) = (if cp_direction p = INCOMING then (fst (total m) + 1, snd (total m))
    else (fst (total m), snd (total m) + 1))"
proof (cases "map_of m (cp_host p)")
  case None
  then show ?thesis by (simp add: count_peer_def total_update(2))
next
  case (Some counts)
  then obtain a b where "map_of m (cp_host p) = Some (a, b)" by (cases counts) auto
  then show ?thesis
    using total_update(1) [OF assms, of "cp_host p" a b "a + 1" b] total_update(1) [OF assms, of "cp_host p" a b a "b + 1"]
    by (simp add: count_peer_def)
qed

lemma count_peers:
  "distinct (map fst m) \<Longrightarrow> distinct (map fst (fold count_peer ps m)) \<and>
     fst ` set (fold count_peer ps m) = fst ` set m \<union> cp_host ` set ps \<and>
     total (fold count_peer ps m) = (fst (total m) + length (filter (\<lambda>p. cp_direction p = INCOMING) ps),
       snd (total m) + length (filter (\<lambda>p. cp_direction p = OUTGOING) ps))"
proof (induction ps arbitrary: m)
  case (Cons p ps)
  have "distinct (map fst (count_peer p m))" "fst ` set (count_peer p m) = insert (cp_host p) (fst ` set m)"
    using Cons.prems by (cases "case map_of m (cp_host p) of None \<Rightarrow> (0, 0) | Some counts \<Rightarrow> counts";
        simp add: count_peer_def distinct_update dom_update)+
  with Cons.IH [of "count_peer p m"] count_peer_total [OF Cons.prems, of p] show ?case
    by (cases "cp_direction p") auto
qed simp

lemma network_stats_add_up:
  assumes "show_network_stats n = s"
  shows "ns_unique_hosts s = length (ns_per_host s)" "snd (total (ns_per_host s)) = ns_listening_hosts s"
    "fst (total (ns_per_host s)) + snd (total (ns_per_host s)) = ns_connected_peers s"
proof -
  let ?ps = "map (nd_peers n) (get_active_peers n)"
  note counted = count_peers [of "[]" ?ps, simplified]
  have "length (filter (\<lambda>p. cp_direction p = INCOMING) ps) + length (filter (\<lambda>p. cp_direction p = OUTGOING) ps) = length ps" for ps
    by (induction ps) (auto intro: direction.exhaust)
  from this [of ?ps] show "fst (total (ns_per_host s)) + snd (total (ns_per_host s)) = ns_connected_peers s"
    using count_peers [of "[]" ?ps] assms by (auto simp: show_network_stats_def Let_def)
  show "snd (total (ns_per_host s)) = ns_listening_hosts s"
    using count_peers [of "[]" ?ps] assms by (auto simp: show_network_stats_def Let_def)
  have "card (cp_host ` set ?ps) = card (set (map fst (fold count_peer ?ps [])))" using count_peers [of "[]" ?ps] by simp
  also have "\<dots> = length (fold count_peer ?ps [])" using count_peers [of "[]" ?ps] distinct_card by fastforce
  finally show "ns_unique_hosts s = length (ns_per_host s)" using assms by (auto simp: show_network_stats_def Let_def)
qed

section \<open>When the chain is too short\<close>

lemma block_back_eq:
  assumes "visible cr heads cs" and "cs_head cs = Inr head" and "0 \<le> n"
  shows "(\<exists>b. block_back cs n = Inr b) \<longleftrightarrow> n \<le> block_height head"
proof -
  obtain cur b chain u where cur: "cs_current_chain_hash cs = Some cur" and hd: "cs_head cs = Inr b"
    and e: "entry_ok cr cs cur b chain u" by (rule visible_head [OF assms(1)])
  have "cur \<noteq> []" using e by (auto simp: entry_ok_def)
  then have map: "by_height_at_head cs = Inr (chain_map chain)"
    using e by (simp add: by_height_at_head_def assert_current_def cur lookup_key_def entry_ok_def)
  have "block_height head = int (length chain) - 1" using e hd assms(2) by (simp add: entry_ok_def)
  then show ?thesis
    using assms(2,3) by (auto simp: block_back_def map lookup_key_def chain_map_def split: option.splits)
qed

lemma short_chain_has_no_stats:
  assumes "visible cr heads cs" and "cs_head cs = Inr head" and "block_height head < 100"
  shows "\<exists>e. show_chain_stats cs = Inl e"
proof -
  obtain e where "block_back cs 100 = Inl e"
    using block_back_eq [OF assms(1,2), of 100] assms(3) by (cases "block_back cs 100") auto
  then show ?thesis
    by (cases "show_chain_stats cs") (auto simp: show_chain_stats_def get_block_timespan_factor_def time_since_def rbind_eq_Inr)
qed

lemma timespan_factor_returns:
  assumes "visible cr heads cs" and "cs_head cs = Inr head" and "0 < n" and "n \<le> block_height head"
  shows "\<exists>b. block_back cs n = Inr b \<and> get_block_timespan_factor cs n =
    Inr (of_int (block_timestamp head - block_timestamp b) / of_int (DESIRED_BLOCK_TIMESPAN * n))"
proof -
  obtain b where "block_back cs n = Inr b" using block_back_eq [OF assms(1,2), of n] assms(3,4) by auto
  then show ?thesis
    using assms(2,3) by (simp add: get_block_timespan_factor_def time_since_def quotient_def DESIRED_BLOCK_TIMESPAN_def FIVE_def)
qed

end
