(* ===== verification/Mining.thy ===== *)
theory Mining
  imports Node_Core Wallet Ledger Complex_Main
begin

text \<open>
  Model of \<open>skepticoin/mining.py\<close>: the loop of a miner process and the handlers of \<open>MinerWatcher\<close>, which
  hands out work, assembles found blocks and passes them on, over the node and the wallet it owns.
  Processes and queues appear as the messages they carry. Of the line of statistics the values are kept, not
  the formatted text; balances are in sashimi.
\<close>

section \<open>State\<close>

text \<open>What \<open>print_stats_line\<close> prints; the speed is in sashimi per hour, before it is rounded to a float.\<close>

record stats_line =
  sl_timestamp :: int
  sl_uptime :: rat
  sl_hashes :: int
  sl_mined :: int
  sl_speed :: rat
  sl_n_peers :: nat
  sl_height :: int
  sl_age :: int
  sl_forks :: nat

text \<open>
  \<open>mw_send_queues\<close>: for each miner what was sent to it. \<open>mw_saved_wallet\<close>: what \<open>save_wallet\<close> wrote last.
  \<open>mw_log_silencer\<close>: height, peers and number of forks when a line was printed last in quiet mode.
\<close>

record miner_watcher =
  mw_quiet :: bool
  mw_coinstate :: coinstate
  mw_wallet :: wallet
  mw_public_key :: bytes
  mw_mining_args :: "nat \<Rightarrow> (block_summary \<times> int \<times> transaction list) option"
  mw_hash_stats :: "(int \<times> int) list"
  mw_balance :: int
  mw_start_balance :: int
  mw_start_time :: rat
  mw_log_silencer :: "(int \<times> nat \<times> nat) option"
  mw_printed :: "stats_line list"
  mw_send_queues :: "(block_summary \<times> int) list list"
  mw_saved_wallet :: "wallet_json option"
  mw_node :: node

definition on_node :: "(node, 'a) action \<Rightarrow> (miner_watcher, 'a) action" where
  "on_node m s = (let (r, n) = m (mw_node s) in (r, s\<lparr>mw_node := n\<rparr>))"

definition on_wallet :: "(wallet, 'a) action \<Rightarrow> (miner_watcher, 'a) action" where
  "on_wallet m s = (let (r, w) = m (mw_wallet s) in (r, s\<lparr>mw_wallet := w\<rparr>))"

definition save_wallet :: "(miner_watcher, unit) action" where
  "save_wallet = amod (\<lambda>s. s\<lparr>mw_saved_wallet := Some (dump (mw_wallet s))\<rparr>)"

text \<open>\<open>get_annotated_public_key\<close> with its random number, and the wallet saved.\<close>

definition take_public_key :: "(miner_watcher, unit) action" where
  "take_public_key =
     abind (on_node (randrange (2 ^ 64))) (\<lambda>random.
     abind (on_wallet (get_annotated_public_key (nat random) ''reserved for potentially mined block'')) (\<lambda>public_key.
     athen (amod (\<lambda>s. s\<lparr>mw_public_key := public_key\<rparr>)) save_wallet))"

section \<open>Miner\<close>

text \<open>One round of a miner: the hash of the summary it was given, and its next nonce.\<close>

definition miner_round :: "crypto \<Rightarrow> int \<Rightarrow> block_summary \<times> int \<Rightarrow> (bytes \<times> int) result" where
  "miner_round cr nonce = (\<lambda>(summary, current_height).
     rbind (construct_summary_hash cr summary current_height) (\<lambda>summary_hash.
     Inr (summary_hash, (nonce + 1) mod 2 ^ 32)))"

text \<open>The messages of the miners; the watcher prints one whose type it does not know.\<close>

datatype miner_message =
    RequestScryptInput int
  | ScryptOutput bytes
  | UnknownMessage

text \<open>
  The loop of a miner on the messages it gets from the watcher: its work, or one of another type, after which
  it exits. The result is what it sends, with its number, and the exception it ends with; \<open>None\<close>: it
  waits for the next message.
\<close>

datatype watcher_message =
    ScryptInput block_summary int
  | OtherMessage

definition wait_for_message :: "watcher_message \<Rightarrow> (block_summary \<times> int) result" where
  "wait_for_message message =
     (case message of
        ScryptInput summary current_height \<Rightarrow> Inr (summary, current_height)
      | OtherMessage \<Rightarrow> Inl (PyException ''SystemExit''))"

fun run_miner :: "crypto \<Rightarrow> nat \<Rightarrow> int \<Rightarrow> watcher_message list \<Rightarrow> (nat \<times> miner_message) list \<times> exn option" where
  "run_miner cr miner_id nonce [] = ([(miner_id, RequestScryptInput nonce)], None)"
| "run_miner cr miner_id nonce (message # messages) =
     (case rbind (wait_for_message message) (miner_round cr nonce) of
        Inl e \<Rightarrow> ([(miner_id, RequestScryptInput nonce)], Some e)
      | Inr (summary_hash, next_nonce) \<Rightarrow>
          let (sent, e) = run_miner cr miner_id next_nonce messages in
          ((miner_id, RequestScryptInput nonce) # (miner_id, ScryptOutput summary_hash) # sent, e))"

section \<open>MinerWatcher\<close>

definition mw_send_message :: "nat \<Rightarrow> block_summary \<times> int \<Rightarrow> (miner_watcher, unit) action" where
  "mw_send_message miner_id data =
     abind (aget mw_send_queues) (\<lambda>queues.
     if miner_id < length queues
     then amod (\<lambda>s. s\<lparr>mw_send_queues := queues[miner_id := queues ! miner_id @ [data]]\<rparr>)
     else araise IndexError)"

definition handle_request_scrypt_input_message :: "crypto \<Rightarrow> nat \<Rightarrow> int \<Rightarrow> (miner_watcher, unit) action" where
  "handle_request_scrypt_input_message cr miner_id nonce =
     abind (on_node (aget (\<lambda>n. get_state (nd_chain n)))) (\<lambda>(coinstate, transactions).
     athen (amod (\<lambda>s. s\<lparr>mw_coinstate := coinstate\<rparr>))
     (abind (on_node get_time) (\<lambda>t.
     abind (alift (cs_head coinstate)) (\<lambda>head.
     let increasing_time = max t (block_timestamp head + 1) in
     abind (aget mw_public_key) (\<lambda>public_key.
     abind (alift (mk_public_key public_key)) (\<lambda>miner_public_key.
     abind (alift (construct_block_pow_evidence_input cr coinstate transactions miner_public_key
                     increasing_time [] nonce)) (\<lambda>(summary, current_height, transactions).
     athen (amod (\<lambda>s. s\<lparr>mw_mining_args := (mw_mining_args s)(miner_id \<mapsto> (summary, current_height, transactions))\<rparr>))
     (mw_send_message miner_id (summary, current_height)))))))))"

text \<open>The heads come out of the hash map in the order \<open>heads\<close>.\<close>

definition print_stats_line :: "crypto \<Rightarrow> (coinstate \<Rightarrow> block list) \<Rightarrow> int \<Rightarrow> (miner_watcher, unit) action" where
  "print_stats_line cr heads timestamp =
     abind (aget id) (\<lambda>s.
     let n_peers = length (get_active_peers (mw_node s)); cs = mw_coinstate s in
     abind (alift (cs_head cs)) (\<lambda>head.
     abind (alift (forks cr cs (heads cs))) (\<lambda>fs.
     let height = block_height head;
         n_forks = length (filter (\<lambda>(h, lca). height - 10 \<le> block_height h \<and> block_height h \<noteq> block_height lca) fs);
         stat = (height, n_peers, n_forks) in
     if mw_quiet s \<and> mw_log_silencer s = Some stat then aret ()
     else
       athen (awhen (mw_quiet s) (amod (\<lambda>s. s\<lparr>mw_log_silencer := Some stat\<rparr>)))
       (let uptime = of_int timestamp - mw_start_time s; mined = mw_balance s - mw_start_balance s in
        abind (alift (lookup_key (map_of (mw_hash_stats s)) timestamp)) (\<lambda>hashes.
        if uptime = 0 then araise ZeroDivisionError
        else amod (\<lambda>s. s\<lparr>mw_printed := mw_printed s @
          [\<lparr>sl_timestamp = timestamp, sl_uptime = uptime, sl_hashes = hashes, sl_mined = mined,
            sl_speed = of_int mined / uptime * 60 * 60, sl_n_peers = n_peers, sl_height = height,
            sl_age = timestamp - block_timestamp head, sl_forks = n_forks\<rparr>]\<rparr>))))))"

text \<open>In a new second the counts of the seconds before are printed and deleted.\<close>

definition print_old_stats :: "crypto \<Rightarrow> (coinstate \<Rightarrow> block list) \<Rightarrow> (miner_watcher, unit) action" where
  "print_old_stats cr heads =
     abind (aget mw_hash_stats) (\<lambda>stats.
     aforeach (\<lambda>ts. athen (print_stats_line cr heads ts)
       (amod (\<lambda>s. s\<lparr>mw_hash_stats := AList.delete ts (mw_hash_stats s)\<rparr>))) (sort (map fst stats)))"

definition increment_hash_counter :: "crypto \<Rightarrow> (coinstate \<Rightarrow> block list) \<Rightarrow> (miner_watcher, unit) action" where
  "increment_hash_counter cr heads =
     abind (on_node get_time) (\<lambda>timestamp.
     abind (aget mw_hash_stats) (\<lambda>stats.
     athen (awhen (map_of stats timestamp = None)
              (athen (print_old_stats cr heads)
              (amod (\<lambda>s. s\<lparr>mw_hash_stats := AList.update timestamp 0 (mw_hash_stats s)\<rparr>))))
     (abind (aget mw_hash_stats) (\<lambda>stats.
      abind (alift (lookup_key (map_of stats) timestamp)) (\<lambda>count.
      amod (\<lambda>s. s\<lparr>mw_hash_stats := AList.update timestamp (count + 1) (mw_hash_stats s)\<rparr>))))))"

text \<open>From \<open>set_coinstate\<close> on: what is done with a block that was mined.\<close>

definition handle_found_block :: "crypto \<Rightarrow> block \<Rightarrow> (miner_watcher, unit) action" where
  "handle_found_block cr b =
     abind (aget mw_coinstate) (\<lambda>coinstate.
     athen (on_node (on_chain (set_coinstate cr coinstate True)))
     (athen (on_node (broadcast_block cr b))
     (abind (on_node get_time) (\<lambda>now.
     abind (alift (add_block cr coinstate b now)) (\<lambda>coinstate.
     athen (amod (\<lambda>s. s\<lparr>mw_coinstate := coinstate\<rparr>))
     (athen (on_node (save_block b))
     (athen (on_node (flush_blocks cr))
     (athen take_public_key
     (abind (aget mw_wallet) (\<lambda>w.
     abind (alift (get_balance cr w coinstate)) (\<lambda>balance.
     amod (\<lambda>s. s\<lparr>mw_balance := balance\<rparr>))))))))))))"

definition handle_scrypt_output_message ::
  "crypto \<Rightarrow> (coinstate \<Rightarrow> block list) \<Rightarrow> nat \<Rightarrow> bytes \<Rightarrow> (miner_watcher, unit) action" where
  "handle_scrypt_output_message cr heads miner_id summary_hash =
     athen (increment_hash_counter cr heads)
     (abind (aget mw_mining_args) (\<lambda>mining_args.
     abind (alift (lookup_key mining_args miner_id)) (\<lambda>(summary, current_height, transactions).
     abind (aget mw_coinstate) (\<lambda>coinstate.
     abind (alift (construct_pow_evidence_after_scrypt cr summary_hash coinstate summary
                     current_height transactions)) (\<lambda>evidence.
     let b = mk_block summary evidence transactions in
     abind (alift (block_hash cr b)) (\<lambda>hash.
     if block_target b \<le> hash then aret () else handle_found_block cr b))))))"

definition mw_handle_received_message ::
  "crypto \<Rightarrow> (coinstate \<Rightarrow> block list) \<Rightarrow> nat \<times> miner_message \<Rightarrow> (miner_watcher, unit) action" where
  "mw_handle_received_message cr heads = (\<lambda>(miner_id, message).
     case message of
       RequestScryptInput nonce \<Rightarrow> handle_request_scrypt_input_message cr miner_id nonce
     | ScryptOutput summary_hash \<Rightarrow> handle_scrypt_output_message cr heads miner_id summary_hash
     | UnknownMessage \<Rightarrow> aret ())"

text \<open>
  What is around the loop over the messages in \<open>__call__\<close>: the check that the chain is not older than the
  checkpoints (\<open>exit(1)\<close>), a key for the first block, \<open>n\<close> queues and the time \<open>now\<close>; at the end the key is
  restored. \<open>Mining_Session\<close> puts them together.
\<close>

definition start_mining :: "nat \<Rightarrow> rat \<Rightarrow> (miner_watcher, unit) action" where
  "start_mining n now =
     abind (aget id) (\<lambda>s.
     abind (alift (cs_head (cm_coinstate (nd_chain (mw_node s))))) (\<lambda>head.
     if block_height head \<le> MAX_KNOWN_HASH_HEIGHT then araise (PyException ''SystemExit'')
     else athen take_public_key
       (amod (\<lambda>s. s\<lparr>mw_send_queues := replicate n [], mw_start_time := now - 1\<rparr>))))"

definition stop_mining :: "(miner_watcher, unit) action" where
  "stop_mining =
     abind (aget mw_public_key) (\<lambda>public_key.
     on_wallet (restore_annotated_public_key public_key ''reserved for potentially mined block''))"

section \<open>What the handlers keep\<close>

lemma on_node_eq: "on_node m s = (r, s') \<longleftrightarrow> (\<exists>n. m (mw_node s) = (r, n) \<and> s' = s\<lparr>mw_node := n\<rparr>)"
  and on_wallet_eq: "on_wallet m2 s = (r2, s') \<longleftrightarrow> (\<exists>w. m2 (mw_wallet s) = (r2, w) \<and> s' = s\<lparr>mw_wallet := w\<rparr>)"
  by (auto simp: on_node_def on_wallet_def split: prod.splits)

lemma keeps_take_public_key:
  "keeps (\<lambda>s. mw_coinstate s = cs \<and> nd_chain (mw_node s) = cm \<and> nd_store (mw_node s) = st) take_public_key"
  by (auto simp: keeps_iff take_public_key_def save_wallet_def abind_def on_node_def on_wallet_def randrange_def
      action_apply split: prod.split sum.split)

lemma set_coinstate_coinstate: "set_coinstate cr cs validated cm = (r, cm') \<Longrightarrow> cm_coinstate cm' = cs"
  by (auto simp: set_coinstate_eq split: sum.splits)

lemma handle_request_coinstate:
  "handle_request_scrypt_input_message cr m nonce s = (Inr (), s') \<Longrightarrow>
     mw_coinstate s' = cm_coinstate (nd_chain (mw_node s))"
  by (auto simp: handle_request_scrypt_input_message_def abind_eq_Inr on_node_eq action_apply get_state_def
      get_time_def Let_def mw_send_message_def split: if_splits prod.splits)

text \<open>The hash of a block is in the table of blocks on the disk.\<close>

definition stored :: "crypto \<Rightarrow> block \<Rightarrow> block_store \<Rightarrow> bool" where
  "stored cr b st \<longleftrightarrow> (\<exists>h. block_hash cr b = Inr h \<and> h \<in> set (map cw_block_hash (tb_chain (st_committed st))))"

lemma flushed_stored:
  assumes "save_block b n = (Inr (), n1)" and "flush_blocks cr n1 = (Inr (), n2)"
  shows "stored cr b (nd_store n2) \<and> nd_chain n2 = nd_chain n"
proof -
  obtain st where st: "flush_blocks_to_disk cr (nd_store n1) = (Inr (), st)" "n2 = n1\<lparr>nd_store := st\<rparr>"
    using assms(2) by (auto simp: flush_blocks_def on_store_def split: prod.splits)
  have n1: "b \<in> set (st_write_buffer (nd_store n1))" "nd_chain n1 = nd_chain n"
    using assms(1) by (auto simp: save_block_def on_store_def add_block_to_buffer_def action_apply)
  show ?thesis
    by (rule flushed_block_present [OF st(1) n1(1)]) (auto simp: stored_def st(2) n1(2))
qed

lemma handle_found_block_Inr:
  assumes "handle_found_block cr b s = (Inr (), s')"
  shows "\<exists>now. add_block cr (mw_coinstate s) b now = Inr (mw_coinstate s')"
    and "stored cr b (nd_store (mw_node s'))" and "cm_coinstate (nd_chain (mw_node s')) = mw_coinstate s"
proof -
  obtain n1 n2 n3 n4 n5 now cs' s1 where n1: "on_chain (set_coinstate cr (mw_coinstate s) True) (mw_node s) = (Inr (), n1)"
    and n2: "broadcast_block cr b n1 = (Inr (), n2)" and n3: "get_time n2 = (Inr now, n3)"
    and cs': "add_block cr (mw_coinstate s) b now = Inr cs'"
    and n4: "save_block b n3 = (Inr (), n4)" and n5: "flush_blocks cr n4 = (Inr (), n5)"
    and key: "take_public_key (s\<lparr>mw_coinstate := cs', mw_node := n5\<rparr>) = (Inr (), s1)"
    and s': "mw_coinstate s' = mw_coinstate s1" "mw_node s' = mw_node s1"
    using assms by (auto simp: handle_found_block_def abind_eq_Inr on_node_eq action_apply)
  have "cm_coinstate (nd_chain n1) = mw_coinstate s"
    using n1 by (auto simp: on_chain_def dest!: set_coinstate_coinstate split: prod.splits)
  then have "cm_coinstate (nd_chain n2) = mw_coinstate s"
    using neutral_broadcast(2) [of cr b, unfolded preserves_iff, rule_format, of n1] n2 by (simp add: inner_def)
  then have chain: "cm_coinstate (nd_chain n5) = mw_coinstate s"
    using n3 flushed_stored [OF n4 n5] by (auto simp: get_time_def)
  have kept: "mw_coinstate s1 = cs' \<and> nd_chain (mw_node s1) = nd_chain n5 \<and> nd_store (mw_node s1) = nd_store n5"
    by (rule keepsD [OF keeps_take_public_key _ key]) simp
  with cs' s' show "\<exists>now. add_block cr (mw_coinstate s) b now = Inr (mw_coinstate s')" by auto
  show "stored cr b (nd_store (mw_node s'))" "cm_coinstate (nd_chain (mw_node s')) = mw_coinstate s"
    using kept s' chain flushed_stored [OF n4 n5] by simp_all
qed

section \<open>What a miner sends\<close>

text \<open>A miner asks once more than it answers, and its nonces count up modulo \<open>2 ^ 32\<close>.\<close>

lemma run_miner_sends:
  assumes "run_miner cr k nonce messages = (sent, None)" and "0 \<le> nonce" and "nonce < 2 ^ 32"
  shows "length sent = 2 * length messages + 1"
    "i \<le> length messages \<Longrightarrow> sent ! (2 * i) = (k, RequestScryptInput ((nonce + int i) mod 2 ^ 32))"
    "i < length messages \<Longrightarrow> \<exists>summary height data. messages ! i = ScryptInput summary height \<and>
       construct_summary_hash cr summary height = Inr data \<and> sent ! (2 * i + 1) = (k, ScryptOutput data)"
  using assms
proof (induction messages arbitrary: nonce sent i)
  case Nil
  {
    case 1 then show ?case by auto
  next
    case 2 then show ?case by auto
  next
    case 3 then show ?case by auto
  }
next
  case (Cons message messages)
  have step: "\<exists>summary height data sent'. message = ScryptInput summary height \<and>
      construct_summary_hash cr summary height = Inr data \<and> run_miner cr k ((nonce + 1) mod 2 ^ 32) messages = (sent', None) \<and>
      sent = (k, RequestScryptInput nonce) # (k, ScryptOutput data) # sent'"
    if "run_miner cr k nonce (message # messages) = (sent, None)" for nonce sent
    using that by (auto simp: miner_round_def rbind_eq_Inr wait_for_message_def Let_def
        split: sum.splits prod.splits watcher_message.splits)
  have wrap: "0 \<le> (nonce + 1) mod 2 ^ 32 \<and> (nonce + 1) mod 2 ^ 32 < 2 ^ 32" for nonce :: int by simp
  {
    case 1
    with step Cons.IH(1) wrap show ?case by fastforce
  next
    case 2
    show ?case
    proof (cases i)
      case 0
      then show ?thesis using 2 step by fastforce
    next
      case (Suc j)
      have "(((nonce + 1) mod 2 ^ 32) + int j) mod 2 ^ 32 = (nonce + int i) mod 2 ^ 32"
        by (simp add: Suc mod_simps algebra_simps)
      then show ?thesis using step [OF 2(2)] Cons.IH(2) [of j "(nonce + 1) mod 2 ^ 32"] wrap [of nonce] 2(1) by (auto simp: Suc)
    qed
  next
    case 3
    show ?case
    proof (cases i)
      case 0
      then show ?thesis using 3 step by fastforce
    next
      case (Suc j)
      then show ?thesis using step [OF 3(2)] Cons.IH(3) [of j "(nonce + 1) mod 2 ^ 32"] wrap [of nonce] 3(1) by auto
    qed
  }
qed

section \<open>Work that was handed out\<close>

lemma handle_request_work:
  assumes "handle_request_scrypt_input_message cr m nonce s = (Inr (), s')" and "cs_head (mw_coinstate s') = Inr parent"
  obtains t pk summary current_height transactions where
    "mw_mining_args s' m = Some (summary, current_height, transactions)"
    "construct_block_pow_evidence_input cr (mw_coinstate s') (cm_transaction_pool (nd_chain (mw_node s))) pk
       (max t (block_timestamp parent + 1)) [] nonce = Inr (summary, current_height, transactions)"
    "last (mw_send_queues s' ! m) = (summary, current_height)"
  using assms
  by (auto simp: handle_request_scrypt_input_message_def abind_eq_Inr on_node_eq action_apply get_state_def
      get_time_def Let_def mw_send_message_def split: if_splits prod.splits)

text \<open>Counting a hash, and printing the counts of the seconds before, touches neither the state nor the work.\<close>

lemma preserves_increment_hash_counter:
  "preserves (\<lambda>s. (mw_coinstate s, mw_mining_args s)) (increment_hash_counter cr heads)"
proof -
  have node: "preserves (\<lambda>s. (mw_coinstate s, mw_mining_args s)) (on_node m)" for m :: "(node, 'b) action"
    by (auto simp: preserves_iff on_node_def split: prod.split)
  show ?thesis
    unfolding increment_hash_counter_def print_old_stats_def print_stats_line_def Let_def
    by (intro preserves_intros node) simp_all
qed

lemma handle_scrypt_output_found:
  assumes "increment_hash_counter cr heads s = (Inr (), s1)" and "mw_mining_args s m = Some (summary, height, txs)"
    and "construct_pow_evidence_after_scrypt cr data (mw_coinstate s) summary height txs = Inr evidence"
    and "block_hash cr (mk_block summary evidence txs) = Inr h"
  shows "handle_scrypt_output_message cr heads m data s =
      (if block_target (mk_block summary evidence txs) \<le> h then (Inr (), s1)
       else handle_found_block cr (mk_block summary evidence txs) s1)" "mw_coinstate s1 = mw_coinstate s"
proof -
  have kept: "mw_coinstate s1 = mw_coinstate s" "mw_mining_args s1 = mw_mining_args s"
    using preserves_increment_hash_counter [of cr heads, unfolded preserves_iff, rule_format, of s] assms(1) by simp_all
  then show "mw_coinstate s1 = mw_coinstate s" by simp
  show "handle_scrypt_output_message cr heads m data s =
      (if block_target (mk_block summary evidence txs) \<le> h then (Inr (), s1)
       else handle_found_block cr (mk_block summary evidence txs) s1)"
    using assms by (simp add: handle_scrypt_output_message_def abind_def action_apply kept lookup_key_def Let_def)
qed

lemma assembled_block_valid:
  assumes "chain_manager_reachable cr cs0 t0 (nd_chain (mw_node s))"
    and "handle_request_scrypt_input_message cr m nonce s = (Inr (), s')"
    and "miner_round cr nonce (last (mw_send_queues s' ! m)) = Inr (data, next_nonce)"
    and "mw_mining_args s' m = Some (summary, height, txs)"
    and "construct_pow_evidence_after_scrypt cr data (mw_coinstate s') summary height txs = Inr evidence"
    and "b = mk_block summary evidence txs"
    and "cs_head (mw_coinstate s') = Inr parent" and "cs_current_chain_hash (mw_coinstate s') = Some cur" and "cur \<noteq> []"
    and "cs_unspent_transaction_outs_by_hash (mw_coinstate s') cur = Some u"
    and "MAX_KNOWN_HASH_HEIGHT \<le> block_height parent"
    and "block_timestamp b \<le> now + MAX_FUTURE_BLOCK_TIME"
    and "stream_serialize_block b = Inr bs" and "int (length bs) \<le> MAX_BLOCK_SIZE"
    and "block_header_hash cr (blk_header b) = Inr h" and "h < block_target b"
  shows "validate_block_by_itself cr b now = Inr () \<and> validate_block_in_coinstate cr b (mw_coinstate s') = Inr ()"
proof -
  let ?cs = "mw_coinstate s'" and ?pool = "cm_transaction_pool (nd_chain (mw_node s))"
  obtain t pk summary' height' txs' where args: "mw_mining_args s' m = Some (summary', height', txs')"
    and work: "construct_block_pow_evidence_input cr ?cs ?pool pk (max t (block_timestamp parent + 1)) [] nonce =
      Inr (summary', height', txs')" and sent: "last (mw_send_queues s' ! m) = (summary', height')"
    by (rule handle_request_work [OF assms(2,7)])
  from args assms(4) have same: "summary' = summary" "height' = height" "txs' = txs" by simp_all
  have data: "construct_summary_hash cr summary height = Inr data"
    using assms(3) by (auto simp: miner_round_def sent same rbind_eq_Inr)
  have mine: "construct_block_for_mining cr ?cs ?pool pk (max t (block_timestamp parent + 1)) [] nonce = Inr b"
    using work data assms(5,6) by (simp add: construct_block_for_mining_def construct_pow_evidence_def same)
  have cs: "?cs = cm_coinstate (nd_chain (mw_node s))" using assms(2) by (rule handle_request_coinstate)
  have pool: "pool_ok cr u ?pool"
    using chain_machine.reachable_inv [OF assms(1)] assms(8,10)
    by (auto simp: pool_valid_def pool_ok_def validate_at_head_iff cs)
  obtain c where time: "block_timestamp b = max t (block_timestamp parent + 1)"
    by (rule mined_block_parts [OF mine assms(7-10)])
  then have "block_timestamp parent < block_timestamp b" by simp
  from mined_block_valid [OF mine [folded time] assms(7-11) pool _ this assms(12-16)] obtain c
    where c: "block_ok cr b now c ?pool" "block_in_coinstate_ok cr b ?cs parent u c ?pool" by auto
  then have "MAX_KNOWN_HASH_HEIGHT < block_height b" using assms(11) by (simp add: block_in_coinstate_ok_def)
  with c show ?thesis unfolding validate_block_by_itself_iff by (auto simp: validate_block_in_coinstate_iff)
qed

section \<open>An example\<close>

text \<open>The rows of the parent and of the transaction whose output is spent.\<close>

definition top_tables :: tables where
  "top_tables = \<lparr>tb_chain = [block_param (sample_hash 1) top_parent],
     tb_transaction_locator = [\<lparr>lw_transaction_hash = sample_hash 8, lw_block_hash = sample_hash 1\<rparr>],
     tb_transaction_inputs = [], tb_transaction_outputs = [output_row_of (sample_hash 8) (0, sample_output 10 3)]\<rparr>"

definition top_store :: block_store where
  "top_store = \<lparr>st_tables = top_tables, st_committed = top_tables, st_in_transaction = False, st_write_buffer = []\<rparr>"

lemma top_block_wf: "block_wf top_block" "blk_cached_hash top_block = None"
proof -
  obtain merkle e where len: "length merkle = 32"
    and e: "construct_pow_evidence toy_crypto top_state (block_summary_of top_block) 163001
        [top_coinbase, top_transaction] = Inr e"
    and b: "top_block = mk_block \<lparr>bs_height = 163001, bs_previous_block_hash = sample_hash 1,
        bs_merkle_root_hash = merkle, bs_timestamp = 200, bs_target = top_target, bs_nonce = 0\<rparr> e
        [top_coinbase, top_transaction]"
    using top_block_parts by blast
  have "transaction_wf top_coinbase" "transaction_wf top_transaction"
    by (simp_all add: top_coinbase_def top_transaction_def transaction_wf_def input_wf_def output_wf_def
        sample_output_def sample_input_def output_reference_wf_def)
  then show "block_wf top_block"
    using len construct_pow_evidence_shape(1) [OF e toy_digests_ok]
    by (simp add: b mk_block_def block_wf_def block_header_wf_def block_summary_wf_def top_target_def)
  show "blk_cached_hash top_block = None" by (simp add: b mk_block_def)
qed

lemma top_block_insertable: "insertable toy_crypto top_tables [top_block]"
proof -
  have "block_hash toy_crypto top_block = block_header_hash toy_crypto (blk_header top_block)"
    by (simp add: block_hash_def cached_or_def top_block_wf(2))
  moreover have "stored_output_keys top_tables = {(sample_hash 8, 0)}"
    by (simp add: stored_output_keys_def top_tables_def output_row_of_def)
  moreover have "cw_block_hash ` set (tb_chain top_tables) = {sample_hash 1}"
    by (simp add: top_tables_def block_param_def Let_def)
  ultimately show ?thesis
    by (simp add: insertable_def top_block_facts top_block_wf(1))
      (simp add: top_coinbase_def top_transaction_def sample_output_def sample_input_def)
qed

lemma top_store_flushed:
  "\<exists>tb. flush_blocks_to_disk toy_crypto (top_store\<lparr>st_write_buffer := [top_block]\<rparr>) =
     (Inr (), top_store\<lparr>st_tables := tb, st_committed := tb\<rparr>)"
proof -
  let ?st = "top_store\<lparr>st_write_buffer := [top_block]\<rparr>"
  obtain tb where "flush_blocks_to_disk toy_crypto ?st = (Inr (), ?st\<lparr>st_tables := tb, st_committed := tb, st_write_buffer := []\<rparr>)"
    by (rule flush_insertable [of toy_crypto ?st]) (use top_block_insertable in \<open>simp_all add: top_store_def\<close>)
  then show ?thesis by (auto simp: top_store_def)
qed

text \<open>A miner above the checkpoints, at time 200, without peers, whose wallet has one key that was used.\<close>

definition top_watcher :: miner_watcher where
  "top_watcher = \<lparr>mw_quiet = False, mw_coinstate = top_state,
     mw_wallet = mk_wallet [(replicate 64 4, replicate 64 4)] [] [],
     mw_public_key = replicate 64 4, mw_mining_args = (\<lambda>_. None), mw_hash_stats = [], mw_balance = 0,
     mw_start_balance = 0, mw_start_time = 0, mw_log_silencer = None, mw_printed = [],
     mw_send_queues = [[]], mw_saved_wallet = None,
     mw_node = new_node 7 [] 64 top_manager top_store None [] (\<lambda>_. mk_connected_peer [] 0 INCOMING None 0) (\<lambda>_. 200) (\<lambda>_. 0)\<rparr>"

lemma top_block_work_parts:
  obtains summary height txs evidence data where
    "construct_block_pow_evidence_input toy_crypto top_state [top_transaction] (SECP256k1PublicKey (replicate 64 4))
       200 [] 0 = Inr (summary, height, txs)"
    "construct_summary_hash toy_crypto summary height = Inr data"
    "construct_pow_evidence_after_scrypt toy_crypto data top_state summary height txs = Inr evidence"
    "top_block = mk_block summary evidence txs"
  using top_block_constructed
  by (auto simp: construct_block_for_mining_def construct_pow_evidence_def rbind_eq_Inr)

lemma top_watcher_request:
  assumes "construct_block_pow_evidence_input toy_crypto top_state [top_transaction] (SECP256k1PublicKey (replicate 64 4))
       200 [] 0 = Inr (summary, height, txs)"
  shows "handle_request_scrypt_input_message toy_crypto 0 0 top_watcher = (Inr (), top_watcher
    \<lparr>mw_mining_args := (\<lambda>_. None)(0 \<mapsto> (summary, height, txs)), mw_send_queues := [[(summary, height)]],
     mw_node := (mw_node top_watcher)\<lparr>nd_ticks := 1\<rparr>\<rparr>)"
  using assms
  by (simp add: handle_request_scrypt_input_message_def abind_def on_node_def get_time_def action_apply top_watcher_def
      top_manager_simps new_node_def top_state_simps Let_def mk_public_key_def raise_if_def mw_send_message_def
      top_parent_def block_timestamp_def)

lemma top_block_added: "\<exists>cs'. add_block toy_crypto top_state top_block 200 = Inr cs'"
proof -
  obtain c where c: "block_ok toy_crypto top_block 200 c [top_transaction]"
    "block_in_coinstate_ok toy_crypto top_block top_state top_parent sample_unspent c [top_transaction]"
    using top_block_valid by blast
  obtain h where h: "block_hash toy_crypto top_block = Inr h" using top_block_hashes(2) by blast
  have "maps_agree top_state" by (simp add: top_state_simps)
  from validated_block_applies(3) [OF this c top_block_hashes(1) h] obtain cs'
    where "add_block_no_validation toy_crypto top_state top_block = Inr cs'" by blast
  then show ?thesis using top_block_accepted by (simp add: add_block_def)
qed

lemma top_watcher_found:
  "\<exists>s'. handle_found_block toy_crypto top_block top_watcher = (Inr (), s') \<and>
     get_state (nd_chain (mw_node s')) = (top_state, [top_transaction]) \<and> nd_time (mw_node s') = (\<lambda>_. 200) \<and>
     mw_public_key s' = replicate 64 4 \<and> mw_send_queues s' = [[]]"
proof -
  obtain cs' where cs': "add_block toy_crypto top_state top_block 200 = Inr cs'" using top_block_added by blast
  obtain h where h: "block_hash toy_crypto top_block = Inr h" using top_block_hashes(2) by blast
  obtain tb where tb: "flush_blocks_to_disk toy_crypto (top_store\<lparr>st_write_buffer := [top_block]\<rparr>) =
      (Inr (), top_store\<lparr>st_tables := tb, st_committed := tb\<rparr>)" using top_store_flushed by blast
  have "st_write_buffer top_store = []" by (simp add: top_store_def)
  note buffer = this
  have "pool_transaction_is_valid toy_crypto top_state top_transaction = Inr True"
    using top_pool_ok by (auto simp: pool_transaction_is_valid_True validate_at_head_iff top_state_simps pool_ok_def)
  then have set: "set_coinstate toy_crypto top_state True top_manager =
      (Inr (), top_manager\<lparr>cm_coinstate := top_state, cm_transaction_pool := [top_transaction],
        cm_last_known_valid_coinstate := Some top_state\<rparr>)"
    by (simp add: set_coinstate_eq top_manager_simps)
  show ?thesis
    by (simp add: handle_found_block_def abind_def on_node_def on_wallet_def on_chain_def set broadcast_block_def h
        broadcast_message_def get_active_peers_def get_time_def action_apply top_watcher_def new_node_def cs'
        save_block_def flush_blocks_def on_store_def add_block_to_buffer_def tb buffer take_public_key_def save_wallet_def randrange_def
        get_annotated_public_key_def mk_wallet_def get_balance_def get_state_def)
qed

lemma top_request_returns:
  assumes "get_state (nd_chain (mw_node s)) = (top_state, [top_transaction])" and "nd_time (mw_node s) = (\<lambda>_. 200)"
    and "mw_public_key s = replicate 64 4" and "mw_send_queues s = [[]]"
  shows "\<exists>s'. handle_request_scrypt_input_message toy_crypto 0 0 s = (Inr (), s')"
proof -
  obtain summary height txs where "construct_block_pow_evidence_input toy_crypto top_state [top_transaction]
      (SECP256k1PublicKey (replicate 64 4)) 200 [] 0 = Inr (summary, height, txs)"
    by (rule top_block_work_parts)
  then show ?thesis
    using assms
    by (simp add: handle_request_scrypt_input_message_def abind_def on_node_def get_time_def action_apply
        top_state_simps Let_def mk_public_key_def raise_if_def mw_send_message_def top_parent_def block_timestamp_def)
qed

section \<open>Properties\<close>

text \<open>
  C10: the work that is handed out leads to valid blocks. A miner asks, hashes the summary it was sent and
  answers; the state of the watcher and what it keeps for this miner have not changed in between, and counting
  the hash and sampling the chain do not raise. Then the handler of the answer makes the block of that summary, the transactions
  kept for this miner and the evidence; if the block's hash is not below its target the handler does no more
  than count, and otherwise it goes on with this block (\<open>handle_found_block\<close>: share it, add it, save
  it) on the state the work was made for, and the block passes all validation there. This is for a pool and a
  state as the chain manager keeps them, a parent no lower than the last checkpoint, a block whose time is
  not too far in the future and which fits in the size limit.
\<close>

theorem handed_out_work_makes_valid_blocks:
  assumes "chain_manager_reachable cr cs0 t0 (nd_chain (mw_node s))"
    and "handle_request_scrypt_input_message cr m nonce s = (Inr (), s')"
    and "miner_round cr nonce (last (mw_send_queues s' ! m)) = Inr (data, next_nonce)"
    and "mw_coinstate s2 = mw_coinstate s'" and "mw_mining_args s2 m = mw_mining_args s' m"
    and "increment_hash_counter cr heads s2 = (Inr (), s3)"
    and "mw_mining_args s' m = Some (summary, height, txs)"
    and "construct_pow_evidence_after_scrypt cr data (mw_coinstate s') summary height txs = Inr evidence"
    and "b = mk_block summary evidence txs" and "block_hash cr b = Inr h"
    and "cs_head (mw_coinstate s') = Inr parent" and "cs_current_chain_hash (mw_coinstate s') = Some cur" and "cur \<noteq> []"
    and "cs_unspent_transaction_outs_by_hash (mw_coinstate s') cur = Some u"
    and "MAX_KNOWN_HASH_HEIGHT \<le> block_height parent"
    and "block_timestamp b \<le> now + MAX_FUTURE_BLOCK_TIME"
    and "stream_serialize_block b = Inr bs" and "int (length bs) \<le> MAX_BLOCK_SIZE"
  shows "handle_scrypt_output_message cr heads m data s2 =
      (if block_target b \<le> h then (Inr (), s3) else handle_found_block cr b s3) \<and>
    mw_coinstate s3 = mw_coinstate s' \<and>
    (h < block_target b \<longrightarrow>
      validate_block_by_itself cr b now = Inr () \<and> validate_block_in_coinstate cr b (mw_coinstate s3) = Inr ())"
proof (intro conjI impI)
  have args: "mw_mining_args s2 m = Some (summary, height, txs)" using assms(5,7) by simp
  have evidence: "construct_pow_evidence_after_scrypt cr data (mw_coinstate s2) summary height txs = Inr evidence"
    using assms(4,8) by simp
  note handled = handle_scrypt_output_found [OF assms(6) args evidence assms(10) [unfolded assms(9)], folded assms(9)]
  then show "handle_scrypt_output_message cr heads m data s2 =
      (if block_target b \<le> h then (Inr (), s3) else handle_found_block cr b s3)" by simp
  show same: "mw_coinstate s3 = mw_coinstate s'" using handled(2) assms(4) by simp
  assume "h < block_target b"
  moreover have "block_header_hash cr (blk_header b) = Inr h"
    using assms(9,10) by (simp add: block_hash_def cached_or_def mk_block_def)
  ultimately have "validate_block_by_itself cr b now = Inr () \<and> validate_block_in_coinstate cr b (mw_coinstate s') = Inr ()"
    by (intro assembled_block_valid [OF assms(1-3,7-9,11-18)])
  then show "validate_block_by_itself cr b now = Inr ()" "validate_block_in_coinstate cr b (mw_coinstate s3) = Inr ()"
    by (simp_all add: same)
qed

theorem handed_out_work_makes_valid_blocks_witness:
  "\<exists>s' data s3. handle_request_scrypt_input_message toy_crypto 0 0 top_watcher = (Inr (), s') \<and>
     miner_round toy_crypto 0 (last (mw_send_queues s' ! 0)) = Inr (data, 1) \<and>
     handle_scrypt_output_message toy_crypto (\<lambda>_. []) 0 data s' = handle_found_block toy_crypto top_block s3 \<and>
     validate_block_by_itself toy_crypto top_block 200 = Inr () \<and>
     validate_block_in_coinstate toy_crypto top_block (mw_coinstate s3) = Inr ()"
proof -
  obtain summary height txs evidence data where
    work: "construct_block_pow_evidence_input toy_crypto top_state [top_transaction]
      (SECP256k1PublicKey (replicate 64 4)) 200 [] 0 = Inr (summary, height, txs)"
    and data: "construct_summary_hash toy_crypto summary height = Inr data"
    and evidence: "construct_pow_evidence_after_scrypt toy_crypto data top_state summary height txs = Inr evidence"
    and b: "top_block = mk_block summary evidence txs"
    by (rule top_block_work_parts)
  obtain h where h: "block_hash toy_crypto top_block = Inr h" "h < block_target top_block"
    using top_block_work(1) by (auto simp: top_block_facts block_hash_def cached_or_def top_block_wf(2))
  obtain bs where bs: "stream_serialize_block top_block = Inr bs" "int (length bs) \<le> MAX_BLOCK_SIZE"
    using top_block_work(2) by blast
  let ?s = "top_watcher\<lparr>mw_mining_args := (\<lambda>_. None)(0 \<mapsto> (summary, height, txs)), mw_send_queues := [[(summary, height)]],
     mw_node := (mw_node top_watcher)\<lparr>nd_ticks := 1\<rparr>\<rparr>"
  have manager: "chain_manager_reachable toy_crypto top_state 0 (nd_chain (mw_node top_watcher))"
    using top_manager_reachable by (simp add: top_watcher_def new_node_def)
  have round: "miner_round toy_crypto 0 (last (mw_send_queues ?s ! 0)) = Inr (data, 1)" using data by (simp add: miner_round_def)
  obtain s3 where count: "increment_hash_counter toy_crypto (\<lambda>_. []) ?s = (Inr (), s3)"
    by (simp add: increment_hash_counter_def print_old_stats_def abind_def on_node_def get_time_def action_apply
        top_watcher_def new_node_def lookup_key_def)
  have "cs_head top_state = Inr top_parent" "cs_current_chain_hash top_state = Some (sample_hash 1)" "sample_hash 1 \<noteq> []"
    "cs_unspent_transaction_outs_by_hash top_state (sample_hash 1) = Some sample_unspent"
    by (simp_all add: top_state_simps)
  moreover have "mw_coinstate ?s = top_state" by (simp add: top_watcher_def)
  ultimately have "handle_scrypt_output_message toy_crypto (\<lambda>_. []) 0 data ?s = handle_found_block toy_crypto top_block s3 \<and>
     validate_block_by_itself toy_crypto top_block 200 = Inr () \<and>
     validate_block_in_coinstate toy_crypto top_block (mw_coinstate s3) = Inr ()"
    using handed_out_work_makes_valid_blocks [where parent = top_parent and cur = "sample_hash 1" and u = sample_unspent and
      now = 200 and summary = summary and height = height and txs = txs and evidence = evidence,
      OF manager top_watcher_request [OF work] round refl refl count _ _ b h(1) _ _ _ _ _ _ bs] evidence h(2) h(2) [folded not_le]
    by (auto simp: top_block_facts top_state_simps)
  with top_watcher_request [OF work] round show ?thesis by blast
qed

text \<open>
  C20: a block that was mined is forgotten by its own node: when a found block has been validated, added
  to the miner's state, sent to the peers and saved, the chain manager still holds the state from before
  the block, and the next miner that asks for work makes the miner's state that one again.
\<close>

theorem mined_block_is_forgotten:
  assumes "handle_found_block cr b s = (Inr (), s1)"
    and "handle_request_scrypt_input_message cr m nonce s1 = (Inr (), s2)"
  shows "(\<exists>now. add_block cr (mw_coinstate s) b now = Inr (mw_coinstate s1)) \<and>
    stored cr b (nd_store (mw_node s1)) \<and>
    cm_coinstate (nd_chain (mw_node s1)) = mw_coinstate s \<and> mw_coinstate s2 = mw_coinstate s"
  using handle_found_block_Inr [OF assms(1)] handle_request_coinstate [OF assms(2)] by simp

theorem mined_block_is_forgotten_witness:
  "\<exists>s1 s2. handle_found_block toy_crypto top_block top_watcher = (Inr (), s1) \<and>
     stored toy_crypto top_block (nd_store (mw_node s1)) \<and>
     handle_request_scrypt_input_message toy_crypto 0 0 s1 = (Inr (), s2) \<and> mw_coinstate s2 = top_state"
proof -
  obtain s1 where s1: "handle_found_block toy_crypto top_block top_watcher = (Inr (), s1)"
    and "get_state (nd_chain (mw_node s1)) = (top_state, [top_transaction])" "nd_time (mw_node s1) = (\<lambda>_. 200)"
    "mw_public_key s1 = replicate 64 4" "mw_send_queues s1 = [[]]"
    using top_watcher_found by blast
  then obtain s2 where s2: "handle_request_scrypt_input_message toy_crypto 0 0 s1 = (Inr (), s2)"
    using top_request_returns by blast
  have "mw_coinstate top_watcher = top_state" by (simp add: top_watcher_def)
  with mined_block_is_forgotten [OF s1 s2] s1 s2 show ?thesis by auto
qed

end
