(* ===== verification/Scripts.thy ===== *)
theory Scripts
  imports Scripts_Utils
begin

text \<open>
  Model of the scripts \<open>receive.py\<close>, \<open>balance.py\<close> and \<open>send.py\<close> in \<open>skepticoin/scripts\<close>: what they make of
  the tables of the block store, the wallet file, the node that runs in the background and the clock.
  Parsing the command line, printing and \<open>KeyboardInterrupt\<close> are left out; stopping and joining the thread at
  the end is \<open>Threading\<close>. A script that does not return has the value \<open>None\<close>.

  Shown: an address that is given out belongs to a key that was saved; what is sent is valid on the state
  that was read from disk, but does not take into account what the node received while the script waited;
  and the script that sends ends only when a look finds the transaction exactly six blocks deep.
\<close>

section \<open>What surrounds a script\<close>

text \<open>
  The tables of the store with the order in which the database returns rows, the new local peer and the
  peers it loads, the arguments for the network, how the clock and the heads come out (see \<open>Scripts_Utils\<close>),
  the random numbers, and what the script sees of the node.
\<close>

record environment =
  env_tables :: tables
  env_order :: "chain_row list \<Rightarrow> chain_row list"
  env_dont_listen :: bool
  env_listening_port :: int
  env_local_peer :: node
  env_loaded :: "peer_key list result"
  env_isoformat :: "int \<Rightarrow> string"
  env_heads :: "coinstate \<Rightarrow> block list"
  env_randoms :: "nat \<Rightarrow> nat"
  env_nodes :: "nat \<Rightarrow> node"
  env_clock :: "nat \<Rightarrow> rat"

text \<open>The beginning that scripts share: the state from disk, the wallet, the thread.\<close>

definition script_start :: "crypto \<Rightarrow> key_tools \<Rightarrow> environment \<Rightarrow> (wallet_file, coinstate \<times> wallet) action" where
  "script_start cr kt env =
     abind (alift (read_chain_from_disk cr (env_order env) (env_tables env))) (\<lambda>coinstate.
     abind (open_or_init_wallet kt (env_randoms env)) (\<lambda>w.
     athen (alift (start_networking_peer_in_background cr (env_dont_listen env) (env_listening_port env) coinstate
              (env_local_peer env) (env_loaded env)))
     (aret (coinstate, w))))"

definition script_wait :: "crypto \<Rightarrow> environment \<Rightarrow> int \<Rightarrow> nat result option" where
  "script_wait cr env freshness =
     wait_for_fresh_chain cr (env_isoformat env) (env_heads env) (env_nodes env) (env_clock env) freshness 0"

text \<open>An action on the wallet object of the script; the wallet is lost when it raises.\<close>

definition with_wallet :: "(wallet, 'a) action \<Rightarrow> wallet \<Rightarrow> (wallet_file, 'a \<times> wallet) action" where
  "with_wallet m w = (case m w of (Inl e, _) \<Rightarrow> araise e | (Inr x, w') \<Rightarrow> aret (x, w'))"

section \<open>receive\<close>

definition receive_main :: "key_tools \<Rightarrow> (nat \<Rightarrow> nat) \<Rightarrow> nat \<Rightarrow> string \<Rightarrow> (wallet_file, string) action" where
  "receive_main kt randoms random annotation =
     abind (open_or_init_wallet kt randoms) (\<lambda>w.
     abind (with_wallet (get_annotated_public_key random annotation) w) (\<lambda>(public_key, w).
     athen (save_wallet_file w)
     (aret (''SKE'' @ human public_key @ ''PTI''))))"

section \<open>balance\<close>

text \<open>
  The balance in sashimi (the quotient that is printed is a float), with the height and the time of the
  head. The state is read once after waiting, and the store that is flushed is that of the node.
\<close>

definition balance_main ::
  "crypto \<Rightarrow> key_tools \<Rightarrow> environment \<Rightarrow> wallet_file \<Rightarrow> ((int \<times> int \<times> int \<times> block_store) result \<times> wallet_file) option" where
  "balance_main cr kt env file =
     (case script_start cr kt env file of
        (Inl e, file) \<Rightarrow> Some (Inl e, file)
      | (Inr (_, w), file) \<Rightarrow>
          map_option (\<lambda>waited. (rbind waited (\<lambda>i.
             let coinstate = coinstate_of (env_nodes env (i + 1)) in
             rbind (get_balance cr w coinstate) (\<lambda>balance.
             rbind (cs_head coinstate) (\<lambda>head.
             let (flushed, store) = flush_blocks_to_disk cr (nd_store (env_nodes env (i + 2))) in
             rbind flushed (\<lambda>_. Inr (balance, block_height head, block_timestamp head, store))))), file))
           (script_wait cr env 300))"

section \<open>send\<close>

definition send_value :: "int \<Rightarrow> bool \<Rightarrow> int" where
  "send_value amount in_skepticoin = amount * (if in_skepticoin then SASHIMI_PER_COIN else 1)"

text \<open>The transaction is made and validated on \<open>coinstate\<close>, the state that was read from disk.\<close>

definition prepare_transaction ::
  "crypto \<Rightarrow> key_tools \<Rightarrow> (nat \<Rightarrow> nat) \<Rightarrow> coinstate \<Rightarrow> wallet \<Rightarrow> string \<Rightarrow> int \<Rightarrow> (wallet_file, transaction) action" where
  "prepare_transaction cr kt randoms coinstate w address value =
     abind (alift (rbind (parse_address address) mk_public_key)) (\<lambda>target_address.
     abind (with_wallet (get_annotated_public_key (randoms 0) ''change'') w) (\<lambda>(change, w).
     abind (alift (mk_public_key change)) (\<lambda>change_address.
     athen (save_wallet_file w)
     (abind (with_wallet (create_spend_transaction cr kt randoms coinstate value 0 target_address change_address) w) (\<lambda>(t, w).
      athen (alift (validate_non_coinbase_transaction_by_itself t))
      (abind (alift (assert_current coinstate)) (\<lambda>current.
       athen (alift (validate_non_coinbase_transaction_in_coinstate cr t current coinstate))
       (aret t))))))))"

text \<open>
  Up to the broadcast: nothing for an invalid address, or the transaction, the look at which the chain was
  found fresh, and the node after the broadcast.
\<close>

definition send_broadcast ::
  "crypto \<Rightarrow> key_tools \<Rightarrow> environment \<Rightarrow> string \<Rightarrow> int \<Rightarrow> wallet_file \<Rightarrow>
   ((transaction \<times> nat \<times> node) option result \<times> wallet_file) option" where
  "send_broadcast cr kt env address value file =
     (case is_valid_address address of
        Inl e \<Rightarrow> Some (Inl e, file)
      | Inr False \<Rightarrow> Some (Inr None, file)
      | Inr True \<Rightarrow>
          (case script_start cr kt env file of
             (Inl e, file) \<Rightarrow> Some (Inl e, file)
           | (Inr (coinstate, w), file) \<Rightarrow>
               (case script_wait cr env 300 of
                  None \<Rightarrow> None
                | Some (Inl e) \<Rightarrow> Some (Inl e, file)
                | Some (Inr i) \<Rightarrow>
                    (case prepare_transaction cr kt (env_randoms env) coinstate w address value file of
                       (Inl e, file) \<Rightarrow> Some (Inl e, file)
                     | (Inr t, file) \<Rightarrow>
                         let (sent, n) = broadcast_transaction t (env_nodes env (i + 1)) in
                         Some (rbind sent (\<lambda>_. Inr (Some (t, i + 1, n))), file)))))"

text \<open>
  One round of the monitoring: whether the early return is reached, which is when the block that is six below
  the head has the transaction. A block above the others that has it is only printed.
\<close>

definition look_for_confirmation :: "transaction \<Rightarrow> coinstate \<Rightarrow> bool result" where
  "look_for_confirmation t coinstate =
     rbind (cs_head coinstate) (\<lambda>head.
     let max_height = block_height head in
     rfold (\<lambda>found i. if found then Inr True
        else rbind (by_height_at_head coinstate) (\<lambda>by_height.
             rbind (lookup_key by_height (max (max_height - i) 0)) (\<lambda>block.
             Inr (list_ex (transaction_eq t) (blk_transactions block) \<and> i = 6))))
       False [0..9])"

partial_function (option) monitor :: "transaction \<Rightarrow> (nat \<Rightarrow> node) \<Rightarrow> nat \<Rightarrow> nat result option" where
  "monitor t nodes i =
     (case look_for_confirmation t (coinstate_of (nodes i)) of
        Inl e \<Rightarrow> Some (Inl e)
      | Inr found \<Rightarrow> if found then Some (Inr i) else monitor t nodes (i + 1))"

definition send_main ::
  "crypto \<Rightarrow> key_tools \<Rightarrow> environment \<Rightarrow> int \<Rightarrow> bool \<Rightarrow> string \<Rightarrow> wallet_file \<Rightarrow> (nat option result \<times> wallet_file) option" where
  "send_main cr kt env amount in_skepticoin address file =
     (case send_broadcast cr kt env address (send_value amount in_skepticoin) file of
        None \<Rightarrow> None
      | Some (Inl e, file) \<Rightarrow> Some (Inl e, file)
      | Some (Inr None, file) \<Rightarrow> Some (Inr None, file)
      | Some (Inr (Some (t, i, n)), file) \<Rightarrow>
          map_option (\<lambda>r. (rbind r (\<lambda>j. Inr (Some j)), file)) (monitor t (env_nodes env) (i + 1)))"

section \<open>Monitoring\<close>

text \<open>
  The block that the early return depends on: the one six below the head, and on a chain of fewer than seven blocks
  the first one; and that the main chain has the transaction there.
\<close>

definition six_below :: "block list \<Rightarrow> block" where
  "six_below chain = (if length chain < 7 then hd chain else chain ! (length chain - 7))"

definition confirms :: "transaction \<Rightarrow> coinstate \<Rightarrow> bool" where
  "confirms t cs \<longleftrightarrow> (\<exists>chain. chain_at_hash (cs_block_by_hash cs) (the (cs_current_chain_hash cs)) = Inr chain \<and>
     (\<exists>u\<in>set (blk_transactions (six_below chain)). transaction_eq t u))"

lemma look_for_confirmation_eq:
  assumes "visible cr heads cs" and main: "chain_at_hash (cs_block_by_hash cs) (the (cs_current_chain_hash cs)) = Inr chain"
  shows "look_for_confirmation t cs = Inr (list_ex (transaction_eq t) (blk_transactions (six_below chain)))"
proof -
  obtain cur b c u where cur: "cs_current_chain_hash cs = Some cur" and head: "cs_head cs = Inr b"
    and e: "entry_ok cr cs cur b c u" and ok: "cs_ok cr cs" by (rule visible_head [OF assms(1)])
  have "c = chain" using e main cur chain_at_hash_chain_to by (fastforce simp: entry_ok_def)
  then have height: "block_height b = int (length chain) - 1" and by_height: "by_height_at_head cs = Inr (chain_map chain)"
    and "chain_to (cs_block_by_hash cs) cur chain"
    using e cs_ok_at_head(2) [OF ok cur e] by (auto simp: entry_ok_def)
  then have ne: "chain \<noteq> []" using chain_to_last by blast
  have look: "lookup_key (chain_map chain) (max (block_height b - i) 0) = Inr (chain ! nat (max (block_height b - i) 0))"
    if "0 \<le> i" for i
    using that ne by (simp add: lookup_key_def chain_map_def height nat_less_iff)
  have "rfold (\<lambda>found i. if found then Inr True
        else rbind (by_height_at_head cs) (\<lambda>by_height.
             rbind (lookup_key by_height (max (block_height b - i) 0)) (\<lambda>block.
             Inr (list_ex (transaction_eq t) (blk_transactions block) \<and> i = 6)))) found ds =
      Inr (found \<or> 6 \<in> set ds \<and> list_ex (transaction_eq t) (blk_transactions (chain ! nat (max (block_height b - 6) 0))))"
    if "\<forall>i\<in>set ds. 0 \<le> i" for found ds
    using that by (induction ds arbitrary: found) (auto simp: by_height look)
  moreover have "chain ! nat (max (block_height b - 6) 0) = six_below chain"
    using ne by (auto simp: six_below_def hd_conv_nth height max_def nat_diff_distrib' intro!: arg_cong [where f = "(!) chain"])
  ultimately show ?thesis by (simp add: look_for_confirmation_def head Let_def del: upto_rec_numeral)
qed

lemma look_confirms:
  assumes "visible cr heads cs"
  shows "look_for_confirmation t cs = Inr (confirms t cs)"
proof -
  obtain cur b c u where "cs_current_chain_hash cs = Some cur" "entry_ok cr cs cur b c u" by (rule visible_head [OF assms])
  then have main: "chain_at_hash (cs_block_by_hash cs) (the (cs_current_chain_hash cs)) = Inr c"
    using chain_at_hash_chain_to by (simp add: entry_ok_def)
  show ?thesis unfolding look_for_confirmation_eq [OF assms main] by (simp add: confirms_def main list_ex_iff)
qed

lemma monitor_ends:
  assumes "monitor t nodes i = Some r"
  shows "(\<forall>i. visible cr heads (coinstate_of (nodes i))) \<longrightarrow> (\<exists>j. confirms t (coinstate_of (nodes (i + 1 * j))))"
  using assms
proof (rule monitor.raw_induct [where P = "\<lambda>t nodes i r. (\<forall>i. visible cr heads (coinstate_of (nodes i))) \<longrightarrow>
    (\<exists>j. confirms t (coinstate_of (nodes (i + 1 * j))))", rotated], intro impI)
  fix loop t i r and nodes :: "nat \<Rightarrow> node"
  assume IH: "\<And>t nodes i r. loop t nodes i = Some r \<Longrightarrow> (\<forall>i. visible cr heads (coinstate_of (nodes i))) \<longrightarrow>
      (\<exists>j. confirms t (coinstate_of (nodes (i + 1 * j))))"
    and body: "(case look_for_confirmation t (coinstate_of (nodes i)) of Inl e \<Rightarrow> Some (Inl e)
      | Inr found \<Rightarrow> if found then Some (Inr i) else loop t nodes (i + 1)) = Some r"
    and seen: "\<forall>i. visible cr heads (coinstate_of (nodes i))"
  have look: "look_for_confirmation t (coinstate_of (nodes i)) = Inr (confirms t (coinstate_of (nodes i)))"
    using look_confirms seen by blast
  show "\<exists>j. confirms t (coinstate_of (nodes (i + 1 * j)))"
  proof (cases "confirms t (coinstate_of (nodes i))")
    case True
    then show ?thesis by (intro exI [of _ 0]) simp
  next
    case False
    with body look have "loop t nodes (i + 1) = Some r" by simp
    with IH seen obtain j where "confirms t (coinstate_of (nodes (i + 1 + 1 * j)))" by blast
    then show ?thesis by (intro exI [of _ "Suc j"]) simp
  qed
qed

section \<open>Sending\<close>

lemma send_broadcastE:
  assumes "send_broadcast cr kt env address value file = Some (Inr (Some (t, i, n)), file')"
  obtains coinstate w file1 where "is_valid_address address = Inr True" "script_start cr kt env file = (Inr (coinstate, w), file1)"
    "script_wait cr env 300 = Some (Inr (i - 1))" "0 < i"
    "prepare_transaction cr kt (env_randoms env) coinstate w address value file1 = (Inr t, file')"
    "broadcast_transaction t (env_nodes env i) = (Inr (), n)"
  using assms
  by (auto simp: send_broadcast_def rbind_eq_Inr split: sum.splits bool.splits prod.splits option.splits if_splits)

lemma script_start_state:
  "script_start cr kt env file = (Inr (coinstate, w), file1) \<Longrightarrow>
     read_chain_from_disk cr (env_order env) (env_tables env) = Inr coinstate \<and>
     open_or_init_wallet kt (env_randoms env) file = (Inr w, file1)"
  by (auto simp: script_start_def abind_def action_apply split: prod.splits sum.splits)

lemma with_wallet_Inr: "with_wallet m w file = (Inr (x, w'), file') \<longleftrightarrow> m w = (Inr x, w') \<and> file' = file"
  by (auto simp: with_wallet_def action_apply split: prod.split sum.split)

lemma prepare_transactionE:
  assumes "prepare_transaction cr kt randoms cs w address value file = (Inr t, file')"
  obtains key k w1 w2 cur where "parse_address address = Inr key" "length key = 64"
    "get_annotated_public_key (randoms 0) ''change'' w = (Inr k, w1)" "length k = 64"
    "create_spend_transaction cr kt randoms cs value 0 (SECP256k1PublicKey key) (SECP256k1PublicKey k) w1 = (Inr t, w2)"
    "validate_non_coinbase_transaction_by_itself t = Inr ()" "cs_current_chain_hash cs = Some cur"
    "validate_non_coinbase_transaction_in_coinstate cr t cur cs = Inr ()" "file' = Some (Inr (dump w1))"
proof -
  obtain target key where key: "parse_address address = Inr key" "mk_public_key key = Inr target"
    and rest: "prepare_transaction cr kt randoms cs w address value file = (Inr t, file')"
    using assms by (auto simp: prepare_transaction_def abind_eq_Inr action_apply rbind_eq_Inr)
  from rest obtain k w1 change w2 cur where
    "get_annotated_public_key (randoms 0) ''change'' w = (Inr k, w1)" "mk_public_key k = Inr change"
    "create_spend_transaction cr kt randoms cs value 0 target change w1 = (Inr t, w2)"
    "validate_non_coinbase_transaction_by_itself t = Inr ()" "assert_current cs = Inr cur"
    "validate_non_coinbase_transaction_in_coinstate cr t cur cs = Inr ()" "file' = Some (Inr (dump w1))"
    by (auto simp: prepare_transaction_def abind_eq_Inr action_apply key with_wallet_Inr save_wallet_file_def)
  moreover from this have "cs_current_chain_hash cs = Some cur" by (auto simp: assert_current_def split: option.splits if_splits)
  ultimately show thesis
    using key by (intro that [of key k w1 w2 cur]) (auto simp: mk_public_key_def result_simps)
qed

lemma annotated_key:
  assumes "get_annotated_public_key random annotation w = (Inr k, w')" and ok: "wallet_ok w"
  shows "wallet_ok w'" "wl_keypairs w' = wl_keypairs w" "k \<in> fst ` set (wl_keypairs w)"
    "wl_unused_public_keys w \<noteq> [] \<Longrightarrow> k \<in> set (wl_unused_public_keys w) \<and> k \<notin> set (wl_unused_public_keys w')"
proof -
  show "wallet_ok w'"
    using wallet_call_ok [OF ok, of _ "AnnotateKey random annotation" w'] assms(1) by simp
  show "wl_keypairs w' = wl_keypairs w"
    using assms(1) by (auto simp: get_annotated_public_key_def abind_apply action_apply Let_def abind_def split: if_splits)
  show "wl_unused_public_keys w \<noteq> [] \<Longrightarrow> k \<in> set (wl_unused_public_keys w) \<and> k \<notin> set (wl_unused_public_keys w')"
  proof -
    assume "wl_unused_public_keys w \<noteq> []"
    then obtain ks l where ks: "wl_unused_public_keys w = ks @ [l]" by (metis rev_exhaust)
    have "k = l" "wl_unused_public_keys w' = ks"
      using assms(1) by (auto simp: get_annotated_public_key_def abind_apply action_apply Let_def abind_def ks)
    then show ?thesis using ok by (simp add: wallet_ok_def ks)
  qed
  show "k \<in> fst ` set (wl_keypairs w)"
  proof (cases "wl_unused_public_keys w = []")
    case True
    then have "wl_keypairs w \<noteq> [] \<and> k = fst (wl_keypairs w ! (random mod length (wl_keypairs w)))"
      using assms(1) by (auto simp: get_annotated_public_key_def abind_apply action_apply split: if_splits)
    then show ?thesis by simp
  next
    case False
    then have "k \<in> set (wl_unused_public_keys w)"
      using assms(1) by (auto simp: get_annotated_public_key_def abind_apply action_apply Let_def abind_def)
    then show ?thesis using ok by (auto simp: wallet_ok_def)
  qed
qed

section \<open>An example\<close>

text \<open>A node that starts on the genesis block, with a wallet whose key owns its output, and no peers.\<close>

definition miner_wallet :: wallet where
  "miner_wallet = mk_wallet [(genesis_miner_key, genesis_miner_key)] [genesis_miner_key] []"

definition miner_file :: wallet_file where
  "miner_file = Some (Inr (dump miner_wallet))"

definition genesis_env :: environment where
  "genesis_env = \<lparr>env_tables = tables_of toy_crypto [genesis_block], env_order = sort_key cw_height, env_dont_listen = True,
     env_listening_port = 2412, env_local_peer = sample_node, env_loaded = Inr [], env_isoformat = (\<lambda>_. []),
     env_heads = (\<lambda>_. []), env_randoms = (\<lambda>_. 0), env_nodes = (\<lambda>_. waiting_node), env_clock = (\<lambda>_. 0)\<rparr>"

definition four_to :: string where
  "four_to = ''SKE'' @ human (replicate 64 9) @ ''PTI''"

lemma miner_key: "length genesis_miner_key = 64"
  by (simp add: genesis_miner_key_def)

lemma miner_wallet_facts:
  "wallet_ok miner_wallet" "open_or_init_wallet sample_tools randoms miner_file = (Inr miner_wallet, miner_file)"
  "\<exists>w. get_annotated_public_key random ''change'' miner_wallet = (Inr genesis_miner_key, w) \<and>
     wl_keypairs w = [(genesis_miner_key, genesis_miner_key)] \<and> wl_spent_transaction_outputs w = {}"
proof -
  show ok: "wallet_ok miner_wallet" by (simp add: miner_wallet_def mk_wallet_def wallet_ok_def)
  have "load (dump miner_wallet) = Inr miner_wallet"
    using load_dump [OF ok] by (simp add: miner_wallet_def mk_wallet_def)
  then show "open_or_init_wallet sample_tools randoms miner_file = (Inr miner_wallet, miner_file)"
    by (simp add: open_or_init_wallet_def miner_file_def abind_apply action_apply)
  show "\<exists>w. get_annotated_public_key random ''change'' miner_wallet = (Inr genesis_miner_key, w) \<and>
     wl_keypairs w = [(genesis_miner_key, genesis_miner_key)] \<and> wl_spent_transaction_outputs w = {}"
    by (simp add: get_annotated_public_key_def miner_wallet_def mk_wallet_def abind_apply action_apply Let_def)
qed

lemma genesis_read:
  obtains cs where "read_chain_from_disk toy_crypto (sort_key cw_height) (tables_of toy_crypto [genesis_block]) = Inr cs"
    "coinstate_reachable toy_crypto cs" "cs_block_by_hash cs = [genesis_key \<mapsto> block_canon toy_crypto genesis_block]"
proof -
  have hash: "block_hash toy_crypto genesis_block = Inr genesis_key"
    using header_hash_key [OF genesis_block_wf] by (simp add: example_blocks example_keys)
  have "attaches toy_crypto empty_coinstate genesis_block"
    using hash by (simp add: attaches_def example_blocks empty_coinstate_def) (simp add: genesis_key_def genesis_block_def)
  moreover have th: "transaction_hash toy_crypto genesis_coinbase = Inr (tx_key toy_crypto genesis_coinbase)"
    by (rule uncached_tx_key [OF genesis_coinbase_wf]) (simp add: genesis_coinbase_def)
  then have "tx_outputs_ok toy_crypto genesis_coinbase"
    using example_blocks(12) by (simp add: tx_outputs_ok_def example_keys) (simp add: genesis_coinbase_def)
  ultimately obtain cs0 h where "coinstate_reachable toy_crypto cs0" "block_hash toy_crypto genesis_block = Inr h"
    "cs_block_by_hash cs0 = (cs_block_by_hash empty_coinstate)(h \<mapsto> genesis_block)"
    by - (rule coinbase_block_added [OF reachable.init _ example_blocks(1)])
  then have cs0: "coinstate_reachable toy_crypto cs0" "cs_block_by_hash cs0 = [genesis_key \<mapsto> genesis_block]"
    using hash by (simp_all add: empty_coinstate_def)
  have "storable toy_crypto [genesis_block]"
    by (simp add: storable_def example_blocks genesis_block_wf)
  moreover have "set [genesis_block] = ran (cs_block_by_hash cs0)" by (simp add: cs0(2))
  ultimately obtain cs where "read_chain_from_disk toy_crypto (sort_key cw_height) (tables_of toy_crypto [genesis_block]) = Inr cs"
    "coinstate_reachable toy_crypto cs" "cs_block_by_hash cs = cs_block_by_hash (read_back toy_crypto cs0)"
    using read_chain_restores [OF coinstate_machine.reachable_inv [OF cs0(1)], of "[genesis_block]" "sort_key cw_height"] th
    by (auto simp: example_blocks)
  then show thesis by (intro that) (auto simp: read_back_def cs0(2) fun_eq_iff)
qed

definition genesis_unspent :: unspent where
  "genesis_unspent = [\<lparr>ref_hash = genesis_tx_key, ref_index = 0\<rparr> \<mapsto>
     \<lparr>out_value = 1000000000, out_public_key = SECP256k1PublicKey genesis_miner_key\<rparr>]"

lemma genesis_state:
  assumes reach: "coinstate_reachable toy_crypto cs"
    and blocks: "cs_block_by_hash cs = [genesis_key \<mapsto> block_canon toy_crypto genesis_block]"
  shows "cs_current_chain_hash cs = Some genesis_key" "unspent_at_head cs = Inr genesis_unspent"
    "\<exists>cs' m. balances_at_head toy_crypto cs = Inr (cs', m) \<and> describes genesis_unspent m"
proof -
  let ?g = "block_canon toy_crypto genesis_block" and ?t = "transaction_canon toy_crypto genesis_coinbase"
  have ok: "cs_ok toy_crypto cs" using reach by (rule coinstate_machine.reachable_inv)
  show cur: "cs_current_chain_hash cs = Some genesis_key"
    using ok by (auto simp: cs_ok_def blocks split: option.splits if_splits)
  obtain b c u where e: "entry_ok toy_crypto cs genesis_key b c u" using cs_ok_current [OF ok cur] by blast
  have "chain_to (cs_block_by_hash cs) genesis_key [?g]"
    by (rule chain_to.genesis) (simp_all add: blocks example_blocks)
  then have c: "c = [?g]" using e chain_to_unique by (auto simp: entry_ok_def)
  have "tx_cached_hash ?t = Some genesis_tx_key"
    by (simp add: transaction_canon_def example_keys(2) [symmetric] tx_key_def)
  moreover have "genesis_tx_key \<noteq> []" using example_blocks(12) by auto
  ultimately have th: "transaction_hash toy_crypto ?t = Inr genesis_tx_key"
    by (simp add: transaction_hash_def cached_or_def)
  have outs: "tx_outputs ?t = [\<lparr>out_value = 1000000000, out_public_key = SECP256k1PublicKey genesis_miner_key\<rparr>]"
    by (simp add: transaction_canon_def genesis_coinbase_def)
  have "tx_created toy_crypto ?t = genesis_unspent"
    using created_from_Cons [of Map.empty 0 genesis_tx_key _ "[]"]
    by (simp add: tx_created_def th outs genesis_unspent_def created_from_0)
  then have applied: "uto_apply_block toy_crypto Map.empty ?g = Inr genesis_unspent"
    using th outs example_blocks(12)
    by (simp add: uto_apply_block_def example_blocks first_elem_def rbind_eq_Inr uto_apply_transaction_eq_Inr tx_spent_def tx_outputs_ok_def)
  then have u: "u = genesis_unspent" using e by (auto simp: entry_ok_def c replay_def)
  show head: "unspent_at_head cs = Inr genesis_unspent" using cs_ok_at_head(1) [OF ok cur e] u by simp
  have "chain_fresh toy_crypto Map.empty [?g]" by (simp add: applied block_fresh_def example_blocks)
  from balances_at_head_describes [OF ok cur _ this] head
  show "\<exists>cs' m. balances_at_head toy_crypto cs = Inr (cs', m) \<and> describes genesis_unspent m"
    using e chain_at_hash_chain_to c by (auto simp: entry_ok_def)
qed

lemma genesis_unspent_ok: "unspent_ok genesis_unspent"
  using miner_key example_blocks(11,12)
  by (auto simp: unspent_ok_def genesis_unspent_def values_nonneg_def total_value_def value_at_def
      MAX_SASHIMI_def SASHIMI_PER_COIN_def output_reference_wf_def references_thin_air_def)

lemma genesis_spend:
  assumes reach: "coinstate_reachable toy_crypto cs"
    and blocks: "cs_block_by_hash cs = [genesis_key \<mapsto> block_canon toy_crypto genesis_block]"
    and w: "wl_keypairs w = [(genesis_miner_key, genesis_miner_key)]" "wl_spent_transaction_outputs w = {}"
  obtains t w' where "create_spend_transaction toy_crypto sample_tools randoms cs 4 0 (SECP256k1PublicKey (replicate 64 9))
      (SECP256k1PublicKey genesis_miner_key) w = (Inr t, w')"
    "validate_non_coinbase_transaction_by_itself t = Inr ()"
    "validate_non_coinbase_transaction_in_coinstate toy_crypto t genesis_key cs = Inr ()"
proof -
  let ?r = "\<lparr>ref_hash = genesis_tx_key, ref_index = 0\<rparr>" and ?u = genesis_unspent
  note st = genesis_state [OF reach blocks]
  obtain cs' m where m: "balances_at_head toy_crypto cs = Inr (cs', m)" "describes ?u m" using st(3) by blast
  have "spendable w ?u = {?r}" by (auto simp: spendable_def genesis_unspent_def w split: if_splits)
  then have enough: "4 + 0 \<le> (\<Sum>r\<in>spendable w ?u. value_at ?u r)" by (simp add: value_at_def genesis_unspent_def)
  have sign: "keypairs_sign sample_tools w" and work: "keypairs_work toy_crypto sample_tools w"
    using miner_key by (auto simp: keypairs_sign_def keypairs_work_def sample_tools_def w)
  obtain t w' where run: "create_spend_transaction toy_crypto sample_tools randoms cs 4 0 (SECP256k1PublicKey (replicate 64 9))
      (SECP256k1PublicKey genesis_miner_key) w = (Inr t, w')"
    using create_spend_returns [OF m st(2) genesis_unspent_ok sign _ _ _ _ enough] miner_key by fastforce
  obtain taken where taken: "taken \<noteq> []" "distinct taken" "set taken \<subseteq> dom ?u" "input_refs t = taken"
    and outs: "tx_outputs t = spend_outputs (sum_list (map (value_at ?u) taken)) 4 0
      (SECP256k1PublicKey (replicate 64 9)) (SECP256k1PublicKey genesis_miner_key)"
    and signed: "\<exists>m. stream_serialize_transaction (transaction_signable_equivalent t) = Inr m \<and>
      (\<forall>i\<in>set (tx_inputs t). signed_by sample_tools w ?u m i)"
    by (rule create_spend_transaction_Inr [OF run st(2)])
  have "set taken = {?r}" using taken(1,3) by (cases taken) (auto simp: genesis_unspent_def split: if_splits)
  then have refs: "taken = [?r]" using taken(1,2) by (cases taken) (auto simp: subset_singleton_iff, fastforce?)
  have outs: "tx_outputs t = [sample_output 4 9, \<lparr>out_value = 999999996, out_public_key = SECP256k1PublicKey genesis_miner_key\<rparr>]"
    by (simp add: outs refs spend_outputs_def value_at_def genesis_unspent_def sample_output_def)
  obtain i where i: "tx_inputs t = [i]" "inp_output_reference i = ?r" using taken(4) by (auto simp: refs input_refs_def)
  then obtain s where s: "inp_signature i = Some (SECP256k1Signature s)" "length s = 64"
    using signed by (auto simp: signed_by_def)
  have "\<exists>bs. stream_serialize_transaction t = Inr bs \<and> int (length bs) \<le> MAX_BLOCK_SIZE"
    using miner_key example_blocks(12)
    by (simp add: i s outs sample_output_def stream_serialize_transaction_def
      stream_serialize_list_def stream_serialize_input_def stream_serialize_output_def small_vlq
      stream_serialize_output_reference_def pack_uint_def type_bytes Let_def MAX_BLOCK_SIZE_def)
  then obtain bs where bs: "stream_serialize_transaction t = Inr bs" "int (length bs) \<le> MAX_BLOCK_SIZE" by blast
  note accepted = spend_accepted [OF run st(2) genesis_unspent_ok work _ _ bs]
  have "cs_unspent_transaction_outs_by_hash cs genesis_key = Some ?u"
    using st(1,2) by (auto simp: unspent_at_head_def assert_current_def rbind_eq_Inr lookup_key_eq_Inr split: if_splits)
  then have "validate_non_coinbase_transaction_in_coinstate toy_crypto t genesis_key cs = Inr ()"
    using accepted(2) by (simp add: validate_non_coinbase_transaction_in_coinstate_iff)
  with run accepted(1) show thesis
    by (intro that [OF run]) (simp_all add: validate_non_coinbase_transaction_by_itself_iff)
qed

lemma waiting_coinstate: "coinstate_of waiting_node = sample_coinstate" "get_active_peers waiting_node = []"
  by (simp_all add: waiting_node_def initial_node_def new_node_def new_chain_manager_def get_active_peers_def)

lemma genesis_wait:
  "c \<le> 300 \<Longrightarrow> script_wait cr (genesis_env\<lparr>env_nodes := \<lambda>_. waiting_node, env_clock := \<lambda>_. c\<rparr>) 300 = Some (Inr 0)"
  unfolding script_wait_def
  by (subst wait_for_fresh_chain.simps)
    (simp add: waiting_coinstate cs_head_def sample_coinstate_def lookup_key_def sample_genesis_def sample_block_def block_timestamp_def)

lemma genesis_sends:
  assumes "c \<le> 300"
  shows "\<exists>t file. send_broadcast toy_crypto sample_tools (genesis_env\<lparr>env_nodes := \<lambda>_. waiting_node, env_clock := \<lambda>_. c\<rparr>)
     four_to 4 miner_file = Some (Inr (Some (t, 1, waiting_node)), file)"
proof -
  let ?env = "genesis_env\<lparr>env_nodes := \<lambda>_. waiting_node, env_clock := \<lambda>_. c\<rparr>"
  obtain cs where read: "read_chain_from_disk toy_crypto (sort_key cw_height) (tables_of toy_crypto [genesis_block]) = Inr cs"
    and cs: "coinstate_reachable toy_crypto cs" "cs_block_by_hash cs = [genesis_key \<mapsto> block_canon toy_crypto genesis_block]"
    by (rule genesis_read)
  have addr: "parse_address four_to = Inr (replicate 64 9)" by (simp add: parse_address_iff four_to_def)
  have "\<exists>thread. new_networking_thread toy_crypto cs None sample_node (Inr []) = Inr thread"
    by (simp add: new_networking_thread_def on_chain_def set_coinstate_def cleanup_transaction_pool_for_coinstate_def sample_node_def
        initial_node_def new_node_def new_chain_manager_def valid_transactions.simps abind_apply abind_def action_apply Let_def)
  then have start: "script_start toy_crypto sample_tools ?env miner_file = (Inr (cs, miner_wallet), miner_file)"
    using miner_wallet_facts(2) [of "env_randoms ?env"] read
    by (auto simp: script_start_def genesis_env_def start_networking_peer_in_background_def abind_def action_apply)
  obtain w where w: "get_annotated_public_key 0 ''change'' miner_wallet = (Inr genesis_miner_key, w)"
    "wl_keypairs w = [(genesis_miner_key, genesis_miner_key)]" "wl_spent_transaction_outputs w = {}"
    using miner_wallet_facts(3) by blast
  obtain t w' where t: "create_spend_transaction toy_crypto sample_tools (\<lambda>_. 0) cs 4 0 (SECP256k1PublicKey (replicate 64 9))
      (SECP256k1PublicKey genesis_miner_key) w = (Inr t, w')"
    "validate_non_coinbase_transaction_by_itself t = Inr ()"
    "validate_non_coinbase_transaction_in_coinstate toy_crypto t genesis_key cs = Inr ()"
    by (rule genesis_spend [OF cs w(2,3)])
  have "assert_current cs = Inr genesis_key"
    using genesis_state(1) [OF cs] by (simp add: assert_current_def) (simp add: genesis_key_def genesis_block_def)
  then have "prepare_transaction toy_crypto sample_tools (\<lambda>_. 0) cs miner_wallet four_to 4 miner_file = (Inr t, Some (Inr (dump w)))"
    using w t miner_key by (simp add: prepare_transaction_def addr abind_def action_apply mk_public_key_def with_wallet_def save_wallet_file_def)
  moreover have "broadcast_transaction t waiting_node = (Inr (), waiting_node)"
    by (simp add: broadcast_transaction_def broadcast_message_def abind_apply waiting_coinstate action_apply)
  moreover have "script_wait toy_crypto ?env 300 = Some (Inr 0)" by (rule genesis_wait [OF assms])
  ultimately show ?thesis using start
    by (simp add: send_broadcast_def is_valid_address_def addr Let_def) (simp add: genesis_env_def)
qed

section \<open>Monitoring a chain that grows\<close>

definition tower_node :: "nat \<Rightarrow> node" where
  "tower_node k = waiting_node\<lparr>nd_chain := (nd_chain waiting_node)\<lparr>cm_coinstate := tower_state k\<rparr>\<rparr>"

lemma tower_visible: "k < 100 \<Longrightarrow> visible toy_crypto (\<lambda>_. []) (coinstate_of (tower_node k))"
  using tower_facts [of k] by (simp add: tower_node_def visible_def)

lemma tower_main:
  "k < 100 \<Longrightarrow> chain_at_hash (cs_block_by_hash (coinstate_of (tower_node k)))
     (the (cs_current_chain_hash (coinstate_of (tower_node k)))) = Inr (map tower_block [0..<Suc k])"
  using tower_facts [of k] chain_at_hash_chain_to by (simp add: tower_node_def del: upt_Suc)

lemma six_below_tower: "six_below (map tower_block [0..<Suc k]) = tower_block (k - 6)"
  by (simp add: six_below_def hd_map del: upt_Suc)

lemma tower_confirms: "k < 100 \<Longrightarrow> confirms (tower_coinbase n) (coinstate_of (tower_node k)) \<longleftrightarrow> n = k - 6"
  by (simp add: confirms_def tower_main six_below_tower del: upt_Suc)
    (auto simp: transaction_eq_def tower_coinbase_def sample_transaction_def sample_output_def)

section \<open>Properties\<close>

text \<open>
  The address that \<open>receive\<close> prints can be parsed again, to a key of the wallet; when it is printed, the
  wallet file holds all keys the wallet had, with that key no longer among the unused ones, so that what is
  sent there can be spent after a restart and the address is not given out again.
\<close>

theorem received_address_is_saved:
  assumes "receive_main kt randoms random annotation file = (Inr address, file')"
    and "open_or_init_wallet kt randoms file = (Inr w, file1)" and "wallet_ok w"
    and "\<forall>k\<in>fst ` set (wl_keypairs w). length k = 64"
  shows "\<exists>k w'. parse_address address = Inr k \<and> wallet_contains w' k \<and> file' = Some (Inr (dump w')) \<and>
    load (dump w') = Inr (w'\<lparr>wl_spent_transaction_outputs := {}\<rparr>) \<and> wl_keypairs w' = wl_keypairs w \<and>
    (wl_unused_public_keys w \<noteq> [] \<longrightarrow> k \<in> set (wl_unused_public_keys w) \<and> k \<notin> set (wl_unused_public_keys w'))"
proof -
  obtain k w' where k: "get_annotated_public_key random annotation w = (Inr k, w')"
    and out: "address = ''SKE'' @ human k @ ''PTI''" "file' = Some (Inr (dump w'))"
    using assms(1,2) by (auto simp: receive_main_def abind_eq_Inr with_wallet_Inr save_wallet_file_def action_apply)
  note key = annotated_key [OF k assms(3)]
  have "parse_address address = Inr k" using bspec [OF assms(4) key(3)] by (simp add: parse_address_iff out)
  moreover have "wallet_contains w' k" using key(2,3) by (simp add: wallet_contains_def map_of_eq_None_iff)
  ultimately show ?thesis using load_dump [OF key(1)] key(2,4) out(2) by blast
qed

theorem received_address_is_saved_witness:
  "\<exists>address file'. receive_main sample_tools (\<lambda>_. 0) 0 ''rent'' miner_file = (Inr address, file') \<and>
     parse_address address = Inr genesis_miner_key"
proof -
  obtain address file' where run: "receive_main sample_tools (\<lambda>_. 0) 0 ''rent'' miner_file = (Inr address, file')"
    by (simp add: receive_main_def abind_def miner_wallet_facts(2) with_wallet_def get_annotated_public_key_def miner_wallet_def
        mk_wallet_def action_apply save_wallet_file_def Let_def)
  have "\<forall>k\<in>fst ` set (wl_keypairs miner_wallet). length k = 64" by (simp add: miner_wallet_def mk_wallet_def miner_key)
  from received_address_is_saved [OF run miner_wallet_facts(2,1) this] run show ?thesis
    by (auto simp: miner_wallet_def mk_wallet_def)
qed

text \<open>
  C16: what \<open>send\<close> broadcasts, with a wallet whose keys are each either unused or annotated, once (\<open>wallet_ok\<close>, as
  all wallets are that the program made), is valid on the state that was read from disk: both validators accept it, its first
  output pays the value to the key of the address, and whatever else it pays goes to a key that is in the
  wallet file. It is sent only after a look found the chain fresh.
\<close>

theorem sent_transaction_is_valid:
  assumes "send_broadcast cr kt env address value file = Some (Inr (Some (t, i, n)), file')"
    and "open_or_init_wallet kt (env_randoms env) file = (Inr w, file1)" and "wallet_ok w"
  shows "\<exists>cs cur key k w'. read_chain_from_disk cr (env_order env) (env_tables env) = Inr cs \<and>
    cs_current_chain_hash cs = Some cur \<and> parse_address address = Inr key \<and>
    validate_non_coinbase_transaction_by_itself t = Inr () \<and>
    validate_non_coinbase_transaction_in_coinstate cr t cur cs = Inr () \<and>
    hd (tx_outputs t) = \<lparr>out_value = value, out_public_key = SECP256k1PublicKey key\<rparr> \<and>
    (\<forall>p\<in>set (tl (tx_outputs t)). out_public_key p = SECP256k1PublicKey k) \<and>
    file' = Some (Inr (dump w')) \<and> wallet_contains w' k \<and> script_wait cr env 300 = Some (Inr (i - 1))"
proof -
  obtain cs w0 file0 where start: "script_start cr kt env file = (Inr (cs, w0), file0)"
    and waited: "script_wait cr env 300 = Some (Inr (i - 1))"
    and prep: "prepare_transaction cr kt (env_randoms env) cs w0 address value file0 = (Inr t, file')"
    by (rule send_broadcastE [OF assms(1)])
  have read: "read_chain_from_disk cr (env_order env) (env_tables env) = Inr cs" and "w0 = w"
    using script_start_state [OF start] assms(2) by auto
  obtain key k w1 w2 cur where key: "parse_address address = Inr key" and
    k: "get_annotated_public_key (env_randoms env 0) ''change'' w0 = (Inr k, w1)" and
    spend: "create_spend_transaction cr kt (env_randoms env) cs value 0 (SECP256k1PublicKey key) (SECP256k1PublicKey k) w1 = (Inr t, w2)" and
    valid: "validate_non_coinbase_transaction_by_itself t = Inr ()" "cs_current_chain_hash cs = Some cur"
      "validate_non_coinbase_transaction_in_coinstate cr t cur cs = Inr ()" "file' = Some (Inr (dump w1))"
    by (rule prepare_transactionE [OF prep])
  obtain u where u: "unspent_at_head cs = Inr u"
    using spend by (cases "unspent_at_head cs") (auto simp: create_spend_transaction_def abind_def action_apply)
  obtain taken where "tx_outputs t = spend_outputs (sum_list (map (value_at u) taken)) value 0
      (SECP256k1PublicKey key) (SECP256k1PublicKey k)"
    by (rule create_spend_transaction_Inr [OF spend u])
  moreover have "wallet_contains w1 k"
    using annotated_key(2,3) [OF k] assms(3) \<open>w0 = w\<close> by (simp add: wallet_contains_def map_of_eq_None_iff)
  ultimately show ?thesis using read key valid waited by (auto simp: spend_outputs_def)
qed

theorem sent_transaction_is_valid_witness:
  "\<exists>t n file'. send_broadcast toy_crypto sample_tools (genesis_env\<lparr>env_nodes := \<lambda>_. waiting_node, env_clock := \<lambda>_. 100\<rparr>)
     four_to 4 miner_file = Some (Inr (Some (t, 1, n)), file') \<and> out_value (hd (tx_outputs t)) = 4"
proof -
  obtain t file' where run: "send_broadcast toy_crypto sample_tools (genesis_env\<lparr>env_nodes := \<lambda>_. waiting_node, env_clock := \<lambda>_. 100\<rparr>)
     four_to 4 miner_file = Some (Inr (Some (t, 1, waiting_node)), file')" using genesis_sends [of 100] by auto
  from sent_transaction_is_valid [OF run miner_wallet_facts(2,1)] run show ?thesis by auto
qed

text \<open>
  C21: although the script waits for a fresh chain first, what it sends does not depend on the chain it waited
  for: two runs that differ only in what the node did meanwhile and in the clock broadcast the same transaction.
  And when no peer has said hello by then, which may be when the chain on disk is fresh, nothing is sent.
\<close>

theorem sent_transaction_ignores_fresh_chain:
  assumes "send_broadcast cr kt env address value file = Some (Inr (Some (t, i, n)), file1)"
    and "send_broadcast cr kt (env\<lparr>env_nodes := nodes, env_clock := clock\<rparr>) address value file = Some (Inr (Some (t', i', n')), file2)"
  shows "t' = t \<and> file2 = file1 \<and> (get_active_peers (env_nodes env i) = [] \<longrightarrow> n = env_nodes env i)"
proof -
  let ?env = "env\<lparr>env_nodes := nodes, env_clock := clock\<rparr>"
  have same: "script_start cr kt ?env file = script_start cr kt env file" by (simp add: script_start_def)
  obtain cs w file0 where "script_start cr kt env file = (Inr (cs, w), file0)"
    and prep: "prepare_transaction cr kt (env_randoms env) cs w address value file0 = (Inr t, file1)"
    and sent: "broadcast_transaction t (env_nodes env i) = (Inr (), n)"
    by (rule send_broadcastE [OF assms(1)])
  moreover obtain cs' w' file0' where "script_start cr kt ?env file = (Inr (cs', w'), file0')"
    "prepare_transaction cr kt (env_randoms ?env) cs' w' address value file0' = (Inr t', file2)"
    by (rule send_broadcastE [OF assms(2)])
  ultimately have "t' = t \<and> file2 = file1" using same by simp
  moreover have "get_active_peers (env_nodes env i) = [] \<longrightarrow> n = env_nodes env i"
    using sent by (auto simp: broadcast_transaction_def broadcast_message_def abind_apply action_apply)
  ultimately show ?thesis by blast
qed

theorem sent_transaction_ignores_fresh_chain_witness:
  "\<exists>t file file'. send_broadcast toy_crypto sample_tools (genesis_env\<lparr>env_nodes := \<lambda>_. waiting_node, env_clock := \<lambda>_. 100\<rparr>)
     four_to 4 miner_file = Some (Inr (Some (t, 1, waiting_node)), file) \<and>
   send_broadcast toy_crypto sample_tools (genesis_env\<lparr>env_nodes := \<lambda>_. waiting_node, env_clock := \<lambda>_. 200\<rparr>)
     four_to 4 miner_file = Some (Inr (Some (t, 1, waiting_node)), file')"
proof -
  let ?env = "genesis_env\<lparr>env_nodes := \<lambda>_. waiting_node, env_clock := \<lambda>_. 100\<rparr>"
  obtain t saved where 1: "send_broadcast toy_crypto sample_tools ?env four_to 4 miner_file = Some (Inr (Some (t, 1, waiting_node)), saved)"
    using genesis_sends [of 100] by auto
  obtain t' file' where 2: "send_broadcast toy_crypto sample_tools (?env\<lparr>env_nodes := \<lambda>_. waiting_node, env_clock := \<lambda>_. 200\<rparr>)
      four_to 4 miner_file = Some (Inr (Some (t', 1, waiting_node)), file')"
    using genesis_sends [of 200] by auto
  from sent_transaction_ignores_fresh_chain [OF 1 2] 1 2 show ?thesis by auto
qed

text \<open>
  C23: monitoring, of states that are not empty and made of blocks that attach (each one higher than its
  stored parent), returns exactly at the first look at the node that finds the transaction in the block of the main
  chain six below the head of that moment, or in the first block when the chain has fewer than seven. If no look finds it
  there it never returns, and nothing in it raises. So when the chain grows by more than one block between two looks
  the script may wait for ever for a transaction that has long been confirmed: in the run of the witness the chain grows
  from seven blocks to nine, and the transaction in its second block is never found.
\<close>

theorem monitoring_ends_six_deep:
  assumes "\<And>i. visible cr heads (coinstate_of (nodes i))"
  shows "(monitor t nodes i = Some r \<longleftrightarrow> (\<exists>j. r = Inr (i + j) \<and> confirms t (coinstate_of (nodes (i + j))) \<and>
      (\<forall>k<j. \<not> confirms t (coinstate_of (nodes (i + k)))))) \<and>
    ((\<forall>j. \<not> confirms t (coinstate_of (nodes (i + j)))) \<longrightarrow> monitor t nodes i = None)"
proof -
  have round: "monitor t nodes i = (if confirms t (coinstate_of (nodes i)) then Some (Inr i) else monitor t nodes (i + 1))" for i
    by (subst monitor.simps) (simp add: look_confirms [OF assms])
  have ends: "\<exists>j. confirms t (coinstate_of (nodes (i + 1 * j)))" if "monitor t nodes i = Some r" for i r
    using monitor_ends that assms by blast
  have "monitor t nodes i = None" if "\<forall>j. \<not> confirms t (coinstate_of (nodes (i + j)))"
    using ends [of i] that by (cases "monitor t nodes i") auto
  with polling [where loop = "monitor t nodes" and P = "\<lambda>i. confirms t (coinstate_of (nodes i))" and f = Inr and d = 1, OF round ends]
  show ?thesis by simp
qed

theorem monitoring_ends_six_deep_witness:
  "monitor (tower_coinbase 1) (\<lambda>i. tower_node (if i = 0 then 6 else 7)) 0 = Some (Inr 1) \<and>
   monitor (tower_coinbase 1) (\<lambda>i. tower_node (if i = 0 then 6 else 8)) 0 = None \<and>
   monitor (tower_coinbase 0) (\<lambda>_. tower_node 2) 0 = Some (Inr 0) \<and>
   (\<forall>i::nat. \<exists>chain. chain_at_hash (cs_block_by_hash (coinstate_of (tower_node (if i = 0 then 6 else 8))))
       (the (cs_current_chain_hash (coinstate_of (tower_node (if i = 0 then 6 else 8))))) = Inr chain \<and>
     tower_coinbase 1 \<in> set (blk_transactions (chain ! 1)))"
proof -
  have seen: "visible toy_crypto (\<lambda>_. []) (coinstate_of (tower_node (if i = 0 then 6 else n)))" if "n < 100" for i n :: nat
    using tower_visible [of "if i = 0 then 6 else n"] that by simp
  have seen2: "visible toy_crypto (\<lambda>_. []) (coinstate_of (tower_node 2))" by (rule tower_visible) simp
  have "monitor (tower_coinbase 1) (\<lambda>i. tower_node (if i = 0 then 6 else 7)) 0 = Some (Inr 1)"
    using monitoring_ends_six_deep [of toy_crypto "\<lambda>_. []" "\<lambda>i. tower_node (if i = 0 then 6 else 7)" "tower_coinbase 1" 0 "Inr 1", OF seen]
    by (simp add: tower_confirms)
  moreover have "monitor (tower_coinbase 1) (\<lambda>i. tower_node (if i = 0 then 6 else 8)) 0 = None"
    using monitoring_ends_six_deep [of toy_crypto "\<lambda>_. []" "\<lambda>i. tower_node (if i = 0 then 6 else 8)" "tower_coinbase 1" 0, OF seen]
    by (simp add: tower_confirms)
  moreover have "monitor (tower_coinbase 0) (\<lambda>_. tower_node 2) 0 = Some (Inr 0)"
    using monitoring_ends_six_deep [of toy_crypto "\<lambda>_. []" "\<lambda>_. tower_node 2" "tower_coinbase 0" 0 "Inr 0", OF seen2]
    by (simp add: tower_confirms)
  moreover have "\<exists>chain. chain_at_hash (cs_block_by_hash (coinstate_of (tower_node (if i = 0 then 6 else 8))))
       (the (cs_current_chain_hash (coinstate_of (tower_node (if i = 0 then 6 else 8))))) = Inr chain \<and>
     tower_coinbase 1 \<in> set (blk_transactions (chain ! 1))" for i :: nat
    using tower_main [of 6] tower_main [of 8] by (simp del: upt_rec_numeral tower_state.simps)
  ultimately show ?thesis by blast
qed

end
