(* ===== verification/Mining_Session.thy ===== *)
theory Mining_Session
  imports Mining Scripts
begin

text \<open>
  Model of \<open>MinerWatcher.__call__\<close> in \<open>skepticoin/mining.py\<close>, which is what \<open>scripts/mine.py\<close> runs: the start from the
  files on the disk, the loop over the messages of the miners while the networking thread goes on, and the
  end, by an interrupt or an exception. A \<open>KeyboardInterrupt\<close> comes between two messages.

  Shown: at each moment the wallet file holds the key of every coinbase that was handed out, marked as used;
  a session always ends by stopping the node, and the key it restores then is not restored in the file.
\<close>

section \<open>The start\<close>

definition saved_json :: "wallet_file \<Rightarrow> wallet_json option" where
  "saved_json file = (case file of Some (Inr d) \<Rightarrow> Some d | _ \<Rightarrow> None)"

text \<open>From the disk to the start of the networking thread: the state, the wallet and its balance.\<close>

definition mine_open :: "crypto \<Rightarrow> key_tools \<Rightarrow> environment \<Rightarrow> (wallet_file, coinstate \<times> wallet \<times> int) action" where
  "mine_open cr kt env =
     abind (alift (read_chain_from_disk cr (env_order env) (env_tables env))) (\<lambda>coinstate.
     abind (open_or_init_wallet kt (env_randoms env)) (\<lambda>w.
     abind (alift (get_balance cr w coinstate)) (\<lambda>balance.
     athen (alift (start_networking_peer_in_background cr (env_dont_listen env) (env_listening_port env) coinstate
              (env_local_peer env) (env_loaded env)))
     (aret (coinstate, w, balance)))))"

text \<open>The watcher before \<open>start_mining\<close>; its public key is not set yet.\<close>

definition new_watcher :: "bool \<Rightarrow> coinstate \<Rightarrow> wallet \<Rightarrow> int \<Rightarrow> wallet_file \<Rightarrow> node \<Rightarrow> miner_watcher" where
  "new_watcher silent coinstate w balance file n =
     \<lparr>mw_quiet = silent, mw_coinstate = coinstate, mw_wallet = w, mw_public_key = [], mw_mining_args = (\<lambda>_. None),
      mw_hash_stats = [], mw_balance = balance, mw_start_balance = balance, mw_start_time = 0, mw_log_silencer = None,
      mw_printed = [], mw_send_queues = [], mw_saved_wallet = saved_json file, mw_node = n\<rparr>"

text \<open>
  \<open>n\<close> miners. The statistics are shown at look 0 at the node, waiting starts at look 1; after it the statistics
  are shown again and the head is looked at.
\<close>

definition mine_start ::
  "crypto \<Rightarrow> key_tools \<Rightarrow> environment \<Rightarrow> bool \<Rightarrow> int \<Rightarrow> nat \<Rightarrow> wallet_file \<Rightarrow> (miner_watcher result \<times> wallet_file) option" where
  "mine_start cr kt env silent freshness n file =
     (let stats = (\<lambda>i. show_stats cr (env_isoformat env) (env_heads env) (env_nodes env i)) in
      case mine_open cr kt env file of
        (Inl e, file) \<Rightarrow> Some (Inl e, file)
      | (Inr (coinstate, w, balance), file) \<Rightarrow>
          (case stats 0 of
             Inl e \<Rightarrow> Some (Inl e, file)
           | Inr _ \<Rightarrow>
               (case wait_for_fresh_chain cr (env_isoformat env) (env_heads env) (env_nodes env) (env_clock env) freshness 1 of
                  None \<Rightarrow> None
                | Some (Inl e) \<Rightarrow> Some (Inl e, file)
                | Some (Inr i) \<Rightarrow>
                    (case stats (i + 1) of
                       Inl e \<Rightarrow> Some (Inl e, file)
                     | Inr _ \<Rightarrow>
                         let s = new_watcher silent coinstate w balance file (env_nodes env (i + 2)) in
                         Some (case start_mining n (env_clock env (i + 3)) s of
                           (Inl e, s) \<Rightarrow> (Inl e, map_option Inr (mw_saved_wallet s))
                         | (Inr _, s) \<Rightarrow> (Inr s, map_option Inr (mw_saved_wallet s)))))))"

section \<open>The loop and the end\<close>

text \<open>The \<open>finally\<close> block: the key, then the networking thread. Joining the processes changes nothing here.\<close>

definition end_mining :: "(miner_watcher, unit) action" where
  "end_mining = athen stop_mining (on_node (amod local_peer_stop))"

datatype mining_session = InLoop miner_watcher | Ended miner_watcher

primrec watcher :: "mining_session \<Rightarrow> miner_watcher" where
  "watcher (InLoop s) = s"
| "watcher (Ended s) = s"

text \<open>
  One step: a message from a miner, whatever it holds, is handled, or its handler raises; an interrupt; or
  the networking thread does something.
\<close>

inductive mining_step :: "crypto \<Rightarrow> (coinstate \<Rightarrow> block list) \<Rightarrow> mining_session \<Rightarrow> mining_session \<Rightarrow> bool"
  for cr heads where
  handled: "mw_handle_received_message cr heads m s = (Inr (), s') \<Longrightarrow> mining_step cr heads (InLoop s) (InLoop s')"
| raised: "mw_handle_received_message cr heads m s = (Inl e, s') \<Longrightarrow>
    mining_step cr heads (InLoop s) (Ended (snd (end_mining s')))"
| interrupted: "mining_step cr heads (InLoop s) (Ended (snd (end_mining s)))"
| network: "mining_step cr heads (InLoop s) (InLoop (s\<lparr>mw_node := snd (handle_event cr ev (mw_node s))\<rparr>))"

inductive_cases ended_stepE: "mining_step cr heads (Ended s) session"

lemma ended_is_final: "\<not> mining_step cr heads (Ended s) session"
  by (blast elim: ended_stepE)

section \<open>Keys that were used\<close>

definition used_key :: "wallet \<Rightarrow> bytes \<Rightarrow> bool" where
  "used_key w k \<longleftrightarrow> k \<in> fst ` set (wl_public_key_annotations w)"

text \<open>The coinbase of some work that was handed out pays \<open>k\<close>.\<close>

definition work_pays :: "miner_watcher \<Rightarrow> bytes \<Rightarrow> bool" where
  "work_pays s k \<longleftrightarrow> (\<exists>m summary height coinbase txs p. mw_mining_args s m = Some (summary, height, coinbase # txs) \<and>
     p \<in> set (tx_outputs coinbase) \<and> out_public_key p = SECP256k1PublicKey k)"

definition keys_kept :: "(bytes \<times> bytes) list \<Rightarrow> miner_watcher \<Rightarrow> bool" where
  "keys_kept keypairs s \<longleftrightarrow> wallet_ok (mw_wallet s) \<and> wl_keypairs (mw_wallet s) = keypairs \<and>
     mw_saved_wallet s = Some (dump (mw_wallet s)) \<and> used_key (mw_wallet s) (mw_public_key s) \<and>
     (\<forall>k. work_pays s k \<longrightarrow> used_key (mw_wallet s) k)"

lemma used_key_unused: "wallet_ok w \<Longrightarrow> used_key w k \<Longrightarrow> wallet_contains w k \<and> k \<notin> set (wl_unused_public_keys w)"
  by (auto simp: wallet_ok_def used_key_def wallet_contains_def map_of_eq_None_iff)

lemma take_key:
  assumes k: "get_annotated_public_key random annotation w = (Inr k, w')" and ok: "wallet_ok w"
  shows "used_key w' k" "used_key w k' \<Longrightarrow> used_key w' k'"
proof -
  note key = annotated_key [OF k ok]
  have "fst ` set (wl_public_key_annotations w) \<subseteq> fst ` set (wl_public_key_annotations w')"
  proof (cases "wl_unused_public_keys w = []")
    case True
    then have "w' = w" using k by (auto simp: get_annotated_public_key_def abind_apply action_apply split: if_splits)
    then show ?thesis by simp
  next
    case False
    then have "wl_public_key_annotations w' =
        AList.update (last (wl_unused_public_keys w)) annotation (wl_public_key_annotations w)"
      using k by (auto simp: get_annotated_public_key_def abind_apply action_apply Let_def abind_def)
    then show ?thesis by (simp add: dom_update) blast
  qed
  then show "used_key w k' \<Longrightarrow> used_key w' k'" by (auto simp: used_key_def)
  have "k \<notin> set (wl_unused_public_keys w')"
  proof (cases "wl_unused_public_keys w = []")
    case True
    then have "w' = w" using k by (auto simp: get_annotated_public_key_def abind_apply action_apply split: if_splits)
    then show ?thesis using True by simp
  qed (use key(4) in blast)
  moreover have "k \<in> fst ` set (wl_keypairs w')" using key(2,3) by simp
  ultimately show "used_key w' k" using key(1) by (auto simp: wallet_ok_def used_key_def)
qed

lemma work_pays_cong: "mw_mining_args s = mw_mining_args s' \<Longrightarrow> work_pays s = work_pays s'"
  by (simp add: work_pays_def fun_eq_iff)

section \<open>What a session keeps\<close>

text \<open>All that \<open>keys_kept\<close> looks at.\<close>

definition key_part :: "miner_watcher \<Rightarrow> wallet \<times> wallet_json option \<times> bytes \<times> (nat \<Rightarrow> (block_summary \<times> int \<times> transaction list) option)" where
  "key_part s = (mw_wallet s, mw_saved_wallet s, mw_public_key s, mw_mining_args s)"

lemma keys_kept_cong: "key_part s' = key_part s \<Longrightarrow> keys_kept keypairs s' = keys_kept keypairs s"
  using work_pays_cong [of s' s] by (simp add: keys_kept_def key_part_def)

lemma keeps_keys: "(\<And>s. key_part (snd (m s)) = key_part s) \<Longrightarrow> keeps (keys_kept keypairs) m"
  unfolding keeps_iff using keys_kept_cong by metis

lemma keeps_on_node: "keeps (keys_kept keypairs) (on_node m)"
  by (rule keeps_keys) (simp add: on_node_def key_part_def split: prod.split)

text \<open>A key that was taken is used, in the wallet and in its file; so it is the first time, before anything was saved.\<close>

lemma take_public_key_saved:
  assumes "take_public_key s = (Inr (), s')" and ok: "wallet_ok (mw_wallet s)"
    and paid: "\<And>k. work_pays s k \<Longrightarrow> used_key (mw_wallet s) k"
  shows "keys_kept (wl_keypairs (mw_wallet s)) s'"
proof -
  obtain random n k w where k: "get_annotated_public_key random ''reserved for potentially mined block'' (mw_wallet s) = (Inr k, w)"
    and s': "s' = s\<lparr>mw_node := n, mw_wallet := w, mw_public_key := k, mw_saved_wallet := Some (dump w)\<rparr>"
    using assms(1) by (auto simp: take_public_key_def abind_eq_Inr on_node_eq on_wallet_eq save_wallet_def action_apply)
  show ?thesis
    using annotated_key(1,2) [OF k ok] take_key [OF k ok] paid by (auto simp: s' keys_kept_def work_pays_def)
qed

lemma take_public_key_raises:
  assumes "take_public_key s = (Inl e, s')"
  shows "key_part s' = key_part s"
proof -
  obtain random n where r: "randrange (2 ^ 64) (mw_node s) = (Inr random, n)" by (simp add: randrange_def)
  obtain result w where k: "get_annotated_public_key (nat random) ''reserved for potentially mined block'' (mw_wallet s) = (result, w)"
    by fastforce
  with assms r obtain e' where "result = Inl e'" "s' = s\<lparr>mw_node := n, mw_wallet := w\<rparr>"
    by (auto simp: take_public_key_def abind_def on_node_def on_wallet_def action_apply save_wallet_def split: sum.splits)
  moreover from this k have "w = mw_wallet s"
    by (auto simp: get_annotated_public_key_def abind_apply abind_def action_apply Let_def split: if_splits)
  ultimately show ?thesis by (simp add: key_part_def)
qed

lemma keeps_take_key: "keeps (keys_kept keypairs) take_public_key"
proof (rule ensuresI)
  fix s x s' assume kept: "keys_kept keypairs s" and "take_public_key s = (Inr x, s')"
  with take_public_key_saved [of s s'] show "keys_kept keypairs s'" by (simp add: keys_kept_def [of _ s])
next
  fix s e s' assume "keys_kept keypairs s" and "take_public_key s = (Inl e, s')"
  with keys_kept_cong [OF take_public_key_raises] show "keys_kept keypairs s'" by simp
qed

lemma keeps_other: "(\<And>s. key_part (f s) = key_part s) \<Longrightarrow> keeps (keys_kept keypairs) (amod f)"
  by (rule keeps_keys) (simp add: action_apply)

lemma keeps_send: "keeps (keys_kept keypairs) (mw_send_message m data)"
  unfolding mw_send_message_def by (intro keeps_intros keeps_other) (simp add: key_part_def)

lemma keeps_count: "keeps (keys_kept keypairs) (increment_hash_counter cr heads)"
  unfolding increment_hash_counter_def print_old_stats_def print_stats_line_def Let_def
  by (intro keeps_intros keeps_on_node keeps_other) (simp_all add: key_part_def)

lemma coinbase_pays_miner:
  assumes "construct_block_pow_evidence_input cr cs ts pk t data nonce = Inr (summary, height, coinbase # txs)"
    and "p \<in> set (tx_outputs coinbase)"
  shows "out_public_key p = pk"
  using assms by (auto simp: construct_block_pow_evidence_input_def construct_coinbase_transaction_def rbind_eq_Inr Let_def)

lemma keeps_request: "keeps (keys_kept keypairs) (handle_request_scrypt_input_message cr m nonce)"
proof -
  let ?P = "\<lambda>pk s. keys_kept keypairs s \<and> used_key (mw_wallet s) pk"
  have stored: "keys_kept keypairs (s\<lparr>mw_mining_args := (mw_mining_args s)(m \<mapsto> (summary, height, txs))\<rparr>)"
    if "?P pk s" "mk_public_key pk = Inr mpk"
      and work: "construct_block_pow_evidence_input cr cs ts mpk t [] nonce = Inr (summary, height, txs)"
    for pk s mpk cs ts t summary height txs
  proof -
    have "mpk = SECP256k1PublicKey pk" using that(2) by (simp add: mk_public_key_def rbind_eq_Inr)
    with coinbase_pays_miner [of cr cs ts mpk t "[]" nonce summary height] work that(1) show ?thesis
      by (fastforce simp: keys_kept_def work_pays_def)
  qed
  let ?work = "\<lambda>cs ts t pk. abind (alift (mk_public_key pk)) (\<lambda>mpk.
     abind (alift (construct_block_pow_evidence_input cr cs ts mpk t [] nonce)) (\<lambda>(summary, height, txs).
     athen (amod (\<lambda>s. s\<lparr>mw_mining_args := (mw_mining_args s)(m \<mapsto> (summary, height, txs))\<rparr>))
     (mw_send_message m (summary, height))))"
  have "ensures (?P pk) (?work cs ts t pk) (\<lambda>_. keys_kept keypairs) (\<lambda>_. keys_kept keypairs)" for pk cs ts t
    by (intro ensures_alift_abind) (auto split: prod.split intro!: ensures_abind [OF ensures_amod keeps_send] intro: stored)
  then have work: "keeps (keys_kept keypairs) (abind (aget mw_public_key) (?work cs ts t))" for cs ts t
    by (rule ensures_abind [where R = ?P, rotated]) (simp add: ensures_def action_apply keys_kept_def)
  show ?thesis
    unfolding handle_request_scrypt_input_message_def Let_def
    by (intro keeps_abind [OF keeps_on_node] keeps_cases(3) keeps_abind [OF keeps_other] keeps_abind [OF keeps_basic(4)] work)
      (simp_all add: key_part_def keys_kept_def)
qed

lemma keeps_found: "keeps (keys_kept keypairs) (handle_found_block cr b)"
  unfolding handle_found_block_def
  by (intro keeps_intros keeps_on_node keeps_other keeps_take_key) (simp_all add: key_part_def)

lemma keeps_output: "keeps (keys_kept keypairs) (handle_scrypt_output_message cr heads m data)"
  unfolding handle_scrypt_output_message_def Let_def
  by (intro keeps_intros keeps_count) (auto intro!: keeps_intros keeps_found split: prod.split)

lemma keeps_received: "keeps (keys_kept keypairs) (mw_handle_received_message cr heads m)"
  by (auto simp: mw_handle_received_message_def intro!: keeps_request keeps_output keeps_intros
      split: prod.split miner_message.split)

section \<open>Whole sessions\<close>

lemma mine_start_kept:
  assumes "mine_start cr kt env silent freshness n file = Some (Inr s, file')"
    and "open_or_init_wallet kt (env_randoms env) file = (Inr w, file1)" and "wallet_ok w"
  shows "keys_kept (wl_keypairs w) s" "file' = map_option Inr (mw_saved_wallet s)"
proof -
  obtain cs balance file0 i s0 where opened: "mine_open cr kt env file = (Inr (cs, w, balance), file0)"
    and s0: "s0 = new_watcher silent cs w balance file0 (env_nodes env (i + 2))"
    and start: "start_mining n (env_clock env (i + 3)) s0 = (Inr (), s)" and file': "file' = map_option Inr (mw_saved_wallet s)"
    using assms(1,2)
    by (auto simp: mine_start_def mine_open_def abind_eq_Inr action_apply Let_def split: prod.splits sum.splits option.splits)
  obtain s1 where "take_public_key s0 = (Inr (), s1)" "key_part s = key_part s1"
    using start by (auto simp: start_mining_def abind_eq_Inr action_apply key_part_def split: if_splits)
  then show "keys_kept (wl_keypairs w) s"
    using take_public_key_saved [of s0 s1] assms(3) keys_kept_cong [of s s1] by (simp add: s0 new_watcher_def work_pays_def)
  show "file' = map_option Inr (mw_saved_wallet s)" by (rule file')
qed

lemma end_mining_kept:
  assumes "keys_kept keypairs s"
  shows "fst (end_mining s) = Inr ()" "mw_mining_args (snd (end_mining s)) = mw_mining_args s"
    "mw_saved_wallet (snd (end_mining s)) = mw_saved_wallet s" "mw_public_key (snd (end_mining s)) = mw_public_key s"
    "\<not> nd_running (mw_node (snd (end_mining s)))"
    "mw_public_key s \<in> set (wl_unused_public_keys (mw_wallet (snd (end_mining s))))"
proof -
  have "map_of (wl_public_key_annotations (mw_wallet s)) (mw_public_key s) \<noteq> None"
    using assms by (simp add: keys_kept_def used_key_def map_of_eq_None_iff)
  then have "\<exists>w. end_mining s = (Inr (), s\<lparr>mw_wallet := w, mw_node := local_peer_stop (mw_node s)\<rparr>) \<and>
      mw_public_key s \<in> set (wl_unused_public_keys w)"
    by (auto simp: end_mining_def stop_mining_def abind_def on_wallet_def on_node_def restore_annotated_public_key_def
        action_apply)
  then show "fst (end_mining s) = Inr ()" "mw_mining_args (snd (end_mining s)) = mw_mining_args s"
    "mw_saved_wallet (snd (end_mining s)) = mw_saved_wallet s" "mw_public_key (snd (end_mining s)) = mw_public_key s"
    "\<not> nd_running (mw_node (snd (end_mining s)))"
    "mw_public_key s \<in> set (wl_unused_public_keys (mw_wallet (snd (end_mining s))))"
    by (auto simp: local_peer_stop_def)
qed

primrec session_ok :: "(bytes \<times> bytes) list \<Rightarrow> mining_session \<Rightarrow> bool" where
  "session_ok keypairs (InLoop s) \<longleftrightarrow> keys_kept keypairs s"
| "session_ok keypairs (Ended s) \<longleftrightarrow> (\<exists>s0. keys_kept keypairs s0 \<and> s = snd (end_mining s0))"

lemma session_reachable_ok:
  assumes "(mining_step cr heads)\<^sup>*\<^sup>* (InLoop s0) session" and "keys_kept keypairs s0"
  shows "session_ok keypairs session"
  using assms(1)
proof induction
  case base
  show ?case using assms(2) by simp
next
  case (step session session')
  from step.hyps(2) step.IH show ?case
  proof cases
    case (network s ev)
    with step.IH show ?thesis by (simp add: keys_kept_def work_pays_def)
  qed (auto dest: keepsD [OF keeps_received])
qed

text \<open>What a restart reads.\<close>

lemma session_saved:
  assumes "session_ok keypairs session"
  obtains w where "mw_saved_wallet (watcher session) = Some (dump w)" "load (dump w) = Inr (w\<lparr>wl_spent_transaction_outputs := {}\<rparr>)"
    "wallet_ok w" "wl_keypairs w = keypairs" "\<And>k. work_pays (watcher session) k \<Longrightarrow> used_key w k"
    "used_key w (mw_public_key (watcher session))"
proof -
  obtain s where s: "keys_kept keypairs s" "mw_saved_wallet (watcher session) = mw_saved_wallet s"
    "mw_mining_args (watcher session) = mw_mining_args s" "mw_public_key (watcher session) = mw_public_key s"
    using assms end_mining_kept by (cases session) auto
  show thesis
    by (rule that [of "mw_wallet s"]) (use s work_pays_cong [OF s(3)] in \<open>auto simp: keys_kept_def intro!: load_dump\<close>)
qed

section \<open>An example\<close>

text \<open>A state above the checkpoints, of which the node has only the last block.\<close>

definition deep_block :: block where
  "deep_block = top_parent\<lparr>blk_header := (blk_header top_parent)\<lparr>hd_summary := (hd_summary (blk_header top_parent))\<lparr>bs_height := 163001\<rparr>\<rparr>\<rparr>"

definition deep_state :: coinstate where
  "deep_state = mk_coinstate [sample_hash 1 \<mapsto> deep_block] [sample_hash 1 \<mapsto> Map.empty]
     [sample_hash 1 \<mapsto> (\<lambda>i. Some deep_block)] [sample_hash 1 \<mapsto> deep_block] (Some (sample_hash 1))"

definition deep_node :: node where
  "deep_node = initial_node 7 [] 64 (new_chain_manager deep_state 0) empty_store None []
     (\<lambda>_. mk_connected_peer [] 0 INCOMING None 0) (\<lambda>_. 0) (\<lambda>_. 0)"

definition mining_env :: environment where
  "mining_env = genesis_env\<lparr>env_nodes := \<lambda>_. deep_node\<rparr>"

lemma deep_facts:
  "coinstate_of deep_node = deep_state" "cs_head deep_state = Inr deep_block" "block_height deep_block = 163001"
  "block_timestamp deep_block = 100"
  by (simp_all add: deep_node_def initial_node_def new_node_def new_chain_manager_def cs_head_def deep_state_def deep_block_def
      top_parent_def lookup_key_def block_height_def block_timestamp_def)

lemma deep_current:
  "cs_current_chain_hash deep_state = Some (sample_hash 1)"
  "cs_unspent_transaction_outs_by_hash deep_state (sample_hash 1) = Some Map.empty"
  by (simp_all add: deep_state_def)

lemma deep_target: "calc_target toy_crypto deep_state 163002 t deep_block = Inr (block_target deep_block)"
  by (simp add: calc_target_def)

lemma mining_env_simps:
  "env_isoformat mining_env = (\<lambda>_. [])" "env_heads mining_env = (\<lambda>_. [])" "env_nodes mining_env = (\<lambda>_. deep_node)"
  "env_clock mining_env = (\<lambda>_. 0)"
  by (simp_all add: mining_env_def genesis_env_def)

lemma mining_env_starts:
  "\<exists>s. mine_start toy_crypto sample_tools mining_env False 300 1 miner_file = Some (Inr s, map_option Inr (mw_saved_wallet s)) \<and>
     mw_public_key s = genesis_miner_key \<and> mw_mining_args s = (\<lambda>_. None) \<and> mw_send_queues s = [[]] \<and>
     nd_chain (mw_node s) = nd_chain deep_node \<and> nd_time (mw_node s) = (\<lambda>_. 0)"
proof -
  obtain cs where read: "read_chain_from_disk toy_crypto (sort_key cw_height) (tables_of toy_crypto [genesis_block]) = Inr cs"
    and cs: "coinstate_reachable toy_crypto cs" "cs_block_by_hash cs = [genesis_key \<mapsto> block_canon toy_crypto genesis_block]"
    by (rule genesis_read)
  obtain m where "balances_of_current toy_crypto cs = Inr m"
    using genesis_state(3) [OF cs] balances_of_current_at_head by blast
  then obtain balance where balance: "get_balance toy_crypto miner_wallet cs = Inr balance"
    using miner_key by (simp add: get_balance_def miner_wallet_def mk_wallet_def mk_public_key_def raise_if_def)
  have "\<exists>thread. new_networking_thread toy_crypto cs None sample_node (Inr []) = Inr thread"
    by (simp add: new_networking_thread_def on_chain_def set_coinstate_def cleanup_transaction_pool_for_coinstate_def sample_node_def
        initial_node_def new_node_def new_chain_manager_def valid_transactions.simps abind_apply abind_def action_apply Let_def)
  then have opened: "mine_open toy_crypto sample_tools mining_env miner_file = (Inr (cs, miner_wallet, balance), miner_file)"
    using miner_wallet_facts(2) [of "env_randoms mining_env"] read balance
    by (auto simp: mine_open_def mining_env_def genesis_env_def start_networking_peer_in_background_def abind_def action_apply)
  have waited: "wait_for_fresh_chain toy_crypto isoformat heads (\<lambda>_. deep_node) (\<lambda>_. 0) 300 1 = Some (Inr 1)" for isoformat heads
    by (subst wait_for_fresh_chain.simps) (simp add: deep_facts)
  obtain out where shown: "show_stats toy_crypto (\<lambda>_. []) (\<lambda>_. []) deep_node = Inr out"
    by (simp add: show_stats_def Let_def forks_def)
  obtain w where w: "get_annotated_public_key 0 ''reserved for potentially mined block'' miner_wallet = (Inr genesis_miner_key, w)"
    by (simp add: get_annotated_public_key_def miner_wallet_def mk_wallet_def abind_def action_apply Let_def)
  let ?s = "new_watcher False cs miner_wallet balance miner_file deep_node"
  have rnd: "randrange (2 ^ 64) deep_node = (Inr 0, deep_node\<lparr>nd_ticks := 1\<rparr>)"
    by (simp add: randrange_def deep_node_def initial_node_def new_node_def)
  have "start_mining 1 0 ?s = (Inr (), ?s\<lparr>mw_node := deep_node\<lparr>nd_ticks := 1\<rparr>, mw_wallet := w, mw_public_key := genesis_miner_key,
      mw_saved_wallet := Some (dump w), mw_send_queues := [[]], mw_start_time := - 1\<rparr>)"
    unfolding start_mining_def take_public_key_def on_node_def
    by (simp add: abind_def action_apply new_watcher_def deep_facts) (simp add: rnd [simplified] abind_def on_wallet_def w action_apply save_wallet_def)
  with opened show ?thesis
    by (simp add: mine_start_def Let_def mining_env_simps waited shown del: One_nat_def) (simp add: new_watcher_def deep_node_def initial_node_def new_node_def)
qed

lemma deep_work:
  obtains summary coinbase where
    "construct_block_pow_evidence_input toy_crypto deep_state [] (SECP256k1PublicKey genesis_miner_key) 101 [] 0 = Inr (summary, 163002, [coinbase])"
    "map out_public_key (tx_outputs coinbase) = [SECP256k1PublicKey genesis_miner_key]"
proof -
  define coinbase where "coinbase = \<lparr>tx_inputs = [\<lparr>inp_output_reference = \<lparr>ref_hash = zero_hash, ref_index = 0\<rparr>,
        inp_signature = Some (CoinbaseData 163002 [])\<rparr>],
      tx_outputs = [\<lparr>out_value = get_block_subsidy 163002, out_public_key = SECP256k1PublicKey genesis_miner_key\<rparr>], tx_cached_hash = None\<rparr>"
  have made: "construct_coinbase_transaction 163002 [] Map.empty [] (SECP256k1PublicKey genesis_miner_key) = Inr coinbase"
    by (simp add: construct_coinbase_transaction_def get_block_fees_def Let_def mk_coinbase_data_def
        construct_reference_to_thin_air_def mk_output_reference_def coinbase_def)
  have "transaction_wf coinbase"
    using miner_key by (simp add: coinbase_def transaction_wf_def input_wf_def output_wf_def output_reference_wf_def get_block_subsidy_def Let_def)
  then obtain bs where "stream_serialize_transaction coinbase = Inr bs" using tx_wire.ser_returns by blast
  then have "calc_merkle_root_hash toy_crypto [coinbase] = Inr (toy_digest bs)"
    by (simp add: calc_merkle_root_hash_def get_merkle_root.simps transaction_hash_def cached_or_def coinbase_def)
  then have "\<exists>summary. construct_block_pow_evidence_input toy_crypto deep_state [] (SECP256k1PublicKey genesis_miner_key) 101 [] 0 =
      Inr (summary, 163002, [coinbase])"
    using made deep_facts by (simp add: construct_block_pow_evidence_input_def assert_current_def lookup_key_def
        construct_minable_summary_def Let_def deep_current deep_target)
  then show thesis using that by (auto simp: coinbase_def)
qed

lemma mining_env_works:
  obtains s0 s1 where
    "mine_start toy_crypto sample_tools mining_env False 300 1 miner_file = Some (Inr s0, map_option Inr (mw_saved_wallet s0))"
    "mining_step toy_crypto (\<lambda>_. []) (InLoop s0) (InLoop s1)" "work_pays s1 genesis_miner_key" "mw_public_key s1 = genesis_miner_key"
proof -
  obtain s0 where start: "mine_start toy_crypto sample_tools mining_env False 300 1 miner_file =
      Some (Inr s0, map_option Inr (mw_saved_wallet s0))"
    and s0: "mw_public_key s0 = genesis_miner_key" "mw_mining_args s0 = (\<lambda>_. None)" "mw_send_queues s0 = [[]]"
      "nd_chain (mw_node s0) = nd_chain deep_node" "nd_time (mw_node s0) = (\<lambda>_. 0)"
    using mining_env_starts by blast
  obtain summary coinbase where work: "construct_block_pow_evidence_input toy_crypto deep_state []
      (SECP256k1PublicKey genesis_miner_key) 101 [] 0 = Inr (summary, 163002, [coinbase])"
    and paid: "map out_public_key (tx_outputs coinbase) = [SECP256k1PublicKey genesis_miner_key]"
    by (rule deep_work)
  have state: "get_state (nd_chain deep_node) = (deep_state, [])"
    by (simp add: get_state_def deep_node_def initial_node_def new_node_def new_chain_manager_def)
  have "\<exists>s1. mw_handle_received_message toy_crypto (\<lambda>_. []) (0, RequestScryptInput 0) s0 = (Inr (), s1) \<and>
      mw_mining_args s1 0 = Some (summary, 163002, [coinbase]) \<and> mw_public_key s1 = genesis_miner_key"
    using miner_key
    by (simp add: mw_handle_received_message_def handle_request_scrypt_input_message_def abind_def on_node_def get_time_def
        action_apply s0 state deep_facts mk_public_key_def raise_if_def Let_def work mw_send_message_def)
  then obtain s1 where s1: "mw_handle_received_message toy_crypto (\<lambda>_. []) (0, RequestScryptInput 0) s0 = (Inr (), s1)"
    "mw_mining_args s1 0 = Some (summary, 163002, [coinbase])" "mw_public_key s1 = genesis_miner_key" by blast
  show thesis
  proof (rule that [OF start handled [OF s1(1)] _ s1(3)])
    show "work_pays s1 genesis_miner_key" using s1(2) paid unfolding work_pays_def by (fastforce simp: map_eq_Cons_conv)
  qed
qed

section \<open>Properties\<close>

text \<open>
  C15: a reward is never mined to a key that can be lost: at each moment of a session, whatever the miners send,
  whatever the network does and however it ends, the wallet file holds all keys the wallet had, and the
  key that the coinbase of any work handed out pays is one of them and is no longer among the unused ones.
\<close>

theorem mining_keys_are_saved:
  assumes "mine_start cr kt env silent freshness n file = Some (Inr s0, file')"
    and "open_or_init_wallet kt (env_randoms env) file = (Inr w, file1)" and "wallet_ok w"
    and "(mining_step cr heads)\<^sup>*\<^sup>* (InLoop s0) session"
  shows "\<exists>d saved. mw_saved_wallet (watcher session) = Some d \<and> load d = Inr saved \<and> wl_keypairs saved = wl_keypairs w \<and>
    (\<forall>k. work_pays (watcher session) k \<longrightarrow> wallet_contains saved k \<and> k \<notin> set (wl_unused_public_keys saved))"
proof -
  obtain v where "mw_saved_wallet (watcher session) = Some (dump v)" "load (dump v) = Inr (v\<lparr>wl_spent_transaction_outputs := {}\<rparr>)"
    and "wallet_ok v" "wl_keypairs v = wl_keypairs w" "\<And>k. work_pays (watcher session) k \<Longrightarrow> used_key v k"
    using session_saved [OF session_reachable_ok [OF assms(4) mine_start_kept(1) [OF assms(1-3)]]] by metis
  then show ?thesis using used_key_unused [of v] by (auto simp: wallet_contains_def)
qed

theorem mining_keys_are_saved_witness:
  "\<exists>s0 file' s1 s2 d saved. mine_start toy_crypto sample_tools mining_env False 300 1 miner_file = Some (Inr s0, file') \<and>
     mining_step toy_crypto (\<lambda>_. []) (InLoop s0) (InLoop s1) \<and> work_pays s1 genesis_miner_key \<and>
     mw_saved_wallet s1 = Some d \<and> load d = Inr saved \<and> wallet_contains saved genesis_miner_key \<and>
     genesis_miner_key \<notin> set (wl_unused_public_keys saved)"
proof -
  obtain s0 s1 where start: "mine_start toy_crypto sample_tools mining_env False 300 1 miner_file =
      Some (Inr s0, map_option Inr (mw_saved_wallet s0))"
    and step: "mining_step toy_crypto (\<lambda>_. []) (InLoop s0) (InLoop s1)" and paid: "work_pays s1 genesis_miner_key"
    by (rule mining_env_works)
  from mining_keys_are_saved [OF start miner_wallet_facts(2,1) r_into_rtranclp [of "mining_step toy_crypto (\<lambda>_. [])", OF step]] start step paid
  show ?thesis by auto
qed

text \<open>
  C28: a session always ends properly, and always at the cost of one key: however the loop ends, the node is told
  to stop and the key that was reserved is unused again in the wallet of the session; but the file was not
  written again, so there the key stays among the used ones.
\<close>

theorem ended_session_wastes_key:
  assumes "mine_start cr kt env silent freshness n file = Some (Inr s0, file')"
    and "open_or_init_wallet kt (env_randoms env) file = (Inr w, file1)" and "wallet_ok w"
    and "(mining_step cr heads)\<^sup>*\<^sup>* (InLoop s0) (Ended s)"
  shows "\<not> nd_running (mw_node s) \<and> mw_public_key s \<in> set (wl_unused_public_keys (mw_wallet s)) \<and>
    (\<exists>d saved. mw_saved_wallet s = Some d \<and> load d = Inr saved \<and> mw_public_key s \<notin> set (wl_unused_public_keys saved))"
proof -
  have ok: "session_ok (wl_keypairs w) (Ended s)"
    by (rule session_reachable_ok [OF assms(4) mine_start_kept(1) [OF assms(1-3)]])
  obtain v where "mw_saved_wallet s = Some (dump v)" "load (dump v) = Inr (v\<lparr>wl_spent_transaction_outputs := {}\<rparr>)"
    "wallet_ok v" "used_key v (mw_public_key s)"
    using session_saved [OF ok] by (metis watcher.simps(2))
  then have "\<exists>d saved. mw_saved_wallet s = Some d \<and> load d = Inr saved \<and> mw_public_key s \<notin> set (wl_unused_public_keys saved)"
    using used_key_unused [of v] by auto
  moreover have "\<not> nd_running (mw_node s)" "mw_public_key s \<in> set (wl_unused_public_keys (mw_wallet s))"
    using ok end_mining_kept by auto
  ultimately show ?thesis by blast
qed

theorem ended_session_wastes_key_witness:
  "\<exists>s0 file' s. mine_start toy_crypto sample_tools mining_env False 300 1 miner_file = Some (Inr s0, file') \<and>
     (mining_step toy_crypto (\<lambda>_. []))\<^sup>*\<^sup>* (InLoop s0) (Ended s) \<and> \<not> nd_running (mw_node s) \<and>
     mw_public_key s \<in> set (wl_unused_public_keys (mw_wallet s))"
proof -
  obtain s0 s1 where start: "mine_start toy_crypto sample_tools mining_env False 300 1 miner_file =
      Some (Inr s0, map_option Inr (mw_saved_wallet s0))"
    and step: "mining_step toy_crypto (\<lambda>_. []) (InLoop s0) (InLoop s1)"
    by (rule mining_env_works)
  from step interrupted have "(mining_step toy_crypto (\<lambda>_. []))\<^sup>*\<^sup>* (InLoop s0) (Ended (snd (end_mining s1)))"
    by (blast intro: rtranclp.intros)
  from ended_session_wastes_key [OF start miner_wallet_facts(2,1) this] start this show ?thesis by blast
qed

end
